(* ===== verification/Narc_Prelude.thy ===== *)
theory Narc_Prelude
  imports "HOL-Library.Word"
begin

text \<open>
  What the components of the model share: the machine integer types, kernel memory as a
  byte map with 64-bit little-endian access, the page geometry of
  \<open>kernel/include/kernel/mm.h\<close>, the byte loops of \<open>kernel/lib/string.c\<close>, and the named
  collections the component theories extend.
\<close>

unbundle bit_operations_syntax

type_synonym u8 = "8 word"
type_synonym u16 = "16 word"
type_synonym u32 = "32 word"
type_synonym u64 = "64 word"

named_theorems narc_frame \<open>fields an operation leaves unchanged\<close>
named_theorems narc_mem \<open>reads after writes\<close>

section \<open>Byte memory\<close>

type_synonym memory = "u64 \<Rightarrow> u8"

text \<open>
  A 64-bit store at \<open>a\<close> writes the eight bytes \<open>a .. a + 7\<close>, least significant first;
  addresses wrap at \<open>2\<^sup>6\<^sup>4\<close> as pointers do.
\<close>

definition write64 :: "memory \<Rightarrow> u64 \<Rightarrow> u64 \<Rightarrow> memory" where
  "write64 m a v = (\<lambda>b. if b - a < 8 then ucast (drop_bit (8 * unat (b - a)) v) else m b)"

definition read64 :: "memory \<Rightarrow> u64 \<Rightarrow> u64" where
  "read64 m a = horner_sum ucast 256 (map (\<lambda>i. m (a + word_of_nat i)) [0..<8])"

lemma unat_u64_less: "unat (v :: u64) < 18446744073709551616"
  using unsigned_less [of v, where 'a = nat] by simp

lemma unat_word_of_nat_u64 [simp]:
  "n < 18446744073709551616 \<Longrightarrow> unat (word_of_nat n :: u64) = n"
  by (simp add: unat_of_nat)

lemma unat_add_of_nat_u64:
  fixes a :: u64
  assumes "unat a + n < 18446744073709551616"
  shows "unat (a + word_of_nat n) = unat a + n"
  using assms by (subst unat_add_lem [THEN iffD1]) simp_all

lemma split_low_byte: "(ucast (ucast v :: u8) :: u64) + 256 * drop_bit 8 v = v"
proof -
  have b: "unat v div 256 < 18446744073709551616" "256 * (unat v div 256) < 18446744073709551616"
    using unat_u64_less [of v] by linarith+
  have "unat ((ucast (ucast v :: u8) :: u64) + 256 * drop_bit 8 v) = unat v"
    using b unat_u64_less [of v]
    by (simp add: unat_word_ariths unat_drop_bit_eq unsigned_ucast_eq take_bit_eq_mod drop_bit_eq_div)
  then show ?thesis
    by (simp add: word_unat_eq_iff)
qed

lemma read64_write64_same [simp, narc_mem]: "read64 (write64 m a v) a = v"
proof -
  let ?b = "\<lambda>i. ucast (ucast (drop_bit (8 * i) v) :: u8) :: u64"
  have step: "?b i + 256 * drop_bit (8 * Suc i) v = drop_bit (8 * i) v" for i
    using split_low_byte [of "drop_bit (8 * i) v"] by (simp add: drop_bit_drop_bit add.commute)
  have top: "drop_bit 64 v = 0"
    by simp
  have u: "[0..<8] = [0, 1, 2, 3, 4, 5, 6, 7 :: nat]"
    by (simp add: upt_rec)
  have "read64 (write64 m a v) a = ?b 0 + 256 * (?b 1 + 256 * (?b 2 + 256 * (?b 3 +
      256 * (?b 4 + 256 * (?b 5 + 256 * (?b 6 + 256 * (?b 7 + 256 * 0)))))))"
    by (simp add: read64_def write64_def u)
  also have "\<dots> = v"
    using step [of 0] step [of 1] step [of 2] step [of 3] step [of 4] step [of 5]
      step [of 6] step [of 7] top
    by (simp add: numeral_eq_Suc)
  finally show ?thesis .
qed

lemma read64_cong:
  assumes "\<And>i. i < 8 \<Longrightarrow> m (a + word_of_nat i) = m' (a + word_of_nat i)"
  shows "read64 m a = read64 m' a"
  unfolding read64_def by (rule arg_cong [where f = "horner_sum ucast 256"]) (simp add: assms)

lemma read64_write64_other:
  assumes "8 \<le> a - b" "8 \<le> b - a"
  shows "read64 (write64 m b v) a = read64 m a"
proof (rule read64_cong)
  fix i :: nat assume i: "i < 8"
  have "(unat (a - b) + unat (b - a)) mod 18446744073709551616 = 0"
    using unat_word_ariths(1) [of "a - b" "b - a"] by simp
  then obtain k where k: "unat (a - b) + unat (b - a) = 18446744073709551616 * k"
    by (auto simp: dvd_def mod_eq_0_iff_dvd)
  have "k = 1"
    using k assms unat_u64_less [of "a - b"] unat_u64_less [of "b - a"]
    by (cases k) (auto simp: word_le_nat_alt)
  then have "unat (b - a) = 18446744073709551616 - unat (a - b)"
    using k by simp
  then have "unat (a - b) + i < 18446744073709551616" "8 \<le> unat (a - b)"
    using assms i unat_u64_less [of "a - b"] by (auto simp: word_le_nat_alt)
  then have "\<not> a - b + word_of_nat i < 8"
    by (simp add: word_less_nat_alt unat_add_of_nat_u64)
  then show "write64 m b v (a + word_of_nat i) = m (a + word_of_nat i)"
    by (simp add: write64_def algebra_simps)
qed

lemma read64_zero [simp]: "read64 (\<lambda>_. 0) a = 0"
proof -
  have "horner_sum (ucast :: u8 \<Rightarrow> u64) 256 (replicate n 0) = 0" for n
    by (induction n) simp_all
  then show ?thesis
    by (simp add: read64_def map_replicate_trivial map_replicate_const)
qed

lemma write64_other: "\<not> b - a < 8 \<Longrightarrow> write64 m a v b = m b"
  by (simp add: write64_def)

text \<open>32-bit loads and stores.\<close>

definition write32 :: "memory \<Rightarrow> u64 \<Rightarrow> u32 \<Rightarrow> memory" where
  "write32 m a v = (\<lambda>b. if b - a < 4 then ucast (drop_bit (8 * unat (b - a)) v) else m b)"

definition read32 :: "memory \<Rightarrow> u64 \<Rightarrow> u32" where
  "read32 m a = horner_sum ucast 256 (map (\<lambda>i. m (a + word_of_nat i)) [0..<4])"

lemma split_low_byte_32: "(ucast (ucast v :: u8) :: u32) + 256 * drop_bit 8 v = v"
proof -
  have l: "unat v < 4294967296"
    using unsigned_less [of v, where 'a = nat] by simp
  have b: "unat v div 256 < 4294967296" "256 * (unat v div 256) < 4294967296"
    using l by linarith+
  have "unat ((ucast (ucast v :: u8) :: u32) + 256 * drop_bit 8 v) = unat v"
    using b l
    by (simp add: unat_word_ariths unat_drop_bit_eq unsigned_ucast_eq take_bit_eq_mod drop_bit_eq_div)
  then show ?thesis
    by (simp add: word_unat_eq_iff)
qed

lemma read32_write32_same [simp, narc_mem]: "read32 (write32 m a v) a = v"
proof -
  let ?b = "\<lambda>i. ucast (ucast (drop_bit (8 * i) v) :: u8) :: u32"
  have step: "?b i + 256 * drop_bit (8 * Suc i) v = drop_bit (8 * i) v" for i
    using split_low_byte_32 [of "drop_bit (8 * i) v"] by (simp add: drop_bit_drop_bit add.commute)
  have top: "drop_bit 32 v = 0"
    by simp
  have u: "[0..<4] = [0, 1, 2, 3 :: nat]"
    by (simp add: upt_rec)
  have "read32 (write32 m a v) a = ?b 0 + 256 * (?b 1 + 256 * (?b 2 + 256 * (?b 3 + 256 * 0)))"
    by (simp add: read32_def write32_def u)
  also have "\<dots> = v"
    using step [of 0] step [of 1] step [of 2] step [of 3] top by (simp add: numeral_eq_Suc)
  finally show ?thesis .
qed

lemma read32_cong:
  assumes "\<And>i. i < 4 \<Longrightarrow> m (a + word_of_nat i) = m' (a + word_of_nat i)"
  shows "read32 m a = read32 m' a"
  unfolding read32_def by (rule arg_cong [where f = "horner_sum ucast 256"]) (simp add: assms)

text \<open>
  \<^verbatim>\<open>memset\<close> and \<^verbatim>\<open>memcpy\<close> of \<open>kernel/lib/string.c\<close>: byte loops that count \<open>n\<close> down.
\<close>

fun memset :: "memory \<Rightarrow> u64 \<Rightarrow> u8 \<Rightarrow> nat \<Rightarrow> memory" where
  "memset m p c 0 = m"
| "memset m p c (Suc n) = memset (m(p := c)) (p + 1) c n"

fun memcpy :: "memory \<Rightarrow> u64 \<Rightarrow> u64 \<Rightarrow> nat \<Rightarrow> memory" where
  "memcpy m d s 0 = m"
| "memcpy m d s (Suc n) = memcpy (m(d := m s)) (d + 1) (s + 1) n"

text \<open>A byte array the code copies into memory from outside it (an initramfs file, a buffer).\<close>

fun mem_store :: "memory \<Rightarrow> u64 \<Rightarrow> u8 list \<Rightarrow> memory" where
  "mem_store m a [] = m"
| "mem_store m a (b # bs) = mem_store (m(a := b)) (a + 1) bs"

definition mem_load :: "memory \<Rightarrow> u64 \<Rightarrow> nat \<Rightarrow> u8 list" where
  "mem_load m a n = map (\<lambda>i. m (a + word_of_nat i)) [0..<n]"

text \<open>Closed forms: distances are measured from the start of the area, so wrapping is covered.\<close>

lemma unat_diff_Suc:
  fixes a b :: u64
  assumes "b \<noteq> a"
  shows "unat (b - a) = Suc (unat (b - (a + 1)))"
proof -
  have "b - a \<noteq> 0"
    using assms by simp
  then have "unat (b - a) = Suc (unat (b - a - 1))"
    by (metis Suc_pred' unat_eq_0 unat_minus_one gr0I)
  then show ?thesis
    by (simp add: diff_diff_eq)
qed

lemma unat_minus_1_u64 [simp]: "unat (- 1 :: u64) = 18446744073709551615"
  by (simp add: unsigned_minus_1_eq_mask mask_eq_exp_minus_1)

lemma memset_apply:
  "n < 18446744073709551616 \<Longrightarrow> memset m p c n b = (if unat (b - p) < n then c else m b)"
proof (induction n arbitrary: m p)
  case (Suc n)
  then show ?case
    by (cases "b = p") (simp_all add: unat_diff_Suc)
qed simp

lemma mem_store_apply:
  "length bs < 18446744073709551616 \<Longrightarrow>
   mem_store m a bs b = (if unat (b - a) < length bs then bs ! unat (b - a) else m b)"
proof (induction bs arbitrary: m a)
  case (Cons x bs)
  then show ?case
    by (cases "b = a") (simp_all add: unat_diff_Suc)
qed simp

lemma length_mem_load [simp]: "length (mem_load m a n) = n"
  by (simp add: mem_load_def)

lemma nth_mem_load [simp]: "i < n \<Longrightarrow> mem_load m a n ! i = m (a + word_of_nat i)"
  by (simp add: mem_load_def)

lemma mem_load_cong:
  "(\<And>i. i < n \<Longrightarrow> m (a + word_of_nat i) = m' (a + word_of_nat i)) \<Longrightarrow> mem_load m a n = mem_load m' a n"
  by (simp add: mem_load_def)

lemma mem_load_store:
  assumes "length bs < 18446744073709551616"
  shows "mem_load (mem_store m a bs) a (length bs) = bs"
  using assms by (simp add: list_eq_iff_nth_eq mem_store_apply)

section \<open>Pages\<close>

text \<open>
  \<^verbatim>\<open>PAGE_SIZE\<close> of \<open>kernel/include/kernel/mm.h\<close>, the mask expressions the sources write for the
  base and the offset of an address in its page, and \<^verbatim>\<open>align_up\<close> of \<open>kernel/mm/mm.c\<close>.
\<close>

abbreviation PAGE_SIZE :: u64 where "PAGE_SIZE \<equiv> 4096"

definition page_off :: "u64 \<Rightarrow> u64" where
  "page_off a = a AND (PAGE_SIZE - 1)"

definition page_base :: "u64 \<Rightarrow> u64" where
  "page_base a = a AND NOT (PAGE_SIZE - 1)"

definition page_aligned :: "u64 \<Rightarrow> bool" where
  "page_aligned a \<longleftrightarrow> a AND (PAGE_SIZE - 1) = 0"

definition align_up :: "u64 \<Rightarrow> u64 \<Rightarrow> u64" where
  "align_up x a = (x + a - 1) AND NOT (a - 1)"

lemma word_less_4096: "a < (4096 :: u64) \<longleftrightarrow> unat a < 4096"
  by (simp add: word_less_nat_alt)

text \<open>The addresses of the page at \<open>p\<close>.\<close>

definition in_page :: "u64 \<Rightarrow> u64 \<Rightarrow> bool" where
  "in_page p a \<longleftrightarrow> a - p < PAGE_SIZE"

lemma mask_12: "(4095 :: u64) = mask 12"
  by (simp add: mask_eq_exp_minus_1)

lemma unat_page_off: "unat (page_off a) = unat a mod 4096"
  by (simp add: page_off_def mask_12 flip: take_bit_eq_mask) (simp add: take_bit_eq_mod unat_mod)

lemma page_base_eq: "page_base a = a - page_off a"
proof -
  have "page_base a + page_off a = a"
    unfolding page_base_def page_off_def
    by (subst disjunctive_add) (auto simp: bit_simps intro!: bit_eqI)
  then show ?thesis by (metis add_diff_cancel_right')
qed

lemma unat_page_base: "unat (page_base a) = unat a - unat a mod 4096"
  by (simp add: page_base_eq unat_sub unat_page_off word_le_nat_alt)

lemma page_aligned_unat: "page_aligned p \<longleftrightarrow> 4096 dvd unat p"
  using and_mask_dvd_nat [of 12 p] by (simp add: page_aligned_def mask_12)

lemma page_off_less: "page_off a < PAGE_SIZE"
  by (simp add: word_less_nat_alt unat_page_off)

lemma page_aligned_base [simp]: "page_aligned (page_base a)"
  by (simp add: page_aligned_unat unat_page_base dvd_minus_mod)

lemma page_base_off: "page_base a + page_off a = a"
  by (simp add: page_base_eq)

lemma unat_aligned_add:
  assumes "page_aligned p" "i < PAGE_SIZE"
  shows "unat (p + i) = unat p + unat i"
proof -
  obtain k where k: "unat p = 4096 * k"
    using assms(1) by (auto simp: page_aligned_unat dvd_def)
  then have "k < 4503599627370496"
    using unat_u64_less [of p] by linarith
  then have "unat p + unat i < 18446744073709551616"
    using k assms(2) by (simp add: word_less_nat_alt)
  then show ?thesis by (simp add: unat_word_ariths)
qed

lemma page_off_aligned_add [simp]:
  "page_aligned p \<Longrightarrow> i < PAGE_SIZE \<Longrightarrow> page_off (p + i) = i"
  by (simp add: word_unat_eq_iff unat_page_off unat_aligned_add page_aligned_unat word_less_nat_alt
      mod_add_left_eq [symmetric])

lemma page_base_aligned_add [simp]:
  "page_aligned p \<Longrightarrow> i < PAGE_SIZE \<Longrightarrow> page_base (p + i) = p"
  by (simp add: page_base_eq)

lemma page_base_aligned: "page_aligned p \<Longrightarrow> page_base p = p"
  using page_base_aligned_add [of p 0] by simp

lemma in_page_base: "page_aligned p \<Longrightarrow> in_page p a \<longleftrightarrow> page_base a = p"
  using page_base_aligned_add [of p "a - p"] page_off_less [of a]
  by (auto simp: in_page_def page_base_eq)

lemma in_page_self [simp]: "in_page p p"
  by (simp add: in_page_def)

text \<open>Distinct pages share no address, wherever the direct map puts them.\<close>

lemma in_page_disjoint:
  assumes "page_aligned p" "page_aligned q" "in_page (p + h) a" "in_page (q + h) a"
  shows "p = q"
proof -
  have "in_page p (a - h)" "in_page q (a - h)"
    using assms(3,4) by (simp_all add: in_page_def algebra_simps)
  then show ?thesis
    using assms(1,2) by (simp add: in_page_base)
qed

lemma in_page_add: "i < PAGE_SIZE \<Longrightarrow> in_page p (p + i)"
  by (simp add: in_page_def)

lemma in_page_word64:
  assumes "i \<le> 4088" "j < 8"
  shows "in_page p (p + i + word_of_nat j)"
proof -
  have "unat (i + word_of_nat j) < 4096"
    using assms by (simp add: unat_word_ariths word_le_nat_alt)
  then show ?thesis
    by (simp add: in_page_def word_less_4096 add.assoc)
qed

text \<open>Memories that agree on a page read the same words there.\<close>

definition same_page :: "memory \<Rightarrow> memory \<Rightarrow> u64 \<Rightarrow> bool" where
  "same_page m m' p \<longleftrightarrow> (\<forall>a. in_page p a \<longrightarrow> m a = m' a)"

lemma same_page_refl [simp]: "same_page m m p"
  by (simp add: same_page_def)

lemma same_page_read64:
  assumes "same_page m m' p" "i \<le> 4088"
  shows "read64 m (p + i) = read64 m' (p + i)"
  using assms by (intro read64_cong) (auto simp: same_page_def in_page_word64)

lemma same_page_read64_base: "same_page m m' p \<Longrightarrow> read64 m p = read64 m' p"
  using same_page_read64 [of m m' p 0] by simp

lemma same_page_trans: "same_page m m' p \<Longrightarrow> same_page m' m'' p \<Longrightarrow> same_page m m'' p"
  by (simp add: same_page_def)

lemma same_page_write64_other:
  assumes "page_aligned p" "page_aligned q" "p \<noteq> q" "i \<le> 4088"
  shows "same_page (write64 m (p + h + i) v) m (q + h)"
proof -
  have "\<not> a - (p + h + i) < 8" if "in_page (q + h) a" for a
  proof
    assume "a - (p + h + i) < 8"
    then have "in_page (p + h) (p + h + i + word_of_nat (unat (a - (p + h + i))))"
      using assms(4) by (intro in_page_word64) (simp_all add: word_less_nat_alt)
    then have "in_page (p + h) a"
      by simp
    then show False
      using assms that in_page_disjoint by blast
  qed
  then show ?thesis
    by (simp add: same_page_def write64_def)
qed

lemma same_page_memset_other:
  assumes "page_aligned p" "page_aligned q" "p \<noteq> q"
  shows "same_page (memset m (p + h) c 4096) m (q + h)"
proof -
  have "\<not> unat (a - (p + h)) < 4096" if "in_page (q + h) a" for a
  proof
    assume "unat (a - (p + h)) < 4096"
    then have "in_page (p + h) a"
      by (simp add: in_page_def word_less_nat_alt)
    then show False
      using assms that in_page_disjoint by blast
  qed
  then show ?thesis
    by (simp add: same_page_def memset_apply)
qed

lemma memset_page: "in_page p a \<Longrightarrow> memset m p c 4096 a = c"
  by (simp add: memset_apply in_page_def word_less_nat_alt)

end
