(* ===== verification/Phys_Mem.thy ===== *)
theory Phys_Mem
  imports Narc_Prelude
begin

text \<open>
  The physical frame allocator of \<open>kernel/mm/mm.c\<close>: \<^verbatim>\<open>mm_init\<close>, \<^verbatim>\<open>phys_to_virt\<close>,
  \<^verbatim>\<open>pmm_alloc_page\<close> and \<^verbatim>\<open>pmm_free_page\<close>, over the bootloader's memory map and the memory the
  direct map shows. Free frames are kept in two places: a list threaded through the first
  word of each freed frame, and the not yet handed out rest of the usable regions. The
  abstraction \<open>free_frames\<close> is the one list of both, in the order they are handed out, and
  each operation is shown to refine a stack operation on it.
\<close>

section \<open>State\<close>

text \<open>\<^verbatim>\<open>struct limine_memmap_entry\<close> of \<open>kernel/include/kernel/limine.h\<close>.\<close>

record memmap_entry =
  me_base :: u64
  me_length :: u64
  me_type :: u64

abbreviation (input) LIMINE_MEMMAP_USABLE :: u64 where "LIMINE_MEMMAP_USABLE \<equiv> 0"

text \<open>
  The static variables of \<open>mm.c\<close>, with the memory itself. \<open>mem\<close> is indexed by kernel
  virtual address. Later components extend the record with their own statics.
\<close>

record phys =
  mem :: memory
  memmap :: "memmap_entry list"
  hhdm :: u64
  region_index :: nat
  next_phys :: u64
  region_end :: u64
  free_head :: u64

section \<open>Operations\<close>

definition mm_init :: "memmap_entry list \<Rightarrow> u64 \<Rightarrow> 'a phys_scheme \<Rightarrow> 'a phys_scheme" where
  "mm_init map_entries hhdm_offset s = s\<lparr>memmap := map_entries, hhdm := hhdm_offset, region_index := 0,
     next_phys := 0, region_end := 0, free_head := 0\<rparr>"

definition phys_to_virt :: "'a phys_scheme \<Rightarrow> u64 \<Rightarrow> u64" where
  "phys_to_virt s p = p + hhdm s"

text \<open>The inner \<^verbatim>\<open>while\<close>: advance to the next region worth using.\<close>

function next_region :: "'a phys_scheme \<Rightarrow> 'a phys_scheme" where
  "next_region s =
     (if region_index s < length (memmap s)
      then let e = memmap s ! region_index s;
               s = s\<lparr>region_index := Suc (region_index s)\<rparr>
           in if me_type e \<noteq> LIMINE_MEMMAP_USABLE \<or> me_length e < PAGE_SIZE then next_region s
              else s\<lparr>next_phys := align_up (me_base e) PAGE_SIZE,
                     region_end := me_base e + me_length e\<rparr>
      else s)"
  by pat_completeness auto
termination
  by (relation "measure (\<lambda>s. length (memmap s) - region_index s)") auto

declare next_region.simps [simp del]

text \<open>
  The outer \<^verbatim>\<open>for (;;)\<close>. It goes round at most twice: it repeats only when the region just
  entered has a whole page, which the next round hands out.
\<close>

definition bump_ready :: "'a phys_scheme \<Rightarrow> bool" where
  "bump_ready s \<longleftrightarrow> next_phys s \<noteq> 0 \<and> next_phys s + PAGE_SIZE \<le> region_end s"

function alloc_bump :: "'a phys_scheme \<Rightarrow> u64 \<times> 'a phys_scheme" where
  "alloc_bump s =
     (if bump_ready s
      then let page = next_phys s;
               s = s\<lparr>next_phys := next_phys s + PAGE_SIZE\<rparr>
           in (page, s\<lparr>mem := memset (mem s) (phys_to_virt s page) 0 4096\<rparr>)
      else let s = next_region s
           in if next_phys s = 0 \<or> next_phys s + PAGE_SIZE > region_end s then (0, s)
              else alloc_bump s)"
  by pat_completeness auto
termination
  by (relation "measure (\<lambda>s. if bump_ready s then 0 else 1)") (auto simp: bump_ready_def)

declare alloc_bump.simps [simp del]

text \<open>A frame address, or 0 when there is none left.\<close>

definition pmm_alloc_page :: "'a phys_scheme \<Rightarrow> u64 \<times> 'a phys_scheme" where
  "pmm_alloc_page s =
     (if free_head s \<noteq> 0
      then let page = free_head s;
               s = s\<lparr>free_head := read64 (mem s) (phys_to_virt s page)\<rparr>
           in (page, s\<lparr>mem := memset (mem s) (phys_to_virt s page) 0 4096\<rparr>)
      else alloc_bump s)"

definition pmm_free_page :: "u64 \<Rightarrow> 'a phys_scheme \<Rightarrow> 'a phys_scheme" where
  "pmm_free_page p s =
     (if p = 0 \<or> p AND (PAGE_SIZE - 1) \<noteq> 0 then s
      else s\<lparr>mem := write64 (mem s) (phys_to_virt s p) (free_head s), free_head := p\<rparr>)"

section \<open>The abstract free stack\<close>

text \<open>The frames threaded from \<open>x\<close> through the first word of each.\<close>

primrec chain :: "memory \<Rightarrow> u64 \<Rightarrow> u64 \<Rightarrow> u64 list \<Rightarrow> bool" where
  "chain m h x [] \<longleftrightarrow> x = 0"
| "chain m h x (p # ps) \<longleftrightarrow> x = p \<and> p \<noteq> 0 \<and> chain m h (read64 m (p + h)) ps"

text \<open>The whole frames from \<open>a\<close> up to \<open>e\<close>.\<close>

definition frames_between :: "u64 \<Rightarrow> u64 \<Rightarrow> u64 list" where
  "frames_between a e =
     (if a = 0 then []
      else map (\<lambda>i. a + word_of_nat (4096 * i)) [0..<(unat e - unat a) div 4096])"

definition region_frames :: "memmap_entry \<Rightarrow> u64 list" where
  "region_frames e =
     (if me_type e \<noteq> LIMINE_MEMMAP_USABLE \<or> me_length e < PAGE_SIZE then []
      else frames_between (align_up (me_base e) PAGE_SIZE) (me_base e + me_length e))"

text \<open>
  What the allocator relies on in the memory map, as the Limine protocol promises it: usable
  regions start on a page boundary, not at address 0, and end below the last page of the
  address space.
\<close>

definition usable_ok :: "memmap_entry \<Rightarrow> bool" where
  "usable_ok e \<longleftrightarrow>
     (me_type e = LIMINE_MEMMAP_USABLE \<longrightarrow>
        page_aligned (me_base e) \<and> me_base e \<noteq> 0 \<and>
        unat (me_base e) + unat (me_length e) < 2 ^ 64 - 4096)"

definition bump_ok :: "'a phys_scheme \<Rightarrow> bool" where
  "bump_ok s \<longleftrightarrow> page_aligned (next_phys s) \<and> next_phys s \<le> region_end s \<and>
     unat (region_end s) < 2 ^ 64 - 4096"

definition future_frames :: "'a phys_scheme \<Rightarrow> u64 list" where
  "future_frames s = frames_between (next_phys s) (region_end s) @
     concat (map region_frames (drop (region_index s) (memmap s)))"

definition free_frames :: "'a phys_scheme \<Rightarrow> u64 list \<Rightarrow> bool" where
  "free_frames s xs \<longleftrightarrow>
     (\<exists>cs. chain (mem s) (hhdm s) (free_head s) cs \<and> xs = cs @ future_frames s) \<and>
     distinct xs \<and> (\<forall>p \<in> set xs. page_aligned p \<and> p \<noteq> 0) \<and>
     (\<forall>e \<in> set (memmap s). usable_ok e) \<and> bump_ok s"

section \<open>The bump part\<close>

lemma unat_next_page: "unat a + 4096 < 2 ^ 64 \<Longrightarrow> unat (a + PAGE_SIZE) = unat a + 4096"
  by (simp add: unat_word_ariths)

lemma bump_ready_unat:
  assumes "bump_ok s"
  shows "bump_ready s \<longleftrightarrow> next_phys s \<noteq> 0 \<and> unat (next_phys s) + 4096 \<le> unat (region_end s)"
  using assms unat_next_page [of "next_phys s"]
  by (auto simp: bump_ready_def bump_ok_def word_le_nat_alt)

lemma page_aligned_next: "page_aligned a \<Longrightarrow> unat a + 4096 < 2 ^ 64 \<Longrightarrow> page_aligned (a + PAGE_SIZE)"
  by (simp add: page_aligned_unat unat_next_page)

text \<open>A ready region gives its first frame and stays well formed.\<close>

lemma frames_between_ready:
  assumes "bump_ok s" "bump_ready s"
  shows "frames_between (next_phys s) (region_end s) =
    next_phys s # frames_between (next_phys s + PAGE_SIZE) (region_end s)"
    and "bump_ok (s\<lparr>next_phys := next_phys s + PAGE_SIZE\<rparr>)"
proof -
  let ?a = "next_phys s" and ?e = "region_end s"
  have a: "?a \<noteq> 0" "unat ?a + 4096 \<le> unat ?e" "unat ?e < 2 ^ 64 - 4096"
    using assms by (auto simp: bump_ready_unat bump_ok_def)
  have na: "unat (?a + PAGE_SIZE) = unat ?a + 4096"
    using a by (intro unat_next_page) simp
  then have "?a + PAGE_SIZE \<noteq> 0"
    by (metis add_is_0 unat_0 zero_neq_numeral)
  moreover have "(unat ?e - unat ?a) div 4096 = Suc ((unat ?e - unat (?a + PAGE_SIZE)) div 4096)"
    using a na by (simp add: le_div_geq)
  ultimately show "frames_between ?a ?e = ?a # frames_between (?a + PAGE_SIZE) ?e"
    using a(1) by (simp add: frames_between_def upt_conv_Cons map_Suc_upt [symmetric] comp_def
        algebra_simps del: upt_Suc)
  show "bump_ok (s\<lparr>next_phys := ?a + PAGE_SIZE\<rparr>)"
    using assms(1) a na page_aligned_next [of ?a] by (simp add: bump_ok_def word_le_nat_alt)
qed

lemma frames_between_not_ready:
  "bump_ok s \<Longrightarrow> \<not> bump_ready s \<Longrightarrow> frames_between (next_phys s) (region_end s) = []"
  by (auto simp: bump_ready_unat frames_between_def)

lemma align_up_aligned:
  assumes "page_aligned a" "unat a + 4096 < 2 ^ 64"
  shows "align_up a PAGE_SIZE = a"
proof -
  have "align_up a PAGE_SIZE = page_base (a + 4095)"
    by (simp add: align_up_def page_base_def add.commute)
  then show ?thesis
    using assms by simp
qed

lemma usable_enter:
  fixes s :: "'a phys_scheme"
  assumes "usable_ok e" "me_type e = 0" "\<not> me_length e < PAGE_SIZE"
  defines "s' \<equiv> s\<lparr>next_phys := align_up (me_base e) PAGE_SIZE, region_end := me_base e + me_length e\<rparr>"
  shows "bump_ok s'" "bump_ready s'"
    "region_frames e = frames_between (next_phys s') (region_end s')"
proof -
  have e: "page_aligned (me_base e)" "me_base e \<noteq> 0"
    "unat (me_base e) + unat (me_length e) < 2 ^ 64 - 4096" "4096 \<le> unat (me_length e)"
    using assms(1-3) by (auto simp: usable_ok_def word_less_4096)
  then have "unat (me_base e + me_length e) = unat (me_base e) + unat (me_length e)"
    by (simp add: unat_word_ariths)
  moreover have "align_up (me_base e) PAGE_SIZE = me_base e"
    using e by (intro align_up_aligned) simp_all
  ultimately show ok: "bump_ok s'" and "bump_ready s'"
    using e by (simp_all add: s'_def bump_ok_def word_le_nat_alt bump_ready_def unat_next_page)
  show "region_frames e = frames_between (next_phys s') (region_end s')"
    using assms(2,3) by (simp add: region_frames_def s'_def)
qed

definition rest_frames :: "'a phys_scheme \<Rightarrow> u64 list" where
  "rest_frames s = concat (map region_frames (drop (region_index s) (memmap s)))"

lemma future_frames_rest:
  "future_frames s = frames_between (next_phys s) (region_end s) @ rest_frames s"
  by (simp add: future_frames_def rest_frames_def)

lemma rest_frames_step:
  assumes "region_index s < length (memmap s)"
  shows "rest_frames s = region_frames (memmap s ! region_index s) @
    rest_frames (s\<lparr>region_index := Suc (region_index s)\<rparr>)"
  using assms by (simp add: rest_frames_def flip: Cons_nth_drop_Suc)

text \<open>
  Entering the next region either finds one with a whole frame, leaving the stack of future
  frames as it was, or finds that none is left.
\<close>

lemma next_region_spec:
  assumes "\<forall>e \<in> set (memmap s). usable_ok e"
  shows "if rest_frames s = []
     then rest_frames (next_region s) = [] \<and> next_phys (next_region s) = next_phys s \<and>
       region_end (next_region s) = region_end s
     else bump_ready (next_region s) \<and> bump_ok (next_region s) \<and>
       future_frames (next_region s) = rest_frames s"
  using assms
proof (induction s rule: next_region.induct)
  case (1 s)
  show ?case
  proof (cases "region_index s < length (memmap s)")
    case False
    then show ?thesis
      by (simp add: next_region.simps [of s] rest_frames_def)
  next
    case True
    let ?e = "memmap s ! region_index s" and ?s = "s\<lparr>region_index := Suc (region_index s)\<rparr>"
    have e: "usable_ok ?e"
      using True "1.prems" by simp
    show ?thesis
    proof (cases "me_type ?e \<noteq> 0 \<or> me_length ?e < PAGE_SIZE")
      case skip: True
      then have "region_frames ?e = []" and "next_region s = next_region ?s"
        using True by (auto simp: region_frames_def next_region.simps [of s])
      with skip True "1" show ?thesis
        by (simp add: rest_frames_step)
    next
      case take: False
      let ?t = "?s\<lparr>next_phys := align_up (me_base ?e) PAGE_SIZE,
        region_end := me_base ?e + me_length ?e\<rparr>"
      have nx: "next_region s = ?t"
        using True take by (simp add: next_region.simps [of s] Let_def)
      have t: "bump_ok ?t" "bump_ready ?t"
        "region_frames ?e = frames_between (next_phys ?t) (region_end ?t)"
        using usable_enter [OF e, of ?s] take by auto
      have "rest_frames s = region_frames ?e @ rest_frames ?t"
        using rest_frames_step [OF True] by (simp add: rest_frames_def)
      then show ?thesis
        using t frames_between_ready(1) [OF t(1,2)] by (simp add: nx future_frames_rest)
    qed
  qed
qed

lemma next_region_frame [simp, narc_frame]:
  "mem (next_region s) = mem s" "memmap (next_region s) = memmap s"
  "hhdm (next_region s) = hhdm s" "free_head (next_region s) = free_head s"
  "phys.more (next_region s) = phys.more s"
  by (induction s rule: next_region.induct; subst next_region.simps; simp add: Let_def)+

lemma alloc_bump_ready:
  "bump_ready s \<Longrightarrow> alloc_bump s =
     (next_phys s, s\<lparr>next_phys := next_phys s + PAGE_SIZE,
        mem := memset (mem s) (phys_to_virt s (next_phys s)) 0 4096\<rparr>)"
  by (simp add: alloc_bump.simps [of s] phys_to_virt_def Let_def)

lemma alloc_bump_not_ready:
  "\<not> bump_ready s \<Longrightarrow> alloc_bump s =
     (if bump_ready (next_region s) then alloc_bump (next_region s) else (0, next_region s))"
  by (subst alloc_bump.simps) (auto simp: bump_ready_def Let_def not_less)

lemma alloc_bump_frame:
  "memmap (snd (alloc_bump s)) = memmap s" "hhdm (snd (alloc_bump s)) = hhdm s"
  "free_head (snd (alloc_bump s)) = free_head s"
  "phys.more (snd (alloc_bump s)) = phys.more s"
  by (cases "bump_ready s"; simp add: alloc_bump_ready alloc_bump_not_ready)+

text \<open>The bump part pops the stack of future frames.\<close>

lemma alloc_bump_spec:
  assumes "\<forall>e \<in> set (memmap s). usable_ok e" "bump_ok s"
  shows "case future_frames s of
      [] \<Rightarrow> fst (alloc_bump s) = 0 \<and> future_frames (snd (alloc_bump s)) = [] \<and>
        mem (snd (alloc_bump s)) = mem s \<and> bump_ok (snd (alloc_bump s))
    | p # ps \<Rightarrow> fst (alloc_bump s) = p \<and> future_frames (snd (alloc_bump s)) = ps \<and>
        mem (snd (alloc_bump s)) = memset (mem s) (phys_to_virt s p) 0 4096 \<and>
        bump_ok (snd (alloc_bump s))"
proof -
  have ready: ?thesis if r: "bump_ready t" "bump_ok t" "future_frames t = future_frames s"
    "alloc_bump s = alloc_bump t" "mem t = mem s" "hhdm t = hhdm s" for t :: "'a phys_scheme"
  proof -
    have "future_frames s = next_phys t # future_frames (t\<lparr>next_phys := next_phys t + PAGE_SIZE\<rparr>)"
      unfolding r(3) [symmetric] using frames_between_ready(1) [OF r(2,1)] by (simp add: future_frames_def)
    then show ?thesis
      using r frames_between_ready(2) [OF r(2,1)]
      by (simp add: alloc_bump_ready phys_to_virt_def future_frames_def bump_ok_def)
  qed
  show ?thesis
  proof (cases "bump_ready s")
    case True
    then show ?thesis using ready [of s] assms(2) by simp
  next
    case False
    then have f: "future_frames s = rest_frames s"
      using assms(2) by (simp add: future_frames_rest frames_between_not_ready)
    show ?thesis
    proof (cases "rest_frames s = []")
      case True
      with next_region_spec [OF assms(1)]
      have n: "rest_frames (next_region s) = []" "next_phys (next_region s) = next_phys s"
        "region_end (next_region s) = region_end s"
        by simp_all
      then have "\<not> bump_ready (next_region s)"
        using False by (simp add: bump_ready_def)
      with n False assms(2) show ?thesis
        using frames_between_not_ready [OF assms(2) False]
        by (simp add: alloc_bump_not_ready f True future_frames_rest bump_ok_def)
    next
      case ne: False
      with next_region_spec [OF assms(1)] False f show ?thesis
        by (intro ready [of "next_region s"]) (simp_all add: alloc_bump_not_ready)
    qed
  qed
qed

section \<open>The threaded part\<close>

lemma chain_cong:
  "(\<And>p. p \<in> set ps \<Longrightarrow> read64 m (p + h) = read64 m' (p + h)) \<Longrightarrow> chain m h x ps = chain m' h x ps"
  by (induction ps arbitrary: x) auto

lemma chain_unique: "chain m h x ps \<Longrightarrow> chain m h x qs \<Longrightarrow> ps = qs"
  by (induction ps arbitrary: x qs; case_tac qs) auto

lemma chain_0 [simp]: "chain m h 0 ps \<longleftrightarrow> ps = []"
  by (cases ps) auto

lemma chain_non_0: "x \<noteq> 0 \<Longrightarrow> chain m h x ps \<longleftrightarrow> (\<exists>qs. ps = x # qs \<and> chain m h (read64 m (x + h)) qs)"
  by (cases ps) auto

lemma future_frames_cong:
  "next_phys s = next_phys t \<Longrightarrow> region_end s = region_end t \<Longrightarrow> region_index s = region_index t \<Longrightarrow>
   memmap s = memmap t \<Longrightarrow> future_frames s = future_frames t"
  by (simp add: future_frames_def)

text \<open>The stack is determined by the state, and survives changes to any other memory.\<close>

lemma free_frames_unique: "free_frames s xs \<Longrightarrow> free_frames s ys \<Longrightarrow> xs = ys"
  using chain_unique by (auto simp: free_frames_def)

lemma free_frames_aligned: "free_frames s xs \<Longrightarrow> p \<in> set xs \<Longrightarrow> page_aligned p \<and> p \<noteq> 0"
  by (simp add: free_frames_def)

lemma free_frames_distinct: "free_frames s xs \<Longrightarrow> distinct xs"
  by (simp add: free_frames_def)

lemma free_frames_mem:
  assumes "free_frames s xs" "\<And>p. p \<in> set xs \<Longrightarrow> same_page (mem s) m (phys_to_virt s p)"
  shows "free_frames (s\<lparr>mem := m\<rparr>) xs"
proof -
  have "read64 (mem s) (p + hhdm s) = read64 m (p + hhdm s)" if "p \<in> set xs" for p
    using assms(2) [OF that] by (simp add: phys_to_virt_def same_page_read64_base)
  then have "chain (mem s) (hhdm s) x cs = chain m (hhdm s) x cs" if "set cs \<subseteq> set xs" for x cs
    using that by (intro chain_cong) auto
  then show ?thesis
    using assms(1) by (auto simp: free_frames_def future_frames_def bump_ok_def)
qed

section \<open>Refinement of the free stack\<close>

lemma pmm_alloc_Nil:
  assumes "free_frames s []"
  shows "fst (pmm_alloc_page s) = 0" "free_frames (snd (pmm_alloc_page s)) []"
    "mem (snd (pmm_alloc_page s)) = mem s"
  using assms alloc_bump_spec [of s] alloc_bump_frame [of s]
  by (auto simp: free_frames_def pmm_alloc_page_def)

lemma pmm_alloc_Cons:
  assumes "free_frames s (p # ps)"
  shows "fst (pmm_alloc_page s) = p"
    "mem (snd (pmm_alloc_page s)) = memset (mem s) (phys_to_virt s p) 0 4096"
    "free_frames (snd (pmm_alloc_page s)) ps"
proof -
  let ?m = "memset (mem s) (phys_to_virt s p) 0 4096"
  obtain cs where cs: "chain (mem s) (hhdm s) (free_head s) cs" "p # ps = cs @ future_frames s"
    and wf: "distinct (p # ps)" "\<forall>q \<in> set (p # ps). page_aligned q \<and> q \<noteq> 0"
      "\<forall>e \<in> set (memmap s). usable_ok e" "bump_ok s"
    using assms unfolding free_frames_def by blast
  have same: "read64 (mem s) (q + hhdm s) = read64 ?m (q + hhdm s)" if "q \<in> set ps" for q
  proof -
    have "p \<noteq> q"
      using that wf(1) by auto
    then have "same_page ?m (mem s) (q + hhdm s)"
      using that wf(2) by (simp add: phys_to_virt_def same_page_memset_other)
    then show ?thesis
      by (simp add: same_page_read64_base)
  qed
  have chain_m: "chain (mem s) (hhdm s) x bs = chain ?m (hhdm s) x bs" if "set bs \<subseteq> set ps" for x bs
    using same that by (intro chain_cong) auto
  show "fst (pmm_alloc_page s) = p" "mem (snd (pmm_alloc_page s)) = ?m"
    "free_frames (snd (pmm_alloc_page s)) ps"
  proof (atomize (full), cases "free_head s = 0")
    case True
    then have f: "future_frames s = p # ps"
      using cs by simp
    show "fst (pmm_alloc_page s) = p \<and> mem (snd (pmm_alloc_page s)) = ?m \<and>
      free_frames (snd (pmm_alloc_page s)) ps"
      using True f wf alloc_bump_spec [OF wf(3,4)]
      by (auto simp: pmm_alloc_page_def alloc_bump_frame free_frames_def)
  next
    case False
    then obtain bs where bs: "cs = p # bs" "free_head s = p"
      "chain (mem s) (hhdm s) (read64 (mem s) (p + hhdm s)) bs"
      using cs by (auto simp: chain_non_0)
    then have "set bs \<subseteq> set ps"
      using cs(2) by auto
    with bs have "chain ?m (hhdm s) (read64 (mem s) (p + hhdm s)) bs"
      using chain_m by blast
    then show "fst (pmm_alloc_page s) = p \<and> mem (snd (pmm_alloc_page s)) = ?m \<and>
      free_frames (snd (pmm_alloc_page s)) ps"
      using False bs cs(2) wf
      by (auto simp: pmm_alloc_page_def free_frames_def phys_to_virt_def future_frames_def
          bump_ok_def Let_def)
  qed
qed

lemma pmm_free_Cons:
  assumes "free_frames s xs" "page_aligned p" "p \<noteq> 0" "p \<notin> set xs"
  shows "free_frames (pmm_free_page p s) (p # xs)"
    "mem (pmm_free_page p s) = write64 (mem s) (phys_to_virt s p) (free_head s)"
proof -
  let ?m = "write64 (mem s) (phys_to_virt s p) (free_head s)"
  have free: "pmm_free_page p s = s\<lparr>mem := ?m, free_head := p\<rparr>"
    using assms(2,3) by (simp add: pmm_free_page_def page_aligned_def)
  have "same_page (mem s) ?m (phys_to_virt s q)" if "q \<in> set xs" for q
  proof -
    have "p \<noteq> q"
      using that assms(4) by blast
    then show ?thesis
      using same_page_write64_other [of p q 0 "mem s" "hhdm s" "free_head s"] assms(2)
        free_frames_aligned [OF assms(1) that]
      by (auto simp: phys_to_virt_def same_page_def)
  qed
  then have "free_frames (s\<lparr>mem := ?m\<rparr>) xs"
    using assms(1) by (intro free_frames_mem)
  then show "free_frames (pmm_free_page p s) (p # xs)"
    using assms(2-4)
    by (auto simp: free free_frames_def future_frames_def bump_ok_def phys_to_virt_def)
  show "mem (pmm_free_page p s) = ?m"
    by (simp add: free)
qed

lemma pmm_frame [simp, narc_frame]:
  "memmap (snd (pmm_alloc_page s)) = memmap s" "hhdm (snd (pmm_alloc_page s)) = hhdm s"
  "phys.more (snd (pmm_alloc_page s)) = phys.more s"
  "memmap (pmm_free_page p s) = memmap s" "hhdm (pmm_free_page p s) = hhdm s"
  "phys.more (pmm_free_page p s) = phys.more s"
  by (simp_all add: pmm_alloc_page_def pmm_free_page_def alloc_bump_frame Let_def)

section \<open>The allocator as an interface\<close>

text \<open>
  What the rest of the kernel relies on: a stack of frames, popped zeroed and pushed back,
  with the contents of every other frame kept. \<open>byte s p i\<close> is the byte at offset \<open>i\<close> of the
  frame \<open>p\<close>.
\<close>

locale frame_allocator =
  fixes alloc :: "'s \<Rightarrow> u64 \<times> 's"
    and free :: "u64 \<Rightarrow> 's \<Rightarrow> 's"
    and frames :: "'s \<Rightarrow> u64 list \<Rightarrow> bool"
    and byte :: "'s \<Rightarrow> u64 \<Rightarrow> u64 \<Rightarrow> u8"
  assumes frames_wf: "frames s xs \<Longrightarrow> distinct xs \<and> (\<forall>p \<in> set xs. page_aligned p \<and> p \<noteq> 0)"
    and alloc_empty: "frames s [] \<Longrightarrow> fst (alloc s) = 0 \<and> frames (snd (alloc s)) []"
    and alloc_pop: "frames s (p # ps) \<Longrightarrow> fst (alloc s) = p \<and> frames (snd (alloc s)) ps"
    and alloc_zero: "frames s (p # ps) \<Longrightarrow> i < PAGE_SIZE \<Longrightarrow> byte (snd (alloc s)) p i = 0"
    and alloc_other: "frames s xs \<Longrightarrow> page_aligned q \<Longrightarrow> q \<noteq> fst (alloc s) \<Longrightarrow> i < PAGE_SIZE \<Longrightarrow>
      byte (snd (alloc s)) q i = byte s q i"
    and free_push: "frames s xs \<Longrightarrow> page_aligned p \<Longrightarrow> p \<noteq> 0 \<Longrightarrow> p \<notin> set xs \<Longrightarrow>
      frames (free p s) (p # xs)"
    and free_other: "frames s xs \<Longrightarrow> page_aligned p \<Longrightarrow> p \<noteq> 0 \<Longrightarrow> p \<notin> set xs \<Longrightarrow> page_aligned q \<Longrightarrow>
      q \<noteq> p \<Longrightarrow> i < PAGE_SIZE \<Longrightarrow> byte (free p s) q i = byte s q i"
begin

lemma alloc_fails_iff: "frames s xs \<Longrightarrow> fst (alloc s) = 0 \<longleftrightarrow> xs = []"
  using alloc_empty alloc_pop frames_wf by (cases xs) fastforce+

lemma alloc_hd: "frames s xs \<Longrightarrow> fst (alloc s) \<noteq> 0 \<Longrightarrow> xs = fst (alloc s) # tl xs"
  using alloc_empty alloc_pop by (cases xs) auto

lemma alloc_frames: "frames s xs \<Longrightarrow> frames (snd (alloc s)) (tl xs)"
  using alloc_empty alloc_pop by (cases xs) auto

text \<open>A frame in use is never handed out again.\<close>

lemma alloc_fresh:
  "frames s xs \<Longrightarrow> set xs \<inter> used = {} \<Longrightarrow> fst (alloc s) \<noteq> 0 \<Longrightarrow>
   fst (alloc s) \<notin> used \<and> page_aligned (fst (alloc s)) \<and> set (tl xs) \<inter> insert (fst (alloc s)) used = {}"
  using alloc_pop frames_wf alloc_empty by (cases xs) fastforce+

text \<open>Freeing what was just allocated restores the stack.\<close>

lemma free_alloc:
  assumes "frames s xs" "fst (alloc s) \<noteq> 0"
  shows "frames (free (fst (alloc s)) (snd (alloc s))) xs"
proof -
  obtain p ps where xs: "xs = p # ps"
    using alloc_hd [OF assms] by blast
  then have p: "fst (alloc s) = p" "frames (snd (alloc s)) ps"
    using alloc_pop assms(1) by blast+
  then show ?thesis
    using free_push [OF p(2), of p] frames_wf [OF assms(1)] by (simp add: xs)
qed

end

definition frame_byte :: "'a phys_scheme \<Rightarrow> u64 \<Rightarrow> u64 \<Rightarrow> u8" where
  "frame_byte s p i = mem s (phys_to_virt s p + i)"

lemma frame_byte_same_page:
  assumes "same_page (mem t) (mem s) (phys_to_virt s p)" "hhdm t = hhdm s" "i < PAGE_SIZE"
  shows "frame_byte t p i = frame_byte s p i"
  using assms in_page_add [OF assms(3)] by (simp add: frame_byte_def same_page_def phys_to_virt_def)

interpretation pmm: frame_allocator pmm_alloc_page pmm_free_page free_frames frame_byte
proof
  fix s :: "'a phys_scheme" and xs ps p q i
  show "free_frames s xs \<Longrightarrow> distinct xs \<and> (\<forall>p \<in> set xs. page_aligned p \<and> p \<noteq> 0)"
    by (simp add: free_frames_def)
  show "free_frames s [] \<Longrightarrow>
      fst (pmm_alloc_page s) = 0 \<and> free_frames (snd (pmm_alloc_page s)) []"
    by (simp add: pmm_alloc_Nil)
  show "free_frames s (p # ps) \<Longrightarrow>
      fst (pmm_alloc_page s) = p \<and> free_frames (snd (pmm_alloc_page s)) ps"
    by (simp add: pmm_alloc_Cons)
  show "free_frames s (p # ps) \<Longrightarrow> i < PAGE_SIZE \<Longrightarrow>
      frame_byte (snd (pmm_alloc_page s)) p i = 0"
    by (simp add: frame_byte_def pmm_alloc_Cons phys_to_virt_def memset_page in_page_add)
  show "free_frames s xs \<Longrightarrow> page_aligned q \<Longrightarrow> q \<noteq> fst (pmm_alloc_page s) \<Longrightarrow> i < PAGE_SIZE \<Longrightarrow>
      frame_byte (snd (pmm_alloc_page s)) q i = frame_byte s q i"
    using free_frames_aligned [of s xs "hd xs"]
    by (intro frame_byte_same_page; cases xs)
      (auto simp: pmm_alloc_Nil pmm_alloc_Cons phys_to_virt_def same_page_memset_other)
  show "free_frames s xs \<Longrightarrow> page_aligned p \<Longrightarrow> p \<noteq> 0 \<Longrightarrow> p \<notin> set xs \<Longrightarrow>
      free_frames (pmm_free_page p s) (p # xs)"
    by (rule pmm_free_Cons)
  show "free_frames s xs \<Longrightarrow> page_aligned p \<Longrightarrow> p \<noteq> 0 \<Longrightarrow> p \<notin> set xs \<Longrightarrow> page_aligned q \<Longrightarrow>
      q \<noteq> p \<Longrightarrow> i < PAGE_SIZE \<Longrightarrow> frame_byte (pmm_free_page p s) q i = frame_byte s q i"
    using same_page_write64_other [of p q 0 "mem s" "hhdm s" "free_head s"]
    by (intro frame_byte_same_page) (auto simp: pmm_free_Cons phys_to_virt_def)
qed

section \<open>Boot and runs\<close>

text \<open>The memory map as the bootloader gives it: usable regions in order and apart.\<close>

definition memmap_ok :: "memmap_entry list \<Rightarrow> bool" where
  "memmap_ok es \<longleftrightarrow> (\<forall>e \<in> set es. usable_ok e) \<and>
     sorted_wrt (\<lambda>e f. me_type e = LIMINE_MEMMAP_USABLE \<longrightarrow> me_type f = LIMINE_MEMMAP_USABLE \<longrightarrow>
       unat (me_base e) + unat (me_length e) \<le> unat (me_base f)) es"

definition all_frames :: "memmap_entry list \<Rightarrow> u64 list" where
  "all_frames es = concat (map region_frames es)"

lemma frames_between_props:
  assumes "page_aligned a" "a \<noteq> 0"
  shows "distinct (frames_between a e)"
    "p \<in> set (frames_between a e) \<Longrightarrow>
      page_aligned p \<and> unat a \<le> unat p \<and> unat p + 4096 \<le> unat e"
proof -
  have nth: "unat (a + word_of_nat (4096 * i)) = unat a + 4096 * i"
    if "i < (unat e - unat a) div 4096" for i
  proof -
    have "unat a + 4096 * i + 4096 \<le> unat e"
      using that by linarith
    then show ?thesis
      using unat_u64_less [of e] by (simp add: unat_word_ariths unat_of_nat)
  qed
  have "inj_on (\<lambda>i. a + word_of_nat (4096 * i)) {0..<(unat e - unat a) div 4096}"
    using nth by (intro inj_onI) (metis add_left_cancel atLeastLessThan_iff nat_mult_eq_cancel_disj zero_neq_numeral)
  then show "distinct (frames_between a e)"
    using assms(2) by (simp add: frames_between_def distinct_map)
  assume "p \<in> set (frames_between a e)"
  then obtain i where i: "i < (unat e - unat a) div 4096" "p = a + word_of_nat (4096 * i)"
    using assms(2) by (auto simp: frames_between_def)
  then have "unat p = unat a + 4096 * i" "unat a + 4096 * i + 4096 \<le> unat e"
    using nth by simp_all
  then show "page_aligned p \<and> unat a \<le> unat p \<and> unat p + 4096 \<le> unat e"
    using assms(1) by (simp add: page_aligned_unat)
qed

lemma region_frames_props:
  assumes "usable_ok e"
  shows "distinct (region_frames e)"
    "p \<in> set (region_frames e) \<Longrightarrow> me_type e = LIMINE_MEMMAP_USABLE \<and> page_aligned p \<and> p \<noteq> 0 \<and>
      unat (me_base e) \<le> unat p \<and> unat p + 4096 \<le> unat (me_base e) + unat (me_length e)"
proof -
  have r: "page_aligned (me_base e)" "me_base e \<noteq> 0" "align_up (me_base e) PAGE_SIZE = me_base e"
    "unat (me_base e + me_length e) = unat (me_base e) + unat (me_length e)"
    if "me_type e = 0"
    using assms that by (auto simp: usable_ok_def align_up_aligned unat_word_ariths)
  show "distinct (region_frames e)"
    using r by (auto simp: region_frames_def frames_between_props)
  assume p: "p \<in> set (region_frames e)"
  then have u: "me_type e = 0" and pf: "p \<in> set (frames_between (me_base e) (me_base e + me_length e))"
    using r by (auto simp: region_frames_def split: if_splits)
  then have "page_aligned p \<and> unat (me_base e) \<le> unat p \<and>
      unat p + 4096 \<le> unat (me_base e) + unat (me_length e)"
    using frames_between_props(2) [OF r(1,2) pf] r(4) by simp
  moreover from this have "p \<noteq> 0"
    using r(2) [OF u] by (metis le_zero_eq unat_0 unat_eq_0)
  ultimately show "me_type e = LIMINE_MEMMAP_USABLE \<and> page_aligned p \<and> p \<noteq> 0 \<and>
      unat (me_base e) \<le> unat p \<and> unat p + 4096 \<le> unat (me_base e) + unat (me_length e)"
    using u by simp
qed

lemma all_frames_props:
  assumes "memmap_ok es"
  shows "distinct (all_frames es)" "\<forall>p \<in> set (all_frames es). page_aligned p \<and> p \<noteq> 0"
proof -
  show "\<forall>p \<in> set (all_frames es). page_aligned p \<and> p \<noteq> 0"
    using assms region_frames_props(2) by (fastforce simp: all_frames_def memmap_ok_def)
  show "distinct (all_frames es)"
    using assms
  proof (induction es)
    case Nil
    then show ?case by (simp add: all_frames_def)
  next
    case (Cons e es)
    then have e: "usable_ok e" and es: "memmap_ok es"
      by (auto simp: memmap_ok_def)
    have "p \<notin> set (all_frames es)" if "p \<in> set (region_frames e)" for p
    proof
      assume "p \<in> set (all_frames es)"
      then obtain f where "f \<in> set es" "p \<in> set (region_frames f)"
        by (auto simp: all_frames_def)
      with that Cons.prems show False
        using region_frames_props(2) [OF e that] region_frames_props(2) [of f p]
        by (fastforce simp: memmap_ok_def)
    qed
    then show ?case
      using Cons.IH [OF es] region_frames_props(1) [OF e] by (auto simp: all_frames_def)
  qed
qed

lemma mm_init_free_frames:
  assumes "memmap_ok es"
  shows "free_frames (mm_init es h s) (all_frames es)"
proof -
  have "future_frames (mm_init es h s) = all_frames es"
    by (simp add: mm_init_def future_frames_def frames_between_def all_frames_def)
  moreover have "bump_ok (mm_init es h s)" "chain (mem (mm_init es h s)) h (free_head (mm_init es h s)) []"
    by (simp_all add: mm_init_def bump_ok_def page_aligned_def)
  moreover have "\<forall>e \<in> set (memmap (mm_init es h s)). usable_ok e"
    using assms by (simp add: mm_init_def memmap_ok_def)
  moreover have "hhdm (mm_init es h s) = h"
    by (simp add: mm_init_def)
  ultimately show ?thesis
    using all_frames_props [OF assms] unfolding free_frames_def by auto
qed

text \<open>
  The runs of the allocator, with the frames the kernel holds: it may allocate, free a frame
  it holds, and write what it likes to the frames that are not free.
\<close>

inductive pmm_run :: "memmap_entry list \<Rightarrow> 'a phys_scheme \<Rightarrow> u64 set \<Rightarrow> bool" for es where
  boot: "pmm_run es (mm_init es h s) {}"
| alloc: "pmm_run es s held \<Longrightarrow> pmm_alloc_page s = (p, t) \<Longrightarrow> p \<noteq> 0 \<Longrightarrow> pmm_run es t (insert p held)"
| fail: "pmm_run es s held \<Longrightarrow> pmm_alloc_page s = (0, t) \<Longrightarrow> pmm_run es t held"
| free: "pmm_run es s held \<Longrightarrow> p \<in> held \<Longrightarrow> pmm_run es (pmm_free_page p s) (held - {p})"
| store: "pmm_run es s held \<Longrightarrow>
    (\<And>p. p \<in> set (all_frames es) - held \<Longrightarrow> same_page (mem s) m (phys_to_virt s p)) \<Longrightarrow>
    pmm_run es (s\<lparr>mem := m\<rparr>) held"

lemma pmm_run_inv:
  assumes "memmap_ok es" "pmm_run es s held"
  shows "\<exists>xs. free_frames s xs \<and> set xs \<inter> held = {} \<and> set xs \<union> held = set (all_frames es)"
  using assms(2)
proof (induction rule: pmm_run.induct)
  case (boot h s)
  then show ?case
    using mm_init_free_frames [OF assms(1)] by auto
next
  case (alloc s held p t)
  then obtain xs where xs: "free_frames s xs" "set xs \<inter> held = {}" "set xs \<union> held = set (all_frames es)"
    by blast
  with alloc.hyps have "xs = p # tl xs" "free_frames t (tl xs)"
    using pmm.alloc_hd [OF xs(1)] pmm.alloc_frames [OF xs(1)] by simp_all
  moreover from this have "p \<notin> set (tl xs)"
    using free_frames_distinct [OF xs(1)] by (metis distinct.simps(2))
  moreover have "set xs = insert p (set (tl xs))"
    using \<open>xs = p # tl xs\<close> by (metis list.simps(15))
  ultimately show ?case
    using xs by (intro exI [of _ "tl xs"]) auto
next
  case (fail s held t)
  then obtain xs where xs: "free_frames s xs" "set xs \<inter> held = {}" "set xs \<union> held = set (all_frames es)"
    by blast
  with fail.hyps show ?case
    using pmm.alloc_fails_iff [OF xs(1)] pmm.alloc_frames [OF xs(1)] by (intro exI [of _ xs]) simp
next
  case (free s held p)
  then obtain xs where xs: "free_frames s xs" "set xs \<inter> held = {}" "set xs \<union> held = set (all_frames es)"
    by blast
  with free.hyps have "page_aligned p" "p \<noteq> 0" "p \<notin> set xs"
    using all_frames_props(2) [OF assms(1)] by auto
  with xs free.hyps show ?case
    using pmm.free_push [OF xs(1)] by (intro exI [of _ "p # xs"]) auto
next
  case (store s held m)
  then obtain xs where xs: "free_frames s xs" "set xs \<inter> held = {}" "set xs \<union> held = set (all_frames es)"
    by blast
  with store.hyps show ?case
    by (intro exI [of _ xs]) (auto intro!: free_frames_mem)
qed

section \<open>Properties\<close>

text \<open>A machine with two free frames, for the witnesses.\<close>

definition two_frames :: "memmap_entry list" where
  "two_frames = [\<lparr>me_base = 0, me_length = 0x1000, me_type = 1\<rparr>,
     \<lparr>me_base = 0x1000, me_length = 0x2800, me_type = 0\<rparr>]"

definition two_frames_boot :: phys where
  "two_frames_boot = mm_init two_frames 0xffff800000000000
     \<lparr>mem = (\<lambda>_. 7), memmap = [], hhdm = 0, region_index = 0, next_phys = 0, region_end = 0, free_head = 0\<rparr>"

lemma two_frames_ok: "memmap_ok two_frames"
  by (simp add: memmap_ok_def two_frames_def usable_ok_def page_aligned_def)

lemma two_frames_all: "all_frames two_frames = [0x1000, 0x2000]"
  by (simp add: all_frames_def two_frames_def region_frames_def frames_between_def align_up_def upt_rec)

lemma two_frames_free: "free_frames two_frames_boot [0x1000, 0x2000]"
  using mm_init_free_frames [OF two_frames_ok] by (simp add: two_frames_boot_def two_frames_all)

text \<open>
  C1: \<^verbatim>\<open>pmm_alloc_page\<close> implements the abstract stack of free frames. When the stack is empty it
  returns 0 and stays empty; otherwise it returns exactly the top frame, page aligned and not
  null, filled with zeros, the stack loses just that frame, and every byte of every other
  frame keeps its value.
\<close>

theorem pmm_alloc_refines:
  assumes "free_frames s xs"
  shows "(case xs of
      [] \<Rightarrow> fst (pmm_alloc_page s) = 0 \<and> free_frames (snd (pmm_alloc_page s)) []
    | p # ps \<Rightarrow> fst (pmm_alloc_page s) = p \<and> p \<noteq> 0 \<and> page_aligned p \<and> p \<notin> set ps \<and>
        free_frames (snd (pmm_alloc_page s)) ps \<and>
        (\<forall>i < PAGE_SIZE. frame_byte (snd (pmm_alloc_page s)) p i = 0)) \<and>
    (\<forall>q i. page_aligned q \<and> q \<noteq> fst (pmm_alloc_page s) \<and> i < PAGE_SIZE \<longrightarrow>
      frame_byte (snd (pmm_alloc_page s)) q i = frame_byte s q i)"
proof (cases xs)
  case Nil
  then show ?thesis
    using assms pmm.alloc_empty [of s] pmm.alloc_other [OF assms] by auto
next
  case (Cons p ps)
  then have "free_frames s (p # ps)"
    using assms by simp
  note c = this pmm.frames_wf [OF this] pmm.alloc_pop [OF this] pmm.alloc_zero [OF this]
    pmm.alloc_other [OF this]
  show ?thesis
    unfolding Cons list.case using c by (intro conjI allI impI) auto
qed

theorem pmm_alloc_refines_witness:
  "fst (pmm_alloc_page two_frames_boot) = 0x1000 \<and>
   free_frames (snd (pmm_alloc_page two_frames_boot)) [0x2000] \<and>
   frame_byte (snd (pmm_alloc_page two_frames_boot)) 0x1000 5 = 0 \<and>
   frame_byte (snd (pmm_alloc_page two_frames_boot)) 0x2000 5 = 7"
  using pmm_alloc_refines [OF two_frames_free]
  by (simp add: page_aligned_def)
    (simp add: two_frames_boot_def mm_init_def frame_byte_def)

text \<open>
  A frame that is freed is the next one allocated, and by then it is zeroed: freeing a
  frame that is not free and allocating again returns that frame, restores the stack of free
  frames, keeps every other frame's bytes, and leaves no trace of the freed frame's contents.
\<close>

theorem pmm_free_then_alloc:
  assumes "free_frames s xs" "page_aligned p" "p \<noteq> 0" "p \<notin> set xs"
  shows "fst (pmm_alloc_page (pmm_free_page p s)) = p \<and>
    free_frames (snd (pmm_alloc_page (pmm_free_page p s))) xs \<and>
    (\<forall>q i. page_aligned q \<and> i < PAGE_SIZE \<longrightarrow>
      frame_byte (snd (pmm_alloc_page (pmm_free_page p s))) q i =
        (if q = p then 0 else frame_byte s q i))"
proof -
  note f = pmm.free_push [OF assms]
  have p: "fst (pmm_alloc_page (pmm_free_page p s)) = p"
    "free_frames (snd (pmm_alloc_page (pmm_free_page p s))) xs"
    using pmm.alloc_pop [OF f] by simp_all
  then show ?thesis
    using pmm.alloc_zero [OF f] pmm.alloc_other [OF f] pmm.free_other [OF assms] by auto
qed

theorem pmm_free_then_alloc_witness:
  "fst (pmm_alloc_page (pmm_free_page 0x5000 two_frames_boot)) = 0x5000 \<and>
   frame_byte (snd (pmm_alloc_page (pmm_free_page 0x5000 two_frames_boot))) 0x5000 9 = 0"
  using pmm_free_then_alloc [OF two_frames_free, where p = "0x5000"] by (simp add: page_aligned_def)

text \<open>
  C2: no run of the allocator loses a frame or hands one out twice. From boot with a memory
  map the bootloader's protocol allows, through any sequence of allocations, failed
  allocations, frees of held frames and stores outside the free frames, the free frames and
  the held frames stay disjoint and together are exactly the frames of the usable regions;
  an allocation never returns a held frame, and fails only when all of them are held.
\<close>

theorem pmm_run_partition:
  assumes "memmap_ok es" "pmm_run es s held"
  shows "\<exists>xs. free_frames s xs \<and> set xs \<inter> held = {} \<and> set xs \<union> held = set (all_frames es) \<and>
    fst (pmm_alloc_page s) \<notin> held \<and>
    (fst (pmm_alloc_page s) = 0 \<longleftrightarrow> held = set (all_frames es))"
proof -
  obtain xs where xs: "free_frames s xs" "set xs \<inter> held = {}" "set xs \<union> held = set (all_frames es)"
    using pmm_run_inv [OF assms] by blast
  have "0 \<notin> held"
    using xs(3) all_frames_props(2) [OF assms(1)] by blast
  then have "fst (pmm_alloc_page s) \<notin> held"
    using pmm.alloc_fresh [OF xs(1,2)] by metis
  moreover have "held = set (all_frames es) \<longleftrightarrow> xs = []"
    using xs(2,3) by (metis Int_absorb2 Un_empty_left empty_set set_empty sup_ge1)
  ultimately show ?thesis
    using xs pmm.alloc_fails_iff [OF xs(1)] by auto
qed

lemma two_frames_run: "pmm_run two_frames two_frames_boot {}"
  unfolding two_frames_boot_def by (rule pmm_run.boot)

theorem pmm_run_partition_witness:
  "\<exists>xs. free_frames two_frames_boot xs \<and> set xs \<union> {} = {0x1000, 0x2000} \<and>
    fst (pmm_alloc_page two_frames_boot) \<noteq> 0"
  using pmm_run_partition [OF two_frames_ok two_frames_run] by (auto simp: two_frames_all)

end
