(* ===== verification/Vmm_Range.thy ===== *)
theory Vmm_Range
  imports Phys_Mem
begin

text \<open>
  The check of a range of user memory that every architecture makes: its length against the limit of
  the user half, then one check per page, from the first page of the range to its last. What a page
  must allow is a parameter; the architectures have their own.
\<close>

section \<open>The loop\<close>

text \<open>
  The loop stops at \<open>last_page\<close>. The fuel is the number of pages, which \<open>pages_ok_enough\<close> below
  shows is enough.
\<close>

fun pages_ok :: "(u64 \<Rightarrow> bool) \<Rightarrow> nat \<Rightarrow> u64 \<Rightarrow> u64 \<Rightarrow> bool option" where
  "pages_ok ok 0 page last_page = None"
| "pages_ok ok (Suc fuel) page last_page =
     (if \<not> ok page then Some False
      else if page = last_page then Some True
      else pages_ok ok fuel (page + PAGE_SIZE) last_page)"

definition span_ok :: "(u64 \<Rightarrow> bool) \<Rightarrow> u64 \<Rightarrow> u64 \<Rightarrow> u64 \<Rightarrow> bool" where
  "span_ok ok limit virt len \<longleftrightarrow>
     (if len = 0 then True
      else if virt > limit \<or> len - 1 > limit - virt then False
      else let last_page = (virt + len - 1) AND NOT (PAGE_SIZE - 1); page = virt AND NOT (PAGE_SIZE - 1)
           in pages_ok ok (Suc (unat (last_page - page) div 4096)) page last_page = Some True)"

section \<open>What it checks\<close>

text \<open>A check that gives the same for all addresses of a page.\<close>

locale page_check =
  fixes ok :: "u64 \<Rightarrow> bool"
  assumes ok_base: "ok (page_base a) = ok a"
begin

text \<open>The number of pages is enough fuel, and the walk checks every page of the range.\<close>

lemma pages_ok_enough:
  assumes "page_aligned page" "page_aligned last_page" "unat page + 4096 * n = unat last_page"
  shows "pages_ok ok (Suc n) page last_page =
    Some (\<forall>i \<le> n. ok (page + word_of_nat (4096 * i)))"
  using assms
proof (induction n arbitrary: page)
  case 0
  then show ?case
    by (simp add: pages_ok.simps(2) word_unat_eq_iff)
next
  case (Suc n)
  have "unat page + 4096 < 2 ^ 64"
    using Suc.prems(3) unat_u64_less [of last_page] by simp
  note nxt = unat_next_page [OF this] page_aligned_next [OF Suc.prems(1) this]
  have ne: "page \<noteq> last_page"
    using Suc.prems(3) by auto
  have all: "(\<forall>i \<le> Suc n. P i) \<longleftrightarrow> P 0 \<and> (\<forall>i \<le> n. P (Suc i))" for P
    by (metis Suc_le_mono le0 not0_implies_Suc)
  have "pages_ok ok (Suc n) (page + PAGE_SIZE) last_page =
      Some (\<forall>i \<le> n. ok (page + PAGE_SIZE + word_of_nat (4096 * i)))"
    using Suc.IH [of "page + PAGE_SIZE"] Suc.prems(2,3) nxt by simp
  then show ?case
    unfolding all by (subst pages_ok.simps(2)) (simp add: ne algebra_simps)
qed

lemma pages_ok_iff:
  fixes virt e :: u64
  assumes e: "unat e = unat virt + n - 1" and n: "0 < n"
  defines "page \<equiv> page_base virt" and "last_page \<equiv> page_base e"
  shows "pages_ok ok (Suc (unat (last_page - page) div 4096)) page last_page =
    Some (\<forall>a :: u64. unat virt \<le> unat a \<and> unat a < unat virt + n \<longrightarrow> ok a)"
proof -
  let ?v = "unat virt div 4096" and ?l = "unat e div 4096"
  have pb: "unat (page_base a) = 4096 * (unat a div 4096)" for a :: u64
    by (simp add: unat_page_base minus_mod_eq_mult_div)
  have vl: "?v \<le> ?l"
    using e n by (intro div_le_mono) simp
  have "page \<le> last_page"
    using vl by (simp add: page_def last_page_def word_le_nat_alt pb)
  then have cnt: "unat (last_page - page) div 4096 = ?l - ?v"
    by (simp add: unat_sub page_def last_page_def pb flip: diff_mult_distrib2)
  have "pages_ok ok (Suc (?l - ?v)) page last_page =
      Some (\<forall>i \<le> ?l - ?v. ok (page + word_of_nat (4096 * i)))"
    using vl by (intro pages_ok_enough) (simp_all add: page_def last_page_def pb)
  moreover have "(\<forall>i \<le> ?l - ?v. ok (page + word_of_nat (4096 * i))) \<longleftrightarrow>
      (\<forall>a :: u64. unat virt \<le> unat a \<and> unat a < unat virt + n \<longrightarrow> ok a)"
    (is "?P \<longleftrightarrow> ?Q")
  proof
    assume ?P
    show ?Q
    proof (intro allI impI)
      fix a :: u64 assume a: "unat virt \<le> unat a \<and> unat a < unat virt + n"
      then have k: "?v \<le> unat a div 4096" "unat a div 4096 \<le> ?l"
        using e by (auto intro!: div_le_mono)
      have "unat (page_base a) = unat page + 4096 * (unat a div 4096 - ?v)"
        using k by (simp add: pb page_def diff_mult_distrib2)
      then have "page_base a = page + word_of_nat (4096 * (unat a div 4096 - ?v))"
        using unat_u64_less [of "page_base a"] unat_add_of_nat_u64 [of page "4096 * (unat a div 4096 - ?v)"]
        by (simp add: word_unat_eq_iff)
      moreover have "unat a div 4096 - ?v \<le> ?l - ?v"
        using k by (intro diff_le_mono)
      ultimately show "ok a"
        using \<open>?P\<close> ok_base [of a] by metis
    qed
  next
    assume ?Q
    show ?P
    proof (intro allI impI)
      fix i assume i: "i \<le> ?l - ?v"
      define q where "q = page + word_of_nat (4096 * i)"
      have le: "4096 * (?v + i) \<le> unat e"
        using i vl by (simp add: less_eq_div_iff_mult_less_eq [symmetric] mult.commute)
      then have q: "unat q = 4096 * (?v + i)"
        using unat_u64_less [of e] unat_add_of_nat_u64 [of page "4096 * i"]
        by (simp add: q_def page_def pb algebra_simps)
      define a where "a = (if i = 0 then virt else q)"
      have "page_base a = q"
        using q by (simp add: a_def word_unat_eq_iff pb)
      moreover have "unat virt \<le> unat a \<and> unat a < unat virt + n"
      proof (cases "i = 0")
        case False
        have "unat virt < 4096 * (?v + i)"
          using False by (cases i) (auto simp: algebra_simps intro: less_le_trans [OF dividend_less_times_div])
        then show ?thesis
          using q e n le False by (simp add: a_def)
      qed (use n in \<open>simp add: a_def\<close>)
      ultimately show "ok q"
        using \<open>?Q\<close> ok_base [of a] by simp
    qed
  qed
  ultimately show ?thesis
    by (simp add: cnt)
qed

lemma span_ok_iff:
  "span_ok ok limit virt len \<longleftrightarrow>
     len = 0 \<or> unat virt + unat len \<le> unat limit + 1 \<and>
       (\<forall>a :: u64. unat virt \<le> unat a \<and> unat a < unat virt + unat len \<longrightarrow> ok a)"
proof (cases "len = 0")
  case True
  then show ?thesis
    by (simp add: span_ok_def)
next
  case False
  then have n: "0 < unat len"
    by (simp add: unat_gt_0)
  then have l1: "unat (len - 1) = unat len - 1"
    by (simp add: unat_minus_one unat_gt_0)
  have lim: "virt > limit \<or> len - 1 > limit - virt \<longleftrightarrow> unat limit + 1 < unat virt + unat len"
    using n l1 by (cases "virt > limit") (auto simp: word_le_nat_alt word_less_nat_alt unat_sub)
  show ?thesis
  proof (cases "unat limit + 1 < unat virt + unat len")
    case True
    then show ?thesis
      using lim False unfolding span_ok_def by (meson leD)
  next
    case b: False
    have e: "unat (virt + len - 1) = unat virt + unat len - 1"
      using b n l1 unat_add_of_nat_u64 [of virt "unat (len - 1)"] unat_u64_less [of limit] by (simp add: add_diff_eq)
    show ?thesis
      using pages_ok_iff [OF e n] False b lim unfolding span_ok_def Let_def page_base_def by simp
  qed
qed

end

end
