(* ===== verification/Vmm_X86.thy ===== *)
theory Vmm_X86
  imports Vmm_Range
begin

text \<open>
  The x86-64 address spaces of \<open>kernel/mm/mm.c\<close>: four-level page tables held in frames of the
  allocator, walked, extended, cloned and freed through the direct map, and the checks every
  access to user memory goes through. A \<^verbatim>\<open>struct address_space\<close> is its root, a frame address,
  0 when destroyed. \<open>cr3\<close> is the control register; TLB invalidation has no counterpart here,
  since the model has no TLB.
\<close>

section \<open>State and entries\<close>

record vmm = phys +
  cr3 :: u64
  current_space :: u64

abbreviation (input) PTE_PRESENT :: u64 where "PTE_PRESENT \<equiv> 0x1"
abbreviation (input) PTE_WRITE :: u64 where "PTE_WRITE \<equiv> 0x2"
abbreviation (input) PTE_USER :: u64 where "PTE_USER \<equiv> 0x4"
abbreviation (input) PTE_HUGE :: u64 where "PTE_HUGE \<equiv> 0x80"
abbreviation (input) ADDR_MASK :: u64 where "ADDR_MASK \<equiv> 0x000ffffffffff000"
abbreviation (input) VMM_WRITE :: u64 where "VMM_WRITE \<equiv> 0x2"
abbreviation (input) VMM_DEVICE :: u64 where "VMM_DEVICE \<equiv> 0x4"
abbreviation (input) USER_LIMIT :: u64 where "USER_LIMIT \<equiv> 0x00007fffffffffff"

text \<open>Loads and stores of a 64-bit word through a kernel pointer.\<close>

definition rd :: "'a phys_scheme \<Rightarrow> u64 \<Rightarrow> u64" where
  "rd s a = read64 (mem s) a"

definition wr :: "u64 \<Rightarrow> u64 \<Rightarrow> 'a phys_scheme \<Rightarrow> 'a phys_scheme" where
  "wr a v s = s\<lparr>mem := write64 (mem s) a v\<rparr>"

text \<open>The address of entry \<open>i\<close> of the table at \<open>table\<close>.\<close>

definition entry_at :: "u64 \<Rightarrow> u64 \<Rightarrow> u64" where
  "entry_at table i = table + 8 * i"

definition read_cr3 :: "'a vmm_scheme \<Rightarrow> u64" where
  "read_cr3 s = cr3 s AND ADDR_MASK"

section \<open>Walking the tables\<close>

text \<open>Pointers are returned as kernel addresses, with 0 for the null pointer.\<close>

definition next_table :: "u64 \<Rightarrow> u64 \<Rightarrow> bool \<Rightarrow> bool \<Rightarrow> 'a phys_scheme \<Rightarrow> u64 \<times> 'a phys_scheme" where
  "next_table table index create user s =
     (let entry = rd s (entry_at table index)
      in if entry AND PTE_PRESENT = 0
         then if \<not> create then (0, s)
              else let (frame, s) = pmm_alloc_page s
                   in if frame = 0 then (0, s)
                      else let bits = PTE_PRESENT OR PTE_WRITE;
                               bits = (if user then bits OR PTE_USER else bits);
                               s = wr (entry_at table index) (frame OR bits) s
                           in (phys_to_virt s frame, s)
         else if entry AND PTE_HUGE \<noteq> 0 then (0, s)
         else let s = (if user \<and> create then wr (entry_at table index) (entry OR PTE_USER) s else s)
              in (phys_to_virt s (entry AND ADDR_MASK), s))"

definition get_pte :: "u64 \<Rightarrow> u64 \<Rightarrow> bool \<Rightarrow> bool \<Rightarrow> 'a phys_scheme \<Rightarrow> u64 \<times> 'a phys_scheme" where
  "get_pte root virt create user s =
     (let pml4 = phys_to_virt s root;
          i4 = drop_bit 39 virt AND 0x1ff;
          i3 = drop_bit 30 virt AND 0x1ff;
          i2 = drop_bit 21 virt AND 0x1ff;
          i1 = drop_bit 12 virt AND 0x1ff;
          (pdpt, s) = next_table pml4 i4 create user s
      in if pdpt = 0 then (0, s)
         else let (pd, s) = next_table pdpt i3 create user s
              in if pd = 0 then (0, s)
                 else let (pt, s) = next_table pd i2 create user s
                      in if pt = 0 then (0, s) else (entry_at pt i1, s))"

text \<open>The C functions return 0 for success and -1 for failure.\<close>

definition vmm_map :: "u64 \<Rightarrow> u64 \<Rightarrow> u64 \<Rightarrow> u64 \<Rightarrow> bool \<Rightarrow> 'a phys_scheme \<Rightarrow> int \<times> 'a phys_scheme" where
  "vmm_map root virt frame flags user s =
     (let (pte, s) = get_pte root virt True user s
      in if pte = 0 then (-1, s)
         else let bits = PTE_PRESENT;
                  bits = (if user then bits OR PTE_USER else bits);
                  bits = (if flags AND VMM_WRITE \<noteq> 0 then bits OR PTE_WRITE else bits)
              in (0, wr pte ((frame AND ADDR_MASK) OR bits) s))"

definition vmm_map_user :: "u64 \<Rightarrow> u64 \<Rightarrow> u64 \<Rightarrow> u64 \<Rightarrow> 'a phys_scheme \<Rightarrow> int \<times> 'a phys_scheme" where
  "vmm_map_user root virt frame flags s = vmm_map root virt frame flags True s"

definition vmm_map_kernel :: "u64 \<Rightarrow> u64 \<Rightarrow> u64 \<Rightarrow> 'a vmm_scheme \<Rightarrow> int \<times> 'a vmm_scheme" where
  "vmm_map_kernel virt frame flags s = vmm_map (read_cr3 s) virt frame flags False s"

text \<open>Returns the frame that was mapped, 0 when there was none.\<close>

definition vmm_unmap_kernel :: "u64 \<Rightarrow> 'a vmm_scheme \<Rightarrow> u64 \<times> 'a vmm_scheme" where
  "vmm_unmap_kernel virt s =
     (let (pte, s) = get_pte (read_cr3 s) virt False False s
      in if pte = 0 \<or> rd s pte AND PTE_PRESENT = 0 then (0, s)
         else (rd s pte AND ADDR_MASK, wr pte 0 s))"

definition vmm_kernel_window :: "'a vmm_scheme \<Rightarrow> (u64 \<times> u64) \<times> 'a vmm_scheme" where
  "vmm_kernel_window s =
     (let base = 0xffffe00000000000; size = push_bit 39 1
      in ((base, size),
          snd (next_table (phys_to_virt s (read_cr3 s)) (drop_bit 39 base AND 0x1ff) True False s)))"

definition vmm_protect_user :: "u64 \<Rightarrow> u64 \<Rightarrow> u64 \<Rightarrow> 'a phys_scheme \<Rightarrow> int \<times> 'a phys_scheme" where
  "vmm_protect_user root virt flags s =
     (let (pte, s) = get_pte root virt False False s
      in if pte = 0 \<or> rd s pte AND PTE_PRESENT = 0 \<or> rd s pte AND PTE_USER = 0 then (-1, s)
         else (0, if flags AND VMM_WRITE \<noteq> 0 then wr pte (rd s pte OR PTE_WRITE) s
                  else wr pte (rd s pte AND NOT PTE_WRITE) s))"

definition vmm_unmap_user :: "u64 \<Rightarrow> u64 \<Rightarrow> 'a phys_scheme \<Rightarrow> int \<times> 'a phys_scheme" where
  "vmm_unmap_user root virt s =
     (let (pte, s) = get_pte root virt False False s
      in if pte = 0 \<or> rd s pte AND PTE_PRESENT = 0 \<or> rd s pte AND PTE_USER = 0 then (-1, s)
         else let frame = rd s pte AND ADDR_MASK;
                  s = wr pte 0 s
              in (0, pmm_free_page frame s))"

definition vmm_user_phys :: "u64 \<Rightarrow> u64 \<Rightarrow> 'a phys_scheme \<Rightarrow> u64" where
  "vmm_user_phys root virt s =
     (let (pte, s) = get_pte root virt False False s
      in if pte = 0 \<or> rd s pte AND PTE_PRESENT = 0 \<or> rd s pte AND PTE_USER = 0 then 0
         else (rd s pte AND ADDR_MASK) OR (virt AND (PAGE_SIZE - 1)))"

text \<open>
  \<^verbatim>\<open>vmm_user_range_ok\<close>: the walk over the pages of the range. The loop stops at \<open>last\<close>; the
  fuel is the number of pages, which \<open>pages_ok_enough\<close> shows is enough.
\<close>

fun range_walk :: "nat \<Rightarrow> u64 \<Rightarrow> u64 \<Rightarrow> u64 \<Rightarrow> bool \<Rightarrow> 'a phys_scheme \<Rightarrow> bool option" where
  "range_walk 0 root page last_page wr_access s = None"
| "range_walk (Suc fuel) root page last_page wr_access s =
     (let (pte, s) = get_pte root page False False s
      in if pte = 0 \<or> rd s pte AND PTE_PRESENT = 0 \<or> rd s pte AND PTE_USER = 0 then Some False
         else if wr_access \<and> rd s pte AND PTE_WRITE = 0 then Some False
         else if page = last_page then Some True
         else range_walk fuel root (page + PAGE_SIZE) last_page wr_access s)"

definition vmm_user_range_ok :: "u64 \<Rightarrow> u64 \<Rightarrow> u64 \<Rightarrow> bool \<Rightarrow> 'a phys_scheme \<Rightarrow> bool" where
  "vmm_user_range_ok root virt len wr_access s =
     (if len = 0 then True
      else if virt > USER_LIMIT then False
      else if len - 1 > USER_LIMIT - virt then False
      else let end_addr = virt + len - 1;
               page = virt AND NOT (PAGE_SIZE - 1);
               last_page = end_addr AND NOT (PAGE_SIZE - 1)
           in range_walk (Suc (unat (last_page - page) div 4096)) root page last_page wr_access s = Some True)"

section \<open>Address spaces\<close>

text \<open>\<^verbatim>\<open>vmm_space_create\<close>: the new root, or None for -1.\<close>

definition vmm_space_create :: "'a vmm_scheme \<Rightarrow> u64 option \<times> 'a vmm_scheme" where
  "vmm_space_create s =
     (let (root, s) = pmm_alloc_page s
      in if root = 0 then (None, s)
         else let dst = phys_to_virt s root; src = phys_to_virt s (read_cr3 s)
              in (Some root,
                  fold (\<lambda>i s. wr (entry_at dst (word_of_nat i)) (rd s (entry_at src (word_of_nat i))) s)
                    [256..<512] s))"

text \<open>
  \<^verbatim>\<open>clone_table\<close>: \<open>clone_entries level dst src i\<close> is its loop from entry \<open>i\<close> on, over the tables
  at the kernel addresses \<open>dst\<close> and \<open>src\<close>. Every call has \<open>level \<ge> 1\<close>.
\<close>

function clone_entries :: "nat \<Rightarrow> u64 \<Rightarrow> u64 \<Rightarrow> nat \<Rightarrow> 'a phys_scheme \<Rightarrow> int \<times> 'a phys_scheme" where
  "clone_entries level dst src i s =
     (if i < 512
      then let entry = rd s (entry_at src (word_of_nat i))
           in if entry AND PTE_PRESENT = 0 then clone_entries level dst src (Suc i) s
              else let (page, s) = pmm_alloc_page s
                   in if page = 0 then (-1, s)
                      else let s = wr (entry_at dst (word_of_nat i)) (page OR (entry AND NOT ADDR_MASK)) s
                           in if level \<le> 1 \<or> entry AND PTE_HUGE \<noteq> 0
                              then clone_entries level dst src (Suc i)
                                     (s\<lparr>mem := memcpy (mem s) (phys_to_virt s page)
                                        (phys_to_virt s (entry AND ADDR_MASK)) 4096\<rparr>)
                              else let (r, s) = clone_entries (level - 1) (phys_to_virt s page)
                                       (phys_to_virt s (entry AND ADDR_MASK)) 0 s
                                   in if r \<noteq> 0 then (-1, s) else clone_entries level dst src (Suc i) s
      else (0, s))"
  by pat_completeness auto
termination
  by (relation "measures [\<lambda>(level, dst, src, i, s). level, \<lambda>(level, dst, src, i, s). 512 - i]") auto

declare clone_entries.simps [simp del]

definition clone_table :: "u64 \<Rightarrow> u64 \<Rightarrow> nat \<Rightarrow> 'a phys_scheme \<Rightarrow> int \<times> 'a phys_scheme" where
  "clone_table dst_phys src_phys level s =
     clone_entries level (phys_to_virt s dst_phys) (phys_to_virt s src_phys) 0 s"

text \<open>\<^verbatim>\<open>free_table\<close>, its loop from entry \<open>i\<close> on, then the table's own frame.\<close>

function free_entries :: "nat \<Rightarrow> u64 \<Rightarrow> nat \<Rightarrow> 'a phys_scheme \<Rightarrow> 'a phys_scheme" where
  "free_entries level frame i s =
     (if i < 512
      then let entry = rd s (entry_at (phys_to_virt s frame) (word_of_nat i))
           in if entry AND PTE_PRESENT = 0 then free_entries level frame (Suc i) s
              else let child = entry AND ADDR_MASK
                   in if level \<le> 1 \<or> entry AND PTE_HUGE \<noteq> 0
                      then free_entries level frame (Suc i) (pmm_free_page child s)
                      else free_entries level frame (Suc i) (free_entries (level - 1) child 0 s)
      else pmm_free_page frame s)"
  by pat_completeness auto
termination
  by (relation "measures [\<lambda>(level, frame, i, s). level, \<lambda>(level, frame, i, s). 512 - i]") auto

declare free_entries.simps [simp del]

definition free_table :: "u64 \<Rightarrow> nat \<Rightarrow> 'a phys_scheme \<Rightarrow> 'a phys_scheme" where
  "free_table frame level s = free_entries level frame 0 s"

text \<open>\<^verbatim>\<open>vmm_space_destroy\<close>: the root the structure is left with, and the state.\<close>

definition vmm_space_destroy :: "u64 \<Rightarrow> 'a vmm_scheme \<Rightarrow> u64 \<times> 'a vmm_scheme" where
  "vmm_space_destroy root s =
     (if root = 0 \<or> read_cr3 s = root then (root, s)
      else let s = fold (\<lambda>i s. let entry = rd s (entry_at (phys_to_virt s root) (word_of_nat i))
                               in if entry AND PTE_PRESENT \<noteq> 0
                                  then free_table (entry AND ADDR_MASK) 3 s else s)
                     [0..<256] s
           in (0, pmm_free_page root s))"

text \<open>The loop of \<^verbatim>\<open>vmm_space_clone\<close>; its failure is the C \<^verbatim>\<open>goto fail\<close>.\<close>

fun clone_user_half :: "u64 \<Rightarrow> u64 \<Rightarrow> nat list \<Rightarrow> 'a phys_scheme \<Rightarrow> bool \<times> 'a phys_scheme" where
  "clone_user_half to_tab from_tab [] s = (True, s)"
| "clone_user_half to_tab from_tab (i # is) s =
     (let entry = rd s (entry_at from_tab (word_of_nat i))
      in if entry AND PTE_PRESENT = 0 then clone_user_half to_tab from_tab is s
         else let (page, s) = pmm_alloc_page s
              in if page = 0 then (False, s)
                 else let s = wr (entry_at to_tab (word_of_nat i)) (page OR (entry AND NOT ADDR_MASK)) s;
                          (r, s) = clone_table page (entry AND ADDR_MASK) 3 s
                      in if r \<noteq> 0 then (False, s) else clone_user_half to_tab from_tab is s)"

definition vmm_space_clone :: "u64 \<Rightarrow> 'a vmm_scheme \<Rightarrow> u64 option \<times> 'a vmm_scheme" where
  "vmm_space_clone src_root s =
     (case vmm_space_create s of
        (None, s) \<Rightarrow> (None, s)
      | (Some dst_root, s) \<Rightarrow>
          let (ok, s) = clone_user_half (phys_to_virt s dst_root) (phys_to_virt s src_root) [0..<256] s
          in if ok then (Some dst_root, s) else (None, snd (vmm_space_destroy dst_root s)))"

definition vmm_space_activate :: "u64 \<Rightarrow> 'a vmm_scheme \<Rightarrow> 'a vmm_scheme" where
  "vmm_space_activate root s = s\<lparr>current_space := root, cr3 := root\<rparr>"

definition vmm_space_current :: "'a vmm_scheme \<Rightarrow> u64" where
  "vmm_space_current s = current_space s"

section \<open>The walk without creation\<close>

lemma next_table_ro [simp, narc_frame]: "snd (next_table table i False user s) = s"
  by (simp add: next_table_def Let_def)

lemma get_pte_ro [simp, narc_frame]: "snd (get_pte root virt False user s) = s"
  by (auto simp: get_pte_def Let_def split: prod.split)
    (metis next_table_ro snd_conv)+

lemma next_table_ro_user: "fst (next_table table i False u s) = fst (next_table table i False v s)"
  by (simp add: next_table_def Let_def)

text \<open>What a page of user memory allows: the meaning of the checks in the code.\<close>

definition page_access :: "u64 \<Rightarrow> u64 \<Rightarrow> bool \<Rightarrow> 'a phys_scheme \<Rightarrow> bool" where
  "page_access root virt wr_access s \<longleftrightarrow>
     (let pte = fst (get_pte root virt False False s)
      in pte \<noteq> 0 \<and> rd s pte AND PTE_PRESENT \<noteq> 0 \<and> rd s pte AND PTE_USER \<noteq> 0 \<and>
         (wr_access \<longrightarrow> rd s pte AND PTE_WRITE \<noteq> 0))"

lemma drop_bit_page_base: "12 \<le> n \<Longrightarrow> drop_bit n (page_base a) = drop_bit n a"
  by (rule bit_eqI) (auto simp: page_base_def mask_12 bit_simps dest: bit_imp_le_length)

lemma get_pte_page_base: "get_pte root (page_base a) create user s = get_pte root a create user s"
  by (simp add: get_pte_def drop_bit_page_base)

lemma page_access_base [simp]: "page_access root (page_base a) w s = page_access root a w s"
  by (simp add: page_access_def get_pte_page_base)

lemma vmm_user_phys_access:
  "vmm_user_phys root virt s =
     (if page_access root virt False s
      then (rd s (fst (get_pte root virt False False s)) AND ADDR_MASK) OR page_off virt else 0)"
  by (simp add: vmm_user_phys_def page_access_def Let_def page_off_def split_def)

lemma range_walk_Suc:
  "range_walk (Suc fuel) root page last_page w s =
     (if \<not> page_access root page w s then Some False
      else if page = last_page then Some True
      else range_walk fuel root (page + PAGE_SIZE) last_page w s)"
  by (auto simp: page_access_def Let_def split_def)

declare range_walk.simps [simp del]

text \<open>The walk is the loop of the other architectures, with the check of this one.\<close>

lemma range_walk_pages: "range_walk fuel root page last_page w s = pages_ok (\<lambda>a. page_access root a w s) fuel page last_page"
  by (induction fuel arbitrary: page) (simp_all add: range_walk_Suc range_walk.simps(1))

interpretation x86_pages: page_check "\<lambda>a. page_access root a w s" for root w s
  by unfold_locales simp

lemma vmm_user_range_ok_span:
  "vmm_user_range_ok root virt len w s \<longleftrightarrow> span_ok (\<lambda>a. page_access root a w s) USER_LIMIT virt len"
  by (simp add: vmm_user_range_ok_def span_ok_def range_walk_pages Let_def)

text \<open>The check as a whole: bytes of user memory only, every one of them accessible.\<close>

text \<open>
  C3: \<^verbatim>\<open>vmm_user_range_ok\<close> accepts a range exactly when it is empty, or lies below the user
  limit without wrapping around and every byte of it is on a page that is present, owned by the
  user and, for a write access, writable: no byte outside such pages ever passes the check, and
  no accessible range is refused.
\<close>

theorem vmm_user_range_ok_iff:
  "vmm_user_range_ok root virt len w s \<longleftrightarrow>
     len = 0 \<or> unat virt + unat len \<le> 0x800000000000 \<and>
       (\<forall>a :: u64. unat virt \<le> unat a \<and> unat a < unat virt + unat len \<longrightarrow> page_access root a w s)"
  using x86_pages.span_ok_iff [of root w s USER_LIMIT virt len] by (simp add: vmm_user_range_ok_span)

text \<open>One user page, writable, at 4 MiB; the page after it is read-only.\<close>

definition two_pages :: vmm where
  "two_pages =
     (let z = \<lparr>mem = (\<lambda>_. 0), memmap = [], hhdm = 0xffff800000000000, region_index = 0,
        next_phys = 0, region_end = 0, free_head = 0, cr3 = 0x1000, current_space = 0x1000\<rparr>
      in fold (\<lambda>(a, v). wr (phys_to_virt z a) v)
           [(0x1000, 0x2007), (0x2000, 0x3007), (0x3010, 0x4007), (0x4000, 0x5007), (0x4008, 0x6005)] z)"

lemma two_pages_access:
  "page_access 0x1000 0x400000 w two_pages"
  "page_access 0x1000 0x401000 w two_pages \<longleftrightarrow> \<not> w"
  by (simp_all add: page_access_def two_pages_def get_pte_def next_table_def
      entry_at_def rd_def wr_def phys_to_virt_def Let_def read64_write64_other)

lemma two_pages_run:
  "vmm_user_range_ok 0x1000 0x400ff0 0x20 w two_pages \<longleftrightarrow> \<not> w"
  by (simp add: vmm_user_range_ok_def range_walk_Suc two_pages_access)

theorem vmm_user_range_ok_witness:
  "vmm_user_range_ok 0x1000 0x400ff0 0x20 False two_pages \<and>
   page_access 0x1000 0x40100f False two_pages \<and>
   \<not> vmm_user_range_ok 0x1000 0x400ff0 0x20 True two_pages"
proof -
  have "page_access 0x1000 0x40100f False two_pages"
    using vmm_user_range_ok_iff [of "0x1000" "0x400ff0" "0x20" False two_pages]
    by (simp add: two_pages_run)
  then show ?thesis
    by (simp add: two_pages_run)
qed

end
