(* ===== verification/Vmm_Tables.thy ===== *)
theory Vmm_Tables
  imports Vmm_X86 "HOL-Library.Sublist"
begin

text \<open>
  What the x86-64 page tables mean: a partial map from paths of four table indices to leaf
  entries. The tables of an address space are the frames reached by paths of at most three
  indices; \<open>pt_ok\<close> says that they are apart from each other and from the free frames. Mapping,
  protecting and unmapping a page are then single updates of the partial map.
\<close>

section \<open>Walks as paths\<close>

definition pt_step :: "'a phys_scheme \<Rightarrow> u64 \<Rightarrow> u64 \<Rightarrow> u64 option" where
  "pt_step s t i =
     (let e = rd s (entry_at (phys_to_virt s t) i)
      in if e AND PTE_PRESENT = 0 \<or> e AND PTE_HUGE \<noteq> 0 then None else Some (e AND ADDR_MASK))"

definition pt_walk :: "'a phys_scheme \<Rightarrow> u64 \<Rightarrow> u64 list \<Rightarrow> u64 option" where
  "pt_walk s root p = foldl (\<lambda>t i. Option.bind t (\<lambda>u. pt_step s u i)) (Some root) p"

lemma pt_walk_Nil [simp]: "pt_walk s root [] = Some root"
  by (simp add: pt_walk_def)

lemma pt_walk_snoc [simp]: "pt_walk s root (p @ [i]) = Option.bind (pt_walk s root p) (\<lambda>t. pt_step s t i)"
  by (simp add: pt_walk_def)

definition tpath :: "u64 list \<Rightarrow> bool" where
  "tpath p \<longleftrightarrow> length p \<le> 3 \<and> (\<forall>i \<in> set p. i < 512)"

lemma tpath_Nil [simp]: "tpath []"
  by (simp add: tpath_def)

lemma tpath_snoc [simp]: "tpath (p @ [i]) \<longleftrightarrow> tpath p \<and> length p < 3 \<and> i < 512"
  by (auto simp: tpath_def)

definition pt_ok :: "'a phys_scheme \<Rightarrow> u64 \<Rightarrow> u64 list \<Rightarrow> bool" where
  "pt_ok s root xs \<longleftrightarrow>
     free_frames s xs \<and> page_aligned (hhdm s) \<and> page_aligned root \<and>
     (\<forall>f \<in> set xs. f AND ADDR_MASK = f \<and> phys_to_virt s f \<noteq> 0) \<and>
     (\<forall>p t. tpath p \<longrightarrow> pt_walk s root p = Some t \<longrightarrow> t \<notin> set xs \<and> phys_to_virt s t \<noteq> 0) \<and>
     (\<forall>p q t. tpath p \<longrightarrow> tpath q \<longrightarrow> pt_walk s root p = Some t \<longrightarrow> pt_walk s root q = Some t \<longrightarrow> p = q)"

text \<open>The leaf entry at a path of four indices, and the path of an address.\<close>

definition pt_view :: "'a phys_scheme \<Rightarrow> u64 \<Rightarrow> u64 list \<Rightarrow> u64 option" where
  "pt_view s root p =
     (if length p = 4 \<and> (\<forall>i \<in> set p. i < 512)
      then case pt_walk s root (butlast p) of
             None \<Rightarrow> None
           | Some t \<Rightarrow> let e = rd s (entry_at (phys_to_virt s t) (last p))
                       in if e AND PTE_PRESENT = 0 then None else Some e
      else None)"

definition vpath :: "u64 \<Rightarrow> u64 list" where
  "vpath a = [drop_bit 39 a AND 0x1ff, drop_bit 30 a AND 0x1ff, drop_bit 21 a AND 0x1ff,
              drop_bit 12 a AND 0x1ff]"

lemma and_511_less [simp]: "(a :: u64) AND 0x1ff < 512"
proof -
  have "a AND 0x1ff = take_bit 9 a"
    by (simp add: take_bit_eq_mask mask_eq_exp_minus_1)
  moreover have "unat (take_bit 9 a) < 512"
    by (simp only: unsigned_take_bit_eq) (simp add: take_bit_eq_mod)
  ultimately show ?thesis
    by (simp only: word_less_nat_alt) simp
qed

lemma tpath_vpath [simp]: "tpath (butlast (vpath a))" "length (butlast (vpath a)) = 3" "last (vpath a) < 512"
  "length (vpath a) = 4" "i \<in> set (vpath a) \<Longrightarrow> i < 512"
  by (auto simp: vpath_def tpath_def)

lemma mask_aligned [simp]: "page_aligned (e AND ADDR_MASK)"
proof -
  have "(e AND ADDR_MASK) AND (PAGE_SIZE - 1) = e AND (ADDR_MASK AND (PAGE_SIZE - 1))"
    by (simp only: and.assoc)
  then show ?thesis
    by (simp add: page_aligned_def)
qed

lemma pt_step_aligned: "pt_step s t i = Some u \<Longrightarrow> page_aligned u"
  by (auto simp: pt_step_def Let_def split: if_splits)

lemma pt_walk_aligned: "page_aligned root \<Longrightarrow> pt_walk s root p = Some t \<Longrightarrow> page_aligned t"
  by (cases p rule: rev_cases) (auto simp: bind_eq_Some_conv dest: pt_step_aligned)

lemma pt_walk_cong:
  assumes "\<And>r j u. prefix (r @ [j]) q \<Longrightarrow> pt_walk s root r = Some u \<Longrightarrow> pt_step s' u j = pt_step s u j"
  shows "pt_walk s' root q = pt_walk s root q"
  using assms
proof (induction q rule: rev_induct)
  case (snoc j q)
  then have "pt_walk s' root q = pt_walk s root q"
    by (meson prefix_order.trans prefixI)
  then show ?case
    using snoc.prems [of q j] by (cases "pt_walk s root q") auto
qed simp

section \<open>Table entries in memory\<close>

lemma entry_offset: "i < 512 \<Longrightarrow> 8 * i \<le> (4088 :: u64)"
  by (simp add: word_le_nat_alt word_less_nat_alt unat_word_ariths)

lemma entry_apart:
  fixes i j :: u64
  assumes "i < 512" "j < 512" "i \<noteq> j"
  shows "8 \<le> 8 * i - 8 * j"
proof -
  have u: "unat (8 * i) = 8 * unat i" "unat (8 * j) = 8 * unat j"
    using assms by (simp_all add: word_less_nat_alt unat_word_ariths)
  have n: "unat i \<noteq> unat j"
    using assms(3) by (simp add: word_unat_eq_iff)
  show ?thesis
  proof (cases "j \<le> i")
    case True
    then show ?thesis
      using u n by (simp add: word_le_nat_alt unat_sub)
  next
    case False
    then have d: "unat (8 * j - 8 * i) = 8 * (unat j - unat i)" "unat i < unat j" "unat j < 512"
      using u assms(2) by (auto simp: unat_sub word_le_nat_alt word_less_nat_alt diff_mult_distrib2)
    have "(unat (8 * i - 8 * j) + unat (8 * j - 8 * i)) mod 18446744073709551616 = 0"
      using unat_word_ariths(1) [of "8 * i - 8 * j" "8 * j - 8 * i"] by simp
    then obtain k where "unat (8 * i - 8 * j) + 8 * (unat j - unat i) = 18446744073709551616 * k"
      unfolding d by (auto simp: dvd_def mod_eq_0_iff_dvd)
    then have "8 \<le> unat (8 * i - 8 * j)"
      using d by (cases k) auto
    then show ?thesis
      by (simp add: word_le_nat_alt)
  qed
qed

lemma rd_wr_same [simp]: "rd (wr a v s) a = v"
  by (simp add: rd_def wr_def)

lemma wr_frame [simp, narc_frame]:
  "hhdm (wr a v s) = hhdm s" "memmap (wr a v s) = memmap s" "phys.more (wr a v s) = phys.more s"
  "phys_to_virt (wr a v s) = phys_to_virt s"
  by (simp_all add: wr_def phys_to_virt_def fun_eq_iff)

lemma phys_to_virt_alloc [simp]: "phys_to_virt (snd (pmm_alloc_page s)) = phys_to_virt s"
  "phys_to_virt (pmm_free_page f s) = phys_to_virt s"
  by (simp_all add: phys_to_virt_def fun_eq_iff)

lemma rd_same_page:
  assumes "same_page (mem s') (mem s) (phys_to_virt s t)" "i < 512"
  shows "rd s' (entry_at (phys_to_virt s t) i) = rd s (entry_at (phys_to_virt s t) i)"
  using same_page_read64 [OF assms(1) entry_offset [OF assms(2)]] by (simp add: rd_def entry_at_def)

lemma rd_wr_other:
  assumes "page_aligned t" "page_aligned u" "i < 512" "j < 512" "(u, j) \<noteq> (t, i)"
  shows "rd (wr (entry_at (phys_to_virt s t) i) v s) (entry_at (phys_to_virt s u) j) =
    rd s (entry_at (phys_to_virt s u) j)"
proof (cases "u = t")
  case True
  then have "8 \<le> 8 * i - 8 * j" "8 \<le> 8 * j - 8 * i"
    using assms entry_apart by auto
  then show ?thesis
    using True by (simp add: rd_def wr_def entry_at_def read64_write64_other)
next
  case False
  then have "same_page (mem (wr (entry_at (phys_to_virt s t) i) v s)) (mem s) (phys_to_virt s u)"
    using assms same_page_write64_other [of t u "8 * i"] entry_offset [OF assms(3)]
    by (simp add: wr_def entry_at_def phys_to_virt_def)
  then show ?thesis
    using assms(4) by (rule rd_same_page)
qed

lemma wr_page_other:
  assumes "page_aligned t" "page_aligned u" "i < 512" "u \<noteq> t"
  shows "same_page (mem (wr (entry_at (phys_to_virt s t) i) v s)) (mem s) (phys_to_virt s u)"
  using assms same_page_write64_other [of t u "8 * i"] entry_offset [OF assms(3)]
  by (simp add: wr_def entry_at_def phys_to_virt_def)

lemma free_frames_wr:
  assumes "free_frames s xs" "page_aligned t" "t \<notin> set xs" "i < 512"
  shows "free_frames (wr (entry_at (phys_to_virt s t) i) v s) xs"
proof -
  have "same_page (mem s) (mem (wr (entry_at (phys_to_virt s t) i) v s)) (phys_to_virt s f)"
    if "f \<in> set xs" for f
  proof -
    have "f \<noteq> t"
      using that assms(3) by blast
    then show ?thesis
      using wr_page_other [of t f i s v] assms that free_frames_aligned [OF assms(1) that]
      by (simp add: same_page_def)
  qed
  then show ?thesis
    using free_frames_mem [OF assms(1)] by (simp add: wr_def)
qed


section \<open>Stores that keep the walks\<close>

lemma pt_okD:
  assumes "pt_ok s root xs"
  shows "free_frames s xs" "page_aligned (hhdm s)" "page_aligned root"
    "f \<in> set xs \<Longrightarrow> f AND ADDR_MASK = f" "f \<in> set xs \<Longrightarrow> phys_to_virt s f \<noteq> 0"
    "tpath p \<Longrightarrow> pt_walk s root p = Some t \<Longrightarrow> page_aligned t \<and> t \<notin> set xs \<and> phys_to_virt s t \<noteq> 0"
    "tpath p \<Longrightarrow> tpath q \<Longrightarrow> pt_walk s root p = Some t \<Longrightarrow> pt_walk s root q = Some t \<Longrightarrow> p = q"
  using assms pt_walk_aligned [of root s p t] unfolding pt_ok_def by blast+

lemma tpath_prefix: "prefix (r @ [j]) q \<Longrightarrow> tpath q \<Longrightarrow> tpath r \<and> j < 512 \<and> length r < 3"
  by (auto simp: prefix_def tpath_def)

text \<open>A store to one entry changes only the walks through that entry.\<close>

lemma rd_wr_path:
  assumes ok: "pt_ok s root xs" and p: "tpath p" "pt_walk s root p = Some t" "i < 512"
    and q: "tpath q" "pt_walk s root q = Some u" "j < 512" "q @ [j] \<noteq> p @ [i]"
  shows "rd (wr (entry_at (phys_to_virt s t) i) v s) (entry_at (phys_to_virt s u) j) =
    rd s (entry_at (phys_to_virt s u) j)"
  using pt_okD(6) [OF ok p(1,2)] pt_okD(6) [OF ok q(1,2)] p q pt_okD(7) [OF ok p(1) q(1) p(2)]
  by (intro rd_wr_other) auto

lemma pt_walk_wr:
  assumes ok: "pt_ok s root xs" and p: "tpath p" "pt_walk s root p = Some t" "i < 512"
    and q: "tpath q" "\<not> prefix (p @ [i]) q"
  shows "pt_walk (wr (entry_at (phys_to_virt s t) i) v s) root q = pt_walk s root q"
proof (rule pt_walk_cong)
  fix r j u assume r: "prefix (r @ [j]) q" "pt_walk s root r = Some u"
  then have "r @ [j] \<noteq> p @ [i]" "tpath r" "j < 512"
    using q tpath_prefix by auto
  then show "pt_step (wr (entry_at (phys_to_virt s t) i) v s) u j = pt_step s u j"
    using rd_wr_path [OF ok p _ r(2)] by (simp add: pt_step_def)
qed

text \<open>A store that leaves the walk through its entry as it was keeps all of them.\<close>

lemma pt_walk_wr_same:
  assumes ok: "pt_ok s root xs" and p: "tpath p" "pt_walk s root p = Some t" "i < 512"
    and q: "tpath q" and same: "pt_step (wr (entry_at (phys_to_virt s t) i) v s) t i = pt_step s t i"
  shows "pt_walk (wr (entry_at (phys_to_virt s t) i) v s) root q = pt_walk s root q"
proof (rule pt_walk_cong)
  fix r j u assume r: "prefix (r @ [j]) q" "pt_walk s root r = Some u"
  then have r': "tpath r" "j < 512"
    using q tpath_prefix by auto
  show "pt_step (wr (entry_at (phys_to_virt s t) i) v s) u j = pt_step s u j"
  proof (cases "r @ [j] = p @ [i]")
    case True
    then show ?thesis
      using r(2) p(2) same by simp
  next
    case False
    then show ?thesis
      using rd_wr_path [OF ok p r'(1) r(2) r'(2)] by (simp add: pt_step_def)
  qed
qed

lemma pt_ok_same_walks:
  assumes ok: "pt_ok s root xs" and free: "free_frames s' xs'" "set xs' \<subseteq> set xs" and h: "hhdm s' = hhdm s"
    and walk: "\<And>q. tpath q \<Longrightarrow> pt_walk s' root q = pt_walk s root q"
  shows "pt_ok s' root xs'"
proof -
  have v: "phys_to_virt s' = phys_to_virt s"
    using h by (simp add: phys_to_virt_def fun_eq_iff)
  show ?thesis
    unfolding pt_ok_def v h
  proof (intro conjI ballI allI impI)
    fix p q t assume p: "tpath p" "pt_walk s' root p = Some t" and q: "tpath q" "pt_walk s' root q = Some t"
    then show "p = q"
      using pt_okD(7) [OF ok p(1) q(1)] by (simp add: walk)
  next
    fix p t assume p: "tpath p" "pt_walk s' root p = Some t"
    then show "t \<notin> set xs'" "phys_to_virt s t \<noteq> 0"
      using pt_okD(6) [OF ok p(1)] free(2) by (auto simp: walk)
  qed (use free pt_okD(2-5) [OF ok] in auto)
qed

text \<open>Allocating a frame changes no table, and gives a table without entries.\<close>

lemma alloc_other_page:
  assumes "free_frames s xs" "page_aligned u" "u \<noteq> fst (pmm_alloc_page s)"
  shows "same_page (mem (snd (pmm_alloc_page s))) (mem s) (phys_to_virt s u)"
  unfolding same_page_def
proof (intro allI impI)
  fix a assume "in_page (phys_to_virt s u) a"
  then have "mem (snd (pmm_alloc_page s)) (phys_to_virt s u + (a - phys_to_virt s u)) =
      mem s (phys_to_virt s u + (a - phys_to_virt s u))"
    using pmm.alloc_other [OF assms, of "a - phys_to_virt s u"]
    by (simp add: frame_byte_def in_page_def)
  then show "mem (snd (pmm_alloc_page s)) a = mem s a"
    by simp
qed

lemma rd_alloc_other:
  assumes "free_frames s xs" "page_aligned u" "u \<noteq> fst (pmm_alloc_page s)" "j < 512"
  shows "rd (snd (pmm_alloc_page s)) (entry_at (phys_to_virt s u) j) = rd s (entry_at (phys_to_virt s u) j)"
  using rd_same_page [OF alloc_other_page [OF assms(1-3)] assms(4)] .

lemma rd_alloc_new:
  assumes "free_frames s (f # xs)" "j < 512"
  shows "rd (snd (pmm_alloc_page s)) (entry_at (phys_to_virt s f) j) = 0"
proof -
  have "same_page (mem (snd (pmm_alloc_page s))) (\<lambda>_. 0) (phys_to_virt s f)"
    using pmm.alloc_zero [OF assms(1)]
    by (auto simp: same_page_def in_page_def frame_byte_def) (metis add.commute diff_add_cancel)
  then show ?thesis
    using same_page_read64 [OF _ entry_offset [OF assms(2)]] by (simp add: rd_def entry_at_def)
qed

lemma pt_ok_alloc:
  assumes ok: "pt_ok s root xs"
  shows "pt_ok (snd (pmm_alloc_page s)) root (tl xs)"
    and "tpath q \<Longrightarrow> pt_walk (snd (pmm_alloc_page s)) root q = pt_walk s root q"
    and "tpath q \<Longrightarrow> pt_walk s root q = Some u \<Longrightarrow> j < 512 \<Longrightarrow>
      rd (snd (pmm_alloc_page s)) (entry_at (phys_to_virt s u) j) = rd s (entry_at (phys_to_virt s u) j)"
proof -
  note okD = pt_okD [OF ok]
  show keep: "rd (snd (pmm_alloc_page s)) (entry_at (phys_to_virt s u) j) = rd s (entry_at (phys_to_virt s u) j)"
    if "tpath q" "pt_walk s root q = Some u" "j < 512" for q u j
  proof (cases xs)
    case Nil
    then show ?thesis
      using okD(1) pmm_alloc_Nil(3) [of s] by (simp add: rd_def)
  next
    case (Cons f ys)
    then have "fst (pmm_alloc_page s) = f"
      using okD(1) pmm.alloc_pop by blast
    moreover have "u \<noteq> f" "page_aligned u"
      using okD(6) [OF that(1,2)] Cons by auto
    ultimately show ?thesis
      using rd_alloc_other [OF okD(1)] that(3) by simp
  qed
  show walk: "pt_walk (snd (pmm_alloc_page s)) root q = pt_walk s root q" if q: "tpath q" for q
  proof (rule pt_walk_cong)
    fix r j u assume r: "prefix (r @ [j]) q" "pt_walk s root r = Some u"
    then have "tpath r" "j < 512"
      using q tpath_prefix by auto
    then show "pt_step (snd (pmm_alloc_page s)) u j = pt_step s u j"
      using keep r(2) by (simp add: pt_step_def)
  qed
  have "set (tl xs) \<subseteq> set xs"
    by (cases xs) auto
  then show "pt_ok (snd (pmm_alloc_page s)) root (tl xs)"
    using walk by (intro pt_ok_same_walks [OF ok pmm.alloc_frames [OF okD(1)]]) simp_all
qed

section \<open>Reading the walk\<close>

lemma next_table_read:
  "next_table (phys_to_virt s t) i False user s =
    (case pt_step s t i of None \<Rightarrow> 0 | Some u \<Rightarrow> phys_to_virt s u, s)"
  by (simp add: next_table_def pt_step_def Let_def)

lemma entry_at_nonzero:
  assumes "pt_ok s root xs" "tpath p" "pt_walk s root p = Some t" "i < 512"
  shows "entry_at (phys_to_virt s t) i \<noteq> 0"
proof
  assume z: "entry_at (phys_to_virt s t) i = 0"
  note ok = pt_okD [OF assms(1)]
  have "page_aligned (phys_to_virt s t)"
    using ok(2) ok(6) [OF assms(2,3)] by (simp add: phys_to_virt_def page_aligned_unat unat_word_ariths dvd_mod_iff)
  moreover have "8 * i < PAGE_SIZE"
    using entry_offset [OF assms(4)] by (simp add: word_le_nat_alt word_less_nat_alt)
  ultimately have "phys_to_virt s t = page_base 0"
    using page_base_aligned_add z unfolding entry_at_def by metis
  then show False
    using ok(6) [OF assms(2,3)] by (simp add: page_base_def)
qed

lemma get_pte_read:
  assumes ok: "pt_ok s root xs"
  shows "fst (get_pte root a False user s) =
    (case pt_walk s root (butlast (vpath a)) of None \<Rightarrow> 0
     | Some t \<Rightarrow> entry_at (phys_to_virt s t) (last (vpath a)))"
proof -
  define i4 i3 i2 i1 where i: "i4 = drop_bit 39 a AND 0x1ff" "i3 = drop_bit 30 a AND 0x1ff"
    "i2 = drop_bit 21 a AND 0x1ff" "i1 = drop_bit 12 a AND 0x1ff"
  note fold_i = i [symmetric]
  have lt: "i4 < 512" "i3 < 512" "i2 < 512"
    by (simp_all add: i)
  have w: "pt_walk s root [i4] = pt_step s root i4"
    "pt_walk s root [i4, i3] = Option.bind (pt_walk s root [i4]) (\<lambda>t. pt_step s t i3)"
    "pt_walk s root [i4, i3, i2] = Option.bind (pt_walk s root [i4, i3]) (\<lambda>t. pt_step s t i2)"
    using pt_walk_snoc [of s root "[]" i4] pt_walk_snoc [of s root "[i4]" i3]
      pt_walk_snoc [of s root "[i4, i3]" i2] by simp_all
  have nz: "pt_walk s root p = Some u \<Longrightarrow> tpath p \<Longrightarrow> phys_to_virt s u \<noteq> 0" for p u
    using pt_okD(6) [OF ok] by blast
  have t: "tpath [i4]" "tpath [i4, i3]" "tpath [i4, i3, i2]"
    using lt by (simp_all add: tpath_def)
  note nz = nz [OF _ t(1)] nz [OF _ t(2)] nz [OF _ t(3)]
  have get: "fst (get_pte root a False user s) =
    (case pt_walk s root [i4, i3, i2] of None \<Rightarrow> 0 | Some t \<Rightarrow> entry_at (phys_to_virt s t) i1)"
  proof (cases "pt_step s root i4")
    case (Some u3)
    show ?thesis
    proof (cases "pt_step s u3 i3")
      case u2: (Some u2)
      show ?thesis
        using nz w Some u2
        by (cases "pt_step s u2 i2") (simp_all add: get_pte_def fold_i next_table_read)
    qed (use nz w Some in \<open>simp add: get_pte_def fold_i next_table_read\<close>)
  qed (use w in \<open>simp add: get_pte_def fold_i next_table_read\<close>)
  have "butlast (vpath a) = [i4, i3, i2]" "last (vpath a) = i1"
    by (simp_all add: vpath_def fold_i)
  then show ?thesis
    using get by (simp only:)
qed

section \<open>Growing the tables\<close>

text \<open>A huge page in the way of a path: the walk cannot be extended there.\<close>

definition huge_at :: "'a phys_scheme \<Rightarrow> u64 \<Rightarrow> u64 list \<Rightarrow> bool" where
  "huge_at s root q \<longleftrightarrow>
     (\<exists>p i t. q = p @ [i] \<and> tpath q \<and> pt_walk s root p = Some t \<and>
        rd s (entry_at (phys_to_virt s t) i) AND PTE_PRESENT \<noteq> 0 \<and>
        rd s (entry_at (phys_to_virt s t) i) AND PTE_HUGE \<noteq> 0)"

lemma huge_at_snoc:
  "pt_walk s root p = Some t \<Longrightarrow> huge_at s root (p @ [i]) \<longleftrightarrow> tpath (p @ [i]) \<and>
     rd s (entry_at (phys_to_virt s t) i) AND PTE_PRESENT \<noteq> 0 \<and>
     rd s (entry_at (phys_to_virt s t) i) AND PTE_HUGE \<noteq> 0"
  by (auto simp: huge_at_def)

text \<open>A frame that is neither a table nor free.\<close>

definition outside :: "'a phys_scheme \<Rightarrow> u64 \<Rightarrow> u64 list \<Rightarrow> u64 \<Rightarrow> bool" where
  "outside s root xs u \<longleftrightarrow> page_aligned u \<and> u \<noteq> 0 \<and> u \<notin> set xs \<and> (\<forall>q. tpath q \<longrightarrow> pt_walk s root q \<noteq> Some u)"

text \<open>What a store or an allocation leaves of such frames.\<close>

definition kept :: "'a phys_scheme \<Rightarrow> u64 \<Rightarrow> u64 list \<Rightarrow> 'a phys_scheme \<Rightarrow> u64 list \<Rightarrow> bool" where
  "kept s root xs s' xs' \<longleftrightarrow> set xs' \<subseteq> set xs \<and>
     (\<forall>u. outside s root xs u \<longrightarrow> outside s' root xs' u \<and> same_page (mem s') (mem s) (phys_to_virt s u))"

lemma keptD:
  "kept s root xs s' xs' \<Longrightarrow> set xs' \<subseteq> set xs"
  "kept s root xs s' xs' \<Longrightarrow> outside s root xs u \<Longrightarrow> outside s' root xs' u"
  "kept s root xs s' xs' \<Longrightarrow> outside s root xs u \<Longrightarrow> same_page (mem s') (mem s) (phys_to_virt s u)"
  unfolding kept_def by blast+

lemma kept_refl: "kept s root xs s xs"
  by (simp add: kept_def same_page_def)

lemma kept_trans:
  assumes "kept s root xs s' xs'" "kept s' root xs' s'' xs''" "phys_to_virt s' = phys_to_virt s"
  shows "kept s root xs s'' xs''"
  unfolding kept_def
proof (intro conjI allI impI)
  show "set xs'' \<subseteq> set xs"
    using keptD(1) [OF assms(1)] keptD(1) [OF assms(2)] by blast
  fix u assume u: "outside s root xs u"
  note u' = keptD(2) [OF assms(1) u]
  show "outside s'' root xs'' u"
    using keptD(2) [OF assms(2) u'] .
  show "same_page (mem s'') (mem s) (phys_to_virt s u)"
    using keptD(3) [OF assms(1) u] keptD(3) [OF assms(2) u'] assms(3) by (simp add: same_page_def)
qed

text \<open>
  \<open>pt_ext s root xs s' xs'\<close>: the tables of \<open>s'\<close> extend those of \<open>s\<close> into the free frames, with the
  leaf entries and all other frames as they were.
\<close>

definition pt_ext :: "'a phys_scheme \<Rightarrow> u64 \<Rightarrow> u64 list \<Rightarrow> 'a phys_scheme \<Rightarrow> u64 list \<Rightarrow> bool" where
  "pt_ext s root xs s' xs' \<longleftrightarrow>
     pt_ok s' root xs' \<and> hhdm s' = hhdm s \<and> phys.more s' = phys.more s \<and>
     (\<forall>q u. tpath q \<longrightarrow> pt_walk s root q = Some u \<longrightarrow> pt_walk s' root q = Some u) \<and>
     (\<forall>q. huge_at s' root q \<longrightarrow> huge_at s root q) \<and>
     pt_view s' root = pt_view s root \<and> kept s root xs s' xs'"

lemma pt_ext_refl: "pt_ok s root xs \<Longrightarrow> pt_ext s root xs s xs"
  by (simp add: pt_ext_def kept_refl)

lemma pt_ext_trans:
  assumes "pt_ext s root xs s' xs'" "pt_ext s' root xs' s'' xs''"
  shows "pt_ext s root xs s'' xs''"
proof -
  have h: "hhdm s' = hhdm s" and k: "kept s root xs s' xs'" "kept s' root xs' s'' xs''"
    using assms unfolding pt_ext_def by blast+
  have "phys_to_virt s' = phys_to_virt s"
    by (simp add: phys_to_virt_def fun_eq_iff h)
  note k' = kept_trans [OF k this]
  show ?thesis
    unfolding pt_ext_def
  proof (intro conjI allI impI k')
    show "pt_ok s'' root xs''"
      using assms(2) unfolding pt_ext_def by blast
  next
    fix q u assume "tpath q" "pt_walk s root q = Some u"
    then show "pt_walk s'' root q = Some u"
      using assms unfolding pt_ext_def by blast
  next
    fix q assume "huge_at s'' root q"
    then show "huge_at s root q"
      using assms unfolding pt_ext_def by blast
  qed (use assms in \<open>unfold pt_ext_def, metis+\<close>)
qed

lemma pt_extD:
  assumes "pt_ext s root xs s' xs'"
  shows "pt_ok s' root xs'" "phys_to_virt s' = phys_to_virt s" "phys.more s' = phys.more s"
    "tpath q \<Longrightarrow> pt_walk s root q = Some u \<Longrightarrow> pt_walk s' root q = Some u"
    "pt_view s' root = pt_view s root" "huge_at s' root q \<Longrightarrow> huge_at s root q"
    "kept s root xs s' xs'"
  using assms by (simp_all add: pt_ext_def phys_to_virt_def fun_eq_iff)

lemma path4:
  assumes "length q = 4" "\<forall>i \<in> set q. i < (512 :: u64)"
  shows "tpath (butlast q)" "length (butlast q) = 3" "last q < 512" "q = butlast q @ [last q]"
proof -
  have "q \<noteq> []"
    using assms(1) by auto
  then show "tpath (butlast q)" "length (butlast q) = 3" "last q < 512" "q = butlast q @ [last q]"
    using assms by (auto simp: tpath_def dest: in_set_butlastD)
qed

lemma pt_view_cong:
  assumes "phys_to_virt s' = phys_to_virt s"
    "\<And>q. tpath q \<Longrightarrow> length q = 3 \<Longrightarrow> pt_walk s' root q = pt_walk s root q"
    "\<And>q u j. tpath q \<Longrightarrow> length q = 3 \<Longrightarrow> pt_walk s root q = Some u \<Longrightarrow> j < 512 \<Longrightarrow>
      rd s' (entry_at (phys_to_virt s u) j) = rd s (entry_at (phys_to_virt s u) j)"
  shows "pt_view s' root = pt_view s root"
proof
  fix q show "pt_view s' root q = pt_view s root q"
  proof (cases "length q = 4 \<and> (\<forall>i \<in> set q. i < 512)")
    case True
    note q = path4 [OF conjunct1 [OF True] conjunct2 [OF True]]
    show ?thesis
      using True assms(1) assms(2) [OF q(1,2)] assms(3) [OF q(1,2) _ q(3)]
      by (auto simp: pt_view_def Let_def split: option.split)
  qed (auto simp: pt_view_def)
qed

lemma table_entry_bits:
  fixes f :: u64
  assumes "f AND ADDR_MASK = f" "b = 3 \<or> b = 7"
  shows "(f OR b) AND ADDR_MASK = f" "(f OR b) AND PTE_PRESENT \<noteq> 0" "(f OR b) AND PTE_HUGE = 0"
proof -
  have z: "f AND m = 0" if "ADDR_MASK AND m = 0" for m
  proof -
    have "f AND m = (f AND ADDR_MASK) AND m"
      by (simp only: assms(1))
    then show ?thesis
      by (simp only: and.assoc that) simp
  qed
  have d: "(f OR b) AND m = (f AND m) OR (b AND m)" for m
    by (simp only: bit.conj_disj_distrib2)
  show "(f OR b) AND ADDR_MASK = f"
    using assms(2) unfolding d assms(1) by auto
  have "(f OR b) AND PTE_PRESENT = 1" "(f OR b) AND PTE_HUGE = 0"
    unfolding d using assms(2) z [of 1] z [of 128] by auto
  then show "(f OR b) AND PTE_PRESENT \<noteq> 0" "(f OR b) AND PTE_HUGE = 0"
    by simp_all
qed

text \<open>A new table in an empty entry: exactly one more walk, to a table without entries.\<close>

lemma new_table:
  assumes ok: "pt_ok s root (f # ys)" and p: "tpath p" "length p < 3" "pt_walk s root p = Some t" "i < 512"
    and none: "rd s (entry_at (phys_to_virt s t) i) AND PTE_PRESENT = 0" and b: "b = 3 \<or> b = 7"
  defines "s' \<equiv> wr (entry_at (phys_to_virt s t) i) (f OR b) (snd (pmm_alloc_page s))"
  shows "pt_ext s root (f # ys) s' ys" "pt_walk s' root (p @ [i]) = Some f"
proof -
  let ?s1 = "snd (pmm_alloc_page s)"
  note okD = pt_okD [OF ok]
  have ok1: "pt_ok ?s1 root ys" and walk1: "\<And>q. tpath q \<Longrightarrow> pt_walk ?s1 root q = pt_walk s root q"
    using pt_ok_alloc [OF ok] by simp_all
  have f: "page_aligned f" "f \<noteq> t" "f \<notin> set ys" "phys_to_virt s f \<noteq> 0" "f AND ADDR_MASK = f"
    using okD(4,5) [of f] free_frames_aligned [OF okD(1)] okD(6) [OF p(1,3)] free_frames_distinct [OF okD(1)]
    by auto
  have t: "page_aligned t" "t \<notin> set ys"
    using okD(6) [OF p(1,3)] by auto
  have pv: "phys_to_virt s' = phys_to_virt s" "hhdm s' = hhdm s"
    by (simp_all add: s'_def)
  have rdf: "rd s' (entry_at (phys_to_virt s f) j) = 0" if "j < 512" for j
    using rd_wr_other [OF t(1) f(1) p(4) that, of ?s1] rd_alloc_new [OF okD(1) that] f(2)
    by (simp add: s'_def)
  have rdu: "rd s' (entry_at (phys_to_virt s u) j) = rd s (entry_at (phys_to_virt s u) j)"
    if "tpath q" "pt_walk s root q = Some u" "j < 512" "q @ [j] \<noteq> p @ [i]" for q u j
    using rd_wr_path [OF ok1 p(1) _ p(4) that(1) _ that(3,4), of t u] pt_ok_alloc(3) [OF ok that(1-3)]
      p(1,3) that(1,2) by (simp add: s'_def walk1)
  have rdt: "rd s' (entry_at (phys_to_virt s t) i) = f OR b"
    by (simp add: s'_def)
  have stepf: "pt_step s' f j = None" if "j < 512" for j
    using rdf [OF that] by (simp add: pt_step_def pv)
  have stept: "pt_step s' t i = Some f" "pt_step s t i = None"
    using table_entry_bits [OF f(5) b] none by (simp_all add: pt_step_def pv rdt)
  have walk: "pt_walk s' root q = (if q = p @ [i] then Some f else pt_walk s root q)" if "tpath q" for q
    using that
  proof (induction q rule: rev_induct)
    case (snoc j q)
    then have IH: "pt_walk s' root q = (if q = p @ [i] then Some f else pt_walk s root q)" "j < 512" "tpath q"
      by simp_all
    show ?case
    proof (cases "q = p @ [i]")
      case True
      then have "pt_walk s root q = None"
        using stept p(3) by simp
      then show ?thesis
        using True IH stepf [OF IH(2)] by (simp only: pt_walk_snoc) simp
    next
      case q: False
      show ?thesis
      proof (cases "q @ [j] = p @ [i]")
        case True
        then show ?thesis
          using IH q stept p(3) by simp
      next
        case False
        then have "pt_walk s' root (q @ [j]) = pt_walk s root (q @ [j])"
          using IH q rdu [OF IH(3) _ IH(2)] by (cases "pt_walk s root q") (auto simp: pt_step_def pv)
        then show ?thesis
          using False by (simp only: if_False)
      qed
    qed
  qed simp
  then show new: "pt_walk s' root (p @ [i]) = Some f"
    using p by (simp del: pt_walk_snoc)
  have old: "pt_walk s root (p @ [i]) = None"
    using stept p(3) by simp
  have free: "free_frames s' ys"
    using free_frames_wr [OF pt_okD(1) [OF ok1] t p(4)] by (simp add: s'_def)
  have "pt_ok s' root ys"
    unfolding pt_ok_def pv
  proof (intro conjI ballI allI impI)
    fix q r u assume q: "tpath q" "pt_walk s' root q = Some u" and r: "tpath r" "pt_walk s' root r = Some u"
    have "pt_walk s root q' = Some f \<Longrightarrow> tpath q' \<Longrightarrow> False" for q'
      using okD(6) [of q' f] by simp
    then show "q = r"
      using q(2) r(2) okD(7) [OF q(1) r(1)] q(1) r(1) unfolding walk [OF q(1)] walk [OF r(1)]
      by (simp split: if_splits) blast+
  next
    fix q u assume q: "tpath q" "pt_walk s' root q = Some u"
    then show "u \<notin> set ys" "phys_to_virt s u \<noteq> 0"
      using okD(6) [OF q(1), of u] f(3,4) by (auto simp: walk split: if_splits)
  qed (use free okD(2-5) in auto)
  moreover have "pt_view s' root = pt_view s root"
  proof
    fix q show "pt_view s' root q = pt_view s root q"
    proof (cases "length q = 4 \<and> (\<forall>i \<in> set q. i < 512)")
      case True
      note q = path4 [OF conjunct1 [OF True] conjunct2 [OF True]]
      have ne: "q \<noteq> p @ [i]" "butlast q @ [last q] \<noteq> p @ [i]"
        using True p(2) q(4) by auto
      show ?thesis
      proof (cases "butlast q = p @ [i]")
        case b: True
        then show ?thesis
          using True walk [OF q(1)] rdf [OF q(3)] old
          by (simp add: pt_view_def pv del: pt_walk_snoc)
      next
        case b: False
        then show ?thesis
          using walk [OF q(1)] rdu [OF q(1) _ q(3) ne(2)]
          by (auto simp: pt_view_def pv split: option.split)
      qed
    qed (auto simp: pt_view_def)
  qed
  moreover have "huge_at s root q" if "huge_at s' root q" for q
  proof -
    obtain r j u where q: "q = r @ [j]" "tpath q" "pt_walk s' root r = Some u"
      and e: "rd s' (entry_at (phys_to_virt s u) j) AND PTE_PRESENT \<noteq> 0"
        "rd s' (entry_at (phys_to_virt s u) j) AND PTE_HUGE \<noteq> 0"
      using \<open>huge_at s' root q\<close> by (auto simp: huge_at_def pv)
    then have r: "tpath r" "j < 512"
      by simp_all
    have "r \<noteq> p @ [i]"
      using e(1) rdf [OF r(2)] q(3) walk [OF r(1)] by auto
    then have u: "pt_walk s root r = Some u"
      using walk [OF r(1)] q(3) by simp
    moreover have "q \<noteq> p @ [i]"
      using e(2) rdt table_entry_bits(3) [OF f(5) b] u q(1) p(3) by auto
    ultimately show ?thesis
      using rdu [OF r(1) u r(2)] e q by (simp add: huge_at_snoc)
  qed
  moreover have "kept s root (f # ys) s' ys"
    unfolding kept_def
  proof (intro conjI allI impI)
    fix u assume u: "outside s root (f # ys) u"
    then have ne: "u \<noteq> t" "u \<noteq> f" "page_aligned u"
      using p(1,3) by (auto simp: outside_def)
    have "outside s' root ys u \<longleftrightarrow> page_aligned u \<and> u \<noteq> 0 \<and> u \<notin> set ys \<and>
        (\<forall>q. tpath q \<longrightarrow> (if q = p @ [i] then Some f else pt_walk s root q) \<noteq> Some u)"
      using walk unfolding outside_def by (metis (no_types))
    then show "outside s' root ys u"
      using u ne(2) unfolding outside_def by simp
    have "fst (pmm_alloc_page s) = f"
      using pmm.alloc_pop okD(1) by blast
    then have "same_page (mem ?s1) (mem s) (phys_to_virt s u)"
      using alloc_other_page [OF okD(1) ne(3)] ne(2) by simp
    then show "same_page (mem s') (mem s) (phys_to_virt s u)"
      using wr_page_other [OF t(1) ne(3) p(4) ne(1), of ?s1 "f OR b"] by (simp add: s'_def same_page_def)
  qed auto
  ultimately show "pt_ext s root (f # ys) s' ys"
    using walk old pmm_frame(3) [of s] unfolding pt_ext_def pv by (simp add: s'_def del: pt_walk_snoc)
qed

lemma user_bit_step:
  "(e OR PTE_USER) AND ADDR_MASK = e AND ADDR_MASK" "(e OR PTE_USER) AND PTE_PRESENT = e AND PTE_PRESENT"
  "(e OR PTE_USER) AND PTE_HUGE = e AND PTE_HUGE"
  by (simp_all only: bit.conj_disj_distrib2) simp_all

lemma set_user_bit:
  assumes ok: "pt_ok s root xs" and p: "tpath p" "length p < 3" "pt_walk s root p = Some t" "i < 512"
  defines "s' \<equiv> wr (entry_at (phys_to_virt s t) i) (rd s (entry_at (phys_to_virt s t) i) OR PTE_USER) s"
  shows "pt_ext s root xs s' xs"
proof -
  note okD = pt_okD [OF ok]
  have t: "page_aligned t" "t \<notin> set xs"
    using okD(6) [OF p(1,3)] by auto
  have "pt_step s' t i = pt_step s t i"
    by (simp add: pt_step_def s'_def user_bit_step)
  then have walk: "pt_walk s' root q = pt_walk s root q" if "tpath q" for q
    using pt_walk_wr_same [OF ok p(1,3,4) that] by (simp add: s'_def)
  have "pt_ok s' root xs"
    using walk free_frames_wr [OF okD(1) t p(4)] by (intro pt_ok_same_walks [OF ok]) (simp_all add: s'_def)
  moreover have "pt_view s' root = pt_view s root"
  proof (rule pt_view_cong)
    fix q u j assume q: "tpath q" "length q = 3" "pt_walk s root q = Some u" "j < (512 :: u64)"
    then have "q @ [j] \<noteq> p @ [i]"
      using p(2) by auto
    then show "rd s' (entry_at (phys_to_virt s u) j) = rd s (entry_at (phys_to_virt s u) j)"
      using rd_wr_path [OF ok p(1,3,4) q(1,3,4)] by (simp add: s'_def)
  qed (simp add: s'_def, simp add: walk)
  moreover have "huge_at s root q" if "huge_at s' root q" for q
  proof -
    obtain r j u where q: "q = r @ [j]" "tpath q" "pt_walk s' root r = Some u"
      and e: "rd s' (entry_at (phys_to_virt s u) j) AND PTE_PRESENT \<noteq> 0"
        "rd s' (entry_at (phys_to_virt s u) j) AND PTE_HUGE \<noteq> 0"
      using \<open>huge_at s' root q\<close> by (auto simp: huge_at_def s'_def)
    then have r: "tpath r" "j < 512" "pt_walk s root r = Some u"
      using walk [of r] by simp_all
    show ?thesis
    proof (cases "q = p @ [i]")
      case True
      then show ?thesis
        using e q r p(3) by (simp add: huge_at_snoc s'_def user_bit_step)
    next
      case False
      then show ?thesis
        using e q r rd_wr_path [OF ok p(1,3,4) r(1,3,2)] by (simp add: huge_at_snoc s'_def)
    qed
  qed
  moreover have "kept s root xs s' xs"
    unfolding kept_def
  proof (intro conjI allI impI)
    fix u assume u: "outside s root xs u"
    then show "outside s' root xs u"
      using walk by (simp add: outside_def)
    have "u \<noteq> t" "page_aligned u"
      using u p(1,3) by (auto simp: outside_def)
    then show "same_page (mem s') (mem s) (phys_to_virt s u)"
      using wr_page_other [OF t(1) _ p(4), of u s] by (simp add: s'_def)
  qed simp
  ultimately show ?thesis
    using walk by (simp add: pt_ext_def s'_def)
qed

lemma alloc_fail_ext:
  assumes "pt_ok s root []"
  shows "pt_ext s root [] (snd (pmm_alloc_page s)) []"
proof -
  have "fst (pmm_alloc_page s) = 0"
    using pt_okD(1) [OF assms] pmm.alloc_empty by blast
  then have "kept s root [] (snd (pmm_alloc_page s)) []"
    using pt_ok_alloc(2) [OF assms] alloc_other_page [OF pt_okD(1) [OF assms]] by (simp add: kept_def outside_def)
  moreover have "huge_at (snd (pmm_alloc_page s)) root q \<Longrightarrow> huge_at s root q" for q
    using pt_ok_alloc(2,3) [OF assms] by (fastforce simp: huge_at_def)
  ultimately show ?thesis
    using pt_ok_alloc [OF assms] pt_view_cong [of "snd (pmm_alloc_page s)" s root] by (simp add: pt_ext_def)
qed

lemma next_table_create:
  assumes ok: "pt_ok s root xs" and p: "tpath p" "length p < 3" "pt_walk s root p = Some t" "i < 512"
    and nt: "next_table (phys_to_virt s t) i True user s = (v, s')"
  shows "\<exists>xs'. pt_ext s root xs s' xs' \<and> length xs \<le> Suc (length xs') \<and>
    (if v = 0 then xs = [] \<or> huge_at s root (p @ [i])
     else \<exists>u. v = phys_to_virt s u \<and> pt_walk s' root (p @ [i]) = Some u)"
proof -
  let ?e = "rd s (entry_at (phys_to_virt s t) i)"
  note okD = pt_okD [OF ok]
  show ?thesis
  proof (cases "?e AND PTE_PRESENT = 0")
    case none: True
    show ?thesis
    proof (cases xs)
      case Nil
      then have "fst (pmm_alloc_page s) = 0"
        using okD(1) pmm.alloc_empty by blast
      then have "s' = snd (pmm_alloc_page s)" "v = 0"
        using nt none by (auto simp: next_table_def Let_def split_def)
      then show ?thesis
        using Nil alloc_fail_ext ok by auto
    next
      case (Cons f ys)
      have f: "fst (pmm_alloc_page s) = f" "f \<noteq> 0"
        using Cons okD(1) pmm.alloc_pop free_frames_aligned [of s xs f] by auto
      define b :: u64 where "b = (if user then 7 else 3)"
      have "s' = wr (entry_at (phys_to_virt s t) i) (f OR b) (snd (pmm_alloc_page s))"
        "v = phys_to_virt s f"
        using nt none f by (auto simp: next_table_def Let_def split_def b_def)
      moreover have "b = 3 \<or> b = 7" "v \<noteq> 0"
        using okD(5) [of f] Cons calculation by (simp_all add: b_def)
      moreover have "length xs \<le> Suc (length ys)"
        using Cons by simp
      ultimately show ?thesis
        using new_table [OF ok [unfolded Cons] p none, of b, folded Cons] by (metis (full_types))
    qed
  next
    case False
    have len: "length xs \<le> Suc (length xs)"
      by simp
    have tp: "tpath (p @ [i])"
      using p by simp
    show ?thesis
    proof (cases "?e AND PTE_HUGE = 0")
      case True
      let ?u = "?e AND ADDR_MASK"
      have v: "v = phys_to_virt s ?u"
        "s' = (if user then wr (entry_at (phys_to_virt s t) i) (?e OR PTE_USER) s else s)"
        using nt False True by (auto simp: next_table_def Let_def split: if_splits)
      have u: "pt_walk s root (p @ [i]) = Some ?u"
        using p(3) True False by (simp add: pt_step_def)
      have ext: "pt_ext s root xs s' xs"
        using set_user_bit [OF ok p] pt_ext_refl [OF ok] v(2) by simp
      have "v \<noteq> 0"
        using v(1) okD(6) [OF tp u] by simp
      then show ?thesis
        using v(1) ext pt_extD(4) [OF ext tp u] len by metis
    next
      case huge: False
      then have "v = 0" "s' = s"
        using nt False by (auto simp: next_table_def Let_def)
      then show ?thesis
        using pt_ext_refl [OF ok] huge False tp huge_at_snoc [OF p(3)] len by metis
    qed
  qed
qed

text \<open>A path is blocked by a huge page at one of its first three indices.\<close>

definition blocked :: "'a phys_scheme \<Rightarrow> u64 \<Rightarrow> u64 list \<Rightarrow> bool" where
  "blocked s root q \<longleftrightarrow> (\<exists>n. huge_at s root (take n q))"

lemma get_pte_create:
  assumes ok: "pt_ok s root xs" and get: "get_pte root a True user s = (v, s')"
  shows "\<exists>xs'. pt_ext s root xs s' xs' \<and> length xs \<le> length xs' + 3 \<and>
    (if v = 0 then length xs < 3 \<or> blocked s root (vpath a)
     else \<exists>t. v = entry_at (phys_to_virt s t) (last (vpath a)) \<and>
       pt_walk s' root (butlast (vpath a)) = Some t)"
proof -
  define i4 i3 i2 i1 where i: "i4 = drop_bit 39 a AND 0x1ff" "i3 = drop_bit 30 a AND 0x1ff"
    "i2 = drop_bit 21 a AND 0x1ff" "i1 = drop_bit 12 a AND 0x1ff"
  note fold_i = i [symmetric]
  have lt: "i4 < 512" "i3 < 512" "i2 < 512" "i1 < 512"
    by (simp_all add: i)
  have path: "butlast (vpath a) = [i4, i3, i2]" "last (vpath a) = i1"
    by (simp_all add: vpath_def fold_i)
  have tp: "tpath [i4]" "tpath [i4, i3]" "tpath [i4, i3, i2]"
    using lt by (simp_all add: tpath_def)
  have bl: "huge_at s root q \<Longrightarrow> q = [i4] \<or> q = [i4, i3] \<or> q = [i4, i3, i2] \<Longrightarrow> blocked s root (vpath a)" for q
    unfolding blocked_def vpath_def fold_i
    by (metis (no_types, lifting) One_nat_def numeral_2_eq_2 numeral_3_eq_3 take0 take_Suc_Cons)
  obtain v3 s3 where n3: "next_table (phys_to_virt s root) i4 True user s = (v3, s3)"
    by fastforce
  obtain xs3 where x3: "pt_ext s root xs s3 xs3" "length xs \<le> Suc (length xs3)"
    "if v3 = 0 then xs = [] \<or> huge_at s root [i4]
     else \<exists>u. v3 = phys_to_virt s u \<and> pt_walk s3 root [i4] = Some u"
    using next_table_create [OF ok tpath_Nil _ pt_walk_Nil lt(1) n3] unfolding append.simps by auto
  note e3 = pt_extD [OF x3(1)]
  show ?thesis
  proof (cases "v3 = 0")
    case True
    then show ?thesis
      using get n3 x3 bl [of "[i4]"] by (auto simp: get_pte_def fold_i intro!: exI [of _ xs3])
  next
    case False
    then obtain u3 where u3: "v3 = phys_to_virt s3 u3" "pt_walk s3 root [i4] = Some u3"
      using x3(3) e3(2) by auto
    obtain v2 s2 where n2: "next_table v3 i3 True user s3 = (v2, s2)"
      by fastforce
    obtain xs2 where x2: "pt_ext s3 root xs3 s2 xs2" "length xs3 \<le> Suc (length xs2)"
      "if v2 = 0 then xs3 = [] \<or> huge_at s3 root [i4, i3]
       else \<exists>u. v2 = phys_to_virt s3 u \<and> pt_walk s2 root [i4, i3] = Some u"
      using next_table_create [OF e3(1) tp(1) _ u3(2) lt(2), of user v2 s2] n2 u3(1)
      unfolding append.simps by auto
    note e2 = pt_extD [OF x2(1)] and ext2 = pt_ext_trans [OF x3(1) x2(1)]
    show ?thesis
    proof (cases "v2 = 0")
      case True
      then have "length xs < 3 \<or> blocked s root (vpath a)"
        using x2 x3(2) e3(6) bl [of "[i4, i3]"] by auto
      then show ?thesis
        using get n3 n2 False True ext2 x2(2) x3(2) by (auto simp: get_pte_def fold_i intro!: exI [of _ xs2])
    next
      case v2: False
      then obtain u2 where u2: "v2 = phys_to_virt s2 u2" "pt_walk s2 root [i4, i3] = Some u2"
        using x2(3) e2(2) by auto
      obtain v1 s1 where n1: "next_table v2 i2 True user s2 = (v1, s1)"
        by fastforce
      obtain xs1 where x1: "pt_ext s2 root xs2 s1 xs1" "length xs2 \<le> Suc (length xs1)"
        "if v1 = 0 then xs2 = [] \<or> huge_at s2 root [i4, i3, i2]
         else \<exists>u. v1 = phys_to_virt s2 u \<and> pt_walk s1 root [i4, i3, i2] = Some u"
        using next_table_create [OF e2(1) tp(2) _ u2(2) lt(3), of user v1 s1] n1 u2(1)
        unfolding append.simps by auto
      have ext1: "pt_ext s root xs s1 xs1"
        using pt_ext_trans [OF ext2 x1(1)] .
      have len: "length xs \<le> length xs1 + 3"
        using x1(2) x2(2) x3(2) by linarith
      show ?thesis
      proof (cases "v1 = 0")
        case True
        then have "length xs < 3 \<or> blocked s root (vpath a)"
          using x1(3) x2(2) x3(2) e3(6) e2(6) bl [of "[i4, i3, i2]"] by auto
        then show ?thesis
          using get n3 n2 n1 False v2 True ext1 len by (auto simp: get_pte_def fold_i intro!: exI [of _ xs1])
      next
        case v1: False
        then obtain t where t: "v1 = phys_to_virt s1 t" "pt_walk s1 root [i4, i3, i2] = Some t"
          using x1(3) pt_extD(2) [OF x1(1)] by auto
        have "v = entry_at (phys_to_virt s t) i1" "s' = s1"
          using get n3 n2 n1 False v2 v1 t(1) pt_extD(2) [OF ext1] by (auto simp: get_pte_def fold_i)
        moreover have "entry_at (phys_to_virt s t) i1 \<noteq> 0"
          using entry_at_nonzero [OF pt_extD(1) [OF ext1] tp(3) t(2) lt(4)] pt_extD(2) [OF ext1] by simp
        ultimately show ?thesis
          using ext1 len t(2) unfolding path by auto
      qed
    qed
  qed
qed

section \<open>Leaf entries\<close>

lemma vpath_view:
  "pt_view s root (vpath a) =
    (case pt_walk s root (butlast (vpath a)) of
       None \<Rightarrow> None
     | Some t \<Rightarrow> let e = rd s (entry_at (phys_to_virt s t) (last (vpath a)))
                 in if e AND PTE_PRESENT = 0 then None else Some e)"
  by (simp add: pt_view_def)

lemma leaf_wr:
  fixes e :: u64
  assumes ok: "pt_ok s root xs" and t: "pt_walk s root (butlast (vpath a)) = Some t"
  defines "s' \<equiv> wr (entry_at (phys_to_virt s t) (last (vpath a))) e s"
  shows "pt_ok s' root xs" "tpath q \<Longrightarrow> pt_walk s' root q = pt_walk s root q"
    "pt_view s' root = (pt_view s root)(vpath a := if e AND PTE_PRESENT = 0 then None else Some e)"
proof -
  let ?p = "butlast (vpath a)" and ?i = "last (vpath a)"
  have p: "tpath ?p" "?i < 512" and app: "?p @ [?i] = vpath a"
    by (simp_all add: vpath_def tpath_def)
  show walk: "pt_walk s' root q = pt_walk s root q" if "tpath q" for q
  proof -
    have "\<not> prefix (?p @ [?i]) q"
      using that prefix_length_le [of "?p @ [?i]" q] by (auto simp: tpath_def)
    then show ?thesis
      using pt_walk_wr [OF ok p(1) t p(2) that] by (simp add: s'_def)
  qed
  have "free_frames s' xs"
    using pt_okD(6) [OF ok p(1) t] free_frames_wr [OF pt_okD(1) [OF ok] _ _ p(2)] by (simp add: s'_def)
  then show "pt_ok s' root xs"
    using walk by (intro pt_ok_same_walks [OF ok]) (simp_all add: s'_def)
  show "pt_view s' root = (pt_view s root)(vpath a := if e AND PTE_PRESENT = 0 then None else Some e)"
  proof
    fix q show "pt_view s' root q = ((pt_view s root)(vpath a := if e AND PTE_PRESENT = 0 then None else Some e)) q"
    proof (cases "q = vpath a")
      case True
      then show ?thesis
        using t by (simp add: vpath_view walk) (simp add: s'_def)
    next
      case ne: False
      show ?thesis
      proof (cases "length q = 4 \<and> (\<forall>i \<in> set q. i < 512)")
        case True
        note q = path4 [OF conjunct1 [OF True] conjunct2 [OF True]]
        then have "butlast q @ [last q] \<noteq> ?p @ [?i]"
          using ne app by metis
        then show ?thesis
          using ne True walk [OF q(1)] rd_wr_path [OF ok p(1) t p(2) q(1) _ q(3)]
          by (auto simp: pt_view_def s'_def split: option.split)
      qed (use ne in \<open>auto simp: pt_view_def\<close>)
    qed
  qed
qed

text \<open>What the reading functions of the code see of the map.\<close>

lemma get_pte_view:
  assumes ok: "pt_ok s root xs"
  shows "fst (get_pte root a False user s) \<noteq> 0 \<Longrightarrow>
      \<exists>t. pt_walk s root (butlast (vpath a)) = Some t \<and>
        fst (get_pte root a False user s) = entry_at (phys_to_virt s t) (last (vpath a))"
    and "fst (get_pte root a False user s) = 0 \<Longrightarrow> pt_view s root (vpath a) = None"
proof -
  show "fst (get_pte root a False user s) \<noteq> 0 \<Longrightarrow>
      \<exists>t. pt_walk s root (butlast (vpath a)) = Some t \<and>
        fst (get_pte root a False user s) = entry_at (phys_to_virt s t) (last (vpath a))"
    by (simp add: get_pte_read [OF ok] split: option.splits)
  assume "fst (get_pte root a False user s) = 0"
  then show "pt_view s root (vpath a) = None"
    using entry_at_nonzero [OF ok tpath_vpath(1) _ tpath_vpath(3)]
    by (auto simp: get_pte_read [OF ok] vpath_view split: option.splits)
qed

lemma user_entry_view:
  fixes a :: u64 and user :: bool
  assumes ok: "pt_ok s root xs"
  defines "pte \<equiv> fst (get_pte root a False user s)"
  shows "(pte \<noteq> 0 \<and> rd s pte AND PTE_PRESENT \<noteq> 0 \<and> rd s pte AND PTE_USER \<noteq> 0) =
      (\<exists>e. pt_view s root (vpath a) = Some e \<and> e AND PTE_USER \<noteq> 0)"
    and "pte \<noteq> 0 \<Longrightarrow> pt_view s root (vpath a) =
      (if rd s pte AND PTE_PRESENT = 0 then None else Some (rd s pte))"
proof -
  show v: "pt_view s root (vpath a) = (if rd s pte AND PTE_PRESENT = 0 then None else Some (rd s pte))"
    if "pte \<noteq> 0"
    using get_pte_view(1) [OF ok, of a user] that by (auto simp: vpath_view pte_def)
  show "(pte \<noteq> 0 \<and> rd s pte AND PTE_PRESENT \<noteq> 0 \<and> rd s pte AND PTE_USER \<noteq> 0) =
      (\<exists>e. pt_view s root (vpath a) = Some e \<and> e AND PTE_USER \<noteq> 0)"
    using v get_pte_view(2) [OF ok, of a user] by (cases "pte = 0") (auto simp: pte_def)
qed

lemma page_access_view:
  assumes "pt_ok s root xs"
  shows "page_access root a w s \<longleftrightarrow>
    (\<exists>e. pt_view s root (vpath a) = Some e \<and> e AND PTE_USER \<noteq> 0 \<and> (w \<longrightarrow> e AND PTE_WRITE \<noteq> 0))"
  using user_entry_view [OF assms, of a False] by (auto simp: page_access_def Let_def split: if_splits)

lemma vmm_user_phys_view:
  assumes "pt_ok s root xs"
  shows "vmm_user_phys root a s =
    (case pt_view s root (vpath a) of
       None \<Rightarrow> 0
     | Some e \<Rightarrow> if e AND PTE_USER = 0 then 0 else (e AND ADDR_MASK) OR page_off a)"
  using user_entry_view [OF assms, of a False] page_access_view [OF assms, of a False]
  by (auto simp: vmm_user_phys_access page_access_def Let_def split: option.split if_splits)

section \<open>Mapping, protecting and unmapping\<close>

definition leaf_bits :: "bool \<Rightarrow> u64 \<Rightarrow> u64" where
  "leaf_bits user flags = PTE_PRESENT OR (if user then PTE_USER else 0) OR
     (if flags AND VMM_WRITE \<noteq> 0 then PTE_WRITE else 0)"

lemma leaf_bits_present: "((f AND ADDR_MASK) OR leaf_bits user flags) AND PTE_PRESENT \<noteq> 0"
proof -
  have "((f AND ADDR_MASK) OR leaf_bits user flags) AND PTE_PRESENT = 1"
    by (simp only: bit.conj_disj_distrib2 and.assoc) (simp add: leaf_bits_def bit.conj_disj_distrib2)
  then show ?thesis
    by simp
qed

lemma leaf_kept:
  assumes ok: "pt_ok s root xs" and t: "pt_walk s root (butlast (vpath a)) = Some t"
  shows "kept s root xs (wr (entry_at (phys_to_virt s t) (last (vpath a))) e s) xs"
  unfolding kept_def
proof (intro conjI allI impI)
  fix u assume u: "outside s root xs u"
  then show "outside (wr (entry_at (phys_to_virt s t) (last (vpath a))) e s) root xs u"
    using leaf_wr(2) [OF ok t] by (simp add: outside_def)
  have "u \<noteq> t" "page_aligned u"
    using u t tpath_vpath(1) unfolding outside_def by blast+
  then show "same_page (mem (wr (entry_at (phys_to_virt s t) (last (vpath a))) e s)) (mem s) (phys_to_virt s u)"
    using wr_page_other [of t u "last (vpath a)" s e] pt_okD(6) [OF ok tpath_vpath(1) t] tpath_vpath(3) by simp
qed simp

lemma leaf_huge:
  assumes ok: "pt_ok s root xs" and t: "pt_walk s root (butlast (vpath a)) = Some t"
    and h: "huge_at (wr (entry_at (phys_to_virt s t) (last (vpath a))) e s) root q"
  shows "huge_at s root q"
proof -
  let ?s = "wr (entry_at (phys_to_virt s t) (last (vpath a))) e s"
  obtain r j u where q: "q = r @ [j]" "tpath q" "pt_walk ?s root r = Some u"
    and e: "rd ?s (entry_at (phys_to_virt s u) j) AND PTE_PRESENT \<noteq> 0" "rd ?s (entry_at (phys_to_virt s u) j) AND PTE_HUGE \<noteq> 0"
    using h by (auto simp: huge_at_def)
  then have r: "tpath r" "j < 512" "length r < 3"
    by simp_all
  have u: "pt_walk s root r = Some u"
    using q(3) leaf_wr(2) [OF ok t r(1)] by simp
  have "r @ [j] \<noteq> butlast (vpath a) @ [last (vpath a)]"
    using r(3) tpath_vpath(2) [of a] by auto
  then have "rd ?s (entry_at (phys_to_virt s u) j) = rd s (entry_at (phys_to_virt s u) j)"
    using rd_wr_path [OF ok tpath_vpath(1) t tpath_vpath(3) r(1) u r(2)] by simp
  then show ?thesis
    using e q(1,2) huge_at_snoc [OF u] by simp
qed

lemma vmm_map_kept:
  assumes ok: "pt_ok s root xs" and map: "vmm_map root a f flags user s = (r, s')"
  shows "\<exists>xs'. pt_ok s' root xs' \<and> phys.more s' = phys.more s \<and> hhdm s' = hhdm s \<and> kept s root xs s' xs' \<and>
    length xs \<le> length xs' + 3 \<and> (\<forall>q. huge_at s' root q \<longrightarrow> huge_at s root q) \<and>
    (if r = 0 then pt_view s' root = (pt_view s root)(vpath a \<mapsto> (f AND ADDR_MASK) OR leaf_bits user flags)
     else r = -1 \<and> (length xs < 3 \<or> blocked s root (vpath a)) \<and> pt_view s' root = pt_view s root)"
proof -
  obtain pte s1 where get: "get_pte root a True user s = (pte, s1)"
    by fastforce
  obtain xs1 where x: "pt_ext s root xs s1 xs1" "length xs \<le> length xs1 + 3"
    "if pte = 0 then length xs < 3 \<or> blocked s root (vpath a)
     else \<exists>t. pte = entry_at (phys_to_virt s t) (last (vpath a)) \<and>
       pt_walk s1 root (butlast (vpath a)) = Some t"
    using get_pte_create [OF ok get] by blast
  note e = pt_extD [OF x(1)]
  have h: "hhdm s1 = hhdm s"
    using x(1) by (simp add: pt_ext_def)
  show ?thesis
  proof (cases "pte = 0")
    case True
    then show ?thesis
      using map get x e h by (auto simp: vmm_map_def)
  next
    case False
    then obtain t where t: "pte = entry_at (phys_to_virt s1 t) (last (vpath a))"
      "pt_walk s1 root (butlast (vpath a)) = Some t"
      using x(3) e(2) by auto
    have s': "r = 0" "s' = wr pte ((f AND ADDR_MASK) OR leaf_bits user flags) s1"
      using map get False by (auto simp: vmm_map_def Let_def leaf_bits_def or.assoc split: if_splits)
    have "kept s root xs s' xs1"
      using kept_trans [OF e(7) leaf_kept [OF e(1) t(2)] e(2)] s'(2) t(1) by simp
    moreover have "\<forall>q. huge_at s' root q \<longrightarrow> huge_at s root q"
      using leaf_huge [OF e(1) t(2)] e(6) s'(2) t(1) by metis
    ultimately show ?thesis
      using leaf_wr [OF e(1) t(2)] leaf_bits_present e(3,5) t(1) s' h x(2) by auto
  qed
qed

lemma vmm_map_view:
  assumes "pt_ok s root xs" "vmm_map root a f flags user s = (r, s')"
  shows "\<exists>xs'. pt_ok s' root xs' \<and> phys.more s' = phys.more s \<and>
    (if r = 0 then pt_view s' root = (pt_view s root)(vpath a \<mapsto> (f AND ADDR_MASK) OR leaf_bits user flags)
     else r = -1 \<and> (length xs < 3 \<or> blocked s root (vpath a)) \<and> pt_view s' root = pt_view s root)"
  using vmm_map_kept [OF assms] by blast

text \<open>A page table without entries, and two free frames to grow it.\<close>

lemma empty_table_ok:
  assumes "free_frames s xs" "page_aligned (hhdm s)" "page_aligned root" "root \<notin> set xs"
    "phys_to_virt s root \<noteq> 0" "\<And>f. f \<in> set xs \<Longrightarrow> f AND ADDR_MASK = f \<and> phys_to_virt s f \<noteq> 0"
    "\<And>i. i < 512 \<Longrightarrow> rd s (entry_at (phys_to_virt s root) i) = 0"
  shows "pt_ok s root xs" "\<not> huge_at s root q"
proof -
  have step: "pt_step s root i = None" if "i < 512" for i
    using assms(7) [OF that] by (simp add: pt_step_def)
  have walk: "pt_walk s root p = None" if "tpath p" "p \<noteq> []" for p
    using that
  proof (induction p rule: rev_induct)
    case (snoc i p)
    then show ?case
      using step [of i] by (cases "p = []") (auto simp: pt_walk_def tpath_def)
  qed simp
  have walk': "p = [] \<and> t = root" if "tpath p" "pt_walk s root p = Some t" for p t
    using walk [OF that(1)] that(2) by (cases "p = []") auto
  show "pt_ok s root xs"
    unfolding pt_ok_def using assms(1-6) walk' by blast
  show "\<not> huge_at s root q"
    using walk' assms(7) by (fastforce simp: huge_at_def)
qed

text \<open>
  C4: \<^verbatim>\<open>vmm_map_user\<close> maps exactly the page it is asked to map. On well-formed tables it
  either succeeds, and the leaf entries are those from before with the frame and the permissions
  at the page of the address, or returns -1 and changes no leaf entry; it fails only when fewer
  than three frames are free or a huge page covers the address. The tables stay well formed, apart
  from each other and from the free frames.
\<close>

theorem vmm_map_user_refines:
  assumes "pt_ok s root xs" "vmm_map_user root a f flags s = (r, s')"
  shows "\<exists>xs'. pt_ok s' root xs' \<and> phys.more s' = phys.more s \<and>
    (if r = 0 then pt_view s' root = (pt_view s root)(vpath a \<mapsto> (f AND ADDR_MASK) OR leaf_bits True flags)
     else r = -1 \<and> (length xs < 3 \<or> blocked s root (vpath a)) \<and> pt_view s' root = pt_view s root)"
  using vmm_map_view [OF assms(1)] assms(2) by (simp add: vmm_map_user_def)

text \<open>The machine of the witnesses: four free frames and an empty table at \<open>0x1000\<close>.\<close>

definition four_frames :: phys where
  "four_frames = mm_init [\<lparr>me_base = 0x2000, me_length = 0x4000, me_type = 0\<rparr>] 0xffff800000000000
     \<lparr>mem = (\<lambda>_. 0), memmap = [], hhdm = 0, region_index = 0, next_phys = 0, region_end = 0, free_head = 0\<rparr>"

lemma four_frames_ok:
  "pt_ok four_frames 0x1000 [0x2000, 0x3000, 0x4000, 0x5000]" "\<not> huge_at four_frames 0x1000 q"
proof -
  let ?map = "[\<lparr>me_base = 0x2000, me_length = 0x4000, me_type = 0\<rparr>]"
  have "memmap_ok ?map"
    by (simp add: memmap_ok_def usable_ok_def page_aligned_def)
  from mm_init_free_frames [OF this]
  have "free_frames four_frames (all_frames ?map)"
    by (simp add: four_frames_def)
  moreover have "all_frames ?map = [0x2000, 0x3000, 0x4000, 0x5000]"
    by (simp add: all_frames_def region_frames_def frames_between_def align_up_def upt_rec)
  ultimately have free: "free_frames four_frames [0x2000, 0x3000, 0x4000, 0x5000]"
    by simp
  have h: "hhdm four_frames = 0xffff800000000000" "mem four_frames = (\<lambda>_. 0)"
    by (simp_all add: four_frames_def mm_init_def)
  show "pt_ok four_frames 0x1000 [0x2000, 0x3000, 0x4000, 0x5000]" "\<not> huge_at four_frames 0x1000 q"
    by (rule empty_table_ok [OF free]; force simp: page_aligned_def phys_to_virt_def h rd_def)+
qed

theorem vmm_map_user_refines_witness:
  "fst (vmm_map_user 0x1000 0x400000 0x9000 VMM_WRITE four_frames) = 0 \<and>
   pt_view (snd (vmm_map_user 0x1000 0x400000 0x9000 VMM_WRITE four_frames)) 0x1000 (vpath 0x400000) = Some 0x9007"
proof -
  obtain r s' where m: "vmm_map_user 0x1000 0x400000 0x9000 VMM_WRITE four_frames = (r, s')"
    by fastforce
  show ?thesis
    using vmm_map_user_refines [OF four_frames_ok(1) m] four_frames_ok(2)
    by (auto simp: m blocked_def leaf_bits_def split: if_splits)
qed

lemma rd_free_other:
  assumes "free_frames s xs" "page_aligned f" "f \<noteq> 0" "f \<notin> set xs" "page_aligned u" "u \<noteq> f" "j < 512"
  shows "rd (pmm_free_page f s) (entry_at (phys_to_virt s u) j) = rd s (entry_at (phys_to_virt s u) j)"
  using same_page_write64_other [of f u 0 "mem s" "hhdm s" "free_head s"] assms
    pmm_free_Cons(2) [OF assms(1-4)]
  by (intro rd_same_page) (simp_all add: phys_to_virt_def)

text \<open>A frame that is no table, and not free, can be given back.\<close>

definition data_frame :: "'a phys_scheme \<Rightarrow> u64 \<Rightarrow> u64 list \<Rightarrow> u64 \<Rightarrow> bool" where
  "data_frame s root xs f \<longleftrightarrow>
     f AND ADDR_MASK = f \<and> f \<noteq> 0 \<and> phys_to_virt s f \<noteq> 0 \<and> f \<notin> set xs \<and>
     (\<forall>q. tpath q \<longrightarrow> pt_walk s root q \<noteq> Some f)"

lemma free_data_frame:
  assumes ok: "pt_ok s root xs" and d: "data_frame s root xs f"
  shows "pt_ok (pmm_free_page f s) root (f # xs)" "pt_view (pmm_free_page f s) root = pt_view s root"
proof -
  let ?s = "pmm_free_page f s"
  note okD = pt_okD [OF ok]
  have f: "page_aligned f" "f \<noteq> 0" "f \<notin> set xs"
    using d mask_aligned [of f] by (simp_all add: data_frame_def)
  have keep: "rd ?s (entry_at (phys_to_virt s u) j) = rd s (entry_at (phys_to_virt s u) j)"
    if "tpath q" "pt_walk s root q = Some u" "j < 512" for q u j
    using rd_free_other [OF okD(1) f _ _ that(3), of u] okD(6) [OF that(1,2)] d that(1,2)
    by (auto simp: data_frame_def)
  have walk: "pt_walk ?s root q = pt_walk s root q" if "tpath q" for q
  proof (rule pt_walk_cong)
    fix r j u assume r: "prefix (r @ [j]) q" "pt_walk s root r = Some u"
    then have "tpath r" "j < 512"
      using that tpath_prefix by auto
    then show "pt_step ?s u j = pt_step s u j"
      using keep r(2) by (simp add: pt_step_def)
  qed
  have h: "hhdm ?s = hhdm s" "phys_to_virt ?s = phys_to_virt s"
    by simp_all
  have "t \<noteq> f" if "tpath p" "pt_walk s root p = Some t" for p t
    using d that by (auto simp: data_frame_def)
  then show "pt_ok ?s root (f # xs)"
    unfolding pt_ok_def h
    using walk okD pmm.free_push [OF okD(1) f] d by (auto simp: data_frame_def)
  show "pt_view ?s root = pt_view s root"
    using walk keep by (intro pt_view_cong) simp_all
qed

text \<open>
  C5: \<^verbatim>\<open>vmm_unmap_user\<close> undoes a mapping. If the page is mapped for the user and its frame is
  neither a table nor free, it returns 0, the page is no longer mapped, no other page changes,
  the tables stay well formed, and the frame is the next one the allocator returns. A page that
  is not mapped for the user gives -1, with the whole state as it was.
\<close>

theorem vmm_unmap_user_refines:
  assumes ok: "pt_ok s root xs"
    and frame: "\<And>e. pt_view s root (vpath a) = Some e \<Longrightarrow> data_frame s root xs (e AND ADDR_MASK)"
  shows "(if \<exists>e. pt_view s root (vpath a) = Some e \<and> e AND PTE_USER \<noteq> 0
     then let f = the (pt_view s root (vpath a)) AND ADDR_MASK; s' = snd (vmm_unmap_user root a s)
          in fst (vmm_unmap_user root a s) = 0 \<and> pt_ok s' root (f # xs) \<and>
             pt_view s' root = (pt_view s root)(vpath a := None) \<and> fst (pmm_alloc_page s') = f
     else vmm_unmap_user root a s = (-1, s))"
proof -
  define pte where "pte = fst (get_pte root a False False s)"
  have get: "get_pte root a False False s = (pte, s)"
    by (simp add: pte_def prod_eq_iff)
  note v = user_entry_view [OF ok, of a False, folded pte_def]
  show ?thesis
  proof (cases "pte \<noteq> 0 \<and> rd s pte AND PTE_PRESENT \<noteq> 0 \<and> rd s pte AND PTE_USER \<noteq> 0")
    case False
    then show ?thesis
      using v(1) get by (auto simp: vmm_unmap_user_def)
  next
    case True
    let ?f = "rd s pte AND ADDR_MASK"
    have view: "pt_view s root (vpath a) = Some (rd s pte)"
      using True v(2) by simp
    obtain t where t: "pt_walk s root (butlast (vpath a)) = Some t"
      "pte = entry_at (phys_to_virt s t) (last (vpath a))"
      using get_pte_view(1) [OF ok, of a False] True by (auto simp: pte_def)
    note l = leaf_wr [OF ok t(1), where e = 0, folded t(2)]
    have "data_frame (wr pte 0 s) root xs ?f"
      using frame [OF view] l(2) by (simp add: data_frame_def)
    note fr = free_data_frame [OF l(1) this]
    have run: "vmm_unmap_user root a s = (0, pmm_free_page ?f (wr pte 0 s))"
      using True get by (auto simp: vmm_unmap_user_def Let_def)
    have "fst (pmm_alloc_page (pmm_free_page ?f (wr pte 0 s))) = ?f"
      using pmm.alloc_pop pt_okD(1) [OF fr(1)] by blast
    then show ?thesis
      using True v(1) view run fr l(3) by (auto simp: Let_def)
  qed
qed

text \<open>The tables of \<open>two_pages\<close>: one on each level.\<close>

lemma two_pages_rd:
  assumes "t \<in> {0x1000, 0x2000, 0x3000, 0x4000}" "i < 512"
  shows "rd two_pages (entry_at (phys_to_virt two_pages t) i) =
    (if (t, i) = (0x1000, 0) then 0x2007 else if (t, i) = (0x2000, 0) then 0x3007
     else if (t, i) = (0x3000, 2) then 0x4007 else if (t, i) = (0x4000, 0) then 0x5007
     else if (t, i) = (0x4000, 1) then 0x6005 else 0)"
proof -
  define z :: vmm where "z = \<lparr>mem = (\<lambda>_. 0), memmap = [], hhdm = 0xffff800000000000, region_index = 0,
      next_phys = 0, region_end = 0, free_head = 0, cr3 = 0x1000, current_space = 0x1000\<rparr>"
  have put: "rd (wr (entry_at (phys_to_virt z t) i) v s) (entry_at (phys_to_virt z u) j) =
      (if (u, j) = (t, i) then v else rd s (entry_at (phys_to_virt z u) j))"
    if "page_aligned t" "page_aligned u" "i < 512" "j < 512" "phys_to_virt s = phys_to_virt z"
    for t u i j v and s :: vmm
    using rd_wr_other [of t u i j s v] that by simp
  have tp: "two_pages = wr (entry_at (phys_to_virt z 0x4000) 1) 0x6005 (wr (entry_at (phys_to_virt z 0x4000) 0) 0x5007
      (wr (entry_at (phys_to_virt z 0x3000) 2) 0x4007 (wr (entry_at (phys_to_virt z 0x2000) 0) 0x3007
      (wr (entry_at (phys_to_virt z 0x1000) 0) 0x2007 z))))"
    by (simp add: two_pages_def z_def entry_at_def phys_to_virt_def)
  have pv: "phys_to_virt two_pages = phys_to_virt z"
    by (simp add: tp)
  have z0: "rd z a = 0" for a
    by (simp add: rd_def z_def)
  show ?thesis
    using assms unfolding pv by (auto simp: tp put z0 page_aligned_def)
qed

lemma two_pages_walk:
  assumes "tpath p"
  shows "pt_walk two_pages 0x1000 p =
    (if p = [] then Some 0x1000 else if p = [0] then Some 0x2000 else if p = [0, 0] then Some 0x3000
     else if p = [0, 0, 2] then Some 0x4000 else None)"
  using assms
proof (induction p rule: rev_induct)
  case (snoc i p)
  then have IH: "pt_walk two_pages 0x1000 p =
    (if p = [] then Some 0x1000 else if p = [0] then Some 0x2000 else if p = [0, 0] then Some 0x3000
     else if p = [0, 0, 2] then Some 0x4000 else None)" and i: "i < 512" "length p < 3"
    by simp_all
  show ?case
    unfolding pt_walk_snoc IH using i by (auto simp: pt_step_def two_pages_rd)
qed simp

lemma two_pages_fields:
  "hhdm two_pages = 0xffff800000000000" "free_head two_pages = 0" "memmap two_pages = []"
  "next_phys two_pages = 0" "region_end two_pages = 0"
  by (simp_all add: two_pages_def wr_def Let_def)

lemma two_pages_ok: "pt_ok two_pages 0x1000 []"
proof -
  have "free_frames two_pages []"
    by (simp add: free_frames_def two_pages_fields future_frames_def frames_between_def bump_ok_def
        page_aligned_def)
  then show ?thesis
    unfolding pt_ok_def
    by (auto simp: two_pages_walk two_pages_fields page_aligned_def phys_to_virt_def split: if_splits)
qed

lemma two_pages_view: "pt_view two_pages 0x1000 (vpath 0x400000) = Some 0x5007"
  by (simp add: pt_view_def vpath_def two_pages_walk tpath_def two_pages_rd)

theorem vmm_unmap_user_refines_witness:
  "fst (vmm_unmap_user 0x1000 0x400000 two_pages) = 0 \<and>
   pt_view (snd (vmm_unmap_user 0x1000 0x400000 two_pages)) 0x1000 (vpath 0x400000) = None \<and>
   fst (pmm_alloc_page (snd (vmm_unmap_user 0x1000 0x400000 two_pages))) = 0x5000"
proof -
  have "data_frame two_pages 0x1000 [] 0x5000"
    by (simp add: data_frame_def two_pages_walk phys_to_virt_def two_pages_fields)
  then show ?thesis
    using vmm_unmap_user_refines [OF two_pages_ok, of "0x400000"] by (simp add: two_pages_view Let_def)
qed

text \<open>A change of protection is a store to the leaf entry that keeps its frame.\<close>

lemma vmm_protect_leaf:
  assumes ok: "pt_ok s root xs" and acc: "page_access root a False s"
  shows "\<exists>t d e. pt_walk s root (butlast (vpath a)) = Some t \<and> pt_view s root (vpath a) = Some d \<and> d AND PTE_USER \<noteq> 0 \<and>
    vmm_protect_user root a flags s = (0, wr (entry_at (phys_to_virt s t) (last (vpath a))) e s) \<and>
    e AND PTE_PRESENT \<noteq> 0 \<and> e AND PTE_USER \<noteq> 0 \<and> e AND ADDR_MASK = d AND ADDR_MASK \<and>
    (e AND PTE_WRITE \<noteq> 0 \<longleftrightarrow> flags AND VMM_WRITE \<noteq> 0)"
proof -
  define pte where "pte = fst (get_pte root a False False s)"
  have get: "get_pte root a False False s = (pte, s)"
    by (simp add: pte_def prod_eq_iff)
  note v = user_entry_view [OF ok, of a False, folded pte_def]
  have pte: "pte \<noteq> 0" "rd s pte AND PTE_PRESENT \<noteq> 0" "rd s pte AND PTE_USER \<noteq> 0"
    using acc by (simp_all add: page_access_def pte_def Let_def)
  have view: "pt_view s root (vpath a) = Some (rd s pte)"
    using pte v(2) by simp
  obtain t where t: "pt_walk s root (butlast (vpath a)) = Some t"
    "pte = entry_at (phys_to_virt s t) (last (vpath a))"
    using get_pte_view(1) [OF ok, of a False] pte by (auto simp: pte_def)
  define e where "e = (if flags AND VMM_WRITE \<noteq> 0 then rd s pte OR PTE_WRITE else rd s pte AND NOT PTE_WRITE)"
  have bits: "e AND m = rd s pte AND m" if "PTE_WRITE AND m = 0" "NOT PTE_WRITE AND m = m" for m
    using that by (simp add: e_def bit.conj_disj_distrib2 and.assoc)
  have "e AND PTE_PRESENT \<noteq> 0" "e AND PTE_USER \<noteq> 0" "e AND ADDR_MASK = rd s pte AND ADDR_MASK"
    using bits [of PTE_PRESENT] bits [of PTE_USER] bits [of ADDR_MASK] pte by simp_all
  moreover have "e AND PTE_WRITE \<noteq> 0 \<longleftrightarrow> flags AND VMM_WRITE \<noteq> 0"
    by (simp add: e_def bit.conj_disj_distrib2 and.assoc)
  moreover have "vmm_protect_user root a flags s = (0, wr (entry_at (phys_to_virt s t) (last (vpath a))) e s)"
    using pte get t(2) by (auto simp: vmm_protect_user_def e_def)
  ultimately show ?thesis
    using t(1) view pte(3) by blast
qed

lemma vmm_protect_refused:
  "\<not> page_access root a False s \<Longrightarrow> vmm_protect_user root a flags s = (-1, s)"
  by (cases "get_pte root a False False s") (use get_pte_ro [of root a False s] in \<open>auto simp: vmm_protect_user_def page_access_def\<close>)

text \<open>
  \<^verbatim>\<open>vmm_protect_user\<close> changes only the write permission of the one page, and only of a page
  that is mapped for the user: afterwards the page can be written exactly when it was asked to,
  still maps the same frame, and the access to every other page is what it was. Otherwise it
  returns -1 and changes nothing.
\<close>

theorem vmm_protect_user_refines:
  assumes ok: "pt_ok s root xs"
  shows "(if page_access root a False s
     then let s' = snd (vmm_protect_user root a flags s)
          in fst (vmm_protect_user root a flags s) = 0 \<and> pt_ok s' root xs \<and>
             page_access root a True s' = (flags AND VMM_WRITE \<noteq> 0) \<and>
             vmm_user_phys root a s' = vmm_user_phys root a s \<and>
             (\<forall>b w. page_access root b w s' =
                (if vpath b = vpath a then w \<longrightarrow> flags AND VMM_WRITE \<noteq> 0 else page_access root b w s))
     else vmm_protect_user root a flags s = (-1, s))"
proof (cases "page_access root a False s")
  case False
  then show ?thesis
    by (simp add: vmm_protect_refused)
next
  case True
  obtain t d e where t: "pt_walk s root (butlast (vpath a)) = Some t" and d: "pt_view s root (vpath a) = Some d" "d AND PTE_USER \<noteq> 0"
    and run: "vmm_protect_user root a flags s = (0, wr (entry_at (phys_to_virt s t) (last (vpath a))) e s)"
    and e: "e AND PTE_PRESENT \<noteq> 0" "e AND PTE_USER \<noteq> 0" "e AND ADDR_MASK = d AND ADDR_MASK"
      "e AND PTE_WRITE \<noteq> 0 \<longleftrightarrow> flags AND VMM_WRITE \<noteq> 0"
    using vmm_protect_leaf [OF ok True] by blast
  note l = leaf_wr [OF ok t, where e = e]
  show ?thesis
    using True d e run l by (simp add: Let_def page_access_view [OF ok] page_access_view [OF l(1)]
        vmm_user_phys_view [OF ok] vmm_user_phys_view [OF l(1)])
qed

theorem vmm_protect_user_refines_witness:
  "page_access 0x1000 0x400123 True two_pages \<and>
   \<not> page_access 0x1000 0x400123 True (snd (vmm_protect_user 0x1000 0x400000 0 two_pages)) \<and>
   vmm_user_phys 0x1000 0x400000 (snd (vmm_protect_user 0x1000 0x400000 0 two_pages)) = 0x5000"
proof -
  have p: "vpath 0x400123 = vpath 0x400000"
    by (simp add: vpath_def)
  have a: "page_access 0x1000 0x400000 w two_pages" for w
    by (simp add: page_access_view [OF two_pages_ok] two_pages_view)
  have "vmm_user_phys 0x1000 0x400000 two_pages = 0x5000"
    by (simp add: vmm_user_phys_view [OF two_pages_ok] two_pages_view page_off_def)
  then show ?thesis
    using vmm_protect_user_refines [OF two_pages_ok, of "0x400000" 0] a
    by (simp add: Let_def p) (simp add: page_access_view [OF two_pages_ok] two_pages_view p)
qed

end
