(* ===== verification/Vmm_Clone.thy ===== *)
theory Vmm_Clone
  imports Vmm_Tables
begin

text \<open>
  \<^verbatim>\<open>clone_table\<close> and \<^verbatim>\<open>vmm_space_clone\<close> of \<open>kernel/mm/mm.c\<close>: what a copy of a table is, and that the
  loops make one out of frames of the free stack, without a store to any frame that was in use.
\<close>

section \<open>Copies of memory\<close>

lemma memcpy_apply:
  assumes "n < 18446744073709551616" "\<And>i j. i < n \<Longrightarrow> j < n \<Longrightarrow> d + word_of_nat i \<noteq> p + word_of_nat j"
  shows "memcpy m d p n b = (if unat (b - d) < n then m (p + (b - d)) else m b)"
  using assms
proof (induction n arbitrary: m d p)
  case (Suc n)
  have step: "d + 1 + word_of_nat i \<noteq> p + 1 + word_of_nat j" if "i < n" "j < n" for i j
    using Suc.prems(2) [of "Suc i" "Suc j"] that by (simp add: algebra_simps)
  have IH: "memcpy m' (d + 1) (p + 1) n b =
      (if unat (b - (d + 1)) < n then m' (p + 1 + (b - (d + 1))) else m' b)" for m'
    using Suc.prems(1) step by (intro Suc.IH) simp_all
  show ?case
  proof (cases "b = d")
    case True
    have "\<not> unat (d - (d + 1)) < n"
      using Suc.prems(1) by simp
    then show ?thesis
      using True by (simp add: IH [unfolded True])
  next
    case False
    have "p + (b - d) \<noteq> d" if "unat (b - d) < Suc n"
      using Suc.prems(2) [of 0 "unat (b - d)"] that by auto
    moreover have "p + 1 + (b - (d + 1)) = p + (b - d)"
      by simp
    ultimately show ?thesis
      using False unat_diff_Suc [OF False] by (simp add: IH)
  qed
qed simp

lemma memcpy_page:
  assumes "page_aligned f" "page_aligned g" "f \<noteq> g"
  shows "i < PAGE_SIZE \<Longrightarrow> memcpy m (f + h) (g + h) 4096 (f + h + i) = m (g + h + i)"
    "page_aligned u \<Longrightarrow> u \<noteq> f \<Longrightarrow> same_page (memcpy m (f + h) (g + h) 4096) m (u + h)"
proof -
  have "f + h + word_of_nat i \<noteq> g + h + word_of_nat j" if "i < 4096" "j < 4096" for i j
  proof
    assume eq: "f + h + word_of_nat i = g + h + word_of_nat j"
    have "in_page (f + h) (f + h + word_of_nat i)" "in_page (g + h) (g + h + word_of_nat j)"
      using that by (simp_all add: in_page_add word_less_nat_alt)
    then show False
      using in_page_disjoint [OF assms(1,2), of h "f + h + word_of_nat i"] assms(3) unfolding eq by blast
  qed
  then have m: "memcpy m (f + h) (g + h) 4096 b = (if unat (b - (f + h)) < 4096 then m (g + h + (b - (f + h))) else m b)" for b
    by (intro memcpy_apply) simp_all
  show "i < PAGE_SIZE \<Longrightarrow> memcpy m (f + h) (g + h) 4096 (f + h + i) = m (g + h + i)"
    by (simp add: m word_less_nat_alt)
  show "same_page (memcpy m (f + h) (g + h) 4096) m (u + h)" if "page_aligned u" "u \<noteq> f"
    using in_page_disjoint [OF assms(1) that(1), of h] that(2)
    by (auto simp: same_page_def m in_page_def word_less_nat_alt)
qed

section \<open>Entries\<close>

definition ent :: "'a phys_scheme \<Rightarrow> u64 \<Rightarrow> u64 \<Rightarrow> u64" where
  "ent s t i = rd s (entry_at (phys_to_virt s t) i)"

text \<open>The indices of a table from one on.\<close>

definition idx :: "nat \<Rightarrow> nat \<Rightarrow> u64 list" where
  "idx i n = map word_of_nat [i..<n]"

lemma idx_unfold: "i < n \<Longrightarrow> idx i n = word_of_nat i # idx (Suc i) n" "n \<le> i \<Longrightarrow> idx i n = []"
  by (simp_all add: idx_def upt_conv_Cons)

lemma idx_3: "3 \<le> n \<Longrightarrow> idx 0 n = 0 # 1 # 2 # idx 3 n"
  using idx_unfold(1) [of 0 n] idx_unfold(1) [of 1 n] idx_unfold(1) [of 2 n] by (simp add: numeral_2_eq_2 numeral_3_eq_3)

lemma idx_set:
  assumes "n \<le> 512"
  shows "j \<in> set (idx i n) \<longleftrightarrow> i \<le> unat j \<and> unat j < n"
proof
  assume "j \<in> set (idx i n)"
  then obtain k where k: "i \<le> k" "k < n" "j = word_of_nat k"
    by (auto simp: idx_def)
  then have "unat j = k"
    using assms by simp
  then show "i \<le> unat j \<and> unat j < n"
    using k by simp
next
  assume "i \<le> unat j \<and> unat j < n"
  moreover have "j = word_of_nat (unat j)"
    by simp
  ultimately show "j \<in> set (idx i n)"
    unfolding idx_def set_map by (intro image_eqI [of _ _ "unat j"]) simp_all
qed

lemma idx_distinct:
  assumes "n \<le> 512"
  shows "distinct (idx i n)"
proof -
  have "unat (word_of_nat k :: u64) = k" if "k < n" for k
    using that assms by simp
  then have "inj_on (word_of_nat :: nat \<Rightarrow> u64) (set [i..<n])"
    by (intro inj_on_inverseI [where g = unat]) simp
  then show ?thesis
    by (simp add: idx_def distinct_map)
qed

lemma ent_same_page:
  "same_page (mem s') (mem s) (phys_to_virt s t) \<Longrightarrow> hhdm s' = hhdm s \<Longrightarrow> i < 512 \<Longrightarrow> ent s' t i = ent s t i"
  using rd_same_page [of s' s t i] by (simp add: ent_def phys_to_virt_def)

section \<open>What a copy is\<close>

text \<open>
  \<open>clone_of s0 s l S D is us\<close>: in \<open>s\<close> the entries \<open>is\<close> of the table in frame \<open>D\<close> are copies of those
  that the table in frame \<open>S\<close> had in \<open>s0\<close>, \<open>l\<close> levels above the pages. The present ones point to the
  frames \<open>us\<close>, in the order in which they are met, with the flags of the originals.
\<close>

inductive clone_of :: "'a phys_scheme \<Rightarrow> 'a phys_scheme \<Rightarrow> nat \<Rightarrow> u64 \<Rightarrow> u64 \<Rightarrow> u64 list \<Rightarrow> u64 list \<Rightarrow> bool"
  for s0 s where
  none: "clone_of s0 s l S D [] []"
| absent: "ent s0 S i AND PTE_PRESENT = 0 \<Longrightarrow> ent s D i AND PTE_PRESENT = 0 \<Longrightarrow> clone_of s0 s l S D is us \<Longrightarrow>
    clone_of s0 s l S D (i # is) us"
| page: "ent s0 S i AND PTE_PRESENT \<noteq> 0 \<Longrightarrow> l \<le> 1 \<Longrightarrow> ent s D i = d OR (ent s0 S i AND NOT ADDR_MASK) \<Longrightarrow>
    d AND ADDR_MASK = d \<Longrightarrow>
    (\<And>k. k < PAGE_SIZE \<Longrightarrow> mem s (phys_to_virt s d + k) = mem s0 (phys_to_virt s (ent s0 S i AND ADDR_MASK) + k)) \<Longrightarrow>
    clone_of s0 s l S D is us \<Longrightarrow> clone_of s0 s l S D (i # is) (d # us)"
| table: "ent s0 S i AND PTE_PRESENT \<noteq> 0 \<Longrightarrow> 1 < l \<Longrightarrow> ent s0 S i AND PTE_HUGE = 0 \<Longrightarrow>
    ent s D i = d OR (ent s0 S i AND NOT ADDR_MASK) \<Longrightarrow> d AND ADDR_MASK = d \<Longrightarrow>
    clone_of s0 s (l - 1) (ent s0 S i AND ADDR_MASK) d (idx 0 512) vs \<Longrightarrow>
    clone_of s0 s l S D is us \<Longrightarrow> clone_of s0 s l S D (i # is) (d # vs @ us)"

text \<open>A copy stays one while its frames and the entries of its table do.\<close>

lemma clone_of_cong:
  assumes "clone_of s0 s l S D is us" "hhdm s' = hhdm s" "\<And>i. i \<in> set is \<Longrightarrow> ent s' D i = ent s D i"
    "\<And>u. u \<in> set us \<Longrightarrow> same_page (mem s') (mem s) (phys_to_virt s u)"
  shows "clone_of s0 s' l S D is us"
  using assms
proof induction
  case (page S i l D d "is" us)
  have v: "phys_to_virt s' = phys_to_virt s"
    using page.prems(1) by (simp add: phys_to_virt_def fun_eq_iff)
  have "mem s' (phys_to_virt s d + k) = mem s (phys_to_virt s d + k)" if "k < PAGE_SIZE" for k
    using page.prems(3) [of d] that by (simp add: same_page_def in_page_def)
  then show ?case
    using page by (intro clone_of.page) (simp_all add: v)
next
  case (table S i l D d vs "is" us)
  have "ent s' d j = ent s d j" if "j \<in> set (idx 0 512)" for j
    using table.prems(1,3) that by (intro ent_same_page) (simp_all add: idx_set word_less_nat_alt)
  then show ?case
    using table by (intro clone_of.table) simp_all
qed (auto intro: clone_of.intros)


section \<open>A new entry\<close>

lemma new_entry:
  fixes i v :: u64
  assumes free: "free_frames s (f # ys)" and D: "page_aligned D" "D \<notin> set (f # ys)" and i: "i < 512"
  defines "s1 \<equiv> wr (entry_at (phys_to_virt s D) i) v (snd (pmm_alloc_page s))"
  shows "free_frames s1 ys" "hhdm s1 = hhdm s" "phys.more s1 = phys.more s" "ent s1 D i = v"
    "j < 512 \<Longrightarrow> j \<noteq> i \<Longrightarrow> ent s1 D j = ent s D j" "j < 512 \<Longrightarrow> ent s1 f j = 0"
    "page_aligned u \<Longrightarrow> u \<noteq> f \<Longrightarrow> u \<noteq> D \<Longrightarrow> same_page (mem s1) (mem s) (phys_to_virt s u)"
proof -
  let ?t = "snd (pmm_alloc_page s)"
  have f: "fst (pmm_alloc_page s) = f" "free_frames ?t ys" "page_aligned f" "D \<noteq> f" "D \<notin> set ys"
    using pmm_alloc_Cons [OF free] free_frames_aligned [OF free] D(2) by auto
  have s1: "s1 = wr (entry_at (phys_to_virt ?t D) i) v ?t"
    by (simp add: s1_def)
  show "free_frames s1 ys"
    unfolding s1 by (rule free_frames_wr [OF f(2) D(1) f(5) i])
  show "hhdm s1 = hhdm s" "phys.more s1 = phys.more s" "ent s1 D i = v"
    by (simp_all add: s1 ent_def)
  show "ent s1 D j = ent s D j" if "j < 512" "j \<noteq> i"
    using rd_wr_other [OF D(1) D(1) i that(1), where v = v and s = ?t] rd_alloc_other [OF free D(1) _ that(1)] that f(1,4)
    by (simp add: s1 ent_def)
  show "ent s1 f j = 0" if "j < 512"
    using rd_wr_other [OF D(1) f(3) i that, where v = v and s = ?t] rd_alloc_new [OF free that] f(4)
    by (simp add: s1 ent_def)
  show "same_page (mem s1) (mem s) (phys_to_virt s u)" if "page_aligned u" "u \<noteq> f" "u \<noteq> D"
    using same_page_trans [OF wr_page_other [OF D(1) that(1) i that(3), where v = v and s = ?t]]
      alloc_other_page [OF free that(1)] that(2) f(1) by (simp add: s1)
qed

section \<open>The loop of \<open>clone_table\<close>\<close>

text \<open>
  The frames below a table, as deep as \<open>l\<close> levels of tables go, are all in a set, and no entry
  above the last level is that of a large page.
\<close>

fun source_ok :: "'a phys_scheme \<Rightarrow> u64 set \<Rightarrow> nat \<Rightarrow> u64 \<Rightarrow> bool" where
  "source_ok s A 0 S \<longleftrightarrow> S \<in> A"
| "source_ok s A (Suc l) S \<longleftrightarrow> S \<in> A \<and>
     (\<forall>i<512. ent s S i AND PTE_PRESENT \<noteq> 0 \<longrightarrow> (0 < l \<longrightarrow> ent s S i AND PTE_HUGE = 0) \<and> source_ok s A l (ent s S i AND ADDR_MASK))"

lemma source_ok_in: "source_ok s A l S \<Longrightarrow> S \<in> A"
  by (cases l) simp_all

text \<open>
  What a loop over entries of the table in frame \<open>D\<close> may do to the state: take frames from the stack
  and store into \<open>D\<close> and into those.
\<close>

definition grows :: "u64 \<Rightarrow> 'a phys_scheme \<Rightarrow> u64 list \<Rightarrow> 'a phys_scheme \<Rightarrow> u64 list \<Rightarrow> bool" where
  "grows D s us s' ys \<longleftrightarrow>
     free_frames s (us @ ys) \<and> free_frames s' ys \<and> hhdm s' = hhdm s \<and> phys.more s' = phys.more s \<and>
     (\<forall>u. page_aligned u \<longrightarrow> u \<notin> set us \<longrightarrow> u \<noteq> D \<longrightarrow> u \<notin> set ys \<longrightarrow> same_page (mem s') (mem s) (phys_to_virt s u))"

lemma growsD:
  assumes "grows D s us s' ys"
  shows "free_frames s (us @ ys)" "free_frames s' ys" "hhdm s' = hhdm s" "phys.more s' = phys.more s"
    "phys_to_virt s' = phys_to_virt s"
    "page_aligned u \<Longrightarrow> u \<notin> set us \<Longrightarrow> u \<noteq> D \<Longrightarrow> u \<notin> set ys \<Longrightarrow> same_page (mem s') (mem s) (phys_to_virt s u)"
  using assms by (simp_all add: grows_def phys_to_virt_def fun_eq_iff)

lemma grows_refl: "free_frames s ys \<Longrightarrow> grows D s [] s ys"
  by (simp add: grows_def)

lemma grows_trans:
  assumes "grows D s us s' (vs @ ys)" "grows D s' vs s'' ys"
  shows "grows D s (us @ vs) s'' ys"
  unfolding grows_def
proof (intro conjI allI impI)
  note a = growsD [OF assms(1)] and b = growsD [OF assms(2)]
  show "free_frames s ((us @ vs) @ ys)" "free_frames s'' ys" "hhdm s'' = hhdm s" "phys.more s'' = phys.more s"
    using a(1) b(2) by (simp_all add: a(3,4) b(3,4))
  fix u assume u: "page_aligned u" "u \<notin> set (us @ vs)" "u \<noteq> D" "u \<notin> set ys"
  then have "same_page (mem s'') (mem s') (phys_to_virt s' u)" "same_page (mem s') (mem s) (phys_to_virt s u)"
    by (auto intro!: a(6) b(6))
  then show "same_page (mem s'') (mem s) (phys_to_virt s u)"
    unfolding a(5) by (rule same_page_trans)
qed

text \<open>The work of a loop on a new table is work of the loop that made the table.\<close>

lemma grows_child:
  assumes "grows D s [f] s' (vs @ ys)" "grows f s' vs s'' ys"
  shows "grows D s (f # vs) s'' ys"
  unfolding grows_def
proof (intro conjI allI impI)
  note a = growsD [OF assms(1)] and b = growsD [OF assms(2)]
  show "free_frames s ((f # vs) @ ys)" "free_frames s'' ys" "hhdm s'' = hhdm s" "phys.more s'' = phys.more s"
    using a(1) b(2) by (simp_all add: a(3,4) b(3,4))
  fix u assume u: "page_aligned u" "u \<notin> set (f # vs)" "u \<noteq> D" "u \<notin> set ys"
  then have "same_page (mem s'') (mem s') (phys_to_virt s' u)" "same_page (mem s') (mem s) (phys_to_virt s u)"
    by (auto intro!: a(6) b(6))
  then show "same_page (mem s'') (mem s) (phys_to_virt s u)"
    unfolding a(5) by (rule same_page_trans)
qed

lemma grows_new_entry:
  fixes i v :: u64
  assumes "free_frames s (f # ys)" "page_aligned D" "D \<notin> set (f # ys)" "i < 512"
  shows "grows D s [f] (wr (entry_at (phys_to_virt s D) i) v (snd (pmm_alloc_page s))) ys"
  using assms new_entry [OF assms, where v = v] by (simp add: grows_def)

text \<open>The state in which a loop runs: the frames of the originals as they were, the rest of the stack.\<close>

definition cloning :: "'a phys_scheme \<Rightarrow> u64 set \<Rightarrow> u64 \<Rightarrow> 'a phys_scheme \<Rightarrow> u64 list \<Rightarrow> bool" where
  "cloning s0 A D s xs \<longleftrightarrow>
     free_frames s xs \<and> page_aligned D \<and> D \<notin> set xs \<and> (\<forall>f \<in> set xs. f AND ADDR_MASK = f) \<and> D \<notin> A \<and>
     (\<forall>u \<in> A. page_aligned u \<and> u \<notin> set xs \<and> same_page (mem s) (mem s0) (phys_to_virt s u)) \<and> hhdm s = hhdm s0"

lemma cloningD:
  assumes "cloning s0 A D s xs"
  shows "free_frames s xs" "page_aligned D" "D \<notin> set xs" "D \<notin> A" "hhdm s = hhdm s0" "phys_to_virt s = phys_to_virt s0"
    "f \<in> set xs \<Longrightarrow> f AND ADDR_MASK = f"
    "u \<in> A \<Longrightarrow> page_aligned u \<and> u \<notin> set xs \<and> same_page (mem s) (mem s0) (phys_to_virt s u)"
proof -
  show "phys_to_virt s = phys_to_virt s0"
    using assms by (simp add: cloning_def phys_to_virt_def fun_eq_iff)
qed (use assms in \<open>unfold cloning_def, blast+\<close>)

lemma cloning_ent: "cloning s0 A D s xs \<Longrightarrow> S \<in> A \<Longrightarrow> i < 512 \<Longrightarrow> ent s S i = ent s0 S i"
  using cloningD(5,6,8) [of s0 A D s xs] by (intro ent_same_page) simp_all

lemma cloning_grows:
  assumes "cloning s0 A D s (us @ ys)" "grows D s us s' ys"
  shows "cloning s0 A D s' ys"
proof -
  note c = cloningD [OF assms(1)] and g = growsD [OF assms(2)]
  have "page_aligned u \<and> u \<notin> set ys \<and> same_page (mem s') (mem s0) (phys_to_virt s' u)" if u: "u \<in> A" for u
  proof -
    have "u \<notin> set (us @ ys)" "page_aligned u" "u \<noteq> D" "same_page (mem s) (mem s0) (phys_to_virt s u)"
      using c(4,8) u by blast+
    then show ?thesis
      using same_page_trans [OF g(6)] by (simp add: g(5))
  qed
  then show ?thesis
    using c g(2,3) by (simp add: cloning_def)
qed

lemma cloning_child:
  assumes "cloning s0 A D s (f # ys)" "grows D s [f] s' ys"
  shows "cloning s0 A f s' ys"
proof -
  have "cloning s0 A D s' ys"
    using cloning_grows [of s0 A D s "[f]" ys s'] assms by simp
  moreover have "page_aligned f" "f \<notin> set ys" "f \<notin> A"
    using cloningD(1,8) [OF assms(1)] free_frames_aligned [of s "f # ys" f] free_frames_distinct [of s "f # ys"] by auto
  ultimately show ?thesis
    by (simp add: cloning_def)
qed

text \<open>Frames of the stack that are taken and no longer in it are left alone.\<close>

lemma clone_of_grows:
  assumes c: "cloning s0 A D s (us @ ys)" and of: "clone_of s0 s l S D is vs" and g: "grows D s us s' ys"
    and vs: "set vs \<inter> (insert D (set (us @ ys))) = {}" "\<And>v. v \<in> set vs \<Longrightarrow> page_aligned v"
    and same: "\<And>i. i \<in> set is \<Longrightarrow> ent s' D i = ent s D i"
  shows "clone_of s0 s' l S D is vs"
  using vs growsD(3,6) [OF g] by (intro clone_of_cong [OF of _ same]) auto

text \<open>A page copied into a new frame.\<close>

lemma clone_page:
  fixes i v :: u64
  assumes c: "cloning s0 A D s (f # ys)" and i: "i < 512" and g: "g \<in> A"
  defines "s1 \<equiv> wr (entry_at (phys_to_virt s D) i) v (snd (pmm_alloc_page s))"
  defines "s2 \<equiv> s1\<lparr>mem := memcpy (mem s1) (phys_to_virt s f) (phys_to_virt s g) 4096\<rparr>"
  shows "grows D s [f] s2 ys" "ent s2 D i = v" "j < 512 \<Longrightarrow> j \<noteq> i \<Longrightarrow> ent s2 D j = ent s D j"
    "k < PAGE_SIZE \<Longrightarrow> mem s2 (phys_to_virt s f + k) = mem s0 (phys_to_virt s g + k)"
proof -
  note cD = cloningD [OF c]
  note new = new_entry [OF cD(1-3) i, where v = v, folded s1_def]
  have f: "page_aligned f" "f \<notin> set ys" "f \<noteq> D" "f \<noteq> g" "g \<noteq> D"
    using free_frames_aligned [OF cD(1)] free_frames_distinct [OF cD(1)] cD(3,4) cD(8) [OF g] g by auto
  have ga: "page_aligned g" "same_page (mem s) (mem s0) (phys_to_virt s g)"
    using cD(8) [OF g] by blast+
  note cp = memcpy_page [OF f(1) ga(1) f(4), of _ "mem s1" "hhdm s", folded phys_to_virt_def]
  have keep: "same_page (mem s2) (mem s1) (phys_to_virt s u)" if "page_aligned u" "u \<noteq> f" for u
    using cp(2) [OF that] by (simp add: s2_def)
  have ents: "ent s2 D j = ent s1 D j" if "j < 512" for j
    using keep [OF cD(2)] f(3) new(2) that by (intro ent_same_page) (simp_all add: phys_to_virt_def s2_def)
  show "ent s2 D i = v" "j < 512 \<Longrightarrow> j \<noteq> i \<Longrightarrow> ent s2 D j = ent s D j"
    using ents new(4,5) i by simp_all
  have "free_frames s2 ys"
    unfolding s2_def
  proof (rule free_frames_mem [OF new(1)])
    fix p assume "p \<in> set ys"
    then have "page_aligned p" "p \<noteq> f"
      using f(2) free_frames_aligned [OF cD(1)] by auto
    then show "same_page (mem s1) (memcpy (mem s1) (phys_to_virt s f) (phys_to_virt s g) 4096) (phys_to_virt s1 p)"
      using cp(2) [of p] by (simp add: same_page_def phys_to_virt_def new(2))
  qed
  moreover have "same_page (mem s2) (mem s) (phys_to_virt s u)" if "page_aligned u" "u \<noteq> f" "u \<noteq> D" for u
    using keep [OF that(1,2)] new(7) [OF that] by (rule same_page_trans)
  moreover have "hhdm s2 = hhdm s" "phys.more s2 = phys.more s"
    using new(2,3) by (simp_all add: s2_def)
  ultimately show "grows D s [f] s2 ys"
    using cD(1) by (simp add: grows_def)
  show "mem s2 (phys_to_virt s f + k) = mem s0 (phys_to_virt s g + k)" if k: "k < PAGE_SIZE"
    using cp(1) [OF k] new(7) [OF ga(1) f(4) [symmetric] f(5)] ga(2) k by (simp add: s2_def same_page_def in_page_def)
qed

text \<open>The frames that a copy of the entries \<open>is\<close> takes.\<close>

function frames_needed :: "'a phys_scheme \<Rightarrow> nat \<Rightarrow> u64 \<Rightarrow> u64 list \<Rightarrow> nat" where
  "frames_needed s l S [] = 0"
| "frames_needed s l S (i # is) =
     (if ent s S i AND PTE_PRESENT = 0 then 0
      else Suc (if l \<le> 1 then 0 else frames_needed s (l - 1) (ent s S i AND ADDR_MASK) (idx 0 512))) + frames_needed s l S is"
  by pat_completeness auto
termination
  by (relation "measures [\<lambda>(s, l, S, is). l, \<lambda>(s, l, S, is). length is]") auto

declare frames_needed.simps(2) [simp del]

lemma frames_needed_append: "frames_needed s l S (is @ js) = frames_needed s l S is + frames_needed s l S js"
  by (induction "is") (simp_all add: frames_needed.simps(2))

lemma frames_needed_absent: "(\<And>i. i \<in> set is \<Longrightarrow> ent s S i AND PTE_PRESENT = 0) \<Longrightarrow> frames_needed s l S is = 0"
  by (induction "is") (simp_all add: frames_needed.simps(2))

text \<open>
  What a loop over the entries \<open>is\<close> has done when it ends, well or not, and how one more entry in front
  adds to it.
\<close>

definition cloned ::
  "'a phys_scheme \<Rightarrow> nat \<Rightarrow> u64 \<Rightarrow> u64 \<Rightarrow> u64 list \<Rightarrow> 'a phys_scheme \<Rightarrow> bool \<Rightarrow> u64 list \<Rightarrow> 'a phys_scheme \<Rightarrow> u64 list \<Rightarrow> bool" where
  "cloned s0 l S D is s ok us s' ys \<longleftrightarrow>
     grows D s us s' ys \<and> (\<forall>j<512. j \<notin> set is \<longrightarrow> ent s' D j = ent s D j) \<and> (ok \<longrightarrow> clone_of s0 s' l S D is us) \<and>
     (if ok then length us = frames_needed s0 l S is else ys = [] \<and> length us < frames_needed s0 l S is)"

lemma clonedD:
  assumes "cloned s0 l S D is s ok us s' ys"
  shows "grows D s us s' ys" "j < 512 \<Longrightarrow> j \<notin> set is \<Longrightarrow> ent s' D j = ent s D j" "ok \<Longrightarrow> clone_of s0 s' l S D is us"
    "if ok then length us = frames_needed s0 l S is else ys = [] \<and> length us < frames_needed s0 l S is"
  using assms by (simp_all add: cloned_def)

lemma cloned_absent:
  assumes "ent s0 S i AND PTE_PRESENT = 0" "ent s D i AND PTE_PRESENT = 0" "i < 512" "i \<notin> set is"
    and rest: "cloned s0 l S D is s ok us s' ys"
  shows "cloned s0 l S D (i # is) s ok us s' ys"
  using assms(1,2) clonedD(1,3,4) [OF rest] clonedD(2) [OF rest] clonedD(2) [OF rest assms(3,4)]
  unfolding cloned_def by (auto intro: clone_of.absent simp: frames_needed.simps(2))

lemma cloned_page:
  assumes c: "cloning s0 A D s (f # us @ ys)" and i: "i < 512" "i \<notin> set is"
    and e: "ent s0 S i AND PTE_PRESENT \<noteq> 0" "l \<le> 1" and g: "grows D s [f] s2 (us @ ys)"
    and ents: "ent s2 D i = f OR (ent s0 S i AND NOT ADDR_MASK)" "\<And>j. j < 512 \<Longrightarrow> j \<noteq> i \<Longrightarrow> ent s2 D j = ent s D j"
    and bytes: "\<And>k. k < PAGE_SIZE \<Longrightarrow> mem s2 (phys_to_virt s f + k) = mem s0 (phys_to_virt s (ent s0 S i AND ADDR_MASK) + k)"
    and rest: "cloned s0 l S D is s2 ok us s' ys"
  shows "cloned s0 l S D (i # is) s ok (f # us) s' ys"
proof -
  note r = clonedD [OF rest] and rg = growsD [OF clonedD(1) [OF rest]]
  have f: "page_aligned f" "f \<notin> set us" "f \<notin> set ys" "f \<noteq> D" "f AND ADDR_MASK = f"
    using free_frames_aligned [OF cloningD(1) [OF c]] free_frames_distinct [OF cloningD(1) [OF c]]
      cloningD(3,7) [OF c] by auto
  have v: "phys_to_virt s' = phys_to_virt s" "phys_to_virt s2 = phys_to_virt s"
    using rg(5) growsD(5) [OF g] by simp_all
  have "same_page (mem s') (mem s2) (phys_to_virt s f)"
    using rg(6) [OF f(1,2,4,3)] by (simp add: v)
  then have "mem s' (phys_to_virt s f + k) = mem s0 (phys_to_virt s (ent s0 S i AND ADDR_MASK) + k)" if "k < PAGE_SIZE" for k
    using bytes [OF that] that by (simp add: same_page_def in_page_def)
  then have "ok \<Longrightarrow> clone_of s0 s' l S D (i # is) (f # us)"
    using e r(2) [OF i] r(3) ents(1) f(5) by (intro clone_of.page) (simp_all add: v)
  moreover have "grows D s (f # us) s' ys"
    using grows_trans [OF g r(1)] by simp
  moreover have "ent s' D j = ent s D j" if "j < 512" "j \<notin> set (i # is)" for j
    using r(2) [OF that(1)] ents(2) [OF that(1)] that(2) by simp
  moreover have "if ok then length (f # us) = frames_needed s0 l S (i # is)
      else ys = [] \<and> length (f # us) < frames_needed s0 l S (i # is)"
    using e r(4) by (auto simp: frames_needed.simps(2) split: if_splits)
  ultimately show ?thesis
    unfolding cloned_def by blast
qed

lemma cloned_table:
  assumes c: "cloning s0 A D s (f # vs @ us @ ys)" and i: "i < 512" "i \<notin> set is"
    and e: "ent s0 S i AND PTE_PRESENT \<noteq> 0" "1 < l" "ent s0 S i AND PTE_HUGE = 0"
    and g: "grows D s [f] s1 (vs @ us @ ys)"
    and ents: "ent s1 D i = f OR (ent s0 S i AND NOT ADDR_MASK)" "\<And>j. j < 512 \<Longrightarrow> j \<noteq> i \<Longrightarrow> ent s1 D j = ent s D j"
    and child: "cloned s0 (l - 1) (ent s0 S i AND ADDR_MASK) f (idx 0 512) s1 True vs s2 (us @ ys)"
    and rest: "cloned s0 l S D is s2 ok us s' ys"
  shows "cloned s0 l S D (i # is) s ok (f # vs @ us) s' ys"
proof -
  note r = clonedD [OF rest] and rg = growsD [OF clonedD(1) [OF rest]]
    and h = clonedD [OF child] and hg = growsD [OF clonedD(1) [OF child]]
  have al: "\<And>u. u \<in> set (f # vs @ us @ ys) \<Longrightarrow> page_aligned u" and dist: "distinct (f # vs @ us @ ys)"
    using free_frames_aligned [OF cloningD(1) [OF c]] free_frames_distinct [OF cloningD(1) [OF c]] by auto
  have f: "D \<notin> set (f # vs @ us @ ys)" "f AND ADDR_MASK = f" "page_aligned D"
    using cloningD(2,3,7) [OF c] by auto
  have keep: "same_page (mem s') (mem s2) (phys_to_virt s2 u)" if "u \<in> set (f # vs)" for u
    using that al dist f(1) by (intro rg(6)) auto
  have "clone_of s0 s' (l - 1) (ent s0 S i AND ADDR_MASK) f (idx 0 512) vs"
  proof (rule clone_of_cong [OF h(3) rg(3)])
    show "ent s' f j = ent s2 f j" if "j \<in> set (idx 0 512)" for j
      using that keep [of f] rg(3) by (intro ent_same_page) (simp_all add: idx_set word_less_nat_alt)
  qed (use keep in simp_all)
  moreover have entD: "ent s2 D j = ent s1 D j" if "j < 512" for j
  proof -
    have "same_page (mem s2) (mem s1) (phys_to_virt s1 D)"
      using f by (intro hg(6)) auto
    then show ?thesis
      using hg(3) that by (intro ent_same_page) simp_all
  qed
  ultimately have "ok \<Longrightarrow> clone_of s0 s' l S D (i # is) (f # vs @ us)"
    using e r(2) [OF i] r(3) ents(1) entD [OF i(1)] f(2) by (intro clone_of.table) simp_all
  moreover have "grows D s (f # vs @ us) s' ys"
    using grows_trans [OF grows_child [OF _ h(1)] r(1)] g by simp
  moreover have "ent s' D j = ent s D j" if "j < 512" "j \<notin> set (i # is)" for j
    using r(2) [OF that(1)] entD [OF that(1)] ents(2) [OF that(1)] that(2) by simp
  moreover have "if ok then length (f # vs @ us) = frames_needed s0 l S (i # is)
      else ys = [] \<and> length (f # vs @ us) < frames_needed s0 l S (i # is)"
    using e h(4) r(4) by (auto simp: frames_needed.simps(2) split: if_splits)
  ultimately show ?thesis
    unfolding cloned_def by blast
qed

text \<open>A loop that ends without having met an entry of its own, at its end or for want of memory.\<close>

lemma cloned_stop:
  assumes "free_frames s ys"
  shows "cloned s0 l S D [] s True [] s ys"
  using assms grows_refl by (auto simp: cloned_def intro: clone_of.none)

lemma cloned_no_memory:
  assumes "free_frames s []" "ent s0 S i AND PTE_PRESENT \<noteq> 0"
  shows "cloned s0 l S D (i # is) s False [] (snd (pmm_alloc_page s)) []"
  using assms pmm_alloc_Nil [OF assms(1)] by (simp add: cloned_def grows_def ent_def rd_def frames_needed.simps(2))

lemma cloned_child_fails:
  assumes g: "grows D s [f] s1 (vs @ ys)" and c: "page_aligned D" "D \<notin> set (f # vs @ ys)" and i: "i < 512"
    and ents: "\<And>j. j < 512 \<Longrightarrow> j \<noteq> i \<Longrightarrow> ent s1 D j = ent s D j"
    and e: "ent s0 S i AND PTE_PRESENT \<noteq> 0" "1 < l"
    and child: "cloned s0 (l - 1) (ent s0 S i AND ADDR_MASK) f (idx 0 512) s1 False vs s2 ys"
  shows "cloned s0 l S D (i # is) s False (f # vs) s2 ys"
proof -
  note hg = growsD [OF clonedD(1) [OF child]]
  have "ent s2 D j = ent s D j" if "j < 512" "j \<notin> set (i # is)" for j
  proof -
    have "same_page (mem s2) (mem s1) (phys_to_virt s1 D)"
      using c by (intro hg(6)) auto
    then have "ent s2 D j = ent s1 D j"
      using hg(3) that by (intro ent_same_page) simp_all
    then show ?thesis
      using ents that by simp
  qed
  then show ?thesis
    using grows_child [OF g clonedD(1) [OF child]] clonedD(4) [OF child] e by (simp add: cloned_def frames_needed.simps(2))
qed

text \<open>A present entry above the last level: a new table, the loop over it, and the rest of the loop.\<close>

lemma clone_child:
  fixes j v :: u64
  assumes c: "cloning s0 A D s (f # vs @ ws)" and j: "j < 512"
  defines "s1 \<equiv> wr (entry_at (phys_to_virt s D) j) v (snd (pmm_alloc_page s))"
  assumes child: "cloned s0 k g f (idx 0 512) s1 ok vs s2 ws"
  shows "cloning s0 A D s2 ws" "i < 512 \<Longrightarrow> i \<noteq> j \<Longrightarrow> ent s2 D i = ent s D i" "phys_to_virt s2 = phys_to_virt s"
    "ent s0 S j AND PTE_PRESENT \<noteq> 0 \<Longrightarrow> 1 < l \<Longrightarrow> k = l - 1 \<Longrightarrow> g = ent s0 S j AND ADDR_MASK \<Longrightarrow> \<not> ok \<Longrightarrow>
      cloned s0 l S D (j # is) s False (f # vs) s2 ws"
    "ws = us @ ys \<Longrightarrow> j \<notin> set is \<Longrightarrow> ent s0 S j AND PTE_PRESENT \<noteq> 0 \<Longrightarrow> 1 < l \<Longrightarrow> ent s0 S j AND PTE_HUGE = 0 \<Longrightarrow>
      v = f OR (ent s0 S j AND NOT ADDR_MASK) \<Longrightarrow> k = l - 1 \<Longrightarrow> g = ent s0 S j AND ADDR_MASK \<Longrightarrow> ok \<Longrightarrow>
      cloned s0 l S D is s2 ok' us s' ys \<Longrightarrow> cloned s0 l S D (j # is) s ok' (f # vs @ us) s' ys"
proof -
  note cD = cloningD [OF c]
  note new = new_entry [OF cD(1-3) j, where v = v, folded s1_def]
  note g1 = grows_new_entry [OF cD(1-3) j, where v = v, folded s1_def]
  note g2 = grows_child [OF g1 clonedD(1) [OF child]]
  show "cloning s0 A D s2 ws"
    using cloning_grows [of s0 A D s "f # vs" ws s2] c g2 by simp
  show "phys_to_virt s2 = phys_to_virt s"
    by (rule growsD(5) [OF g2])
  have "ent s2 D i = ent s1 D i" if "i < 512" for i
    using growsD(3,6) [OF clonedD(1) [OF child]] cD(2,3) that by (intro ent_same_page) auto
  then show "ent s2 D i = ent s D i" if "i < 512" "i \<noteq> j"
    using new(5) that by simp
  show "cloned s0 l S D (j # is) s False (f # vs) s2 ws"
    if "ent s0 S j AND PTE_PRESENT \<noteq> 0" "1 < l" "k = l - 1" "g = ent s0 S j AND ADDR_MASK" "\<not> ok"
    using that child by (intro cloned_child_fails [OF g1 cD(2,3) j new(5)]) simp_all
  show "cloned s0 l S D (j # is) s ok' (f # vs @ us) s' ys"
    if "ws = us @ ys" "j \<notin> set is" "ent s0 S j AND PTE_PRESENT \<noteq> 0" "1 < l" "ent s0 S j AND PTE_HUGE = 0"
      "v = f OR (ent s0 S j AND NOT ADDR_MASK)" "k = l - 1" "g = ent s0 S j AND ADDR_MASK" ok
      "cloned s0 l S D is s2 ok' us s' ys"
    using c g1 new(4,5) child that j by (intro cloned_table [where ?s1.0 = s1 and ?s2.0 = s2]) auto
qed

lemma clone_entries_cloned:
  assumes "cloning s0 A D s xs" "source_ok s0 A l S" "1 \<le> l" "i \<le> 512"
    and "\<And>j. j < 512 \<Longrightarrow> i \<le> unat j \<Longrightarrow> ent s D j AND PTE_PRESENT = 0"
    and "clone_entries l (phys_to_virt s D) (phys_to_virt s S) i s = (r, s')"
  shows "\<exists>us ys. xs = us @ ys \<and> cloned s0 l S D (idx i 512) s (r = 0) us s' ys"
  using assms
proof (induction l arbitrary: D S i s xs r s' rule: less_induct)
  case (less l)
  note outer = less.IH
  obtain l' where l: "l = Suc l'"
    using less.prems(3) by (cases l) auto
  have S: "S \<in> A" using less.prems(2) by (rule source_ok_in)
  have src: "(1 < l \<longrightarrow> ent s0 S j AND PTE_HUGE = 0) \<and> source_ok s0 A (l - 1) (ent s0 S j AND ADDR_MASK)"
    if "j < 512" "ent s0 S j AND PTE_PRESENT \<noteq> 0" for j
    using less.prems(2) that by (simp add: l)
  from less.prems(4,1,5,6) show ?case
  proof (induction i arbitrary: s xs rule: inc_induct)
    case base
    then show ?case
      using cloned_stop [OF cloningD(1) [OF base(1)]]
      by (intro exI [of _ "[]"] exI [of _ xs]) (simp add: idx_unfold(2) clone_entries.simps [of _ _ _ 512])
  next
    case (step i)
    note cD = cloningD [OF step.prems(1)]
    define j where "j = (word_of_nat i :: u64)"
    have j: "j < 512" "unat j = i" "idx i 512 = j # idx (Suc i) 512" "j \<notin> set (idx (Suc i) 512)"
      using step.hyps by (simp_all add: j_def idx_unfold idx_set word_less_nat_alt)
    have rdS: "rd s (entry_at (phys_to_virt s S) j) = ent s0 S j"
      using cloning_ent [OF step.prems(1) S j(1)] by (simp add: ent_def)
    let ?e = "ent s0 S j"
    note run = step.prems(3) [unfolded clone_entries.simps [of l _ _ i], folded j_def, unfolded rdS]
    show ?case
    proof (cases "?e AND PTE_PRESENT = 0")
      case True
      then have "clone_entries l (phys_to_virt s D) (phys_to_virt s S) (Suc i) s = (r, s')"
        using run step.hyps by (simp add: Let_def)
      then obtain us ys where z: "xs = us @ ys" "cloned s0 l S D (idx (Suc i) 512) s (r = 0) us s' ys"
        using step.IH [OF step.prems(1)] step.prems(2) by auto
      have "ent s D j AND PTE_PRESENT = 0"
        using step.prems(2) [OF j(1)] j(2) by simp
      then show ?thesis
        unfolding j(3) using z(1) cloned_absent [OF True _ j(1,4) z(2)] by blast
    next
      case present: False
      show ?thesis
      proof (cases xs)
        case Nil
        then have "r = -1" "s' = snd (pmm_alloc_page s)"
          using run present step.hyps cD(1) pmm_alloc_Nil(1) [of s] by (simp_all add: Let_def split_def)
        then show ?thesis
          unfolding j(3) using cloned_no_memory [OF _ present] cD(1) Nil by fastforce
      next
        case (Cons f zs)
        note c = step.prems(1) [unfolded Cons] and free = cD(1) [unfolded Cons]
        have D: "page_aligned D" "D \<notin> set (f # zs)"
          using cD(2,3) Cons by simp_all
        have al: "fst (pmm_alloc_page s) = f" "f \<noteq> 0"
          using pmm_alloc_Cons(1) [OF free] free_frames_aligned [OF free] by simp_all
        let ?v = "f OR (?e AND NOT ADDR_MASK)" and ?g = "?e AND ADDR_MASK"
        define s1 where "s1 = wr (entry_at (phys_to_virt s D) j) ?v (snd (pmm_alloc_page s))"
        note new = new_entry [OF free D j(1), where v = ?v, folded s1_def]
        note g1 = grows_new_entry [OF free D j(1), where v = ?v, folded s1_def]
        have v: "phys_to_virt s1 = phys_to_virt s"
          by (rule growsD(5) [OF g1])
        have src: "ent s0 S j AND PTE_PRESENT \<noteq> 0" "1 < l \<Longrightarrow> ?e AND PTE_HUGE = 0" "source_ok s0 A (l - 1) ?g"
          using src [OF j(1) present] present by auto
        show ?thesis
        proof (cases "l \<le> 1")
          case True
          define s2 where "s2 = s1\<lparr>mem := memcpy (mem s1) (phys_to_virt s f) (phys_to_virt s ?g) 4096\<rparr>"
          have g: "?g \<in> A"
            using src(3) by (rule source_ok_in)
          note cp = clone_page [OF c j(1) g, where v = ?v, folded s1_def, folded s2_def]
          have v2: "phys_to_virt s2 = phys_to_virt s"
            by (rule growsD(5) [OF cp(1)])
          have "clone_entries l (phys_to_virt s2 D) (phys_to_virt s2 S) (Suc i) s2 = (r, s')"
            unfolding v2 using run present True step.hyps al v by (simp add: Let_def split_def s1_def s2_def)
          moreover have "cloning s0 A D s2 zs"
            using cloning_grows [of s0 A D s "[f]" zs s2] c cp(1) by simp
          moreover have "ent s2 D k AND PTE_PRESENT = 0" if "k < 512" "Suc i \<le> unat k" for k
            using step.prems(2) [of k] cp(3) [of k] that j(2) by (cases "k = j") auto
          ultimately obtain us ys where z: "zs = us @ ys" "cloned s0 l S D (idx (Suc i) 512) s2 (r = 0) us s' ys"
            using step.IH by blast
          have "cloned s0 l S D (idx i 512) s (r = 0) (f # us) s' ys"
            unfolding j(3) using c cp(1,2,3,4) src(1) True z j(1,4) by (intro cloned_page) simp_all
          then show ?thesis
            using z(1) Cons by (intro exI [of _ "f # us"] exI [of _ ys]) simp
        next
          case False
          obtain r1 s2 where child: "clone_entries (l - 1) (phys_to_virt s1 f) (phys_to_virt s1 ?g) 0 s1 = (r1, s2)"
            by fastforce
          have "\<And>k. k < 512 \<Longrightarrow> ent s1 f k AND PTE_PRESENT = 0"
            by (simp add: new(6))
          then obtain vs ws where z: "zs = vs @ ws" "cloned s0 (l - 1) ?g f (idx 0 512) s1 (r1 = 0) vs s2 ws"
            using outer [OF _ cloning_child [OF c g1] src(3) _ _ _ child] False by fastforce
          note ch = clone_child [OF c [unfolded z(1)] j(1) z(2) [unfolded s1_def]]
          have run': "(if r1 \<noteq> 0 then (-1, s2) else clone_entries l (phys_to_virt s2 D) (phys_to_virt s2 S) (Suc i) s2) = (r, s')"
            unfolding ch(3) using run present False src(2) step.hyps al child v by (simp add: Let_def split_def s1_def cong: if_cong)
          show ?thesis
          proof (cases "r1 = 0")
            case False
            then show ?thesis
              unfolding j(3) using run' ch(4) [OF src(1) _ refl refl] \<open>\<not> l \<le> 1\<close> z(1) Cons
              by (intro exI [of _ "f # vs"] exI [of _ ws]) auto
          next
            case True
            have "ent s2 D k AND PTE_PRESENT = 0" if "k < 512" "Suc i \<le> unat k" for k
              using step.prems(2) [of k] ch(2) [of k] that j(2) by (cases "k = j") auto
            then obtain us ys where y: "ws = us @ ys" "cloned s0 l S D (idx (Suc i) 512) s2 (r = 0) us s' ys"
              using step.IH [OF ch(1)] run' True by auto
            have "cloned s0 l S D (idx i 512) s (r = 0) (f # vs @ us) s' ys"
              unfolding j(3) using ch(5) [OF y(1) j(4) src(1) _ src(2) _ _ _ True y(2)] False by simp
            then show ?thesis
              using z(1) y(1) Cons by (intro exI [of _ "f # vs @ us"] exI [of _ ys]) simp
          qed
        qed
      qed
    qed
  qed
qed

section \<open>The loop of \<open>vmm_space_clone\<close>\<close>

lemma clone_user_half_cloned:
  assumes "cloning s0 A D s xs" "S \<in> A" "i \<le> 256"
    and src: "\<And>j. j < 256 \<Longrightarrow> ent s0 S j AND PTE_PRESENT \<noteq> 0 \<Longrightarrow>
      ent s0 S j AND PTE_HUGE = 0 \<and> source_ok s0 A 3 (ent s0 S j AND ADDR_MASK)"
    and "\<And>j. j < 256 \<Longrightarrow> i \<le> unat j \<Longrightarrow> ent s D j AND PTE_PRESENT = 0"
    and "clone_user_half (phys_to_virt s D) (phys_to_virt s S) [i..<256] s = (ok, s')"
  shows "\<exists>us ys. xs = us @ ys \<and> cloned s0 4 S D (idx i 256) s ok us s' ys"
  using assms(3,1,5,6)
proof (induction i arbitrary: s xs rule: inc_induct)
  case base
  then show ?case
    using cloned_stop [OF cloningD(1) [OF base(1)]]
    by (intro exI [of _ "[]"] exI [of _ xs]) (simp add: idx_unfold(2))
next
  case (step i)
  note cD = cloningD [OF step.prems(1)]
  define j where "j = (word_of_nat i :: u64)"
  have j: "j < 512" "j < 256" "unat j = i" "idx i 256 = j # idx (Suc i) 256" "j \<notin> set (idx (Suc i) 256)"
    "[i..<256] = i # [Suc i..<256]"
    using step.hyps by (simp_all add: j_def idx_unfold idx_set word_less_nat_alt upt_conv_Cons)
  have rdS: "rd s (entry_at (phys_to_virt s S) j) = ent s0 S j"
    using cloning_ent [OF step.prems(1) assms(2) j(1)] by (simp add: ent_def)
  let ?e = "ent s0 S j"
  note run = step.prems(3) [unfolded j(6) clone_user_half.simps, folded j_def, unfolded rdS]
  show ?case
  proof (cases "?e AND PTE_PRESENT = 0")
    case True
    then have "clone_user_half (phys_to_virt s D) (phys_to_virt s S) [Suc i..<256] s = (ok, s')"
      using run by (simp add: Let_def)
    then obtain us ys where z: "xs = us @ ys" "cloned s0 4 S D (idx (Suc i) 256) s ok us s' ys"
      using step.IH [OF step.prems(1)] step.prems(2) by auto
    have "ent s D j AND PTE_PRESENT = 0"
      using step.prems(2) [OF j(2)] j(3) by simp
    then show ?thesis
      unfolding j(4) using z(1) cloned_absent [OF True _ j(1,5) z(2)] by blast
  next
    case present: False
    show ?thesis
    proof (cases xs)
      case Nil
      then have "\<not> ok" "s' = snd (pmm_alloc_page s)"
        using run present cD(1) pmm_alloc_Nil(1) [of s] by (auto simp: Let_def split_def)
      then show ?thesis
        unfolding j(4) using cloned_no_memory [OF _ present] cD(1) Nil by fastforce
    next
      case (Cons f zs)
      note c = step.prems(1) [unfolded Cons] and free = cD(1) [unfolded Cons]
      have D: "page_aligned D" "D \<notin> set (f # zs)"
        using cD(2,3) Cons by simp_all
      have al: "fst (pmm_alloc_page s) = f" "f \<noteq> 0"
        using pmm_alloc_Cons(1) [OF free] free_frames_aligned [OF free] by simp_all
      let ?v = "f OR (?e AND NOT ADDR_MASK)" and ?g = "?e AND ADDR_MASK"
      define s1 where "s1 = wr (entry_at (phys_to_virt s D) j) ?v (snd (pmm_alloc_page s))"
      note new = new_entry [OF free D j(1), where v = ?v, folded s1_def]
      note g1 = grows_new_entry [OF free D j(1), where v = ?v, folded s1_def]
      have v: "phys_to_virt s1 = phys_to_virt s"
        by (rule growsD(5) [OF g1])
      have src: "?e AND PTE_HUGE = 0" "source_ok s0 A 3 ?g"
        using src [OF j(2) present] by blast+
      obtain r1 s2 where child: "clone_entries 3 (phys_to_virt s1 f) (phys_to_virt s1 ?g) 0 s1 = (r1, s2)"
        by fastforce
      have "\<And>k. k < 512 \<Longrightarrow> ent s1 f k AND PTE_PRESENT = 0"
        by (simp add: new(6))
      then obtain vs ws where z: "zs = vs @ ws" "cloned s0 3 ?g f (idx 0 512) s1 (r1 = 0) vs s2 ws"
        using clone_entries_cloned [OF cloning_child [OF c g1] src(2) _ _ _ child] by fastforce
      note ch = clone_child [OF c [unfolded z(1)] j(1) z(2) [unfolded s1_def]]
      have run': "(if r1 \<noteq> 0 then (False, s2) else clone_user_half (phys_to_virt s2 D) (phys_to_virt s2 S) [Suc i..<256] s2) = (ok, s')"
        unfolding ch(3) using run present al child v by (simp add: Let_def split_def s1_def clone_table_def cong: if_cong)
      show ?thesis
      proof (cases "r1 = 0")
        case False
        then have "cloned s0 4 S D (j # idx (Suc i) 256) s False (f # vs) s2 ws"
          by (intro ch(4) [OF present _ _ refl]) simp_all
        then show ?thesis
          unfolding j(4) using run' False z(1) Cons by (intro exI [of _ "f # vs"] exI [of _ ws]) simp
      next
        case True
        have "ent s2 D k AND PTE_PRESENT = 0" if "k < 256" "Suc i \<le> unat k" for k
        proof -
          have "k < 512" "k \<noteq> j"
            using that j(3) by (auto simp: word_less_nat_alt)
          then show ?thesis
            using step.prems(2) [of k] ch(2) [of k] that by simp
        qed
        then obtain us ys where y: "ws = us @ ys" "cloned s0 4 S D (idx (Suc i) 256) s2 ok us s' ys"
          using step.IH [OF ch(1)] run' True by auto
        have "cloned s0 4 S D (idx i 256) s ok (f # vs @ us) s' ys"
          unfolding j(4) by (rule ch(5) [OF y(1) j(5) present _ src(1) refl _ refl True y(2)]) simp_all
        then show ?thesis
          using z(1) y(1) Cons by (intro exI [of _ "f # vs @ us"] exI [of _ ys]) simp
      qed
    qed
  qed
qed

section \<open>The entries of a copy\<close>

text \<open>The present entry at the end of a path, at any level.\<close>

definition pt_entry :: "'a phys_scheme \<Rightarrow> u64 \<Rightarrow> u64 list \<Rightarrow> u64 option" where
  "pt_entry s t p =
     Option.bind (pt_walk s t (butlast p)) (\<lambda>u. let e = ent s u (last p) in if e AND PTE_PRESENT = 0 then None else Some e)"

lemma pt_walk_Cons [simp]: "pt_walk s t (i # p) = Option.bind (pt_step s t i) (\<lambda>u. pt_walk s u p)"
proof (induction p rule: rev_induct)
  case Nil
  then show ?case
    using pt_walk_snoc [of s t "[]" i] by simp
next
  case (snoc j p)
  then show ?case
    using pt_walk_snoc [of s t "i # p" j] by (cases "pt_step s t i") simp_all
qed

lemma pt_entry_simps:
  "pt_entry s t [i] = (if ent s t i AND PTE_PRESENT = 0 then None else Some (ent s t i))"
  "q \<noteq> [] \<Longrightarrow> pt_entry s t (i # q) = Option.bind (pt_step s t i) (\<lambda>u. pt_entry s u q)"
  by (cases "pt_step s t i"; simp add: pt_entry_def Let_def)+

lemma pt_step_ent:
  "pt_step s t i = (if ent s t i AND PTE_PRESENT = 0 \<or> ent s t i AND PTE_HUGE \<noteq> 0 then None else Some (ent s t i AND ADDR_MASK))"
  by (simp add: pt_step_def ent_def Let_def)

lemma pt_walk_entry:
  "p \<noteq> [] \<Longrightarrow> pt_walk s t p =
     (case pt_entry s t p of None \<Rightarrow> None | Some e \<Rightarrow> if e AND PTE_HUGE \<noteq> 0 then None else Some (e AND ADDR_MASK))"
  by (cases p rule: rev_cases; cases "pt_walk s t (butlast p)") (simp_all add: pt_entry_def pt_step_ent Let_def)

lemma pt_view_entry:
  "pt_view s root p = (if length p = 4 \<and> (\<forall>i \<in> set p. i < 512) then pt_entry s root p else None)"
  by (simp add: pt_view_def pt_entry_def ent_def Let_def split: option.split)

text \<open>An entry with its frame replaced.\<close>

definition moved :: "u64 \<Rightarrow> u64 \<Rightarrow> u64" where
  "moved d e = d OR (e AND NOT ADDR_MASK)"

lemma moved_bits:
  fixes d e c :: u64
  assumes "d AND ADDR_MASK = d"
  shows "moved d e AND ADDR_MASK = d" "c AND ADDR_MASK = 0 \<Longrightarrow> moved d e AND c = e AND c"
proof -
  show "moved d e AND ADDR_MASK = d"
    using assms unfolding moved_def by (simp only: bit.conj_disj_distrib2 and.assoc) simp
  assume c: "c AND ADDR_MASK = 0"
  have "d AND c = (d AND ADDR_MASK) AND c"
    by (simp only: assms)
  also have "\<dots> = d AND (c AND ADDR_MASK)"
    by (simp only: ac_simps)
  finally have "d AND c = 0"
    using c by simp
  moreover have "NOT ADDR_MASK AND c = c"
  proof -
    have "c = (c AND ADDR_MASK) OR (c AND NOT ADDR_MASK)"
      by (simp only: bit.conj_disj_distrib [symmetric] bit.disj_cancel_right and.right_neutral)
    then show ?thesis
      using c by (simp add: and.commute)
  qed
  ultimately show "moved d e AND c = e AND c"
    unfolding moved_def by (simp only: bit.conj_disj_distrib2 and.assoc or.left_neutral)
qed

text \<open>A copied entry: a frame of the copy with the flags of the original.\<close>

definition entry_copy ::
  "'a phys_scheme \<Rightarrow> 'a phys_scheme \<Rightarrow> bool \<Rightarrow> u64 set \<Rightarrow> u64 option \<Rightarrow> u64 option \<Rightarrow> bool" where
  "entry_copy s0 s leaf us e e' \<longleftrightarrow>
     (case e of None \<Rightarrow> e' = None
      | Some v \<Rightarrow> \<exists>d \<in> us. d AND ADDR_MASK = d \<and> e' = Some (moved d v) \<and>
          (leaf \<longrightarrow> (\<forall>k < PAGE_SIZE. mem s (phys_to_virt s d + k) = mem s0 (phys_to_virt s (v AND ADDR_MASK) + k))))"

lemma entry_copy_mono: "entry_copy s0 s leaf us e e' \<Longrightarrow> us \<subseteq> vs \<Longrightarrow> entry_copy s0 s leaf vs e e'"
  by (auto simp: entry_copy_def split: option.splits)

lemma entry_copy_frame: "entry_copy s0 s leaf us e (Some e') \<Longrightarrow> e' AND ADDR_MASK \<in> us"
  by (auto simp: entry_copy_def moved_bits(1) split: option.splits)

lemma clone_of_entry:
  assumes "clone_of s0 s l S D is us" "p \<noteq> []" "hd p \<in> set is" "\<forall>i \<in> set p. i < 512" "length p \<le> l"
  shows "entry_copy s0 s (length p = l) (set us) (pt_entry s0 S p) (pt_entry s D p)"
  using assms
proof (induction arbitrary: p)
  case (absent S i D l "is" us)
  show ?case
  proof (cases "hd p = i")
    case True
    then obtain q where "p = i # q"
      using absent.prems(1) by (cases p) auto
    then show ?thesis
      using absent.hyps by (cases "q = []") (simp_all add: pt_entry_simps pt_step_ent entry_copy_def)
  next
    case False
    then show ?thesis
      using absent.prems by (intro entry_copy_mono [OF absent.IH]) auto
  qed
next
  case (page S i l D d "is" us)
  show ?case
  proof (cases "hd p = i")
    case True
    then obtain q where "p = i # q"
      using page.prems(1) by (cases p) auto
    then have p: "p = [i]" "l = 1"
      using page.prems(4) page.hyps(2) by (cases q; simp)+
    have d: "ent s D i = moved d (ent s0 S i)"
      using page.hyps(3) by (simp only: moved_def)
    then have "ent s D i AND PTE_PRESENT \<noteq> 0"
      using page.hyps(1) moved_bits(2) [OF page.hyps(4), of 1] by simp
    then show ?thesis
      using page.hyps(1,4,5) d by (simp add: p pt_entry_simps entry_copy_def)
  next
    case False
    then show ?thesis
      using page.prems by (intro entry_copy_mono [OF page.IH]) auto
  qed
next
  case (table S i l D d vs "is" us)
  show ?case
  proof (cases "hd p = i")
    case True
    have d: "ent s D i = moved d (ent s0 S i)"
      using table.hyps(4) by (simp only: moved_def)
    then have e: "ent s D i AND PTE_PRESENT \<noteq> 0" "ent s D i AND PTE_HUGE = 0" "ent s D i AND ADDR_MASK = d"
      using table.hyps(1,3) moved_bits [OF table.hyps(5)] by simp_all
    obtain q where p: "p = i # q"
      using True table.prems(1) by (cases p) auto
    show ?thesis
    proof (cases "q = []")
      case True
      then show ?thesis
        using table.hyps(1,2,5) e(1) d table.prems by (simp add: p pt_entry_simps entry_copy_def)
    next
      case False
      have "hd q \<in> set (idx 0 512)"
        using False table.prems(3) by (cases q) (simp_all add: p idx_set word_less_nat_alt)
      then have "entry_copy s0 s (length q = l - 1) (set vs) (pt_entry s0 (ent s0 S i AND ADDR_MASK) q) (pt_entry s d q)"
        using table.IH(1) [of q] False table.prems by (simp add: p)
      moreover have "length p = l \<longleftrightarrow> length q = l - 1"
        using table.hyps(2) by (auto simp: p)
      ultimately show ?thesis
        using table.hyps(1,3) e False by (simp add: p pt_entry_simps pt_step_ent entry_copy_mono subset_iff)
    qed
  next
    case False
    then show ?thesis
      using table.prems by (intro entry_copy_mono [OF table.IH(2)]) auto
  qed
qed simp

text \<open>Paths into a copy, and the frames at their ends, which differ.\<close>

definition ipath :: "u64 list \<Rightarrow> nat \<Rightarrow> u64 list \<Rightarrow> bool" where
  "ipath is l p \<longleftrightarrow> p \<noteq> [] \<and> hd p \<in> set is \<and> (\<forall>i \<in> set p. i < 512) \<and> length p \<le> l"

lemma ipath_Cons: "q \<noteq> [] \<Longrightarrow> ipath is l (i # q) \<Longrightarrow> ipath (idx 0 512) (l - 1) q"
  by (cases q) (auto simp: ipath_def idx_set word_less_nat_alt)

lemma clone_of_frame:
  assumes "clone_of s0 s l S D is us" "ipath is l p" "pt_entry s D p = Some e"
  shows "e AND ADDR_MASK \<in> set us"
  using clone_of_entry [OF assms(1)] assms(2,3) entry_copy_frame unfolding ipath_def by metis

lemma clone_of_inj:
  assumes "clone_of s0 s l S D is us" "distinct us" "distinct is" "ipath is l p" "ipath is l q"
    and "pt_entry s D p = Some e" "pt_entry s D q = Some e'" "e AND ADDR_MASK = e' AND ADDR_MASK"
  shows "p = q"
  using assms
proof (induction arbitrary: p q)
  case (absent S i D l "is" us)
  have "ipath is l r" if "ipath (i # is) l r" "pt_entry s D r = Some v" for r v
    using that absent.hyps(2) by (cases r; cases "tl r = []") (auto simp: ipath_def pt_entry_simps pt_step_ent)
  then show ?case
    using absent by simp
next
  case (page S i l D d "is" us)
  have d: "ent s D i AND ADDR_MASK = d"
    using page.hyps(3,4) moved_bits(1) [of d] unfolding moved_def by simp
  have cases: "r = [i] \<and> v AND ADDR_MASK = d \<or> ipath is l r \<and> v AND ADDR_MASK \<in> set us"
    if r: "ipath (i # is) l r" "pt_entry s D r = Some v" for r v
  proof (cases "hd r = i")
    case True
    then have "r = [i]"
      using r(1) page.hyps(2) by (cases r; cases "tl r") (auto simp: ipath_def)
    then show ?thesis
      using r(2) d by (simp add: pt_entry_simps split: if_splits)
  next
    case False
    then have "ipath is l r"
      using r(1) by (simp add: ipath_def)
    then show ?thesis
      using clone_of_frame [OF page.hyps(6) _ r(2)] by blast
  qed
  show ?case
    using cases [OF page.prems(3,5)] cases [OF page.prems(4,6)] page.prems page.IH [OF _ _ _ _ page.prems(5,6,7)] by auto
next
  case (table S i l D d vs "is" us)
  have m: "ent s D i = moved d (ent s0 S i)"
    using table.hyps(4) by (simp only: moved_def)
  have e: "ent s D i AND PTE_PRESENT \<noteq> 0" "ent s D i AND PTE_HUGE = 0" "ent s D i AND ADDR_MASK = d"
    using table.hyps(1,3) moved_bits [OF table.hyps(5)] m by simp_all
  have cases: "r = [i] \<and> v AND ADDR_MASK = d \<or> ipath is l r \<and> v AND ADDR_MASK \<in> set us \<or>
      (\<exists>t. r = i # t \<and> ipath (idx 0 512) (l - 1) t \<and> pt_entry s d t = Some v \<and> v AND ADDR_MASK \<in> set vs)"
    if r: "ipath (i # is) l r" "pt_entry s D r = Some v" for r v
  proof (cases "hd r = i")
    case True
    then obtain t where t: "r = i # t"
      using r(1) by (cases r) (auto simp: ipath_def)
    show ?thesis
    proof (cases "t = []")
      case True
      then show ?thesis
        using r(2) e by (simp add: t pt_entry_simps)
    next
      case False
      then have "ipath (idx 0 512) (l - 1) t" "pt_entry s d t = Some v"
        using ipath_Cons [OF False] r e by (simp_all add: t pt_entry_simps pt_step_ent)
      then show ?thesis
        using clone_of_frame [OF table.hyps(6)] t by blast
    qed
  next
    case False
    then have "ipath is l r"
      using r(1) by (simp add: ipath_def)
    then show ?thesis
      using clone_of_frame [OF table.hyps(7) _ r(2)] by blast
  qed
  have dist: "distinct vs" "distinct us" "distinct is" "d \<notin> set vs" "d \<notin> set us" "set vs \<inter> set us = {}"
    using table.prems(1,2) by auto
  show ?case
    using cases [OF table.prems(3,5)] cases [OF table.prems(4,6)] dist table.prems(7)
      table.IH(1) [OF dist(1) idx_distinct [OF order_refl]] table.IH(2) [OF dist(2,3) _ _ table.prems(5,6,7)]
    by (elim disjE exE conjE) (simp_all, blast+)
qed (simp add: ipath_def)

section \<open>A new address space\<close>

lemma copy_entries:
  fixes s :: "'a phys_scheme"
  assumes "k \<le> 512" "free_frames s ys" "page_aligned D" "D \<notin> set ys" "page_aligned S" "S \<noteq> D"
  shows "\<exists>s'. fold (\<lambda>i s. wr (entry_at (phys_to_virt s0 D) (word_of_nat i)) (rd s (entry_at (phys_to_virt s0 S) (word_of_nat i))) s)
      [k..<512] s = s' \<and> (hhdm s = hhdm s0 \<longrightarrow> free_frames s' ys \<and> hhdm s' = hhdm s \<and> phys.more s' = phys.more s \<and>
      (\<forall>u. page_aligned u \<longrightarrow> u \<noteq> D \<longrightarrow> same_page (mem s') (mem s) (phys_to_virt s u)) \<and>
      (\<forall>i<512. ent s' D i = (if k \<le> unat i then ent s S i else ent s D i)))"
  using assms(1,2)
proof (induction k arbitrary: s rule: inc_induct)
  case base
  have "\<not> 512 \<le> unat i" if "i < 512" for i :: u64
    using that by (simp add: word_less_nat_alt)
  then show ?case
    using base by simp
next
  case (step k)
  define j where "j = (word_of_nat k :: u64)"
  have j: "j < 512" "unat j = k"
    using step.hyps by (simp_all add: j_def word_less_nat_alt)
  define t where "t = wr (entry_at (phys_to_virt s0 D) j) (rd s (entry_at (phys_to_virt s0 S) j)) s"
  have run: "fold (\<lambda>i s. wr (entry_at (phys_to_virt s0 D) (word_of_nat i)) (rd s (entry_at (phys_to_virt s0 S) (word_of_nat i))) s)
      [k..<512] s = fold (\<lambda>i s. wr (entry_at (phys_to_virt s0 D) (word_of_nat i)) (rd s (entry_at (phys_to_virt s0 S) (word_of_nat i))) s)
      [Suc k..<512] t"
    using step.hyps by (simp add: upt_conv_Cons t_def j_def)
  show ?case
  proof (cases "hhdm s = hhdm s0")
    case True
    then have v: "phys_to_virt s0 = phys_to_virt s"
      by (simp add: phys_to_virt_def fun_eq_iff)
    have free: "free_frames t ys"
      unfolding t_def v by (rule free_frames_wr [OF step.prems assms(3,4) j(1)])
    have same: "same_page (mem t) (mem s) (phys_to_virt s u)" if "page_aligned u" "u \<noteq> D" for u
      unfolding t_def v by (rule wr_page_other [OF assms(3) that(1) j(1) that(2)])
    have e: "ent t D i = (if i = j then ent s S j else ent s D i)" "ent t S i = ent s S i" if "i < 512" for i
      using rd_wr_other [OF assms(3,3) j(1) that, where s = s] rd_wr_other [OF assms(3,5) j(1) that, where s = s] assms(6)
      by (simp_all add: ent_def t_def v)
    have h: "hhdm t = hhdm s" "phys_to_virt t = phys_to_virt s" "phys.more t = phys.more s"
      by (simp_all add: t_def)
    obtain s' where s': "fold (\<lambda>i s. wr (entry_at (phys_to_virt s0 D) (word_of_nat i)) (rd s (entry_at (phys_to_virt s0 S) (word_of_nat i))) s)
        [Suc k..<512] t = s'" "free_frames s' ys" "hhdm s' = hhdm t" "phys.more s' = phys.more t"
        "\<And>u. page_aligned u \<Longrightarrow> u \<noteq> D \<Longrightarrow> same_page (mem s') (mem t) (phys_to_virt t u)"
        "\<And>i. i < 512 \<Longrightarrow> ent s' D i = (if Suc k \<le> unat i then ent t S i else ent t D i)"
      using step.IH [OF free] True h by auto
    have "ent s' D i = (if k \<le> unat i then ent s S i else ent s D i)" if "i < 512" for i
    proof (cases "i = j")
      case False
      then have "unat i \<noteq> k"
        using j(2) by (metis word_unat_eq_iff)
      then show ?thesis
        using s'(6) [OF that] e [OF that] False by (simp add: Suc_le_eq le_less)
    qed (use s'(6) [OF that] e [OF that] j(2) in simp)
    moreover have "same_page (mem s') (mem s) (phys_to_virt s u)" if "page_aligned u" "u \<noteq> D" for u
      using same_page_trans [OF s'(5) [OF that, unfolded h(2)] same [OF that]] .
    ultimately show ?thesis
      unfolding run using s'(1-4) h by auto
  qed simp
qed

lemma vmm_more: "phys.more s = phys.more t \<Longrightarrow> cr3 s = cr3 t \<and> current_space s = current_space t"
  by (cases s; cases t) simp

lemma vmm_space_create_grows:
  fixes s :: "'a vmm_scheme"
  assumes free: "free_frames s (f # zs)" and S: "read_cr3 s = S" "S \<notin> set (f # zs)"
  shows "\<exists>s'. vmm_space_create s = (Some f, s') \<and> grows f s [f] s' zs \<and>
    (\<forall>i<512. ent s' f i = (if 256 \<le> unat i then ent s S i else 0))"
proof -
  let ?t = "snd (pmm_alloc_page s)"
  note al = pmm_alloc_Cons [OF free]
  have f: "page_aligned f" "f \<noteq> 0" "f \<notin> set zs" "S \<noteq> f" "page_aligned S"
    using free_frames_aligned [OF free] free_frames_distinct [OF free] S mask_aligned [of "cr3 s"]
    by (auto simp: read_cr3_def)
  have cr3: "read_cr3 ?t = S"
    using S(1) vmm_more [of ?t s] by (simp add: read_cr3_def)
  have le: "256 \<le> (512 :: nat)"
    by simp
  obtain s' where run: "fold (\<lambda>i s. wr (entry_at (phys_to_virt ?t f) (word_of_nat i)) (rd s (entry_at (phys_to_virt ?t S) (word_of_nat i))) s)
      [256..<512] ?t = s'" and c: "hhdm ?t = hhdm ?t \<longrightarrow> free_frames s' zs \<and> hhdm s' = hhdm ?t \<and> phys.more s' = phys.more ?t \<and>
      (\<forall>u. page_aligned u \<longrightarrow> u \<noteq> f \<longrightarrow> same_page (mem s') (mem ?t) (phys_to_virt ?t u)) \<and>
      (\<forall>i<512. ent s' f i = (if 256 \<le> unat i then ent ?t S i else ent ?t f i))"
    using copy_entries [OF le al(3) f(1,3,5,4), of ?t] by blast
  from c have s': "free_frames s' zs" "hhdm s' = hhdm s" "phys.more s' = phys.more s"
      "\<And>u. page_aligned u \<Longrightarrow> u \<noteq> f \<Longrightarrow> same_page (mem s') (mem ?t) (phys_to_virt s u)"
      "\<And>i. i < 512 \<Longrightarrow> ent s' f i = (if 256 \<le> unat i then ent ?t S i else ent ?t f i)"
    by simp_all
  have "vmm_space_create s = (Some f, s')"
    using al(1) f(2) run cr3 by (simp add: vmm_space_create_def split_def Let_def del: upt_rec_numeral)
  moreover have other: "same_page (mem ?t) (mem s) (phys_to_virt s u)" if "page_aligned u" "u \<noteq> f" for u
    using alloc_other_page [OF free that(1)] that(2) al(1) by simp
  then have "grows f s [f] s' zs"
    using s'(1-3) same_page_trans [OF s'(4)] free by (simp add: grows_def)
  moreover have "ent ?t S i = ent s S i" "ent ?t f i = 0" if "i < 512" for i
    using ent_same_page [OF other [OF f(5,4)]] rd_alloc_new [OF free that] that by (simp_all add: ent_def)
  ultimately show ?thesis
    using s'(5) by auto
qed

end
