(* ===== verification/Vmm_Riscv.thy ===== *)
theory Vmm_Riscv
  imports Vmm_X86
begin

text \<open>
  The RISC-V address spaces of \<open>kernel/arch/riscv64/vmm.c\<close>. Page tables have three or four levels
  (Sv39, Sv48), as the mode field of \<open>satp\<close> says; an entry holds its frame number from bit 10 on, and
  points to a table when it gives no permission. The functions have the names of the C ones with
  \<open>rv_\<close> in front; a fence of the TLB has no counterpart.
\<close>

section \<open>State and entries\<close>

record riscv = phys +
  satp :: u64
  rv_space :: u64

abbreviation (input) PTE_V :: u64 where "PTE_V \<equiv> 0x1"
abbreviation (input) PTE_R :: u64 where "PTE_R \<equiv> 0x2"
abbreviation (input) PTE_W :: u64 where "PTE_W \<equiv> 0x4"
abbreviation (input) PTE_X :: u64 where "PTE_X \<equiv> 0x8"
abbreviation (input) PTE_U :: u64 where "PTE_U \<equiv> 0x10"
abbreviation (input) PTE_A :: u64 where "PTE_A \<equiv> 0x40"
abbreviation (input) PTE_D :: u64 where "PTE_D \<equiv> 0x80"
abbreviation (input) SATP_MODE_MASK :: u64 where "SATP_MODE_MASK \<equiv> 0xF000000000000000"
abbreviation (input) SATP_PPN_MASK :: u64 where "SATP_PPN_MASK \<equiv> 0xFFFFFFFFFFF"

definition rv_levels :: "'a riscv_scheme \<Rightarrow> nat" where
  "rv_levels s = (if drop_bit 60 (satp s) = 9 then 4 else 3)"

definition rv_root :: "'a riscv_scheme \<Rightarrow> u64" where
  "rv_root s = push_bit 12 (satp s AND SATP_PPN_MASK)"

definition pte_phys :: "u64 \<Rightarrow> u64" where
  "pte_phys pte = push_bit 12 (drop_bit 10 pte)"

definition make_pte :: "u64 \<Rightarrow> u64 \<Rightarrow> u64" where
  "make_pte frame flags = push_bit 10 (drop_bit 12 frame) OR flags"

section \<open>Walking the tables\<close>

definition rv_next_table :: "u64 \<Rightarrow> u64 \<Rightarrow> bool \<Rightarrow> 'a phys_scheme \<Rightarrow> u64 \<times> 'a phys_scheme" where
  "rv_next_table table index create s =
     (let pte = rd s (entry_at table index)
      in if pte AND PTE_V = 0
         then if \<not> create then (0, s)
              else let (frame, s) = pmm_alloc_page s
                   in if frame = 0 then (0, s)
                      else let s = wr (entry_at table index) (make_pte frame PTE_V) s in (phys_to_virt s frame, s)
         else if pte AND (PTE_R OR PTE_W OR PTE_X) \<noteq> 0 then (0, s)
         else (phys_to_virt s (pte_phys pte), s))"

text \<open>The loop of \<^verbatim>\<open>get_pte\<close> from a level down to 1.\<close>

fun rv_descend :: "nat \<Rightarrow> u64 \<Rightarrow> u64 \<Rightarrow> bool \<Rightarrow> 'a phys_scheme \<Rightarrow> u64 \<times> 'a phys_scheme" where
  "rv_descend 0 table virt create s = (table, s)"
| "rv_descend (Suc k) table virt create s =
     (let (table, s) = rv_next_table table (drop_bit (12 + Suc k * 9) virt AND 0x1ff) create s
      in if table = 0 then (0, s) else rv_descend k table virt create s)"

definition rv_get_pte :: "u64 \<Rightarrow> u64 \<Rightarrow> bool \<Rightarrow> 'a riscv_scheme \<Rightarrow> u64 \<times> 'a riscv_scheme" where
  "rv_get_pte root virt create s =
     (let (table, s) = rv_descend (rv_levels s - 1) (phys_to_virt s root) virt create s
      in if table = 0 then (0, s) else (entry_at table (drop_bit 12 virt AND 0x1ff), s))"

definition rv_map_page :: "u64 \<Rightarrow> u64 \<Rightarrow> u64 \<Rightarrow> u64 \<Rightarrow> bool \<Rightarrow> 'a riscv_scheme \<Rightarrow> int \<times> 'a riscv_scheme" where
  "rv_map_page root virt frame flags user s =
     (let (pte, s) = rv_get_pte root virt True s
      in if pte = 0 then (-1, s)
         else let bits = PTE_V OR PTE_R OR PTE_A OR PTE_D;
                  bits = (if flags AND VMM_WRITE \<noteq> 0 then bits OR PTE_W else bits);
                  bits = (if user then bits OR (PTE_U OR PTE_X) else bits)
              in (0, wr pte (make_pte frame bits) s))"

section \<open>Address spaces\<close>

definition rv_space_create :: "'a riscv_scheme \<Rightarrow> u64 option \<times> 'a riscv_scheme" where
  "rv_space_create s =
     (let (root, s) = pmm_alloc_page s
      in if root = 0 then (None, s)
         else let dst = phys_to_virt s root; src = phys_to_virt s (rv_root s)
              in (Some root,
                  fold (\<lambda>i s. wr (entry_at dst (word_of_nat i)) (rd s (entry_at src (word_of_nat i))) s) [256..<512] s))"

text \<open>\<^verbatim>\<open>clone_table\<close>, its loop from entry \<open>i\<close> on, over the tables at two kernel addresses.\<close>

function rv_clone_entries :: "nat \<Rightarrow> u64 \<Rightarrow> u64 \<Rightarrow> nat \<Rightarrow> 'a phys_scheme \<Rightarrow> int \<times> 'a phys_scheme" where
  "rv_clone_entries level dst src i s =
     (if i < 512
      then let pte = rd s (entry_at src (word_of_nat i))
           in if pte AND PTE_V = 0 then rv_clone_entries level dst src (Suc i) s
              else let (page, s) = pmm_alloc_page s
                   in if page = 0 then (-1, s)
                      else let s = wr (entry_at dst (word_of_nat i)) (make_pte page (pte AND 0x3ff)) s
                           in if pte AND (PTE_R OR PTE_W OR PTE_X) \<noteq> 0
                              then rv_clone_entries level dst src (Suc i)
                                     (s\<lparr>mem := memcpy (mem s) (phys_to_virt s page) (phys_to_virt s (pte_phys pte)) 4096\<rparr>)
                              else if level = 0 then (-1, s)
                              else let (r, s) = rv_clone_entries (level - 1) (phys_to_virt s page) (phys_to_virt s (pte_phys pte)) 0 s
                                   in if r \<noteq> 0 then (-1, s) else rv_clone_entries level dst src (Suc i) s
      else (0, s))"
  by pat_completeness auto
termination
  by (relation "measures [\<lambda>(level, dst, src, i, s). level, \<lambda>(level, dst, src, i, s). 512 - i]") auto

declare rv_clone_entries.simps [simp del]

definition rv_clone_table :: "u64 \<Rightarrow> u64 \<Rightarrow> nat \<Rightarrow> 'a phys_scheme \<Rightarrow> int \<times> 'a phys_scheme" where
  "rv_clone_table dst_phys src_phys level s =
     rv_clone_entries level (phys_to_virt s dst_phys) (phys_to_virt s src_phys) 0 s"

function rv_free_entries :: "nat \<Rightarrow> u64 \<Rightarrow> nat \<Rightarrow> 'a phys_scheme \<Rightarrow> 'a phys_scheme" where
  "rv_free_entries level frame i s =
     (if i < 512
      then let pte = rd s (entry_at (phys_to_virt s frame) (word_of_nat i))
           in if pte AND PTE_V = 0 then rv_free_entries level frame (Suc i) s
              else let child = pte_phys pte
                   in if level \<le> 1 \<or> pte AND (PTE_R OR PTE_W OR PTE_X) \<noteq> 0
                      then rv_free_entries level frame (Suc i) (pmm_free_page child s)
                      else rv_free_entries level frame (Suc i) (rv_free_entries (level - 1) child 0 s)
      else pmm_free_page frame s)"
  by pat_completeness auto
termination
  by (relation "measures [\<lambda>(level, frame, i, s). level, \<lambda>(level, frame, i, s). 512 - i]") auto

declare rv_free_entries.simps [simp del]

definition rv_free_table :: "u64 \<Rightarrow> nat \<Rightarrow> 'a phys_scheme \<Rightarrow> 'a phys_scheme" where
  "rv_free_table frame level s = rv_free_entries level frame 0 s"

definition rv_space_destroy :: "u64 \<Rightarrow> 'a riscv_scheme \<Rightarrow> u64 \<times> 'a riscv_scheme" where
  "rv_space_destroy root s =
     (if root = 0 \<or> rv_root s = root then (root, s)
      else let s = fold (\<lambda>i s. let entry = rd s (entry_at (phys_to_virt s root) (word_of_nat i))
                               in if entry AND PTE_V \<noteq> 0 then rv_free_table (pte_phys entry) (rv_levels s - 1) s else s)
                     [0..<256] s
           in (0, pmm_free_page root s))"

fun rv_clone_user_half :: "u64 \<Rightarrow> u64 \<Rightarrow> nat list \<Rightarrow> 'a riscv_scheme \<Rightarrow> bool \<times> 'a riscv_scheme" where
  "rv_clone_user_half to_tab from_tab [] s = (True, s)"
| "rv_clone_user_half to_tab from_tab (i # is) s =
     (let entry = rd s (entry_at from_tab (word_of_nat i))
      in if entry AND PTE_V = 0 then rv_clone_user_half to_tab from_tab is s
         else let (page, s) = pmm_alloc_page s
              in if page = 0 then (False, s)
                 else let s = wr (entry_at to_tab (word_of_nat i)) (make_pte page (entry AND 0x3ff)) s;
                          (r, s) = rv_clone_table page (pte_phys entry) (rv_levels s - 2) s
                      in if r \<noteq> 0 then (False, s) else rv_clone_user_half to_tab from_tab is s)"

definition rv_space_clone :: "u64 \<Rightarrow> 'a riscv_scheme \<Rightarrow> u64 option \<times> 'a riscv_scheme" where
  "rv_space_clone src_root s =
     (case rv_space_create s of
        (None, s) \<Rightarrow> (None, s)
      | (Some dst_root, s) \<Rightarrow>
          let (ok, s) = rv_clone_user_half (phys_to_virt s dst_root) (phys_to_virt s src_root) [0..<256] s
          in if ok then (Some dst_root, s) else (None, snd (rv_space_destroy dst_root s)))"

definition rv_space_activate :: "u64 \<Rightarrow> 'a riscv_scheme \<Rightarrow> 'a riscv_scheme" where
  "rv_space_activate root s = s\<lparr>rv_space := root, satp := (satp s AND SATP_MODE_MASK) OR drop_bit 12 root\<rparr>"

definition rv_space_current :: "'a riscv_scheme \<Rightarrow> u64" where
  "rv_space_current s = rv_space s"

section \<open>Mappings\<close>

definition rv_map_user :: "u64 \<Rightarrow> u64 \<Rightarrow> u64 \<Rightarrow> u64 \<Rightarrow> 'a riscv_scheme \<Rightarrow> int \<times> 'a riscv_scheme" where
  "rv_map_user root virt frame flags s = rv_map_page root virt frame flags True s"

definition rv_map_kernel :: "u64 \<Rightarrow> u64 \<Rightarrow> u64 \<Rightarrow> 'a riscv_scheme \<Rightarrow> int \<times> 'a riscv_scheme" where
  "rv_map_kernel virt frame flags s = rv_map_page (rv_root s) virt frame flags False s"

definition rv_unmap_kernel :: "u64 \<Rightarrow> 'a riscv_scheme \<Rightarrow> u64 \<times> 'a riscv_scheme" where
  "rv_unmap_kernel virt s =
     (let (pte, s) = rv_get_pte (rv_root s) virt False s
      in if pte = 0 \<or> rd s pte AND PTE_V = 0 then (0, s) else (pte_phys (rd s pte), wr pte 0 s))"

definition rv_kernel_window :: "'a riscv_scheme \<Rightarrow> (u64 \<times> u64) \<times> 'a riscv_scheme" where
  "rv_kernel_window s =
     (let shift = (if rv_levels s = 4 then 39 else 30);
          base = (if rv_levels s = 4 then 0xffffe00000000000 else 0xfffffff800000000);
          sz = push_bit shift 1
      in ((base, sz), snd (rv_next_table (phys_to_virt s (rv_root s)) (drop_bit shift base AND 0x1ff) True s)))"

definition rv_protect_user :: "u64 \<Rightarrow> u64 \<Rightarrow> u64 \<Rightarrow> 'a riscv_scheme \<Rightarrow> int \<times> 'a riscv_scheme" where
  "rv_protect_user root virt flags s =
     (let (pte, s) = rv_get_pte root virt False s
      in if pte = 0 \<or> rd s pte AND PTE_V = 0 \<or> rd s pte AND PTE_U = 0 then (-1, s)
         else (0, if flags AND VMM_WRITE \<noteq> 0 then wr pte (rd s pte OR PTE_W) s else wr pte (rd s pte AND NOT PTE_W) s))"

definition rv_unmap_user :: "u64 \<Rightarrow> u64 \<Rightarrow> 'a riscv_scheme \<Rightarrow> int \<times> 'a riscv_scheme" where
  "rv_unmap_user root virt s =
     (let (pte, s) = rv_get_pte root virt False s
      in if pte = 0 \<or> rd s pte AND PTE_V = 0 \<or> rd s pte AND PTE_U = 0 then (-1, s)
         else let frame = pte_phys (rd s pte); s = wr pte 0 s in (0, pmm_free_page frame s))"

definition rv_user_phys :: "u64 \<Rightarrow> u64 \<Rightarrow> 'a riscv_scheme \<Rightarrow> u64" where
  "rv_user_phys root virt s =
     (let (pte, s) = rv_get_pte root virt False s
      in if pte = 0 \<or> rd s pte AND PTE_V = 0 \<or> rd s pte AND PTE_U = 0 then 0
         else pte_phys (rd s pte) OR (virt AND (PAGE_SIZE - 1)))"

text \<open>The check of a page in the loop of \<^verbatim>\<open>vmm_user_range_ok\<close>.\<close>

definition rv_page_ok :: "u64 \<Rightarrow> bool \<Rightarrow> 'a riscv_scheme \<Rightarrow> u64 \<Rightarrow> bool" where
  "rv_page_ok root wr_access s page \<longleftrightarrow>
     (let pte = fst (rv_get_pte root page False s)
      in \<not> (pte = 0 \<or> rd s pte AND PTE_V = 0 \<or> rd s pte AND PTE_U = 0) \<and> \<not> (wr_access \<and> rd s pte AND PTE_W = 0))"

definition rv_user_range_ok :: "u64 \<Rightarrow> u64 \<Rightarrow> u64 \<Rightarrow> bool \<Rightarrow> 'a riscv_scheme \<Rightarrow> bool" where
  "rv_user_range_ok root virt len wr_access s \<longleftrightarrow>
     (let limit = (if rv_levels s = 4 then 0x0000ffffffffffff else 0x0000003fffffffff)
      in span_ok (rv_page_ok root wr_access s) limit virt len)"

section \<open>Facts\<close>

text \<open>The frame that is put into an entry is the one it holds, as long as its number fits into the 44 bits.\<close>

lemma bit_take_bit_eq: "take_bit k w = w \<Longrightarrow> bit w n \<Longrightarrow> n < k"
  by (metis bit_take_bit_iff)

lemma pte_phys_make_pte:
  assumes "page_base frame = frame" "take_bit 56 frame = frame" "take_bit 10 flags = flags"
  shows "pte_phys (make_pte frame flags) = frame"
proof (rule bit_eqI)
  fix n
  have "\<not> bit frame n" if "n < 12"
    using that arg_cong [OF assms(1), of "\<lambda>w. bit w n"] by (auto simp: page_base_def mask_12 bit_simps)
  moreover have "\<not> bit flags (n - 2)" if "12 \<le> n"
    using bit_take_bit_eq [OF assms(3), of "n - 2"] that by auto
  moreover have "\<not> bit frame n" if "56 \<le> n"
    using bit_take_bit_eq [OF assms(2), of n] that by auto
  ultimately show "bit (pte_phys (make_pte frame flags)) n \<longleftrightarrow> bit frame n"
    by (cases "n < 12"; cases "56 \<le> n") (auto simp: pte_phys_def make_pte_def bit_simps dest: bit_imp_le_length)
qed

lemma rv_next_table_ro [simp]: "snd (rv_next_table table i False s) = s"
  by (simp add: rv_next_table_def Let_def)

lemma rv_descend_ro [simp]: "snd (rv_descend k table virt False s) = s"
proof (induction k arbitrary: table)
  case (Suc k)
  show ?case
    by (cases "rv_next_table table (drop_bit (12 + Suc k * 9) virt AND 0x1ff) False s")
      (use rv_next_table_ro [of table "drop_bit (12 + Suc k * 9) virt AND 0x1ff" s] Suc in simp)
qed simp

lemma rv_descend_base: "rv_descend k table (page_base a) create s = rv_descend k table a create s"
  by (induction k arbitrary: table s) (simp_all add: drop_bit_page_base split: prod.split)

lemma rv_get_pte_base: "rv_get_pte root (page_base a) create s = rv_get_pte root a create s"
  by (simp add: rv_get_pte_def rv_descend_base drop_bit_page_base split: prod.split)

interpretation rv_pages: page_check "rv_page_ok root w s" for root w s
  by unfold_locales (simp add: rv_page_ok_def rv_get_pte_base)

section \<open>Property\<close>

text \<open>
  On RISC-V the user range check accepts a range exactly when it is empty, or lies in the first
  half of the address space of the current mode, of 48 or of 38 bits, without wrapping around and
  every byte of it is on a page that is valid, of the user and, for a write access, writable.
\<close>

theorem rv_user_range_ok_iff:
  "rv_user_range_ok root virt len w s \<longleftrightarrow>
     len = 0 \<or> unat virt + unat len \<le> (if rv_levels s = 4 then 2 ^ 48 else 2 ^ 38) \<and>
       (\<forall>a :: u64. unat virt \<le> unat a \<and> unat a < unat virt + unat len \<longrightarrow> rv_page_ok root w s a)"
  using rv_pages.span_ok_iff [of root w s _ virt len] by (simp add: rv_user_range_ok_def)

text \<open>An Sv39 space with one user page at 4 MiB that may not be written.\<close>

definition sv39_page :: riscv where
  "sv39_page =
     (let z = \<lparr>mem = (\<lambda>_. 0), memmap = [], hhdm = 0xffff800000000000, region_index = 0,
        next_phys = 0, region_end = 0, free_head = 0, satp = 0x8000000000000001, rv_space = 0x1000\<rparr>
      in fold (\<lambda>(a, v). wr (phys_to_virt z a) v)
           [(0x1000, make_pte 0x2000 PTE_V), (0x2010, make_pte 0x3000 PTE_V), (0x3000, make_pte 0x5000 0xDB)] z)"

lemma rv_descend_2:
  "rv_descend 2 table virt create s =
     (let (table, s) = rv_next_table table (drop_bit 30 virt AND 0x1ff) create s
      in if table = 0 then (0, s) else rv_next_table table (drop_bit 21 virt AND 0x1ff) create s)"
  by (auto simp: numeral_2_eq_2 Let_def split: prod.split)

lemma sv39_levels: "rv_levels sv39_page = 3"
  by (simp add: rv_levels_def sv39_page_def wr_def Let_def)

lemma sv39_reads:
  "rd sv39_page 0xffff800000001000 = 0x801" "rd sv39_page 0xffff800000002010 = 0xC01" "rd sv39_page 0xffff800000003000 = 0x14DB"
  "hhdm sv39_page = 0xffff800000000000"
  by (simp_all add: sv39_page_def make_pte_def rd_def wr_def phys_to_virt_def Let_def read64_write64_other)

lemma sv39_page_ok: "rv_page_ok 0x1000 w sv39_page 0x400000 \<longleftrightarrow> \<not> w"
proof -
  have "fst (rv_get_pte 0x1000 0x400000 False sv39_page) = 0xffff800000003000"
    by (simp add: rv_get_pte_def sv39_levels rv_descend_2 rv_next_table_def entry_at_def phys_to_virt_def sv39_reads pte_phys_def)
  then show ?thesis
    by (simp add: rv_page_ok_def Let_def sv39_reads)
qed

lemma sv39_page_run: "rv_user_range_ok 0x1000 0x400ff0 0x10 w sv39_page \<longleftrightarrow> \<not> w"
  by (simp add: rv_user_range_ok_def span_ok_def sv39_page_ok sv39_levels Let_def)

theorem rv_user_range_ok_witness:
  "rv_user_range_ok 0x1000 0x400ff0 0x10 False sv39_page \<and> rv_page_ok 0x1000 False sv39_page 0x400fff"
proof -
  have "rv_page_ok 0x1000 False sv39_page 0x400fff"
    using rv_user_range_ok_iff [of "0x1000" "0x400ff0" "0x10" False sv39_page] by (simp add: sv39_page_run sv39_levels)
  then show ?thesis
    by (simp add: sv39_page_run)
qed

end
