(* ===== verification/Vmm_Aarch64.thy ===== *)
theory Vmm_Aarch64
  imports Vmm_X86
begin

text \<open>
  The AArch64 address spaces of \<open>kernel/arch/aarch64/vmm.c\<close>: four levels, with the tables of the user
  half and of the kernel in two registers of the exception level the kernel runs at. A descriptor
  points to a table when bit 1 is set; write access is the absence of the read-only bit. The functions
  have the names of the C ones with \<open>arm_\<close> in front; barriers and the TLB have no counterpart.
\<close>

section \<open>State and descriptors\<close>

record aarch64 = phys +
  arm_el :: u64
  ttbr0_el1 :: u64
  ttbr0_el2 :: u64
  ttbr1_el1 :: u64
  ttbr1_el2 :: u64
  arm_space :: u64

abbreviation (input) DESC_VALID :: u64 where "DESC_VALID \<equiv> 0x1"
abbreviation (input) DESC_TABLE :: u64 where "DESC_TABLE \<equiv> 0x2"
abbreviation (input) DESC_AF :: u64 where "DESC_AF \<equiv> 0x400"
abbreviation (input) DESC_USER :: u64 where "DESC_USER \<equiv> 0x40"
abbreviation (input) DESC_RO :: u64 where "DESC_RO \<equiv> 0x80"
abbreviation (input) DESC_SH :: u64 where "DESC_SH \<equiv> 0x300"
abbreviation (input) DESC_PXN :: u64 where "DESC_PXN \<equiv> 0x20000000000000"
abbreviation (input) DESC_UXN :: u64 where "DESC_UXN \<equiv> 0x40000000000000"
abbreviation (input) DESC_DEVICE :: u64 where "DESC_DEVICE \<equiv> 0x1C"
abbreviation (input) ARM_MASK :: u64 where "ARM_MASK \<equiv> 0x0000fffffffff000"

text \<open>\<^verbatim>\<open>CurrentEL\<close> has the level in the bits from 2 on.\<close>

definition current_el :: "'a aarch64_scheme \<Rightarrow> u64" where
  "current_el s = drop_bit 2 (arm_el s)"

definition read_ttbr0 :: "'a aarch64_scheme \<Rightarrow> u64" where
  "read_ttbr0 s = (if current_el s = 2 then ttbr0_el2 s else ttbr0_el1 s) AND ARM_MASK"

definition read_ttbr1 :: "'a aarch64_scheme \<Rightarrow> u64" where
  "read_ttbr1 s = (if current_el s = 2 then ttbr1_el2 s else ttbr1_el1 s) AND ARM_MASK"

section \<open>Walking the tables\<close>

definition arm_next_table :: "u64 \<Rightarrow> u64 \<Rightarrow> bool \<Rightarrow> 'a phys_scheme \<Rightarrow> u64 \<times> 'a phys_scheme" where
  "arm_next_table table index create s =
     (let entry = rd s (entry_at table index)
      in if entry AND DESC_VALID = 0
         then if \<not> create then (0, s)
              else let (frame, s) = pmm_alloc_page s
                   in if frame = 0 then (0, s)
                      else let s = wr (entry_at table index) (frame OR DESC_VALID OR DESC_TABLE) s in (phys_to_virt s frame, s)
         else if entry AND DESC_TABLE = 0 then (0, s)
         else (phys_to_virt s (entry AND ARM_MASK), s))"

text \<open>The loop of \<^verbatim>\<open>get_pte\<close> over the shifts 39, 30 and 21.\<close>

fun arm_descend :: "nat list \<Rightarrow> u64 \<Rightarrow> u64 \<Rightarrow> bool \<Rightarrow> 'a phys_scheme \<Rightarrow> u64 \<times> 'a phys_scheme" where
  "arm_descend [] table virt create s = (table, s)"
| "arm_descend (shift # shifts) table virt create s =
     (let (table, s) = arm_next_table table (drop_bit shift virt AND 0x1ff) create s
      in if table = 0 then (0, s) else arm_descend shifts table virt create s)"

definition arm_get_pte :: "u64 \<Rightarrow> u64 \<Rightarrow> bool \<Rightarrow> 'a phys_scheme \<Rightarrow> u64 \<times> 'a phys_scheme" where
  "arm_get_pte root virt create s =
     (let (table, s) = arm_descend [39, 30, 21] (phys_to_virt s root) virt create s
      in if table = 0 then (0, s) else (entry_at table (drop_bit 12 virt AND 0x1ff), s))"

definition arm_map_page :: "u64 \<Rightarrow> u64 \<Rightarrow> u64 \<Rightarrow> u64 \<Rightarrow> bool \<Rightarrow> 'a phys_scheme \<Rightarrow> int \<times> 'a phys_scheme" where
  "arm_map_page root virt frame flags user s =
     (let (pte, s) = arm_get_pte root virt True s
      in if pte = 0 then (-1, s)
         else let bits = DESC_VALID OR DESC_TABLE OR DESC_AF OR DESC_SH;
                  bits = (if user
                          then let bits = bits OR (DESC_USER OR DESC_PXN)
                               in if flags AND VMM_WRITE = 0 then bits OR DESC_RO else bits
                          else if flags AND VMM_DEVICE \<noteq> 0 then bits OR (DESC_DEVICE OR DESC_PXN OR DESC_UXN)
                          else bits)
              in (0, wr pte ((frame AND ARM_MASK) OR bits) s))"

section \<open>Address spaces\<close>

definition arm_space_create :: "'a phys_scheme \<Rightarrow> u64 option \<times> 'a phys_scheme" where
  "arm_space_create s = (let (root, s) = pmm_alloc_page s in (if root \<noteq> 0 then Some root else None, s))"

text \<open>\<^verbatim>\<open>clone_table\<close>, its loop from entry \<open>i\<close> on. Every call has \<open>level \<ge> 1\<close>.\<close>

function arm_clone_entries :: "nat \<Rightarrow> u64 \<Rightarrow> u64 \<Rightarrow> nat \<Rightarrow> 'a phys_scheme \<Rightarrow> int \<times> 'a phys_scheme" where
  "arm_clone_entries level dst src i s =
     (if i < 512
      then let entry = rd s (entry_at src (word_of_nat i))
           in if entry AND DESC_VALID = 0 then arm_clone_entries level dst src (Suc i) s
              else let (page, s) = pmm_alloc_page s
                   in if page = 0 then (-1, s)
                      else let s = wr (entry_at dst (word_of_nat i)) (page OR (entry AND NOT ARM_MASK)) s
                           in if level \<le> 1 \<or> entry AND DESC_TABLE = 0
                              then arm_clone_entries level dst src (Suc i)
                                     (s\<lparr>mem := memcpy (mem s) (phys_to_virt s page) (phys_to_virt s (entry AND ARM_MASK)) 4096\<rparr>)
                              else let (r, s) = arm_clone_entries (level - 1) (phys_to_virt s page)
                                       (phys_to_virt s (entry AND ARM_MASK)) 0 s
                                   in if r \<noteq> 0 then (-1, s) else arm_clone_entries level dst src (Suc i) s
      else (0, s))"
  by pat_completeness auto
termination
  by (relation "measures [\<lambda>(level, dst, src, i, s). level, \<lambda>(level, dst, src, i, s). 512 - i]") auto

declare arm_clone_entries.simps [simp del]

definition arm_clone_table :: "u64 \<Rightarrow> u64 \<Rightarrow> nat \<Rightarrow> 'a phys_scheme \<Rightarrow> int \<times> 'a phys_scheme" where
  "arm_clone_table dst_phys src_phys level s =
     arm_clone_entries level (phys_to_virt s dst_phys) (phys_to_virt s src_phys) 0 s"

function arm_free_entries :: "nat \<Rightarrow> u64 \<Rightarrow> nat \<Rightarrow> 'a phys_scheme \<Rightarrow> 'a phys_scheme" where
  "arm_free_entries level frame i s =
     (if i < 512
      then let entry = rd s (entry_at (phys_to_virt s frame) (word_of_nat i))
           in if entry AND DESC_VALID = 0 then arm_free_entries level frame (Suc i) s
              else let child = entry AND ARM_MASK
                   in if level \<le> 1 then arm_free_entries level frame (Suc i) (pmm_free_page child s)
                      else arm_free_entries level frame (Suc i) (arm_free_entries (level - 1) child 0 s)
      else pmm_free_page frame s)"
  by pat_completeness auto
termination
  by (relation "measures [\<lambda>(level, frame, i, s). level, \<lambda>(level, frame, i, s). 512 - i]") auto

declare arm_free_entries.simps [simp del]

definition arm_free_table :: "u64 \<Rightarrow> nat \<Rightarrow> 'a phys_scheme \<Rightarrow> 'a phys_scheme" where
  "arm_free_table frame level s = arm_free_entries level frame 0 s"

definition arm_space_destroy :: "u64 \<Rightarrow> 'a aarch64_scheme \<Rightarrow> u64 \<times> 'a aarch64_scheme" where
  "arm_space_destroy root s = (if root = 0 \<or> read_ttbr0 s = root then (root, s) else (0, arm_free_table root 4 s))"

definition arm_space_clone :: "u64 \<Rightarrow> 'a aarch64_scheme \<Rightarrow> u64 option \<times> 'a aarch64_scheme" where
  "arm_space_clone src_root s =
     (case arm_space_create s of
        (None, s) \<Rightarrow> (None, s)
      | (Some dst_root, s) \<Rightarrow>
          let (r, s) = arm_clone_table dst_root src_root 4 s
          in if r = 0 then (Some dst_root, s) else (None, snd (arm_space_destroy dst_root s)))"

definition arm_space_activate :: "u64 \<Rightarrow> 'a aarch64_scheme \<Rightarrow> 'a aarch64_scheme" where
  "arm_space_activate root s =
     (let s = s\<lparr>arm_space := root\<rparr> in if current_el s = 2 then s\<lparr>ttbr0_el2 := root\<rparr> else s\<lparr>ttbr0_el1 := root\<rparr>)"

definition arm_space_current :: "'a aarch64_scheme \<Rightarrow> u64" where
  "arm_space_current s = arm_space s"

section \<open>Mappings\<close>

definition arm_map_user :: "u64 \<Rightarrow> u64 \<Rightarrow> u64 \<Rightarrow> u64 \<Rightarrow> 'a phys_scheme \<Rightarrow> int \<times> 'a phys_scheme" where
  "arm_map_user root virt frame flags s = arm_map_page root virt frame flags True s"

definition arm_map_kernel :: "u64 \<Rightarrow> u64 \<Rightarrow> u64 \<Rightarrow> 'a aarch64_scheme \<Rightarrow> int \<times> 'a aarch64_scheme" where
  "arm_map_kernel virt frame flags s = arm_map_page (read_ttbr1 s) virt frame flags False s"

definition arm_unmap_kernel :: "u64 \<Rightarrow> 'a aarch64_scheme \<Rightarrow> u64 \<times> 'a aarch64_scheme" where
  "arm_unmap_kernel virt s =
     (let (pte, s) = arm_get_pte (read_ttbr1 s) virt False s
      in if pte = 0 \<or> rd s pte AND DESC_VALID = 0 then (0, s) else (rd s pte AND ARM_MASK, wr pte 0 s))"

definition arm_kernel_window :: "u64 \<times> u64" where
  "arm_kernel_window = (0xffffe00000000000, push_bit 39 1)"

definition arm_protect_user :: "u64 \<Rightarrow> u64 \<Rightarrow> u64 \<Rightarrow> 'a phys_scheme \<Rightarrow> int \<times> 'a phys_scheme" where
  "arm_protect_user root virt flags s =
     (let (pte, s) = arm_get_pte root virt False s
      in if pte = 0 \<or> rd s pte AND DESC_VALID = 0 \<or> rd s pte AND DESC_USER = 0 then (-1, s)
         else (0, if flags AND VMM_WRITE \<noteq> 0 then wr pte (rd s pte AND NOT DESC_RO) s else wr pte (rd s pte OR DESC_RO) s))"

definition arm_unmap_user :: "u64 \<Rightarrow> u64 \<Rightarrow> 'a phys_scheme \<Rightarrow> int \<times> 'a phys_scheme" where
  "arm_unmap_user root virt s =
     (let (pte, s) = arm_get_pte root virt False s
      in if pte = 0 \<or> rd s pte AND DESC_VALID = 0 \<or> rd s pte AND DESC_USER = 0 then (-1, s)
         else let frame = rd s pte AND ARM_MASK; s = wr pte 0 s in (0, pmm_free_page frame s))"

definition arm_user_phys :: "u64 \<Rightarrow> u64 \<Rightarrow> 'a phys_scheme \<Rightarrow> u64" where
  "arm_user_phys root virt s =
     (let (pte, s) = arm_get_pte root virt False s
      in if pte = 0 \<or> rd s pte AND DESC_VALID = 0 \<or> rd s pte AND DESC_USER = 0 then 0
         else (rd s pte AND ARM_MASK) OR (virt AND (PAGE_SIZE - 1)))"

text \<open>The check of a page in the loop of \<^verbatim>\<open>vmm_user_range_ok\<close>.\<close>

definition arm_page_ok :: "u64 \<Rightarrow> bool \<Rightarrow> 'a phys_scheme \<Rightarrow> u64 \<Rightarrow> bool" where
  "arm_page_ok root wr_access s page \<longleftrightarrow>
     (let pte = fst (arm_get_pte root page False s)
      in \<not> (pte = 0 \<or> rd s pte AND DESC_VALID = 0 \<or> rd s pte AND DESC_USER = 0) \<and> \<not> (wr_access \<and> rd s pte AND DESC_RO \<noteq> 0))"

definition arm_user_range_ok :: "u64 \<Rightarrow> u64 \<Rightarrow> u64 \<Rightarrow> bool \<Rightarrow> 'a phys_scheme \<Rightarrow> bool" where
  "arm_user_range_ok root virt len wr_access s \<longleftrightarrow> span_ok (arm_page_ok root wr_access s) 0x0000ffffffffffff virt len"

section \<open>Facts\<close>

lemma arm_next_table_ro: "snd (arm_next_table table i False s) = s"
  by (simp add: arm_next_table_def Let_def)

lemma arm_descend_ro: "snd (arm_descend shifts table virt False s) = s"
proof (induction shifts arbitrary: table)
  case (Cons k ks)
  show ?case
    by (cases "arm_next_table table (drop_bit k virt AND 0x1ff) False s")
      (use arm_next_table_ro [of table "drop_bit k virt AND 0x1ff" s] Cons in simp)
qed simp

lemma arm_descend_base:
  "\<forall>k \<in> set shifts. 12 \<le> k \<Longrightarrow> arm_descend shifts table (page_base a) create s = arm_descend shifts table a create s"
  by (induction shifts arbitrary: table s) (simp_all add: drop_bit_page_base split: prod.split)

lemma arm_get_pte_base: "arm_get_pte root (page_base a) create s = arm_get_pte root a create s"
  by (simp add: arm_get_pte_def arm_descend_base drop_bit_page_base split: prod.split)

interpretation arm_pages: page_check "arm_page_ok root w s" for root w s
  by unfold_locales (simp add: arm_page_ok_def arm_get_pte_base)

section \<open>Property\<close>

text \<open>
  On AArch64 the user range check accepts a range exactly when it is empty, or lies in the 48 bits of
  the user half without wrapping around and every byte of it is on a page that is valid, of the user
  and, for a write access, not read-only.
\<close>

theorem arm_user_range_ok_iff:
  "arm_user_range_ok root virt len w s \<longleftrightarrow>
     len = 0 \<or> unat virt + unat len \<le> 2 ^ 48 \<and>
       (\<forall>a :: u64. unat virt \<le> unat a \<and> unat a < unat virt + unat len \<longrightarrow> arm_page_ok root w s a)"
  using arm_pages.span_ok_iff [of root w s "0x0000ffffffffffff" virt len] by (simp add: arm_user_range_ok_def)

text \<open>A space with one user page at 4 MiB that may not be written.\<close>

definition arm_page :: phys where
  "arm_page =
     (let z = \<lparr>mem = (\<lambda>_. 0), memmap = [], hhdm = 0xffff800000000000, region_index = 0,
        next_phys = 0, region_end = 0, free_head = 0\<rparr>
      in fold (\<lambda>(a, v). wr (phys_to_virt z a) v) [(0x1000, 0x2003), (0x2000, 0x3003), (0x3010, 0x4003), (0x4000, 0x57C3)] z)"

lemma arm_reads:
  "rd arm_page 0xffff800000001000 = 0x2003" "rd arm_page 0xffff800000002000 = 0x3003"
  "rd arm_page 0xffff800000003010 = 0x4003" "rd arm_page 0xffff800000004000 = 0x57C3" "hhdm arm_page = 0xffff800000000000"
  by (simp_all add: arm_page_def rd_def wr_def phys_to_virt_def Let_def read64_write64_other)

lemma arm_page_check: "arm_page_ok 0x1000 w arm_page 0x400000 \<longleftrightarrow> \<not> w"
proof -
  have "fst (arm_get_pte 0x1000 0x400000 False arm_page) = 0xffff800000004000"
    by (simp add: arm_get_pte_def arm_next_table_def entry_at_def phys_to_virt_def arm_reads)
  then show ?thesis
    by (simp add: arm_page_ok_def Let_def arm_reads)
qed

lemma arm_page_run: "arm_user_range_ok 0x1000 0x400ff0 0x10 w arm_page \<longleftrightarrow> \<not> w"
  by (simp add: arm_user_range_ok_def span_ok_def arm_page_check Let_def)

theorem arm_user_range_ok_witness:
  "arm_user_range_ok 0x1000 0x400ff0 0x10 False arm_page \<and> arm_page_ok 0x1000 False arm_page 0x400fff"
proof -
  have "arm_page_ok 0x1000 False arm_page 0x400fff"
    using arm_user_range_ok_iff [of "0x1000" "0x400ff0" "0x10" False arm_page] by (simp add: arm_page_run)
  then show ?thesis
    by (simp add: arm_page_run)
qed

end
