(* ===== verification/Object_Allocator.thy ===== *)
theory Object_Allocator
  imports Narc_Prelude
begin

text \<open>
  The interface of an allocator of objects, as the kernel heap and the C library's \<^verbatim>\<open>malloc\<close> both
  provide it: \<open>ok s L\<close> says that the objects \<open>L\<close> are in use, an object tagged \<open>c\<close> has \<open>room c\<close> bytes,
  and requests go up to \<open>limit\<close> bytes.
\<close>

locale object_allocator =
  fixes alloc :: "u64 \<Rightarrow> 's \<Rightarrow> u64 \<times> 's"
    and free :: "u64 \<Rightarrow> 's \<Rightarrow> 's"
    and ok :: "'s \<Rightarrow> (u64 \<Rightarrow> nat option) \<Rightarrow> bool"
    and room :: "nat \<Rightarrow> nat"
    and byte :: "'s \<Rightarrow> u64 \<Rightarrow> u8"
    and limit :: u64
  assumes nonnull: "ok s L \<Longrightarrow> L p = Some c \<Longrightarrow> p \<noteq> 0"
    and apart: "ok s L \<Longrightarrow> L p = Some c \<Longrightarrow> L q = Some d \<Longrightarrow> p \<noteq> q \<Longrightarrow> i < room c \<Longrightarrow> j < room d \<Longrightarrow>
      p + word_of_nat i \<noteq> q + word_of_nat j"
    and alloc_fail: "ok s L \<Longrightarrow> n \<le> limit \<Longrightarrow> alloc n s = (0, t) \<Longrightarrow> ok t L"
    and alloc_new: "ok s L \<Longrightarrow> n \<le> limit \<Longrightarrow> alloc n s = (p, t) \<Longrightarrow> p \<noteq> 0 \<Longrightarrow>
      L p = None \<and> (\<exists>c. unat n \<le> room c \<and> ok t (L(p \<mapsto> c)))"
    and alloc_keeps: "ok s L \<Longrightarrow> n \<le> limit \<Longrightarrow> alloc n s = (p, t) \<Longrightarrow> L q = Some c \<Longrightarrow> i < room c \<Longrightarrow>
      byte t (q + word_of_nat i) = byte s (q + word_of_nat i)"
    and free_ok: "ok s L \<Longrightarrow> L p = Some c \<Longrightarrow> ok (free p s) (L(p := None))"
    and free_keeps: "ok s L \<Longrightarrow> L p = Some c \<Longrightarrow> L q = Some d \<Longrightarrow> q \<noteq> p \<Longrightarrow> i < room d \<Longrightarrow>
      byte (free p s) (q + word_of_nat i) = byte s (q + word_of_nat i)"
begin

text \<open>An object allocated and freed leaves the objects in use as they were.\<close>

lemma alloc_free:
  assumes "ok s L" "n \<le> limit" "alloc n s = (p, t)" "p \<noteq> 0"
  shows "ok (free p t) L"
proof -
  obtain c where c: "L p = None" "ok t (L(p \<mapsto> c))"
    using alloc_new [OF assms] by blast
  from free_ok [OF c(2), of p c] show ?thesis
    using c(1) by (simp add: fun_upd_idem)
qed

text \<open>Two allocations in a row give objects without a common byte.\<close>

lemma alloc_twice:
  assumes "ok s L" "n \<le> limit" "alloc n s = (p, t)" "p \<noteq> 0" "m \<le> limit" "alloc m t = (q, u)" "q \<noteq> 0"
    "i < unat n" "j < unat m"
  shows "p + word_of_nat i \<noteq> q + word_of_nat j"
proof -
  obtain c where c: "unat n \<le> room c" "ok t (L(p \<mapsto> c))"
    using alloc_new [OF assms(1-4)] by blast
  obtain d where d: "(L(p \<mapsto> c)) q = None" "unat m \<le> room d" "ok u (L(p \<mapsto> c, q \<mapsto> d))"
    using alloc_new [OF c(2) assms(5-7)] by blast
  then have "p \<noteq> q"
    by auto
  then show ?thesis
    using apart [OF d(3), of p c q d i j] c(1) d(2) assms(8,9) by simp
qed

end

end
