(* ===== verification/Kheap.thy ===== *)
theory Kheap
  imports Vmm_Tables Object_Allocator
begin

text \<open>
  The kernel heap of \<open>kernel/mm/heap.c\<close>. Requests of up to 1024 bytes come from pages cut into
  slots of one of seven sizes, in the direct map, with a header at the start of the page and the
  free slots of a size chained through their first word. Larger requests get their own pages in a
  window of kernel addresses, mapped one frame at a time; the free parts of the window are a list
  of ranges, sorted by address and joined when they touch.

  The nodes of that list are heap objects themselves: a node is modelled by a \<open>range\<close> record that
  keeps the address the heap gave it, and the linked list by a list of such records. Everything
  else is at its address in memory.
\<close>

section \<open>State\<close>

record range =
  r_addr :: u64
  r_base :: u64
  r_pages :: u64

record heap = vmm +
  free_objects :: "nat \<Rightarrow> u64"
  free_ranges :: "range list"
  window_base :: u64
  window_end :: u64
  window_next :: u64

abbreviation (input) HEAP_MAGIC :: u32 where "HEAP_MAGIC \<equiv> 0x6e617263"
abbreviation (input) HEAP_HEADER :: u64 where "HEAP_HEADER \<equiv> 16"
abbreviation (input) CLASS_COUNT :: nat where "CLASS_COUNT \<equiv> 7"

definition class_size :: "u64 list" where
  "class_size = [16, 32, 64, 128, 256, 512, 1024]"

text \<open>
  Kernel addresses as the processor resolves them: the direct map is where it says, and an
  address of the window goes through the page tables to a frame of the direct map.
\<close>

definition kva :: "'a heap_scheme \<Rightarrow> u64 \<Rightarrow> u64" where
  "kva s a =
     (if window_base s \<le> a \<and> a < window_end s
      then phys_to_virt s (rd s (fst (get_pte (read_cr3 s) a False False s)) AND ADDR_MASK) + page_off a
      else a)"

text \<open>\<^verbatim>\<open>struct page_header\<close>: the magic number, the class and the page count, at offsets 0, 4 and 8.\<close>

definition header_magic :: "'a heap_scheme \<Rightarrow> u64 \<Rightarrow> u32" where
  "header_magic s p = read32 (mem s) (kva s p)"

definition header_class :: "'a heap_scheme \<Rightarrow> u64 \<Rightarrow> nat" where
  "header_class s p = unat (read32 (mem s) (kva s p + 4))"

definition header_pages :: "'a heap_scheme \<Rightarrow> u64 \<Rightarrow> u64" where
  "header_pages s p = read64 (mem s) (kva s p + 8)"

definition put_header :: "u64 \<Rightarrow> u32 \<Rightarrow> nat \<Rightarrow> u64 \<Rightarrow> 'a heap_scheme \<Rightarrow> 'a heap_scheme" where
  "put_header p magic cls pages s =
     s\<lparr>mem := write64 (write32 (write32 (mem s) (kva s p) magic) (kva s p + 4) (word_of_nat cls)) (kva s p + 8) pages\<rparr>"

section \<open>Small objects\<close>

definition heap_init :: "'a heap_scheme \<Rightarrow> 'a heap_scheme" where
  "heap_init s =
     (let ((base, sz), s) = vmm_kernel_window s
      in s\<lparr>window_base := base, window_end := base + sz, window_next := base\<rparr>)"

text \<open>The first class that is large enough, or None for -1.\<close>

definition class_for :: "u64 \<Rightarrow> nat option" where
  "class_for sz = List.find (\<lambda>i. sz \<le> class_size ! i) [0..<CLASS_COUNT]"

text \<open>Pushing an object on the free list of its class.\<close>

definition push_object :: "nat \<Rightarrow> u64 \<Rightarrow> 'a heap_scheme \<Rightarrow> 'a heap_scheme" where
  "push_object cls object s =
     s\<lparr>mem := write64 (mem s) object (free_objects s cls), free_objects := (free_objects s)(cls := object)\<rparr>"

text \<open>
  \<^verbatim>\<open>refill\<close>. The loop runs over the offsets \<open>HEAP_HEADER + k * size\<close> whose slot still ends
  within the page.
\<close>

definition slot_count :: "nat \<Rightarrow> nat" where
  "slot_count cls = (4096 - 16) div unat (class_size ! cls)"

definition slot :: "u64 \<Rightarrow> nat \<Rightarrow> nat \<Rightarrow> u64" where
  "slot page cls k = page + HEAP_HEADER + word_of_nat k * class_size ! cls"

definition refill :: "nat \<Rightarrow> 'a heap_scheme \<Rightarrow> bool \<times> 'a heap_scheme" where
  "refill cls s =
     (let (frame, s) = pmm_alloc_page s
      in if frame = 0 then (False, s)
         else let page = phys_to_virt s frame;
                  s = put_header page HEAP_MAGIC cls 0 s
              in (True, fold (\<lambda>k. push_object cls (slot page cls k)) [0..<slot_count cls] s))"

definition small_alloc :: "nat \<Rightarrow> 'a heap_scheme \<Rightarrow> u64 \<times> 'a heap_scheme" where
  "small_alloc cls s =
     (let (ok, s) = (if free_objects s cls = 0 then refill cls s else (True, s))
      in if \<not> ok then (0, s)
         else let object = free_objects s cls
              in (object, s\<lparr>free_objects := (free_objects s)(cls := rd s object)\<rparr>))"

text \<open>The page of an address, when it has a header, and 0 otherwise.\<close>

definition header_of :: "u64 \<Rightarrow> 'a heap_scheme \<Rightarrow> u64" where
  "header_of ptr s =
     (let header = ptr AND NOT (PAGE_SIZE - 1) in if header_magic s header = HEAP_MAGIC then header else 0)"

definition usable_size :: "u64 \<Rightarrow> 'a heap_scheme \<Rightarrow> u64" where
  "usable_size header s =
     (if header_class s header < CLASS_COUNT then class_size ! header_class s header
      else header_pages s header * PAGE_SIZE - HEAP_HEADER)"

text \<open>\<^verbatim>\<open>kfree\<close> of an object of a size class; the code calls it on the nodes of the range list.\<close>

definition kfree_small :: "u64 \<Rightarrow> 'a heap_scheme \<Rightarrow> 'a heap_scheme" where
  "kfree_small ptr s =
     (if ptr = 0 \<or> header_of ptr s = 0 \<or> \<not> header_class s (header_of ptr s) < CLASS_COUNT then s
      else push_object (header_class s (header_of ptr s)) ptr s)"

section \<open>The window\<close>

text \<open>
  First fit in the list of ranges: the base of the pages taken, the list left, and the node to
  free when a range is used up (0 when none is).
\<close>

fun take_range :: "u64 \<Rightarrow> range list \<Rightarrow> (u64 \<times> range list \<times> u64) option" where
  "take_range pages [] = None"
| "take_range pages (r # rs) =
     (if r_pages r < pages
      then (case take_range pages rs of None \<Rightarrow> None | Some (base, rs', node) \<Rightarrow> Some (base, r # rs', node))
      else let base = r_base r;
               r' = r\<lparr>r_base := r_base r + pages * PAGE_SIZE, r_pages := r_pages r - pages\<rparr>
           in if r_pages r' = 0 then Some (base, rs, r_addr r) else Some (base, r' # rs, 0))"

definition window_alloc :: "u64 \<Rightarrow> 'a heap_scheme \<Rightarrow> u64 \<times> 'a heap_scheme" where
  "window_alloc pages s =
     (case take_range pages (free_ranges s) of
        Some (base, rs, node) \<Rightarrow> (base, kfree_small node (s\<lparr>free_ranges := rs\<rparr>))
      | None \<Rightarrow>
          if pages > (window_end s - window_next s) div PAGE_SIZE then (0, s)
          else (window_next s, s\<lparr>window_next := window_next s + pages * PAGE_SIZE\<rparr>))"

definition range_end :: "range \<Rightarrow> u64" where
  "range_end r = r_base r + r_pages r * PAGE_SIZE"

text \<open>
  \<^verbatim>\<open>window_free\<close>: the ranges before and after \<open>base\<close>, then the three ways to join, then a new
  node. When there is no memory for the node the pages are lost, as in the code.
\<close>

definition window_free :: "u64 \<Rightarrow> u64 \<Rightarrow> 'a heap_scheme \<Rightarrow> 'a heap_scheme" where
  "window_free base pages s =
     (let before = takeWhile (\<lambda>r. r_base r < base) (free_ranges s);
          after = dropWhile (\<lambda>r. r_base r < base) (free_ranges s)
      in if before \<noteq> [] \<and> range_end (last before) = base
         then let prev = (last before)\<lparr>r_pages := r_pages (last before) + pages\<rparr>
              in (case after of
                    next # rest \<Rightarrow>
                      if range_end prev = r_base next
                      then kfree_small (r_addr next)
                             (s\<lparr>free_ranges := butlast before @ prev\<lparr>r_pages := r_pages prev + r_pages next\<rparr> # rest\<rparr>)
                      else s\<lparr>free_ranges := butlast before @ prev # next # rest\<rparr>
                  | [] \<Rightarrow> s\<lparr>free_ranges := butlast before @ [prev]\<rparr>)
         else if after \<noteq> [] \<and> base + pages * PAGE_SIZE = r_base (hd after)
         then s\<lparr>free_ranges := before @ (hd after)\<lparr>r_base := base, r_pages := r_pages (hd after) + pages\<rparr> # tl after\<rparr>
         else let (node, s) = small_alloc (the (class_for 24)) s
              in if node = 0 then s
                 else s\<lparr>free_ranges := before @ \<lparr>r_addr = node, r_base = base, r_pages = pages\<rparr> # after\<rparr>)"

definition unmap_pages :: "u64 \<Rightarrow> nat \<Rightarrow> 'a heap_scheme \<Rightarrow> 'a heap_scheme" where
  "unmap_pages base n s =
     fold (\<lambda>i s. let (frame, s) = vmm_unmap_kernel (base + word_of_nat i * PAGE_SIZE) s
                 in if frame \<noteq> 0 then pmm_free_page frame s else s) [0..<n] s"

text \<open>
  The mapping loop of \<^verbatim>\<open>large_alloc\<close>, from page \<open>i\<close> with \<open>n\<close> pages left. On failure it gives back
  the pages mapped so far and the window, and answers False.
\<close>

fun large_map :: "u64 \<Rightarrow> u64 \<Rightarrow> nat \<Rightarrow> nat \<Rightarrow> 'a heap_scheme \<Rightarrow> bool \<times> 'a heap_scheme" where
  "large_map base pages i 0 s = (True, s)"
| "large_map base pages i (Suc n) s =
     (let (frame, s) = pmm_alloc_page s
      in if frame = 0 then (False, window_free base pages (unmap_pages base i s))
         else let (r, s) = vmm_map_kernel (base + word_of_nat i * PAGE_SIZE) frame VMM_WRITE s
              in if r \<noteq> 0
                 then (False, window_free base pages (unmap_pages base i (pmm_free_page frame s)))
                 else large_map base pages (Suc i) n s)"

definition large_alloc :: "u64 \<Rightarrow> 'a heap_scheme \<Rightarrow> u64 \<times> 'a heap_scheme" where
  "large_alloc sz s =
     (if sz > - 1 - HEAP_HEADER - PAGE_SIZE then (0, s)
      else let pages = (sz + HEAP_HEADER + PAGE_SIZE - 1) div PAGE_SIZE;
               (base, s) = window_alloc pages s
           in if base = 0 then (0, s)
              else let (ok, s) = large_map base pages 0 (unat pages) s
                   in if \<not> ok then (0, s)
                      else (base + HEAP_HEADER, put_header base HEAP_MAGIC CLASS_COUNT pages s))"

section \<open>The heap's interface\<close>

definition kmalloc :: "u64 \<Rightarrow> 'a heap_scheme \<Rightarrow> u64 \<times> 'a heap_scheme" where
  "kmalloc sz s =
     (let sz = (if sz = 0 then 1 else sz)
      in case class_for sz of Some cls \<Rightarrow> small_alloc cls s | None \<Rightarrow> large_alloc sz s)"

text \<open>Byte loops through pointers that may lie in the window.\<close>

definition kmemset :: "u64 \<Rightarrow> u8 \<Rightarrow> nat \<Rightarrow> 'a heap_scheme \<Rightarrow> 'a heap_scheme" where
  "kmemset p c n s = fold (\<lambda>i s. s\<lparr>mem := (mem s)(kva s (p + word_of_nat i) := c)\<rparr>) [0..<n] s"

definition kmemcpy :: "u64 \<Rightarrow> u64 \<Rightarrow> nat \<Rightarrow> 'a heap_scheme \<Rightarrow> 'a heap_scheme" where
  "kmemcpy d p n s =
     fold (\<lambda>i s. s\<lparr>mem := (mem s)(kva s (d + word_of_nat i) := mem s (kva s (p + word_of_nat i)))\<rparr>) [0..<n] s"

definition kzalloc :: "u64 \<Rightarrow> 'a heap_scheme \<Rightarrow> u64 \<times> 'a heap_scheme" where
  "kzalloc sz s =
     (let (ptr, s) = kmalloc sz s in (ptr, if ptr \<noteq> 0 then kmemset ptr 0 (unat sz) s else s))"

definition kfree :: "u64 \<Rightarrow> 'a heap_scheme \<Rightarrow> 'a heap_scheme" where
  "kfree ptr s =
     (if ptr = 0 then s
      else let header = header_of ptr s
           in if header = 0 then s
              else if header_class s header < CLASS_COUNT then push_object (header_class s header) ptr s
              else let base = header; pages = header_pages s header;
                       s = s\<lparr>mem := write32 (mem s) (kva s header) 0\<rparr>
                   in window_free base pages (unmap_pages base (unat pages) s))"

definition krealloc :: "u64 \<Rightarrow> u64 \<Rightarrow> 'a heap_scheme \<Rightarrow> u64 \<times> 'a heap_scheme" where
  "krealloc ptr sz s =
     (if ptr = 0 then kmalloc sz s
      else let header = header_of ptr s
           in if header = 0 then (0, s)
              else let old = usable_size header s
                   in if sz \<le> old then (ptr, s)
                      else let (next, s) = kmalloc sz s
                           in if next = 0 then (0, s)
                              else (next, kfree ptr (kmemcpy next ptr (unat old) s)))"

section \<open>Slots\<close>

abbreviation csize :: "nat \<Rightarrow> nat" where "csize c \<equiv> unat (class_size ! c)"

lemma class_cases: "c < CLASS_COUNT \<Longrightarrow> c = 0 \<or> c = 1 \<or> c = 2 \<or> c = 3 \<or> c = 4 \<or> c = 5 \<or> c = 6"
  by linarith

lemma csize_values:
  assumes "c < CLASS_COUNT"
  shows "16 \<le> csize c" "csize c \<le> 1024" "slot_count c * csize c \<le> 4080" "0 < slot_count c"
    "of_nat (csize c) = class_size ! c"
  using class_cases [OF assms] by (auto simp: class_size_def slot_count_def)

definition slot_off :: "nat \<Rightarrow> nat \<Rightarrow> nat" where
  "slot_off c k = 16 + k * csize c"

lemma slot_off_bound:
  assumes "c < CLASS_COUNT" "k < slot_count c"
  shows "slot_off c k + csize c \<le> 4096"
proof -
  have "Suc k * csize c \<le> slot_count c * csize c"
    using assms(2) by (intro mult_le_mono1) simp
  then show ?thesis
    using csize_values(3) [OF assms(1)] by (simp add: slot_off_def)
qed

lemma slot_off_apart:
  assumes "j \<noteq> k"
  shows "slot_off c j + csize c \<le> slot_off c k \<or> slot_off c k + csize c \<le> slot_off c j"
proof (cases "j < k")
  case True
  then have "Suc j * csize c \<le> k * csize c"
    by (intro mult_le_mono1) simp
  then show ?thesis
    by (simp add: slot_off_def)
next
  case False
  then have "Suc k * csize c \<le> j * csize c"
    using assms by (intro mult_le_mono1) simp
  then show ?thesis
    by (simp add: slot_off_def)
qed

lemma slot_eq: "slot P c k = P + word_of_nat (slot_off c k)"
  by (simp add: slot_def slot_off_def algebra_simps)

text \<open>Offsets in a page.\<close>

lemma page_nat_add:
  assumes "page_aligned P" "i < 4096"
  shows "page_base (P + word_of_nat i) = P" "unat (page_off (P + word_of_nat i)) = i"
  using assms by (simp_all add: word_less_nat_alt)

lemma page_byte_apart:
  assumes "page_aligned P" "page_aligned Q" "n + i \<le> 4096" "j < 4096" "P \<noteq> Q \<or> j < i \<or> n + i \<le> j" "n \<le> 8"
  shows "\<not> (Q + word_of_nat j) - (P + word_of_nat i) < word_of_nat n"
proof
  define d where "d = unat ((Q + word_of_nat j) - (P + word_of_nat i))"
  assume "(Q + word_of_nat j) - (P + word_of_nat i) < word_of_nat n"
  then have d: "d < n"
    using assms(6) by (simp add: word_less_nat_alt d_def)
  have "Q + word_of_nat j = (P + word_of_nat i) + word_of_nat d"
    by (simp add: d_def)
  also have "\<dots> = P + word_of_nat (i + d)"
    by (simp add: algebra_simps)
  finally have e: "Q + word_of_nat j = P + word_of_nat (i + d)" .
  have "P = Q"
    using page_nat_add(1) [OF assms(1), of "i + d"] page_nat_add(1) [OF assms(2,4)] d assms(3) e by simp
  moreover have "j = i + d"
    using page_nat_add(2) [OF assms(1), of "i + d"] page_nat_add(2) [OF assms(2,4)] d assms(3) e by simp
  ultimately show False
    using assms(5) d by auto
qed

lemma read64_write64_page:
  assumes "page_aligned P" "page_aligned Q" "i + 8 \<le> 4096" "j + 8 \<le> 4096" "P \<noteq> Q \<or> j + 8 \<le> i \<or> i + 8 \<le> j"
  shows "read64 (write64 m (P + word_of_nat i) v) (Q + word_of_nat j) = read64 m (Q + word_of_nat j)"
proof (rule read64_cong)
  fix k :: nat assume k: "k < 8"
  have "\<not> (Q + word_of_nat (j + k)) - (P + word_of_nat i) < word_of_nat 8"
    using assms k by (intro page_byte_apart) auto
  then show "write64 m (P + word_of_nat i) v (Q + word_of_nat j + word_of_nat k) = m (Q + word_of_nat j + word_of_nat k)"
    by (simp add: write64_def add.assoc)
qed

lemma read32_write64_page:
  assumes "page_aligned P" "page_aligned Q" "i + 8 \<le> 4096" "j + 4 \<le> 4096" "P \<noteq> Q \<or> j + 4 \<le> i \<or> i + 8 \<le> j"
  shows "read32 (write64 m (P + word_of_nat i) v) (Q + word_of_nat j) = read32 m (Q + word_of_nat j)"
proof (rule read32_cong)
  fix k :: nat assume k: "k < 4"
  have "\<not> (Q + word_of_nat (j + k)) - (P + word_of_nat i) < word_of_nat 8"
    using assms k by (intro page_byte_apart) auto
  then show "write64 m (P + word_of_nat i) v (Q + word_of_nat j + word_of_nat k) = m (Q + word_of_nat j + word_of_nat k)"
    by (simp add: write64_def add.assoc)
qed

lemma write64_page_byte:
  assumes "page_aligned P" "page_aligned Q" "i + 8 \<le> 4096" "j < 4096" "P \<noteq> Q \<or> j < i \<or> i + 8 \<le> j"
  shows "write64 m (P + word_of_nat i) v (Q + word_of_nat j) = m (Q + word_of_nat j)"
  using page_byte_apart [OF assms(1,2), of 8 i j] assms by (simp add: write64_def add.commute)

lemma write32_page_byte:
  assumes "page_aligned P" "page_aligned Q" "i + 4 \<le> 4096" "j < 4096" "P \<noteq> Q \<or> j < i \<or> i + 4 \<le> j"
  shows "write32 m (P + word_of_nat i) v (Q + word_of_nat j) = m (Q + word_of_nat j)"
  using page_byte_apart [OF assms(1,2), of 4 i j] assms by (simp add: write32_def add.commute)

lemma read32_write32_page:
  assumes "page_aligned P" "i + 4 \<le> 4096" "j + 4 \<le> 4096" "j + 4 \<le> i \<or> i + 4 \<le> j"
  shows "read32 (write32 m (P + word_of_nat i) v) (P + word_of_nat j) = read32 m (P + word_of_nat j)"
proof (rule read32_cong)
  fix k :: nat assume k: "k < 4"
  have "write32 m (P + word_of_nat i) v (P + word_of_nat (j + k)) = m (P + word_of_nat (j + k))"
    using assms k by (intro write32_page_byte) auto
  then show "write32 m (P + word_of_nat i) v (P + word_of_nat j + word_of_nat k) = m (P + word_of_nat j + word_of_nat k)"
    by (simp add: add.assoc)
qed

lemma page_aligned_diff:
  assumes "page_aligned a" "page_aligned b"
  shows "page_aligned (a - b)"
proof -
  have u: "page_aligned x \<longleftrightarrow> 4096 dvd uint x" for x :: u64
    unfolding page_aligned_unat using of_nat_dvd_iff [of 4096 "unat x", where 'a = int] by simp
  have "4096 dvd (uint a - uint b) mod 2 ^ 64"
    using assms unfolding u by (intro dvd_mod) simp_all
  then show ?thesis
    unfolding u by (simp add: uint_word_ariths)
qed

lemma heap_more_eq:
  assumes "phys.more s = phys.more t"
  shows "window_base s = window_base t" "window_end s = window_end t" "free_objects s = free_objects t"
    "free_ranges s = free_ranges t" "window_next s = window_next t" "cr3 s = cr3 t"
    "heap.more s = heap.more t"
  using assms by (cases s; cases t; simp)+

section \<open>The invariant of the small objects\<close>

text \<open>A page of the direct map: reached without the window.\<close>

definition direct :: "'a heap_scheme \<Rightarrow> u64 \<Rightarrow> bool" where
  "direct s P \<longleftrightarrow> page_aligned P \<and> P \<noteq> 0 \<and>
     (\<forall>i < 4096. \<not> (window_base s \<le> P + word_of_nat i \<and> P + word_of_nat i < window_end s))"

lemma direct_kva: "direct s P \<Longrightarrow> i < 4096 \<Longrightarrow> kva s (P + word_of_nat i) = P + word_of_nat i"
  by (auto simp: direct_def kva_def)

lemma direct_kva_0: "direct s P \<Longrightarrow> kva s P = P"
  using direct_kva [of s P 0] by simp

definition slots :: "(u64 \<Rightarrow> nat option) \<Rightarrow> nat \<Rightarrow> u64 set" where
  "slots sl c = {x. \<exists>P k. sl P = Some c \<and> k < slot_count c \<and> x = slot P c k}"

text \<open>
  \<open>core s xs sl F L\<close>: \<open>xs\<close> are the free frames, \<open>sl\<close> gives the pages cut into slots and their
  class, \<open>F c\<close> is the free list of class \<open>c\<close> and \<open>L\<close> the objects in use with their class.
\<close>

definition slab_ok :: "'a heap_scheme \<Rightarrow> u64 list \<Rightarrow> u64 \<Rightarrow> nat \<Rightarrow> bool" where
  "slab_ok s xs P c \<longleftrightarrow>
     c < CLASS_COUNT \<and> direct s P \<and> P - hhdm s \<notin> set xs \<and>
     read32 (mem s) P = HEAP_MAGIC \<and> read32 (mem s) (P + 4) = word_of_nat c"

definition core :: "'a heap_scheme \<Rightarrow> u64 list \<Rightarrow> (u64 \<Rightarrow> nat option) \<Rightarrow> (nat \<Rightarrow> u64 list) \<Rightarrow>
    (u64 \<Rightarrow> nat option) \<Rightarrow> bool" where
  "core s xs sl F L \<longleftrightarrow>
     free_frames s xs \<and> page_aligned (hhdm s) \<and> (\<forall>f \<in> set xs. direct s (phys_to_virt s f)) \<and>
     (\<forall>P c. sl P = Some c \<longrightarrow> slab_ok s xs P c) \<and>
     (\<forall>c < CLASS_COUNT. chain (mem s) 0 (free_objects s c) (F c) \<and> distinct (F c) \<and>
        set (F c) \<subseteq> slots sl c \<and> set (F c) \<inter> dom L = {}) \<and>
     (\<forall>p c. L p = Some c \<longrightarrow> c < CLASS_COUNT \<and> p \<in> slots sl c)"

lemma coreD:
  assumes "core s xs sl F L"
  shows "free_frames s xs" "page_aligned (hhdm s)" "f \<in> set xs \<Longrightarrow> direct s (phys_to_virt s f)"
    "sl P = Some c \<Longrightarrow> slab_ok s xs P c" "sl P = Some c \<Longrightarrow> page_aligned P"
    "c < CLASS_COUNT \<Longrightarrow> chain (mem s) 0 (free_objects s c) (F c)"
    "c < CLASS_COUNT \<Longrightarrow> distinct (F c)" "c < CLASS_COUNT \<Longrightarrow> set (F c) \<subseteq> slots sl c"
    "c < CLASS_COUNT \<Longrightarrow> set (F c) \<inter> dom L = {}"
    "L p = Some c \<Longrightarrow> c < CLASS_COUNT" "L p = Some c \<Longrightarrow> p \<in> slots sl c"
    "sl P = Some c \<Longrightarrow> c < CLASS_COUNT"
  using assms unfolding core_def slab_ok_def direct_def by blast+

lemma slotsE:
  assumes "core s xs sl F L" "x \<in> slots sl c"
  obtains P k where "sl P = Some c" "k < slot_count c" "x = P + word_of_nat (slot_off c k)" "page_aligned P"
    "c < CLASS_COUNT" "slot_off c k + csize c \<le> 4096" "16 \<le> csize c" "16 \<le> slot_off c k"
proof -
  obtain P k where P: "sl P = Some c" "k < slot_count c" "x = slot P c k"
    using assms(2) by (auto simp: slots_def)
  then show ?thesis
    using that coreD(5,12) [OF assms(1) P(1)] slot_off_bound csize_values(1) [of c]
    by (simp add: slot_eq slot_off_def)
qed

text \<open>Two different slots share no byte; a slot shares none with a header.\<close>

lemma slots_apart:
  assumes co: "core s xs sl F L" and x: "x \<in> slots sl c" and y: "y \<in> slots sl d" and "x \<noteq> y"
    and "i < csize c" "j < csize d"
  shows "x + word_of_nat i \<noteq> y + word_of_nat j"
proof
  assume eq: "x + word_of_nat i = y + word_of_nat j"
  obtain P k where P: "sl P = Some c" "k < slot_count c" "x = P + word_of_nat (slot_off c k)" "page_aligned P"
    "slot_off c k + csize c \<le> 4096"
    by (rule slotsE [OF co x])
  obtain Q l where Q: "sl Q = Some d" "l < slot_count d" "y = Q + word_of_nat (slot_off d l)" "page_aligned Q"
    "slot_off d l + csize d \<le> 4096"
    by (rule slotsE [OF co y])
  have e: "P + word_of_nat (slot_off c k + i) = Q + word_of_nat (slot_off d l + j)"
    using eq P(3) Q(3) by (simp add: add.assoc)
  have "slot_off c k + i < 4096" "slot_off d l + j < 4096"
    using P(5) Q(5) assms(5,6) by simp_all
  then have "P = Q" "slot_off c k + i = slot_off d l + j"
    using page_nat_add [OF P(4)] page_nat_add [OF Q(4)] e by metis+
  then show False
    using P Q assms(4-6) slot_off_apart [of k l c] by fastforce
qed

lemma write64_slot_byte:
  assumes "core s xs sl F L" "x \<in> slots sl c" "y \<in> slots sl d" "x \<noteq> y" "i < csize d"
  shows "write64 m x v (y + word_of_nat i) = m (y + word_of_nat i)"
proof -
  obtain P k where c: "16 \<le> csize c"
    by (rule slotsE [OF assms(1,2)])
  have "\<not> (y + word_of_nat i) - x < 8"
  proof
    assume a: "(y + word_of_nat i) - x < 8"
    define j where "j = unat ((y + word_of_nat i) - x)"
    have "j < csize c" "x + word_of_nat j = y + word_of_nat i"
      using a c by (simp_all add: j_def word_less_nat_alt)
    then show False
      using slots_apart [OF assms(1-4) _ assms(5)] by blast
  qed
  then show ?thesis
    by (simp add: write64_def)
qed

lemma same_page_nat:
  assumes "page_aligned Q" "\<And>j. j < 4096 \<Longrightarrow> m (Q + word_of_nat j) = m' (Q + word_of_nat j)"
  shows "same_page m m' Q"
  unfolding same_page_def
proof (intro allI impI)
  fix a assume "in_page Q a"
  then have "unat (a - Q) < 4096"
    by (simp add: in_page_def word_less_nat_alt)
  from assms(2) [OF this] show "m a = m' a"
    by simp
qed

lemma same_page_write64:
  assumes "page_aligned P" "page_aligned Q" "P \<noteq> Q" "i + 8 \<le> 4096"
  shows "same_page m (write64 m (P + word_of_nat i) v) Q"
  using write64_page_byte [OF assms(1,2,4)] assms(2,3) by (intro same_page_nat) auto

lemma free_frames_heap [simp]:
  "free_frames (s\<lparr>free_objects := fo\<rparr>) xs = free_frames s xs"
  "free_frames (s\<lparr>free_ranges := fr\<rparr>) xs = free_frames s xs"
  "free_frames (s\<lparr>window_next := wn\<rparr>) xs = free_frames s xs"
  by (simp_all add: free_frames_def future_frames_def bump_ok_def)

lemma direct_cong:
  "window_base s' = window_base s \<Longrightarrow> window_end s' = window_end s \<Longrightarrow> direct s' = direct s"
  by (simp add: direct_def fun_eq_iff)

definition keeps :: "'a heap_scheme \<Rightarrow> 'a heap_scheme \<Rightarrow> (u64 \<Rightarrow> nat option) \<Rightarrow> bool" where
  "keeps s s' L \<longleftrightarrow> (\<forall>p c i. L p = Some c \<longrightarrow> i < csize c \<longrightarrow>
     mem s' (p + word_of_nat i) = mem s (p + word_of_nat i))"

lemma keeps_refl [simp]: "keeps s s L" "mem s' = mem s \<Longrightarrow> keeps s s' L"
  by (simp_all add: keeps_def)

lemma keeps_trans: "keeps s s' L \<Longrightarrow> keeps s' s'' L \<Longrightarrow> keeps s s'' L"
  by (simp add: keeps_def)

text \<open>Pushing a slot that is neither free nor in use.\<close>

lemma push_core:
  assumes co: "core s xs sl F L" and x: "x \<in> slots sl c" "x \<notin> set (F c)" "x \<notin> dom L"
  shows "core (push_object c x s) xs sl (F(c := x # F c)) L" "keeps s (push_object c x s) L"
proof -
  let ?m = "write64 (mem s) x (free_objects s c)"
  obtain P k where P: "sl P = Some c" "x = P + word_of_nat (slot_off c k)" "page_aligned P"
    "c < CLASS_COUNT" "slot_off c k + csize c \<le> 4096" "16 \<le> csize c" "16 \<le> slot_off c k"
    by (rule slotsE [OF co x(1)])
  note D = coreD [OF co]
  have "x \<noteq> 0"
  proof
    assume "x = 0"
    then have "P = page_base 0"
      using page_nat_add(1) [OF P(3), of "slot_off c k"] P(2,5,6) by simp
    then show False
      using D(4) [OF P(1)] by (simp add: slab_ok_def direct_def page_base_def)
  qed
  have frames: "free_frames (s\<lparr>mem := ?m\<rparr>) xs"
  proof (rule free_frames_mem [OF D(1)])
    fix f assume f: "f \<in> set xs"
    have "P \<noteq> phys_to_virt s f"
      using D(4) [OF P(1)] f by (auto simp: slab_ok_def phys_to_virt_def)
    then show "same_page (mem s) ?m (phys_to_virt s f)"
      using same_page_write64 [OF P(3) _ _, of "phys_to_virt s f" "slot_off c k"] P(2,5,6) D(3) [OF f]
      by (simp add: direct_def)
  qed
  have slab: "slab_ok (push_object c x s) xs Q d" if Q: "sl Q = Some d" for Q d
  proof -
    have "read32 ?m (Q + word_of_nat j) = read32 (mem s) (Q + word_of_nat j)" if "j = 0 \<or> j = 4" for j
      using that P(2,5,6,7) read32_write64_page [OF P(3) D(5) [OF Q], of "slot_off c k" j] by auto
    from this [of 0] this [of 4] show ?thesis
      using D(4) [OF Q] direct_cong [of "push_object c x s" s] by (simp add: slab_ok_def push_object_def)
  qed
  have rd: "read64 ?m y = read64 (mem s) y" if y: "y \<in> slots sl d" "y \<noteq> x" for y d
  proof (rule read64_cong)
    fix i :: nat assume i: "i < 8"
    obtain Q l where "16 \<le> csize d"
      by (rule slotsE [OF co y(1)])
    then show "?m (y + word_of_nat i) = mem s (y + word_of_nat i)"
      using write64_slot_byte [OF co x(1) y(1)] y(2) i by auto
  qed
  have chains: "chain ?m 0 h (F d) = chain (mem s) 0 h (F d)" if "d < CLASS_COUNT" for h d
  proof (rule chain_cong)
    fix y assume y: "y \<in> set (F d)"
    have "y \<noteq> x"
    proof
      assume "y = x"
      then have "x \<in> slots sl d"
        using D(8) [OF that] y by blast
      then obtain Q l where "sl Q = Some d" "x = Q + word_of_nat (slot_off d l)" "page_aligned Q"
        "slot_off d l + csize d \<le> 4096" "16 \<le> csize d"
        by (rule slotsE [OF co])
      then have "P = Q"
        using page_nat_add(1) [OF P(3), of "slot_off c k"] page_nat_add(1) [of Q "slot_off d l"] P(2,5,6) by simp
      then have "c = d"
        using P(1) \<open>sl Q = Some d\<close> by simp
      then show False
        using y \<open>y = x\<close> x(2) by simp
    qed
    then show "read64 ?m (y + 0) = read64 (mem s) (y + 0)"
      using rd D(8) [OF that] y by auto
  qed
  show "core (push_object c x s) xs sl (F(c := x # F c)) L"
    unfolding core_def
  proof (intro conjI allI impI ballI)
    show "free_frames (push_object c x s) xs"
      using frames by (simp add: push_object_def)
    show "page_aligned (hhdm (push_object c x s))"
      using D(2) by (simp add: push_object_def)
    show "direct (push_object c x s) (phys_to_virt (push_object c x s) f)" if "f \<in> set xs" for f
      using D(3) [OF that] direct_cong [of "push_object c x s" s]
      by (simp add: push_object_def phys_to_virt_def)
    fix d assume d: "d < CLASS_COUNT"
    show "chain (mem (push_object c x s)) 0 (free_objects (push_object c x s) d) ((F(c := x # F c)) d)"
      using D(6) [OF d] chains [OF d] \<open>x \<noteq> 0\<close> by (cases "d = c") (auto simp: push_object_def)
    show "distinct ((F(c := x # F c)) d)" "set ((F(c := x # F c)) d) \<subseteq> slots sl d"
      "set ((F(c := x # F c)) d) \<inter> dom L = {}"
      using D(7-9) [OF d] x by auto
  qed (use slab D(10,11) in auto)
  show "keeps s (push_object c x s) L"
    unfolding keeps_def
  proof (intro allI impI)
    fix p d i assume p: "L p = Some d" "i < csize d"
    then have "x \<noteq> p"
      using x(3) by auto
    then show "mem (push_object c x s) (p + word_of_nat i) = mem s (p + word_of_nat i)"
      using write64_slot_byte [OF co x(1) D(11) [OF p(1)] _ p(2)] by (simp add: push_object_def)
  qed
qed

lemma pop_core:
  assumes co: "core s xs sl F L" and c: "c < CLASS_COUNT" "F c = x # ys"
  shows "free_objects s c = x" "x \<notin> dom L" "x \<noteq> 0"
    "core (s\<lparr>free_objects := (free_objects s)(c := rd s x)\<rparr>) xs sl (F(c := ys)) (L(x \<mapsto> c))"
proof -
  let ?s = "s\<lparr>free_objects := (free_objects s)(c := rd s x)\<rparr>"
  note D = coreD [OF co]
  have ch: "free_objects s c = x" "x \<noteq> 0" "chain (mem s) 0 (rd s x) ys"
    using D(6) [OF c(1)] c(2) by (simp_all add: rd_def)
  have x: "x \<in> slots sl c" "x \<notin> dom L" "x \<notin> set ys"
    using D(7-9) [OF c(1)] c(2) by auto
  then show "free_objects s c = x" "x \<notin> dom L" "x \<noteq> 0"
    using ch by simp_all
  have other: "x \<notin> set (F d)" if "d < CLASS_COUNT" "d \<noteq> c" for d
  proof
    assume "x \<in> set (F d)"
    then have "x \<in> slots sl d"
      using D(8) [OF that(1)] by blast
    then obtain Q l where Q: "sl Q = Some d" "x = Q + word_of_nat (slot_off d l)" "page_aligned Q"
      "slot_off d l + csize d \<le> 4096" "16 \<le> csize d"
      by (rule slotsE [OF co])
    obtain P k where P: "sl P = Some c" "x = P + word_of_nat (slot_off c k)" "page_aligned P"
      "slot_off c k + csize c \<le> 4096" "16 \<le> csize c"
      by (rule slotsE [OF co x(1)])
    have "P = Q"
      using page_nat_add(1) [OF P(3), of "slot_off c k"] page_nat_add(1) [OF Q(3), of "slot_off d l"] P Q by simp
    then show False
      using P(1) Q(1) that(2) by simp
  qed
  have d: "direct ?s = direct s"
    by (rule direct_cong) simp_all
  show "core ?s xs sl (F(c := ys)) (L(x \<mapsto> c))"
    unfolding core_def
  proof (intro conjI allI impI ballI)
    fix d assume dc: "d < CLASS_COUNT"
    show "chain (mem ?s) 0 (free_objects ?s d) ((F(c := ys)) d)"
      using D(6) [OF dc] ch by simp
    show "distinct ((F(c := ys)) d)" "set ((F(c := ys)) d) \<subseteq> slots sl d"
      "set ((F(c := ys)) d) \<inter> dom (L(x \<mapsto> c)) = {}"
      using D(7-9) [OF dc] D(8,9) [OF c(1)] c(2) x(3) other [OF dc] by auto
  next
    fix P e assume "sl P = Some e"
    then show "slab_ok ?s xs P e"
      using D(4) d by (simp add: slab_ok_def)
  qed (use D d x c(1) in \<open>auto simp: phys_to_virt_def split: if_splits\<close>)
qed

section \<open>Refilling a class\<close>

lemma slot_in_page: "page_aligned P \<Longrightarrow> c < CLASS_COUNT \<Longrightarrow> k < slot_count c \<Longrightarrow> page_base (slot P c k) = P"
  using page_nat_add(1) [of P "slot_off c k"] slot_off_bound [of c k] csize_values(1) [of c]
  by (simp add: slot_eq)

lemma slot_inj:
  assumes "page_aligned P" "c < CLASS_COUNT" "k < slot_count c" "j < slot_count c" "slot P c k = slot P c j"
  shows "k = j"
proof -
  have b: "slot_off c k < 4096" "slot_off c j < 4096"
    using slot_off_bound [OF assms(2,3)] slot_off_bound [OF assms(2,4)] csize_values(1) [OF assms(2)]
    by linarith+
  have "slot_off c k = slot_off c j"
    using page_nat_add(2) [OF assms(1) b(1)] page_nat_add(2) [OF assms(1) b(2)] assms(5)
    unfolding slot_eq by metis
  then have "k * csize c = j * csize c"
    by (simp add: slot_off_def)
  then show ?thesis
    using csize_values(1) [OF assms(2)] by (metis mult_cancel2 not_numeral_le_zero)
qed

lemma in_slots_page:
  assumes "core s xs sl F L" "x \<in> slots sl c"
  shows "sl (page_base x) = Some c"
proof -
  obtain P k where "sl P = Some c" "k < slot_count c" "x = slot P c k"
    using assms(2) by (auto simp: slots_def)
  then show ?thesis
    using slot_in_page coreD(5,12) [OF assms(1)] by simp
qed

text \<open>The header of a fresh page: the page joins the slabs, without free slots yet.\<close>

lemma header_core:
  assumes co: "core s (f # xs) sl F L" and c: "c < CLASS_COUNT"
  defines "s1 \<equiv> snd (pmm_alloc_page s)" and "P \<equiv> phys_to_virt s f"
  defines "s' \<equiv> put_header P HEAP_MAGIC c 0 s1"
  shows "fst (pmm_alloc_page s) = f" "f \<noteq> 0" "sl P = None" "core s' xs (sl(P \<mapsto> c)) F L" "keeps s s' L"
    "free_objects s' = free_objects s"
proof -
  note D = coreD [OF co]
  show f: "fst (pmm_alloc_page s) = f" "f \<noteq> 0"
    using pmm.alloc_pop [OF D(1)] free_frames_aligned [OF D(1), of f] by simp_all
  have al: "page_aligned f" "f \<notin> set xs"
    using free_frames_aligned [OF D(1), of f] free_frames_distinct [OF D(1)] by auto
  have P: "direct s P" "page_aligned P"
    using D(3) [of f] by (simp_all add: P_def direct_def)
  show new: "sl P = None"
    using D(4) [of P] by (cases "sl P") (auto simp: slab_ok_def P_def phys_to_virt_def)
  have more: "window_base s1 = window_base s" "window_end s1 = window_end s" "free_objects s1 = free_objects s"
    "free_ranges s1 = free_ranges s" "hhdm s1 = hhdm s"
    using heap_more_eq [of s1 s] pmm_frame(2,3) [of s] by (simp_all add: s1_def)
  have kva: "kva s1 P = P"
    using direct_kva_0 [of s1 P] P direct_cong [of s1 s] more by simp
  let ?m1 = "write32 (mem s1) P HEAP_MAGIC"
  let ?m2 = "write32 ?m1 (P + 4) (word_of_nat c)"
  let ?m3 = "write64 ?m2 (P + 8) 0"
  have s': "s' = s1\<lparr>mem := ?m3\<rparr>"
    by (simp add: s'_def put_header_def kva)
  show "free_objects s' = free_objects s"
    by (simp add: s' more)
  text \<open>Other pages keep their bytes.\<close>
  have byte: "mem s' (Q + word_of_nat j) = mem s (Q + word_of_nat j)"
    if "page_aligned Q" "Q \<noteq> P" "j < 4096" for Q j
  proof -
    have "?m3 (Q + word_of_nat j) = mem s1 (Q + word_of_nat j)"
      using write64_page_byte [OF P(2) that(1), of 8 j ?m2 0] write32_page_byte [OF P(2) that(1), of 4 j ?m1]
        write32_page_byte [OF P(2) that(1), of 0 j "mem s1"] that(2,3) by simp
    moreover have "mem s1 (Q + word_of_nat j) = mem s (Q + word_of_nat j)"
    proof -
      have "page_aligned (Q - hhdm s)"
        using that(1) D(2) by (simp add: page_aligned_diff)
      moreover have "Q - hhdm s \<noteq> fst (pmm_alloc_page s)"
        using that(2) by (auto simp: f P_def phys_to_virt_def)
      ultimately have "same_page (mem s1) (mem s) (phys_to_virt s (Q - hhdm s))"
        using alloc_other_page [OF D(1)] by (simp add: s1_def)
      then show ?thesis
        using that(3) by (simp add: same_page_def phys_to_virt_def in_page_def word_less_nat_alt)
    qed
    ultimately show ?thesis
      by (simp add: s')
  qed
  have rd32: "read32 (mem s') (Q + word_of_nat j) = read32 (mem s) (Q + word_of_nat j)"
    if "page_aligned Q" "Q \<noteq> P" "j + 4 \<le> 4096" for Q j
    using byte [OF that(1,2), of "j + _"] that(3) by (intro read32_cong) (simp add: add.assoc)
  have slot: "Q \<noteq> P \<and> page_aligned Q" if "sl Q = Some d" for Q d
    using that new D(5) by auto
  have slotb: "mem s' (x + word_of_nat i) = mem s (x + word_of_nat i)" if x: "x \<in> slots sl d" "i < csize d" for x d i
  proof -
    obtain Q k where Q: "sl Q = Some d" "x = Q + word_of_nat (slot_off d k)" "slot_off d k + csize d \<le> 4096"
      by (rule slotsE [OF co x(1)])
    then show ?thesis
      using byte [of Q "slot_off d k + i"] slot x(2) by (simp add: add.assoc)
  qed
  show "keeps s s' L"
    unfolding keeps_def using slotb D(11) by blast
  have "free_frames s1 xs"
    using pmm.alloc_pop [OF D(1)] by (simp add: s1_def)
  moreover have "same_page (mem s1) (mem s') (phys_to_virt s1 g)" if g: "g \<in> set xs" for g
  proof -
    have g': "page_aligned (g + hhdm s)" "g + hhdm s \<noteq> P"
      using D(3) [of g] g al by (auto simp: direct_def P_def phys_to_virt_def)
    show ?thesis
      using write64_page_byte [OF P(2) g'(1), of 8 _ ?m2 0] write32_page_byte [OF P(2) g'(1), of 4 _ ?m1]
        write32_page_byte [OF P(2) g'(1), of 0 _ "mem s1"] g'
      by (auto simp: s' phys_to_virt_def more intro!: same_page_nat)
  qed
  ultimately have frames: "free_frames s' xs"
    using free_frames_mem [of s1 xs "mem s'"] by (simp add: s')
  have dir: "direct s' = direct s" and pv: "phys_to_virt s' = phys_to_virt s" and hh: "hhdm s' = hhdm s"
    using direct_cong [of s' s] more by (simp_all add: s' phys_to_virt_def fun_eq_iff)
  have c32: "word_of_nat c = (of_nat c :: u32)"
    by simp
  have "read32 ?m3 (P + word_of_nat 0) = HEAP_MAGIC"
    using read32_write64_page [OF P(2) P(2), of 8 0 ?m2 0] read32_write32_page [OF P(2), of 4 0 ?m1] by simp
  moreover have "read32 ?m3 (P + word_of_nat 4) = word_of_nat c"
    using read32_write64_page [OF P(2) P(2), of 8 4 ?m2 0] by simp
  moreover have "mem s' = ?m3" "P - hhdm s = f"
    by (simp_all add: s' P_def phys_to_virt_def)
  ultimately have slabP: "slab_ok s' xs P c"
    using c P al by (simp add: slab_ok_def dir hh)
  have slabQ: "slab_ok s' xs Q d" if "sl Q = Some d" for Q d
    using D(4) [OF that] rd32 [of Q 0] rd32 [of Q 4] slot [OF that] by (simp add: slab_ok_def dir hh)
  have "(sl(P \<mapsto> c)) Q = Some d" if "sl Q = Some d" for Q d
    using new that by auto
  then have sub: "slots sl d \<subseteq> slots (sl(P \<mapsto> c)) d" for d
    unfolding slots_def by blast
  have chains: "chain (mem s') 0 h (F d) = chain (mem s) 0 h (F d)" if d: "d < CLASS_COUNT" for h d
  proof (rule chain_cong)
    fix y assume "y \<in> set (F d)"
    then have "y \<in> slots sl d"
      using D(8) [OF d] by blast
    then show "read64 (mem s') (y + 0) = read64 (mem s) (y + 0)"
      using slotb csize_values(1) [OF d] by (auto intro!: read64_cong)
  qed
  show "core s' xs (sl(P \<mapsto> c)) F L"
    unfolding core_def
  proof (intro conjI allI impI ballI)
    fix d assume d: "d < CLASS_COUNT"
    show "chain (mem s') 0 (free_objects s' d) (F d)"
      using D(6) [OF d] chains [OF d] by (simp add: s' more)
    show "set (F d) \<subseteq> slots (sl(P \<mapsto> c)) d"
      using D(8) [OF d] sub by blast
    show "distinct (F d)" "set (F d) \<inter> dom L = {}"
      using D(7,9) [OF d] by auto
  next
    fix Q d assume "(sl(P \<mapsto> c)) Q = Some d"
    then show "slab_ok s' xs Q d"
      using slabP slabQ by (auto split: if_splits)
  next
    fix p d assume "L p = Some d"
    then show "d < CLASS_COUNT" "p \<in> slots (sl(P \<mapsto> c)) d"
      using D(10,11) sub by blast+
  qed (use frames D(2,3) in \<open>auto simp: dir pv hh\<close>)
qed

lemma fill_core:
  assumes co: "core s xs sl F L" and P: "sl P = Some c" and n: "n \<le> slot_count c"
    and fresh: "\<And>k. k < slot_count c \<Longrightarrow> slot P c k \<notin> set (F c) \<and> slot P c k \<notin> dom L"
  defines "s' \<equiv> fold (\<lambda>k. push_object c (slot P c k)) [0..<n] s"
  shows "core s' xs sl (F(c := rev (map (slot P c) [0..<n]) @ F c)) L \<and> keeps s s' L"
  using n unfolding s'_def
proof (induction n)
  case 0
  show ?case
    using co by simp
next
  case (Suc n)
  let ?s = "fold (\<lambda>k. push_object c (slot P c k)) [0..<n] s" and ?G = "rev (map (slot P c) [0..<n]) @ F c"
  note D = coreD [OF co]
  have IH: "core ?s xs sl (F(c := ?G)) L" "keeps s ?s L"
    using Suc.IH [OF Suc_leD [OF Suc.prems]] by blast+
  have x: "slot P c n \<in> slots sl c"
    using P Suc_le_lessD [OF Suc.prems] unfolding slots_def by blast
  have "slot P c n \<notin> slot P c ` {0..<n}"
  proof
    assume "slot P c n \<in> slot P c ` {0..<n}"
    then obtain k where k: "k < n" "slot P c n = slot P c k"
      by auto
    then show False
      using slot_inj [OF D(5) [OF P] D(12) [OF P], of n k] Suc.prems by simp
  qed
  then have "slot P c n \<notin> set ((F(c := ?G)) c)" "slot P c n \<notin> dom L"
    using fresh [of n] Suc.prems by auto
  note p = push_core [OF IH(1) x this]
  have "(F(c := ?G))(c := slot P c n # (F(c := ?G)) c) = F(c := rev (map (slot P c) [0..<Suc n]) @ F c)"
    by (auto simp: fun_eq_iff)
  moreover have "fold (\<lambda>k. push_object c (slot P c k)) [0..<Suc n] s = push_object c (slot P c n) ?s"
    by simp
  ultimately show ?case
    using p(1) keeps_trans [OF IH(2) p(2)] by (simp only: simp_thms)
qed

text \<open>The state the heap is in, seen by its users: the objects in use and their sizes' classes.\<close>

definition heap_ok :: "'a heap_scheme \<Rightarrow> (u64 \<Rightarrow> nat option) \<Rightarrow> bool" where
  "heap_ok s L \<longleftrightarrow> (\<exists>xs sl F. core s xs sl F L)"

lemma refill_core:
  assumes co: "core s xs sl F L" and c: "c < CLASS_COUNT" and r: "refill c s = (ok, s')"
  shows "keeps s s' L \<and> (if ok then \<exists>f ys. xs = f # ys \<and>
      core s' ys (sl(phys_to_virt s f \<mapsto> c)) (F(c := rev (map (slot (phys_to_virt s f) c) [0..<slot_count c]) @ F c)) L
    else xs = [] \<and> core s' [] sl F L \<and> free_objects s' = free_objects s)"
proof (cases xs)
  case Nil
  note D = coreD [OF co]
  have a: "fst (pmm_alloc_page s) = 0" "free_frames (snd (pmm_alloc_page s)) []"
    "mem (snd (pmm_alloc_page s)) = mem s"
    using pmm_alloc_Nil [of s] D(1) Nil by simp_all
  have m: "window_base (snd (pmm_alloc_page s)) = window_base s"
    "window_end (snd (pmm_alloc_page s)) = window_end s"
    "free_objects (snd (pmm_alloc_page s)) = free_objects s"
    using heap_more_eq [of "snd (pmm_alloc_page s)" s] pmm_frame(3) [of s] by simp_all
  have "ok = False" "s' = snd (pmm_alloc_page s)"
    using r a(1) by (auto simp: refill_def split_def)
  moreover have "core (snd (pmm_alloc_page s)) [] sl F L"
    using co a m direct_cong [OF m(1,2)] Nil unfolding core_def slab_ok_def by simp
  ultimately show ?thesis
    using Nil a(3) m(3) by simp
next
  case (Cons f ys)
  note h = header_core [OF co [unfolded Cons] c]
  let ?P = "phys_to_virt s f" and ?s = "put_header (phys_to_virt s f) HEAP_MAGIC c 0 (snd (pmm_alloc_page s))"
  have al: "page_aligned ?P"
    using coreD(5) [OF h(4), of ?P c] by simp
  have fresh: "slot ?P c k \<notin> set (F c) \<and> slot ?P c k \<notin> dom L" if k: "k < slot_count c" for k
  proof (intro conjI notI)
    have b: "page_base (slot ?P c k) = ?P"
      using slot_in_page [OF al c k] .
    show False if "slot ?P c k \<in> set (F c)"
      using in_slots_page [OF co, of "slot ?P c k" c] coreD(8) [OF co c] that b h(3) by auto
    show False if "slot ?P c k \<in> dom L"
      using in_slots_page [OF co coreD(11) [OF co]] that b h(3) by fastforce
  qed
  have "ok" "s' = fold (\<lambda>k. push_object c (slot ?P c k)) [0..<slot_count c] ?s"
    using r h(1,2) by (auto simp: refill_def split_def Let_def)
  then show ?thesis
    using fill_core [OF h(4) _ order_refl fresh] keeps_trans [OF h(5)] Cons by auto
qed

text \<open>Allocation of one class.\<close>

lemma small_alloc_core:
  assumes co: "core s xs sl F L" and c: "c < CLASS_COUNT" and r: "small_alloc c s = (p, s')"
  shows "keeps s s' L \<and>
    (if p = 0 then xs = [] \<and> F c = [] \<and> core s' [] sl F L
     else p \<notin> dom L \<and> (F c \<noteq> [] \<longrightarrow> p = hd (F c)) \<and> (\<exists>ys sl' F'. core s' ys sl' F' (L(p \<mapsto> c))))"
proof -
  obtain ok s1 where s1: "(if free_objects s c = 0 then refill c s else (True, s)) = (ok, s1)"
    by fastforce
  have zero: "free_objects s c = 0 \<longleftrightarrow> F c = []"
    using coreD(6) [OF co c] by (cases "F c") auto
  have "keeps s s1 L \<and> (if ok then \<exists>ys sl' F'. core s1 ys sl' F' L \<and> F' c \<noteq> [] \<and> (F c \<noteq> [] \<longrightarrow> F' = F)
      else xs = [] \<and> F c = [] \<and> core s1 [] sl F L)"
  proof (cases "F c = []")
    case True
    then have "refill c s = (ok, s1)"
      using s1 zero by simp
    then show ?thesis
      using refill_core [OF co c] True csize_values(4) [OF c] by fastforce
  next
    case False
    then show ?thesis
      using s1 zero co by auto
  qed
  then have k: "keeps s s1 L" and cases: "if ok then \<exists>ys sl' F'. core s1 ys sl' F' L \<and> F' c \<noteq> [] \<and>
      (F c \<noteq> [] \<longrightarrow> F' = F) else xs = [] \<and> F c = [] \<and> core s1 [] sl F L"
    by simp_all
  show ?thesis
  proof (cases ok)
    case False
    then show ?thesis
      using r s1 cases k by (simp add: small_alloc_def)
  next
    case True
    then obtain ys sl' F' where F': "core s1 ys sl' F' L" "F' c \<noteq> []" "F c \<noteq> [] \<longrightarrow> F' = F"
      using cases by auto
    then obtain x zs where x: "F' c = x # zs"
      by (cases "F' c") auto
    note pop = pop_core [OF F'(1) c x]
    have "p = x" "s' = s1\<lparr>free_objects := (free_objects s1)(c := rd s1 x)\<rparr>"
      using r s1 True pop(1) by (auto simp: small_alloc_def)
    moreover have "keeps s s' L"
      using k calculation(2) by (simp add: keeps_def)
    ultimately show ?thesis
      using pop F' x by auto
  qed
qed

lemma small_alloc_ok:
  assumes "core s xs sl F L" "c < CLASS_COUNT" "small_alloc c s = (p, s')" "p \<noteq> 0"
  shows "heap_ok s' (L(p \<mapsto> c))" "p \<notin> dom L" "F c \<noteq> [] \<Longrightarrow> p = hd (F c)"
proof -
  note r = conjunct2 [OF small_alloc_core [OF assms(1-3)], unfolded if_not_P [OF assms(4)]]
  show "heap_ok s' (L(p \<mapsto> c))" "p \<notin> dom L" "F c \<noteq> [] \<Longrightarrow> p = hd (F c)"
    using r unfolding heap_ok_def by blast+
qed

section \<open>Freeing\<close>

lemma live_header:
  assumes co: "core s xs sl F L" and p: "L p = Some c"
  shows "header_of p s = page_base p" "header_of p s \<noteq> 0" "p \<noteq> 0" "header_class s (page_base p) = c"
    "c < CLASS_COUNT"
proof -
  note D = coreD [OF co]
  obtain P k where P: "sl P = Some c" "p = P + word_of_nat (slot_off c k)" "page_aligned P" "c < CLASS_COUNT"
    "slot_off c k + csize c \<le> 4096" "16 \<le> csize c" "16 \<le> slot_off c k"
    by (rule slotsE [OF co D(11) [OF p]])
  have b: "page_base p = P"
    using page_nat_add(1) [OF P(3), of "slot_off c k"] P(2,5,6) by simp
  have sl: "direct s P" "read32 (mem s) P = HEAP_MAGIC" "read32 (mem s) (P + 4) = word_of_nat c" "P \<noteq> 0"
    using D(4) [OF P(1)] by (simp_all add: slab_ok_def direct_def)
  have k: "kva s P = P"
    using direct_kva_0 [OF sl(1)] .
  show "header_of p s = page_base p" "header_of p s \<noteq> 0"
    using sl k b by (simp_all add: header_of_def header_magic_def page_base_def Let_def)
  show "c < CLASS_COUNT"
    using P(4) .
  then show "header_class s (page_base p) = c"
    using sl k b by (simp add: header_class_def unat_of_nat)
  show "p \<noteq> 0"
  proof
    assume "p = 0"
    then show False
      using b sl(4) by (simp add: page_base_def)
  qed
qed

lemma kfree_live:
  assumes "core s xs sl F L" "L p = Some c"
  shows "kfree p s = push_object c p s" "kfree_small p s = push_object c p s"
  using live_header [OF assms] by (simp_all add: kfree_def kfree_small_def Let_def)

lemma core_drop: "core s xs sl F L \<Longrightarrow> core s xs sl F (L(p := None))"
  unfolding core_def by (simp add: dom_def disjoint_iff)

lemma kfree_core:
  assumes co: "core s xs sl F L" and p: "L p = Some c"
  shows "core (kfree p s) xs sl (F(c := p # F c)) (L(p := None))" "keeps s (kfree p s) (L(p := None))"
proof -
  have "p \<notin> set (F c)"
    using coreD(9,10) [OF co] p by blast
  then show "core (kfree p s) xs sl (F(c := p # F c)) (L(p := None))" "keeps s (kfree p s) (L(p := None))"
    using push_core [OF core_drop [OF co] coreD(11) [OF co p]] kfree_live(1) [OF assms] by simp_all
qed

lemma class_for_size:
  assumes "n \<le> 1024"
  shows "\<exists>c. class_for n = Some c \<and> c < CLASS_COUNT \<and> unat n \<le> csize c"
proof -
  have "n \<le> class_size ! 6"
    using assms by (simp add: class_size_def)
  then have "class_for n \<noteq> None"
    unfolding class_for_def find_None_iff by (intro notI) force
  then obtain c where c: "class_for n = Some c"
    by auto
  then have "c < CLASS_COUNT" "n \<le> class_size ! c"
    unfolding class_for_def find_Some_iff by auto
  then show ?thesis
    using c by (simp add: word_le_nat_alt)
qed

lemma class_for_class: "c < CLASS_COUNT \<Longrightarrow> class_for (class_size ! c) = Some c"
  by (drule class_cases) (elim disjE; simp add: class_for_def class_size_def upt_rec)

text \<open>Stores of the users, inside their objects.\<close>

definition own_bytes :: "(u64 \<Rightarrow> nat option) \<Rightarrow> u64 set" where
  "own_bytes L = {p + word_of_nat i | p c i. L p = Some c \<and> i < csize c}"

lemma store_core:
  assumes co: "core s xs sl F L" and m: "\<And>a. a \<notin> own_bytes L \<Longrightarrow> m a = mem s a"
  shows "core (s\<lparr>mem := m\<rparr>) xs sl F L"
proof -
  note D = coreD [OF co]
  have own: "\<exists>P j c. sl P = Some c \<and> a = P + word_of_nat j \<and> 16 \<le> j \<and> j < 4096" if a: "a \<in> own_bytes L" for a
  proof -
    obtain p c i where p: "L p = Some c" "i < csize c" "a = p + word_of_nat i"
      using a by (auto simp: own_bytes_def)
    obtain P k where P: "sl P = Some c" "p = P + word_of_nat (slot_off c k)"
      "slot_off c k + csize c \<le> 4096" "16 \<le> slot_off c k"
      by (rule slotsE [OF co D(11) [OF p(1)]])
    then have "a = P + word_of_nat (slot_off c k + i)" "slot_off c k + i < 4096"
      using p by (simp_all add: add.assoc)
    then show ?thesis
      using P by (metis le_add1 order_trans)
  qed
  have page: "m (Q + word_of_nat j) = mem s (Q + word_of_nat j)"
    if Q: "page_aligned Q" "j < 4096" and free: "sl Q = None \<or> j < 16" for Q j
  proof (rule m, rule notI)
    assume "Q + word_of_nat j \<in> own_bytes L"
    then obtain P i c where P: "sl P = Some c" "Q + word_of_nat j = P + word_of_nat i" "16 \<le> i" "i < 4096"
      using own by blast
    then show False
      using free page_nat_add [OF Q] page_nat_add [OF D(5) [OF P(1)] P(4)] by auto
  qed
  have frames: "free_frames (s\<lparr>mem := m\<rparr>) xs"
  proof (rule free_frames_mem [OF D(1)])
    fix f assume f: "f \<in> set xs"
    have "sl (phys_to_virt s f) = None"
      using D(4) [of "phys_to_virt s f"] f by (cases "sl (phys_to_virt s f)") (auto simp: slab_ok_def phys_to_virt_def)
    then show "same_page (mem s) m (phys_to_virt s f)"
      using page D(3) [OF f] by (intro same_page_nat) (auto simp: direct_def)
  qed
  have slab: "slab_ok (s\<lparr>mem := m\<rparr>) xs P c" if P: "sl P = Some c" for P c
  proof -
    have "read32 m (P + word_of_nat j) = read32 (mem s) (P + word_of_nat j)" if "j \<le> 4" for j
      using page [OF D(5) [OF P], of "j + _"] that by (intro read32_cong) (simp add: add.assoc)
    from this [of 0] this [of 4] show ?thesis
      using D(4) [OF P] direct_cong [of "s\<lparr>mem := m\<rparr>" s] by (simp add: slab_ok_def)
  qed
  have chains: "chain m 0 h (F d) = chain (mem s) 0 h (F d)" if d: "d < CLASS_COUNT" for h d
  proof (rule chain_cong)
    fix y assume y: "y \<in> set (F d)"
    have "m (y + word_of_nat i) = mem s (y + word_of_nat i)" if i: "i < 8" for i
    proof (rule m, rule notI)
      assume "y + word_of_nat i \<in> own_bytes L"
      then obtain p c j where p: "L p = Some c" "j < csize c" "y + word_of_nat i = p + word_of_nat j"
        by (auto simp: own_bytes_def)
      moreover have "y \<noteq> p" "y \<in> slots sl d"
        using D(8,9) [OF d] y p(1) by auto
      ultimately show False
        using slots_apart [OF co _ D(11) [OF p(1)], of y d i j] csize_values(1) [OF d] i by auto
    qed
    then show "read64 m (y + 0) = read64 (mem s) (y + 0)"
      by (intro read64_cong) simp
  qed
  have d: "direct (s\<lparr>mem := m\<rparr>) = direct s"
    by (rule direct_cong) simp_all
  show ?thesis
    using co frames slab chains unfolding core_def by (simp add: d phys_to_virt_def)
qed

section \<open>The heap provides the interface\<close>

lemma kmalloc_small:
  assumes "core s xs sl F L" "n \<le> 1024" "kmalloc n s = (p, s')"
  shows "\<exists>c < CLASS_COUNT. unat n \<le> csize c \<and> small_alloc c s = (p, s')"
proof -
  have "(if n = 0 then 1 else n) \<le> 1024"
    using assms(2) by simp
  from class_for_size [OF this] obtain c where "class_for (if n = 0 then 1 else n) = Some c"
    "c < CLASS_COUNT" "unat (if n = 0 then 1 else n) \<le> csize c"
    by blast
  then show ?thesis
    using assms(3) by (intro exI [of _ c]) (auto simp: kmalloc_def Let_def split: if_splits)
qed

lemma kmalloc_core:
  assumes "core s xs sl F L" "n \<le> 1024" "kmalloc n s = (p, s')"
  shows "keeps s s' L" "p = 0 \<Longrightarrow> core s' [] sl F L \<and> xs = []"
    "p \<noteq> 0 \<Longrightarrow> L p = None \<and> (\<exists>c ys sl' F'. c < CLASS_COUNT \<and> unat n \<le> csize c \<and> core s' ys sl' F' (L(p \<mapsto> c)))"
proof -
  obtain c where c: "c < CLASS_COUNT" "unat n \<le> csize c" "small_alloc c s = (p, s')"
    using kmalloc_small [OF assms] by blast
  note r = small_alloc_core [OF assms(1) c(1,3)]
  show "keeps s s' L" "p = 0 \<Longrightarrow> core s' [] sl F L \<and> xs = []"
    using r by (auto split: if_splits)
  assume "p \<noteq> 0"
  then show "L p = None \<and> (\<exists>c ys sl' F'. c < CLASS_COUNT \<and> unat n \<le> csize c \<and> core s' ys sl' F' (L(p \<mapsto> c)))"
    using r c by auto
qed

interpretation kheap: object_allocator kmalloc kfree heap_ok csize mem 1024
proof
  fix s :: "'a heap_scheme" and L p c q d and i j :: nat and n t
  show "heap_ok s L \<Longrightarrow> L p = Some c \<Longrightarrow> p \<noteq> 0"
    using live_header(3) unfolding heap_ok_def by blast
  show "heap_ok s L \<Longrightarrow> L p = Some c \<Longrightarrow> L q = Some d \<Longrightarrow> p \<noteq> q \<Longrightarrow> i < csize c \<Longrightarrow> j < csize d \<Longrightarrow>
      p + word_of_nat i \<noteq> q + word_of_nat j"
    using slots_apart coreD(11) unfolding heap_ok_def by blast
  show "heap_ok s L \<Longrightarrow> n \<le> 1024 \<Longrightarrow> kmalloc n s = (0, t) \<Longrightarrow> heap_ok t L"
    using kmalloc_core(2) unfolding heap_ok_def by blast
  show "heap_ok s L \<Longrightarrow> n \<le> 1024 \<Longrightarrow> kmalloc n s = (p, t) \<Longrightarrow> p \<noteq> 0 \<Longrightarrow>
      L p = None \<and> (\<exists>c. unat n \<le> csize c \<and> heap_ok t (L(p \<mapsto> c)))"
    using kmalloc_core(3) unfolding heap_ok_def by blast
  show "heap_ok s L \<Longrightarrow> n \<le> 1024 \<Longrightarrow> kmalloc n s = (p, t) \<Longrightarrow> L q = Some c \<Longrightarrow> i < csize c \<Longrightarrow>
      mem t (q + word_of_nat i) = mem s (q + word_of_nat i)"
    using kmalloc_core(1) unfolding heap_ok_def keeps_def by blast
  show "heap_ok s L \<Longrightarrow> L p = Some c \<Longrightarrow> heap_ok (kfree p s) (L(p := None))"
    using kfree_core(1) unfolding heap_ok_def by blast
  show "heap_ok s L \<Longrightarrow> L p = Some c \<Longrightarrow> L q = Some d \<Longrightarrow> q \<noteq> p \<Longrightarrow> i < csize d \<Longrightarrow>
      mem (kfree p s) (q + word_of_nat i) = mem s (q + word_of_nat i)"
    using kfree_core(2) unfolding heap_ok_def keeps_def by (metis fun_upd_other)
qed

section \<open>The window\<close>

text \<open>The addresses of a range, and of the part of the window that is not in use.\<close>

definition covers :: "u64 \<Rightarrow> u64 \<Rightarrow> nat set" where
  "covers base pages = {unat base..<unat base + 4096 * unat pages}"

definition free_set :: "range list \<Rightarrow> nat set" where
  "free_set rs = (\<Union>r \<in> set rs. covers (r_base r) (r_pages r))"

definition rend :: "range \<Rightarrow> nat" where
  "rend r = unat (r_base r) + 4096 * unat (r_pages r)"

text \<open>The list is sorted, its ranges are not empty, below \<open>e\<close>, and never touch.\<close>

definition ranges_ok :: "nat \<Rightarrow> range list \<Rightarrow> bool" where
  "ranges_ok e rs \<longleftrightarrow> e < 2 ^ 64 \<and> (\<forall>r \<in> set rs. r_pages r \<noteq> 0 \<and> rend r \<le> e) \<and>
     sorted_wrt (\<lambda>r r'. rend r < unat (r_base r')) rs"

definition window_ok :: "'a heap_scheme \<Rightarrow> bool" where
  "window_ok s \<longleftrightarrow> ranges_ok (unat (window_next s)) (free_ranges s) \<and> window_next s \<le> window_end s \<and>
     window_base s \<noteq> 0 \<and> window_base s \<le> window_next s \<and>
     free_set (free_ranges s) \<subseteq> {unat (window_base s)..}"

definition avail :: "'a heap_scheme \<Rightarrow> nat set" where
  "avail s = free_set (free_ranges s) \<union> {unat (window_next s)..<unat (window_end s)}"

lemma free_set_simps [simp]:
  "free_set [] = {}" "free_set (r # rs) = covers (r_base r) (r_pages r) \<union> free_set rs"
  "free_set (rs @ rs') = free_set rs \<union> free_set rs'"
  by (auto simp: free_set_def)

lemma ranges_ok_Cons:
  "ranges_ok e (r # rs) \<longleftrightarrow> r_pages r \<noteq> 0 \<and> rend r \<le> e \<and> (\<forall>r' \<in> set rs. rend r < unat (r_base r')) \<and>
     ranges_ok e rs"
  by (auto simp: ranges_ok_def)

lemma unat_page_mult:
  fixes p :: u64
  assumes "unat b + 4096 * unat p \<le> e" "e < 2 ^ 64"
  shows "unat (p * PAGE_SIZE) = 4096 * unat p" "unat (b + p * PAGE_SIZE) = unat b + 4096 * unat p"
proof -
  show "unat (p * PAGE_SIZE) = 4096 * unat p"
    using assms by (simp add: unat_word_ariths)
  then show "unat (b + p * PAGE_SIZE) = unat b + 4096 * unat p"
    using assms by (simp add: unat_word_ariths)
qed

lemma free_set_bounds:
  assumes "ranges_ok e rs" "a \<in> free_set rs"
  shows "a < e" "\<exists>r \<in> set rs. unat (r_base r) \<le> a"
  using assms by (auto simp: free_set_def covers_def ranges_ok_def rend_def)

lemma take_range_spec:
  assumes "ranges_ok e rs" "take_range n rs = Some (b, rs', node)" "n \<noteq> 0"
  shows "ranges_ok e rs' \<and> covers b n \<subseteq> free_set rs \<and> free_set rs' = free_set rs - covers b n \<and>
    (\<forall>r' \<in> set rs'. \<exists>r \<in> set rs. unat (r_base r) \<le> unat (r_base r'))"
  using assms(1,2)
proof (induction rs arbitrary: rs')
  case (Cons r rs)
  have ok: "r_pages r \<noteq> 0" "rend r \<le> e" "\<forall>r' \<in> set rs. rend r < unat (r_base r')" "ranges_ok e rs" "e < 2 ^ 64"
    using Cons.prems(1) by (auto simp: ranges_ok_Cons) (auto simp: ranges_ok_def)
  show ?case
  proof (cases "r_pages r < n")
    case True
    then obtain ts where ts: "take_range n rs = Some (b, ts, node)" "rs' = r # ts"
      using Cons.prems(2) by (auto split: option.splits)
    note IH = Cons.IH [OF ok(4) ts(1)]
    have "covers (r_base r) (r_pages r) \<inter> covers b n = {}"
      using IH free_set_bounds(2) [OF ok(4)] ok(3) by (fastforce simp: covers_def rend_def)
    moreover have "\<forall>r' \<in> set ts. rend r < unat (r_base r')"
      using IH ok(3) by fastforce
    ultimately show ?thesis
      using IH ok ts(2) by (auto simp: ranges_ok_Cons)
  next
    case False
    define r' where "r' = r\<lparr>r_base := r_base r + n * PAGE_SIZE, r_pages := r_pages r - n\<rparr>"
    have n: "0 < unat n" "unat n \<le> unat (r_pages r)" "unat (r_pages r - n) = unat (r_pages r) - unat n"
      using False assms(3) by (auto simp: word_less_nat_alt unat_sub word_le_nat_alt unat_gt_0)
    have b: "b = r_base r"
      using Cons.prems(2) False by (auto simp: Let_def split: if_splits)
    have base: "unat (r_base r') = unat (r_base r) + 4096 * unat n"
      using unat_page_mult(2) [of "r_base r" n e] n(2) ok(2,5) by (simp add: r'_def rend_def)
    have end': "rend r' = rend r"
      using base n by (simp add: rend_def r'_def)
    have above: "covers b n \<inter> free_set rs = {}"
      using free_set_bounds(2) [OF ok(4)] ok(3) n(2) by (fastforce simp: covers_def rend_def b)
    have cov: "covers (r_base r') (r_pages r') = covers (r_base r) (r_pages r) - covers b n"
      "covers b n \<subseteq> covers (r_base r) (r_pages r)"
      using base end' n(2) by (auto simp: covers_def rend_def b)
    show ?thesis
    proof (cases "r_pages r' = 0")
      case True
      then have rs': "rs' = rs"
        using Cons.prems(2) False by (auto simp: Let_def r'_def)
      have "covers (r_base r') (r_pages r') = {}"
        using True by (simp add: covers_def)
      then show ?thesis
        using rs' ok(4) cov above by auto
    next
      case ne: False
      then have rs': "rs' = r' # rs"
        using Cons.prems(2) False by (auto simp: Let_def r'_def)
      have "ranges_ok e rs'"
        using ok ne end' by (simp add: rs' ranges_ok_Cons)
      then show ?thesis
        using rs' cov above base by auto
    qed
  qed
qed simp

lemma kfree_small_frame [simp, narc_frame]:
  "free_ranges (kfree_small p s) = free_ranges s" "window_next (kfree_small p s) = window_next s"
  "window_base (kfree_small p s) = window_base s" "window_end (kfree_small p s) = window_end s"
  by (simp_all add: kfree_small_def push_object_def)



lemma take_range_None:
  "take_range n rs = None \<longleftrightarrow> (\<forall>r \<in> set rs. r_pages r < n)"
  by (induction rs) (auto simp: Let_def split: option.splits)

lemma covers_below: "covers (r_base r) (r_pages r) \<subseteq> {..<rend r}"
  by (auto simp: covers_def rend_def)









section \<open>Runs of the heap\<close>

text \<open>
  The steps the kernel can take with small objects: allocate, fail to allocate, free an object in
  use, and store into objects in use. \<open>L\<close> is what it holds.
\<close>

inductive heap_run :: "'a heap_scheme \<Rightarrow> 'a heap_scheme \<Rightarrow> (u64 \<Rightarrow> nat option) \<Rightarrow> bool" for s0 where
  start: "heap_run s0 s0 Map.empty"
| alloc: "heap_run s0 s L \<Longrightarrow> n \<le> 1024 \<Longrightarrow> kmalloc n s = (p, t) \<Longrightarrow> p \<noteq> 0 \<Longrightarrow> class_for (if n = 0 then 1 else n) = Some c \<Longrightarrow>
    heap_run s0 t (L(p \<mapsto> c))"
| fail: "heap_run s0 s L \<Longrightarrow> n \<le> 1024 \<Longrightarrow> kmalloc n s = (0, t) \<Longrightarrow> heap_run s0 t L"
| free: "heap_run s0 s L \<Longrightarrow> L p = Some c \<Longrightarrow> heap_run s0 (kfree p s) (L(p := None))"
| store: "heap_run s0 s L \<Longrightarrow> (\<And>a. a \<notin> own_bytes L \<Longrightarrow> m a = mem s a) \<Longrightarrow> heap_run s0 (s\<lparr>mem := m\<rparr>) L"

lemma heap_run_ok:
  assumes "heap_ok s0 Map.empty" "heap_run s0 s L"
  shows "heap_ok s L"
  using assms(2)
proof (induction rule: heap_run.induct)
  case (alloc s L n p t c)
  then obtain xs sl F where co: "core s xs sl F L"
    by (auto simp: heap_ok_def)
  have c: "c < CLASS_COUNT" "small_alloc c s = (p, t)"
    using alloc.hyps(3,5) by (auto simp: kmalloc_def Let_def) (auto simp: class_for_def find_Some_iff)
  show ?case
    by (rule small_alloc_ok(1) [OF co c alloc.hyps(4)])
next
  case (store s L m)
  then show ?case
    using store_core unfolding heap_ok_def by blast
qed (use assms(1) kheap.alloc_fail kheap.free_ok in blast)+

text \<open>The heap as \<^verbatim>\<open>heap_init\<close> leaves it: no slabs, no objects, all free lists empty.\<close>

lemma heap_ok_init:
  assumes "free_frames s xs" "page_aligned (hhdm s)" "\<And>f. f \<in> set xs \<Longrightarrow> direct s (phys_to_virt s f)"
    "\<And>c. free_objects s c = 0"
  shows "heap_ok s Map.empty"
  unfolding heap_ok_def core_def
  by (rule exI [of _ xs], rule exI [of _ Map.empty], rule exI [of _ "\<lambda>_. []"]) (use assms in simp)

text \<open>Two free frames and an empty heap, its window set up.\<close>

definition empty_heap :: heap where
  "empty_heap = mm_init two_frames 0xffff800000000000
     \<lparr>mem = (\<lambda>_. 7), memmap = [], hhdm = 0, region_index = 0, next_phys = 0, region_end = 0, free_head = 0,
      cr3 = 0x8000, current_space = 0x8000, free_objects = (\<lambda>_. 0), free_ranges = [],
      window_base = 0xffffe00000000000, window_end = 0xffffe08000000000, window_next = 0xffffe00000000000\<rparr>"

lemma empty_heap_fields:
  "hhdm empty_heap = 0xffff800000000000" "free_objects empty_heap = (\<lambda>_. 0)" "free_ranges empty_heap = []"
  "window_base empty_heap = 0xffffe00000000000" "window_end empty_heap = 0xffffe08000000000"
  "window_next empty_heap = 0xffffe00000000000"
  by (simp_all add: empty_heap_def mm_init_def)

lemma direct_low:
  assumes "page_aligned P" "P \<noteq> 0" "unat P < 0xffffc00000000000" "window_base s = 0xffffe00000000000"
  shows "direct s P"
proof -
  have "\<not> window_base s \<le> P + word_of_nat i" if "i < 4096" for i
    using that assms(3,4) unat_add_of_nat_u64 [of P i] by (simp add: word_le_nat_alt)
  then show ?thesis
    using assms(1,2) by (auto simp: direct_def)
qed

lemma empty_heap_ok: "heap_ok empty_heap Map.empty"
proof (rule heap_ok_init)
  have "free_frames empty_heap (all_frames two_frames)"
    unfolding empty_heap_def by (rule mm_init_free_frames [OF two_frames_ok])
  then show "free_frames empty_heap [0x1000, 0x2000]"
    by (simp add: two_frames_all)
  show "direct empty_heap (phys_to_virt empty_heap f)" if "f \<in> set [0x1000, 0x2000]" for f
    using that by (intro direct_low) (auto simp: phys_to_virt_def empty_heap_fields page_aligned_def)
qed (simp_all add: empty_heap_fields page_aligned_def)

section \<open>Properties\<close>

text \<open>
  C17: in every run of the kernel over the small objects of the heap (allocations of up to 1024
  bytes, failed allocations, frees of objects in use, stores into objects in use), the objects in
  use never overlap: two of them share no byte. And \<^verbatim>\<open>kmalloc\<close> either returns 0, changing no object,
  or an object that is new, not null, large enough, and disjoint from all others, whose bytes
  all keep their values.
\<close>

theorem heap_run_safe:
  assumes "heap_ok s0 Map.empty" "heap_run s0 s L"
  shows "(\<forall>p c q d i j. L p = Some c \<and> L q = Some d \<and> p \<noteq> q \<and> i < csize c \<and> j < csize d \<longrightarrow>
      p + word_of_nat i \<noteq> q + word_of_nat j) \<and>
    (\<forall>n. n \<le> 1024 \<longrightarrow> (\<exists>p t. kmalloc n s = (p, t) \<and>
      (p = 0 \<and> heap_ok t L \<or> p \<noteq> 0 \<and> L p = None \<and> (\<exists>c. unat n \<le> csize c \<and> heap_ok t (L(p \<mapsto> c)))) \<and>
      (\<forall>q d i. L q = Some d \<and> i < csize d \<longrightarrow> mem t (q + word_of_nat i) = mem s (q + word_of_nat i))))"
proof -
  note ok = heap_run_ok [OF assms]
  show ?thesis
  proof (intro conjI allI impI)
    fix p c q d i j assume "L p = Some c \<and> L q = Some d \<and> p \<noteq> q \<and> i < csize c \<and> j < csize d"
    then show "p + word_of_nat i \<noteq> q + word_of_nat j"
      using kheap.apart [OF ok] by blast
  next
    fix n :: u64 assume n: "n \<le> 1024"
    obtain p t where r: "kmalloc n s = (p, t)"
      by fastforce
    show "\<exists>p t. kmalloc n s = (p, t) \<and>
      (p = 0 \<and> heap_ok t L \<or> p \<noteq> 0 \<and> L p = None \<and> (\<exists>c. unat n \<le> csize c \<and> heap_ok t (L(p \<mapsto> c)))) \<and>
      (\<forall>q d i. L q = Some d \<and> i < csize d \<longrightarrow> mem t (q + word_of_nat i) = mem s (q + word_of_nat i))"
      using r kheap.alloc_keeps [OF ok n r] kheap.alloc_new [OF ok n r] kheap.alloc_fail [OF ok n] by blast
  qed
qed

theorem heap_run_safe_witness:
  "\<exists>p t. kmalloc 200 empty_heap = (p, t) \<and> (p = 0 \<and> heap_ok t Map.empty \<or>
     p \<noteq> 0 \<and> (\<exists>c. 200 \<le> csize c \<and> heap_ok t [p \<mapsto> c]))"
proof -
  have n: "(200 :: u64) \<le> 1024" "unat (200 :: u64) = 200"
    by simp_all
  note run = conjunct2 [OF heap_run_safe [OF empty_heap_ok heap_run.start], rule_format, OF n(1)]
  show ?thesis
    using run unfolding n(2) by blast
qed

text \<open>
  \<^verbatim>\<open>kfree\<close> gives the object back for reuse. Freeing an object in use removes it, keeps the
  bytes of every other object, and the next \<^verbatim>\<open>kmalloc\<close> of a size of its class returns that very
  object without taking a frame.
\<close>

theorem kfree_reuse:
  assumes "heap_ok s L" "L p = Some c"
  shows "heap_ok (kfree p s) (L(p := None)) \<and>
    fst (kmalloc (class_size ! c) (kfree p s)) = p \<and>
    heap_ok (snd (kmalloc (class_size ! c) (kfree p s))) L \<and>
    (\<forall>q d i. L q = Some d \<and> q \<noteq> p \<and> i < csize d \<longrightarrow>
      mem (kfree p s) (q + word_of_nat i) = mem s (q + word_of_nat i))"
proof -
  obtain xs sl F where co: "core s xs sl F L"
    using assms(1) by (auto simp: heap_ok_def)
  note h = live_header [OF co assms(2)] and f = kfree_core [OF co assms(2)]
  obtain q t where a: "small_alloc c (kfree p s) = (q, t)"
    by fastforce
  have "class_size ! c \<noteq> 0"
    using csize_values(1) [OF h(5)] by auto
  then have k: "kmalloc (class_size ! c) (kfree p s) = (q, t)"
    using a class_for_class [OF h(5)] by (simp add: kmalloc_def)
  have "q \<noteq> 0"
    using conjunct2 [OF small_alloc_core [OF f(1) h(5) a]] by (auto split: if_splits)
  note r = small_alloc_ok [OF f(1) h(5) a this]
  have "q = p"
    using r(3) by simp
  moreover have "(L(p := None))(p \<mapsto> c) = L"
    using assms(2) by (simp add: fun_upd_idem)
  ultimately have "q = p" "heap_ok t L"
    using r(1) by metis+
  then show ?thesis
    using k kheap.free_ok [OF assms] kheap.free_keeps [OF assms] by auto
qed

lemma empty_heap_alloc:
  "fst (kmalloc 200 empty_heap) \<noteq> 0" "heap_ok (snd (kmalloc 200 empty_heap)) [fst (kmalloc 200 empty_heap) \<mapsto> 4]"
proof -
  have "class_for 200 = Some 4"
    by (simp add: class_for_def class_size_def upt_rec)
  then have k: "kmalloc 200 empty_heap = small_alloc 4 empty_heap"
    by (simp add: kmalloc_def)
  obtain xs sl F where co: "core empty_heap xs sl F Map.empty"
    using empty_heap_ok by (auto simp: heap_ok_def)
  have "free_frames empty_heap [0x1000, 0x2000]"
    using mm_init_free_frames [OF two_frames_ok] unfolding empty_heap_def by (simp add: two_frames_all)
  then have "xs \<noteq> []"
    using free_frames_unique coreD(1) [OF co] by blast
  moreover obtain p t where r: "small_alloc 4 empty_heap = (p, t)"
    by fastforce
  ultimately have "p \<noteq> 0" "\<exists>ys sl' F'. core t ys sl' F' [p \<mapsto> 4]"
    using small_alloc_core [OF co _ r] by (auto split: if_splits)
  then show "fst (kmalloc 200 empty_heap) \<noteq> 0"
    "heap_ok (snd (kmalloc 200 empty_heap)) [fst (kmalloc 200 empty_heap) \<mapsto> 4]"
    using k r by (auto simp: heap_ok_def)
qed

theorem kfree_reuse_witness:
  "let p = fst (kmalloc 200 empty_heap); s = snd (kmalloc 200 empty_heap)
   in p \<noteq> 0 \<and> fst (kmalloc 256 (kfree p s)) = p"
  using kfree_reuse [OF empty_heap_alloc(2), of "fst (kmalloc 200 empty_heap)" 4] empty_heap_alloc(1)
  by (simp add: class_size_def Let_def)

text \<open>
  The free part of the window is tracked exactly. \<^verbatim>\<open>window_alloc\<close> gives pages that were all
  available and makes exactly those unavailable; it fails only when no range of the list and not
  the rest of the window is large enough, and then nothing changes. The list stays sorted, without
  empty or touching ranges.
\<close>

theorem window_alloc_exact:
  assumes w: "window_ok s" and n: "n \<noteq> 0"
  shows "(case window_alloc n s of (base, s') \<Rightarrow>
     window_ok s' \<and> window_end s' = window_end s \<and>
     (if base = 0
      then avail s' = avail s \<and> (\<forall>r \<in> set (free_ranges s). r_pages r < n) \<and>
        unat (window_end s) < unat (window_next s) + 4096 * unat n
      else covers base n \<subseteq> avail s \<and> avail s' = avail s - covers base n))"
proof -
  define e where "e = unat (window_next s)"
  have rs: "ranges_ok e (free_ranges s)" and top: "e \<le> unat (window_end s)"
    and low: "window_base s \<noteq> 0" "unat (window_base s) \<le> e" "free_set (free_ranges s) \<subseteq> {unat (window_base s)..}"
    using w by (simp_all add: window_ok_def e_def word_le_nat_alt)
  have n0: "0 < unat n"
    using n by (simp add: unat_gt_0)
  have b0: "0 < unat (window_base s)"
    using low(1) by (simp add: unat_gt_0)
  show ?thesis
  proof (cases "take_range n (free_ranges s)")
    case (Some x)
    then obtain base rs' node where t: "take_range n (free_ranges s) = Some (base, rs', node)"
      by (cases x) auto
    note sp = take_range_spec [OF rs t n]
    have "unat base \<in> covers base n"
      using n0 by (simp add: covers_def)
    then have "base \<noteq> 0"
      using sp low(3) b0 by fastforce
    moreover have "covers base n \<inter> {e..<unat (window_end s)} = {}"
      using sp free_set_bounds(1) [OF rs] by fastforce
    ultimately show ?thesis
      using t sp w by (auto simp: window_alloc_def window_ok_def avail_def e_def)
  next
    case None
    then have small: "\<forall>r \<in> set (free_ranges s). r_pages r < n"
      by (simp add: take_range_None)
    have d: "unat ((window_end s - window_next s) div PAGE_SIZE) = (unat (window_end s) - e) div 4096"
      using top by (simp add: unat_div unat_sub word_le_nat_alt e_def)
    show ?thesis
    proof (cases "n > (window_end s - window_next s) div PAGE_SIZE")
      case True
      then have "unat (window_end s) < e + 4096 * unat n"
        using d by (auto simp: word_less_nat_alt)
      then show ?thesis
        using True None small w by (simp add: window_alloc_def e_def)
    next
      case False
      then have fits: "e + 4096 * unat n \<le> unat (window_end s)"
        using d top by (auto simp: word_less_nat_alt)
      have ne: "unat (window_next s + n * PAGE_SIZE) = e + 4096 * unat n"
        using unat_page_mult(2) [of "window_next s" n "unat (window_end s)"] fits
          unat_u64_less [of "window_end s"] by (simp add: e_def)
      have "window_next s \<noteq> 0"
        using b0 low(2) by (auto simp: e_def)
      moreover have "covers (window_next s) n = {e..<e + 4096 * unat n}"
        by (simp add: covers_def e_def)
      moreover have "free_set (free_ranges s) \<subseteq> {..<e}"
        using free_set_bounds(1) [OF rs] by auto
      moreover have "ranges_ok (e + 4096 * unat n) (free_ranges s)"
        using rs fits unat_u64_less [of "window_end s"] by (auto simp: ranges_ok_def)
      ultimately show ?thesis
        using False None fits ne low
        by (auto simp: window_alloc_def window_ok_def avail_def word_le_nat_alt e_def)
    qed
  qed
qed

text \<open>Two free ranges around pages in use.\<close>

definition split_window :: heap where
  "split_window = empty_heap\<lparr>free_ranges := [\<lparr>r_addr = 0xffff800000001010, r_base = 0xffffe00000000000, r_pages = 2\<rparr>,
      \<lparr>r_addr = 0xffff800000001030, r_base = 0xffffe00000003000, r_pages = 1\<rparr>],
     window_next := 0xffffe00000008000\<rparr>"

lemma split_window_ok: "window_ok split_window"
  by (auto simp: window_ok_def split_window_def ranges_ok_def rend_def covers_def empty_heap_fields)

theorem window_alloc_exact_witness:
  "fst (window_alloc 3 split_window) = 0xffffe00000008000 \<and>
   avail (snd (window_alloc 3 split_window)) = avail split_window - {0xffffe00000008000..<0xffffe0000000b000}"
proof -
  have "fst (window_alloc 3 split_window) = 0xffffe00000008000"
    by (simp add: window_alloc_def split_window_def empty_heap_fields)
  then show ?thesis
    using window_alloc_exact [OF split_window_ok, of 3] by (auto simp: covers_def split: prod.splits)
qed



end
