(* ===== verification/Vfs.thy ===== *)
theory Vfs
  imports Kheap "HOL-Library.Char_ord"
begin

text \<open>
  The file system of \<open>kernel/fs/vfs.c\<close>: a tree of nodes in kernel memory, filled from the
  initramfs (a tar archive in memory) and changed by the system calls. Files are byte arrays in
  up to sixteen frames, or still in the archive until the first write.

  A \<^verbatim>\<open>struct vnode\<close> is a record in the store \<open>vnodes\<close>, at the address the heap returned for it; the
  sibling list through \<open>next\<close> is the list of addresses \<open>v_children\<close> of the parent, in list order.
  A node's name is kept by value beside the address of its copy. Paths are strings without a NUL
  character, None for the null pointer; the archive is a list of bytes and a pointer into it an
  offset.
\<close>

section \<open>State\<close>

abbreviation (input) VFS_NAME_MAX :: nat where "VFS_NAME_MAX \<equiv> 64"
abbreviation (input) VFS_FILE_MAX :: u64 where "VFS_FILE_MAX \<equiv> 65536"
abbreviation (input) VFS_PAGE_MAX :: nat where "VFS_PAGE_MAX \<equiv> 16"
abbreviation (input) VFS_REG :: u8 where "VFS_REG \<equiv> 1"
abbreviation (input) VFS_DIR :: u8 where "VFS_DIR \<equiv> 2"
abbreviation (input) VFS_OPEN_READ :: u32 where "VFS_OPEN_READ \<equiv> 0x1"
abbreviation (input) VFS_OPEN_WRITE :: u32 where "VFS_OPEN_WRITE \<equiv> 0x2"
abbreviation (input) VFS_OPEN_CREATE :: u32 where "VFS_OPEN_CREATE \<equiv> 0x4"
abbreviation (input) VFS_OPEN_DIRECTORY :: u32 where "VFS_OPEN_DIRECTORY \<equiv> 0x8"
abbreviation (input) VFS_OPEN_TRUNCATE :: u32 where "VFS_OPEN_TRUNCATE \<equiv> 0x10"
abbreviation (input) VFS_OPEN_EXCLUSIVE :: u32 where "VFS_OPEN_EXCLUSIVE \<equiv> 0x20"
abbreviation (input) VFS_OPEN_APPEND :: u32 where "VFS_OPEN_APPEND \<equiv> 0x40"
abbreviation (input) S_IFREG :: u32 where "S_IFREG \<equiv> 0x8000"
abbreviation (input) S_IFDIR :: u32 where "S_IFDIR \<equiv> 0x4000"
abbreviation (input) TAR_BLOCK :: u64 where "TAR_BLOCK \<equiv> 512"

datatype vfs_status = VFS_OK | VFS_NOT_FOUND | VFS_EXISTS | VFS_NOT_DIRECTORY | VFS_IS_DIRECTORY
  | VFS_NO_SPACE | VFS_NOT_EMPTY | VFS_INVALID

record vnode =
  v_parent :: u64
  v_children :: "u64 list"
  v_name_ptr :: u64
  v_name :: string
  v_linked :: bool
  v_refs :: u32
  v_size :: u64
  v_ino :: u64
  v_mode :: u32
  v_type :: u8
  v_archive :: "u64 option"
  v_pages :: "u64 list"

text \<open>What \<^verbatim>\<open>kzalloc\<close> makes of a node.\<close>

definition zero_vnode :: vnode where
  "zero_vnode = \<lparr>v_parent = 0, v_children = [], v_name_ptr = 0, v_name = [], v_linked = False, v_refs = 0,
     v_size = 0, v_ino = 0, v_mode = 0, v_type = 0, v_archive = None, v_pages = replicate VFS_PAGE_MAX 0\<rparr>"

abbreviation (input) vnode_bytes :: u64 where "vnode_bytes \<equiv> 200"

record vfs = heap +
  vnodes :: "u64 \<Rightarrow> vnode"
  tar_data :: "u8 list"
  tar_size :: u64
  next_inode :: u64
  root :: u64

text \<open>\<^verbatim>\<open>struct file\<close>, \<^verbatim>\<open>struct vfs_info\<close> and \<^verbatim>\<open>struct vfs_dirent\<close>.\<close>

record vfs_file =
  f_node :: u64
  f_offset :: u64
  f_flags :: u32

record vfs_info =
  i_size :: u64
  i_ino :: u64
  i_mode :: u32
  i_type :: u8

record vfs_dirent =
  d_ino :: u64
  d_type :: u8
  d_name :: string

definition upd_vnode :: "u64 \<Rightarrow> (vnode \<Rightarrow> vnode) \<Rightarrow> 'a vfs_scheme \<Rightarrow> 'a vfs_scheme" where
  "upd_vnode a f s = s\<lparr>vnodes := (vnodes s)(a := f (vnodes s a))\<rparr>"

section \<open>Names and the archive format\<close>

definition dot_name :: "string \<Rightarrow> bool" where
  "dot_name c \<longleftrightarrow> c = ''.'' \<or> c = ''..''"

text \<open>\<^verbatim>\<open>octal\<close>: stops at a NUL, skips what is no octal digit.\<close>

fun octal_from :: "u64 \<Rightarrow> u8 list \<Rightarrow> u64" where
  "octal_from v [] = v"
| "octal_from v (b # bs) =
     (if b = 0 then v
      else if b < 0x30 \<or> 0x37 < b then octal_from v bs
      else octal_from (push_bit 3 v + ucast (b - 0x30)) bs)"

definition octal :: "u8 list \<Rightarrow> u64" where
  "octal bs = octal_from 0 bs"

definition zero_block :: "u8 list \<Rightarrow> bool" where
  "zero_block bs \<longleftrightarrow> (\<forall>b \<in> set (take 512 bs). b = 0)"

text \<open>A field of the header at an offset of the archive.\<close>

definition tar_field :: "u8 list \<Rightarrow> u64 \<Rightarrow> nat \<Rightarrow> nat \<Rightarrow> u8 list" where
  "tar_field td off at n = take n (drop (unat off + at) td)"

abbreviation (input) "tar_name td off \<equiv> tar_field td off 0 100"
abbreviation (input) "tar_mode td off \<equiv> tar_field td off 100 8"
abbreviation (input) "tar_length td off \<equiv> tar_field td off 124 12"
abbreviation (input) "tar_type td off \<equiv> tar_field td off 156 1"
abbreviation (input) "tar_magic td off \<equiv> tar_field td off 257 5"
abbreviation (input) "tar_prefix td off \<equiv> tar_field td off 345 155"

definition next_offset :: "u8 list \<Rightarrow> u64 \<Rightarrow> u64" where
  "next_offset td off =
     (let sz = octal (tar_length td off) in off + TAR_BLOCK + ((sz + TAR_BLOCK - 1) AND NOT (TAR_BLOCK - 1)))"

definition header_at :: "u8 list \<Rightarrow> u64 \<Rightarrow> u64 \<Rightarrow> bool" where
  "header_at td tsize off \<longleftrightarrow>
     \<not> (off > tsize \<or> tsize - off < TAR_BLOCK) \<and> \<not> zero_block (drop (unat off) td) \<and>
     \<not> (next_offset td off < off \<or> next_offset td off > tsize)"

definition c_string :: "u8 list \<Rightarrow> string" where
  "c_string bs = map (\<lambda>b. char_of (unat b)) (takeWhile (\<lambda>b. b \<noteq> 0) bs)"

definition tar_path :: "u8 list \<Rightarrow> u64 \<Rightarrow> string" where
  "tar_path td off =
     (let p = c_string (tar_prefix td off) in (if p \<noteq> [] then p @ ''/'' else p) @ c_string (tar_name td off))"

section \<open>Nodes\<close>

text \<open>The child of that name, or 0.\<close>

definition child_named :: "'a vfs_scheme \<Rightarrow> u64 \<Rightarrow> string \<Rightarrow> u64" where
  "child_named s dir name =
     (case List.find (\<lambda>c. v_name (vnodes s c) = name) (v_children (vnodes s dir)) of Some c \<Rightarrow> c | None \<Rightarrow> 0)"

definition attach :: "u64 \<Rightarrow> u64 \<Rightarrow> 'a vfs_scheme \<Rightarrow> 'a vfs_scheme" where
  "attach dir node s =
     upd_vnode dir (\<lambda>d. d\<lparr>v_children := v_children d @ [node]\<rparr>)
       (upd_vnode node (\<lambda>n. n\<lparr>v_parent := dir, v_linked := True\<rparr>) s)"

definition detach :: "u64 \<Rightarrow> 'a vfs_scheme \<Rightarrow> 'a vfs_scheme" where
  "detach node s =
     upd_vnode node (\<lambda>n. n\<lparr>v_parent := 0, v_linked := False\<rparr>)
       (upd_vnode (v_parent (vnodes s node)) (\<lambda>d. d\<lparr>v_children := remove1 node (v_children d)\<rparr>) s)"

text \<open>\<^verbatim>\<open>copy_name\<close>: the address of the copy, 0 when there is no memory for it.\<close>

definition copy_name :: "string \<Rightarrow> 'a vfs_scheme \<Rightarrow> u64 \<times> 'a vfs_scheme" where
  "copy_name name s = kmalloc (word_of_nat (length name) + 1) s"

definition new_node :: "u64 \<Rightarrow> string \<Rightarrow> u8 \<Rightarrow> u32 \<Rightarrow> 'a vfs_scheme \<Rightarrow> u64 \<times> 'a vfs_scheme" where
  "new_node dir name type mode s =
     (let (node, s) = kzalloc vnode_bytes s
      in if node = 0 then (0, s)
         else let s = upd_vnode node (\<lambda>_. zero_vnode) s;
                  (copy, s) = copy_name name s
              in if copy = 0 then (0, kfree node s)
                 else let s = upd_vnode node (\<lambda>n. n\<lparr>v_name_ptr := copy, v_name := name, v_ino := next_inode s,
                                v_type := type, v_mode := mode\<rparr>) (s\<lparr>next_inode := next_inode s + 1\<rparr>)
                      in (node, attach dir node s))"

definition release_pages :: "u64 \<Rightarrow> 'a vfs_scheme \<Rightarrow> 'a vfs_scheme" where
  "release_pages node s =
     fold (\<lambda>i s. let page = v_pages (vnodes s node) ! i;
                     s = (if page \<noteq> 0 then pmm_free_page page s else s)
                 in upd_vnode node (\<lambda>n. n\<lparr>v_pages := (v_pages n)[i := 0]\<rparr>) s) [0..<VFS_PAGE_MAX] s"

definition release_node :: "u64 \<Rightarrow> 'a vfs_scheme \<Rightarrow> 'a vfs_scheme" where
  "release_node node s =
     (let s = release_pages node s; s = kfree (v_name_ptr (vnodes s node)) s in kfree node s)"

definition remove_node :: "u64 \<Rightarrow> 'a vfs_scheme \<Rightarrow> 'a vfs_scheme" where
  "remove_node node s =
     (let s = detach node s in if v_refs (vnodes s node) = 0 then release_node node s else s)"

section \<open>Path resolution\<close>

text \<open>\<^verbatim>\<open>walk\<close>, its loop on the rest of the path: one component per round.\<close>

lemma length_rest: "takeWhile P (dropWhile Q xs) \<noteq> [] \<Longrightarrow> length (dropWhile P (dropWhile Q xs)) < length xs"
proof -
  assume "takeWhile P (dropWhile Q xs) \<noteq> []"
  then have "0 < length (takeWhile P (dropWhile Q xs))"
    by simp
  moreover have "length (dropWhile Q xs) = length (takeWhile P (dropWhile Q xs)) + length (dropWhile P (dropWhile Q xs))"
    by (metis length_append takeWhile_dropWhile_id)
  moreover have "length (dropWhile Q xs) \<le> length xs"
    by (rule length_dropWhile_le)
  ultimately show ?thesis
    by linarith
qed

function walk_from :: "u64 \<Rightarrow> string \<Rightarrow> 'a vfs_scheme \<Rightarrow> vfs_status + u64" where
  "walk_from node path s =
     (let path = dropWhile (\<lambda>c. c = CHR ''/'') path;
          part = takeWhile (\<lambda>c. c \<noteq> CHR ''/'') path;
          rest = dropWhile (\<lambda>c. c \<noteq> CHR ''/'') path
      in if part = [] then Inr node
         else if v_type (vnodes s node) \<noteq> VFS_DIR then Inl VFS_NOT_DIRECTORY
         else if dot_name part
         then walk_from (if length part = 2 \<and> v_parent (vnodes s node) \<noteq> 0 then v_parent (vnodes s node) else node) rest s
         else let child = child_named s node part
              in if child = 0 then Inl VFS_NOT_FOUND else walk_from child rest s)"
  by pat_completeness auto
termination
  by (relation "measure (\<lambda>(node, path, s). length path)") (simp_all add: length_rest)

declare walk_from.simps [simp del]

definition walk :: "string option \<Rightarrow> nat \<Rightarrow> 'a vfs_scheme \<Rightarrow> vfs_status + u64" where
  "walk path n s =
     (case path of
        None \<Rightarrow> Inl VFS_INVALID
      | Some p \<Rightarrow> if n = 0 \<or> p = [] \<or> hd p \<noteq> CHR ''/'' then Inl VFS_INVALID
                  else walk_from (root s) (take n p) s)"

definition lookup :: "string option \<Rightarrow> 'a vfs_scheme \<Rightarrow> vfs_status + u64" where
  "lookup path s = walk path (case path of None \<Rightarrow> 0 | Some p \<Rightarrow> length p) s"

text \<open>
  The path without its trailing slashes, split before its last component; \<open>split_last\<close> gives
  the part up to and with the last slash, and the component.
\<close>

definition split_last :: "string \<Rightarrow> string \<times> string" where
  "split_last p =
     (let q = rev (dropWhile (\<lambda>c. c = CHR ''/'') (rev p))
      in (rev (dropWhile (\<lambda>c. c \<noteq> CHR ''/'') (rev q)), rev (takeWhile (\<lambda>c. c \<noteq> CHR ''/'') (rev q))))"

definition lookup_parent :: "string option \<Rightarrow> 'a vfs_scheme \<Rightarrow> vfs_status + u64 \<times> string" where
  "lookup_parent path s =
     (case path of
        None \<Rightarrow> Inl VFS_INVALID
      | Some p \<Rightarrow>
          if p = [] \<or> hd p \<noteq> CHR ''/'' then Inl VFS_INVALID
          else let (front, name) = split_last p
               in if name = [] \<or> dot_name name then Inl VFS_INVALID
                  else if length name \<ge> VFS_NAME_MAX then Inl VFS_INVALID
                  else case walk path (length front) s of
                         Inl st \<Rightarrow> Inl st
                       | Inr parent \<Rightarrow>
                           if v_type (vnodes s parent) \<noteq> VFS_DIR then Inl VFS_NOT_DIRECTORY
                           else Inr (parent, name))"

section \<open>Contents\<close>

text \<open>
  \<^verbatim>\<open>ensure_pages\<close>: the first loop fills the missing pages below \<open>count\<close>, stopping at the first
  that cannot be had; the second moves the file out of the archive.
\<close>

fun fill_pages :: "u64 \<Rightarrow> nat list \<Rightarrow> 'a vfs_scheme \<Rightarrow> bool \<times> 'a vfs_scheme" where
  "fill_pages node [] s = (True, s)"
| "fill_pages node (i # is) s =
     (if v_pages (vnodes s node) ! i \<noteq> 0 then fill_pages node is s
      else let (page, s) = pmm_alloc_page s;
               s = upd_vnode node (\<lambda>n. n\<lparr>v_pages := (v_pages n)[i := page]\<rparr>) s
           in if page = 0 then (False, s) else fill_pages node is s)"

definition copy_archive_page :: "u64 \<Rightarrow> u64 \<Rightarrow> nat \<Rightarrow> 'a vfs_scheme \<Rightarrow> 'a vfs_scheme" where
  "copy_archive_page node base i s =
     (let n = vnodes s node; off = 4096 * i;
          amount = (if unat (v_size n) - off > 4096 then 4096 else unat (v_size n) - off)
      in s\<lparr>mem := mem_store (mem s) (phys_to_virt s (v_pages n ! i)) (take amount (drop (unat base + off) (tar_data s)))\<rparr>)"

definition ensure_pages :: "u64 \<Rightarrow> u64 \<Rightarrow> 'a vfs_scheme \<Rightarrow> bool \<times> 'a vfs_scheme" where
  "ensure_pages node end s =
     (if end > VFS_FILE_MAX then (False, s)
      else let (ok, s) = fill_pages node [0..<unat ((end + PAGE_SIZE - 1) div PAGE_SIZE)] s
           in if \<not> ok then (False, s)
              else case v_archive (vnodes s node) of
                     None \<Rightarrow> (True, s)
                   | Some base \<Rightarrow>
                       (True, upd_vnode node (\<lambda>n. n\<lparr>v_archive := None\<rparr>)
                          (fold (copy_archive_page node base)
                             [0..<(unat (v_size (vnodes s node)) + 4095) div 4096] s)))"

section \<open>The initramfs\<close>

text \<open>\<^verbatim>\<open>tar_node\<close>, its loop from \<open>node\<close> on the rest of the path: the node, or 0.\<close>

function tar_node_from :: "u64 \<Rightarrow> string \<Rightarrow> u8 \<Rightarrow> u32 \<Rightarrow> 'a vfs_scheme \<Rightarrow> u64 \<times> 'a vfs_scheme" where
  "tar_node_from node path type mode s =
     (let path = dropWhile (\<lambda>c. c = CHR ''/'') path;
          part = takeWhile (\<lambda>c. c \<noteq> CHR ''/'') path;
          rest = dropWhile (\<lambda>c. c = CHR ''/'') (dropWhile (\<lambda>c. c \<noteq> CHR ''/'') path);
          final = (rest = [])
      in if part = [] then (node, s)
         else if part = ''.''
         then if final then (node, s) else tar_node_from node rest type mode s
         else if dot_name part \<or> length part \<ge> VFS_NAME_MAX \<or> v_type (vnodes s node) \<noteq> VFS_DIR then (0, s)
         else let child = child_named s node part;
                  (child, s) = (if child \<noteq> 0 then (child, s)
                                else new_node node part (if final then type else VFS_DIR)
                                       (if final then mode else S_IFDIR OR 0x1ed) s)
              in if child = 0 \<or> final \<and> v_type (vnodes s child) \<noteq> type then (0, s)
                 else if final then (child, upd_vnode child (\<lambda>n. n\<lparr>v_mode := mode\<rparr>) s)
                 else tar_node_from child rest type mode s)"
  by pat_completeness auto
termination
  by (relation "measure (\<lambda>(node, path, type, mode, s). length path)")
    (auto intro: le_less_trans [OF length_dropWhile_le] length_rest)

declare tar_node_from.simps [simp del]

definition tar_node :: "string \<Rightarrow> u8 \<Rightarrow> u32 \<Rightarrow> 'a vfs_scheme \<Rightarrow> u64 \<times> 'a vfs_scheme" where
  "tar_node path type mode s = tar_node_from (root s) path type mode s"

text \<open>One header: True when the archive entry was taken in.\<close>

definition tar_entry :: "u8 list \<Rightarrow> u64 \<Rightarrow> 'a vfs_scheme \<Rightarrow> bool \<times> 'a vfs_scheme" where
  "tar_entry td off s =
     (if c_string (tar_magic td off) \<noteq> ''ustar'' then (False, s)
      else let type = (if tar_type td off = [0x35] then VFS_DIR else VFS_REG);
               mode = (if type = VFS_DIR then S_IFDIR else S_IFREG) OR ucast (octal (tar_mode td off) AND 0x1ff);
               (node, s) = tar_node (tar_path td off) type mode s
           in if node = 0 \<or> v_type (vnodes s node) \<noteq> type then (False, s)
              else if type \<noteq> VFS_REG then (True, s)
              else let s = upd_vnode node (\<lambda>n. n\<lparr>v_size := octal (tar_length td off)\<rparr>) s
                   in if v_size (vnodes s node) > VFS_FILE_MAX then (False, s)
                      else (True, upd_vnode node (\<lambda>n. n\<lparr>v_archive := Some (off + TAR_BLOCK)\<rparr>) s))"

text \<open>A header's length field has twelve octal digits, so the next header is further on.\<close>

lemma octal_from_bound:
  assumes "unat v * 8 ^ length bs + 8 ^ length bs \<le> 2 ^ 64"
  shows "unat (octal_from v bs) < (unat v + 1) * 8 ^ length bs"
  using assms
proof (induction bs arbitrary: v)
  case (Cons b bs)
  have p: "1 \<le> (8 :: nat) ^ length bs"
    by simp
  show ?case
  proof (cases "b = 0 \<or> b < 0x30 \<or> 0x37 < b")
    case True
    have "unat v * 8 ^ length bs + 8 ^ length bs \<le> 2 ^ 64"
      using Cons.prems by simp
    from Cons.IH [OF this] have "unat (octal_from v bs) < (unat v + 1) * 8 ^ length bs" .
    moreover have "unat v < (unat v + 1) * 8 ^ length bs"
      using p by (metis add.commute le_less_trans less_add_one mult.commute mult_le_mono nat_mult_1 le_refl order_less_le_trans)
    moreover have "(unat v + 1) * 8 ^ length bs \<le> (unat v + 1) * 8 ^ length (b # bs)"
      by simp
    ultimately show ?thesis
      using True by auto
  next
    case False
    then have d: "unat b - 48 < 8" "48 \<le> unat b"
      by (auto simp: word_less_nat_alt)
    have v: "unat v * 8 + 8 \<le> 2 ^ 64"
    proof -
      have "(unat v * 8 + 8) * 1 \<le> (unat v * 8 + 8) * 8 ^ length bs"
        by (intro mult_le_mono2) simp
      then show ?thesis
        using Cons.prems by (simp add: algebra_simps)
    qed
    have db: "unat (b - 0x30) = unat b - 48"
      using d(2) by (subst unat_sub) (simp_all add: word_le_nat_alt)
    have "unat (push_bit 3 v) = unat v * 8"
      using v by (simp add: push_bit_eq_mult unat_word_ariths)
    moreover have "unat (ucast (b - 0x30) :: u64) = unat b - 48"
      using d db by (simp add: unsigned_ucast_eq take_bit_eq_mod)
    ultimately have n: "unat (push_bit 3 v + ucast (b - 0x30)) = unat v * 8 + (unat b - 48)"
      using v d by (simp add: unat_word_ariths)
    have le: "unat v * 8 + (unat b - 48) + 1 \<le> (unat v + 1) * 8"
      using d by (simp add: algebra_simps)
    have "(unat v * 8 + (unat b - 48) + 1) * 8 ^ length bs \<le> (unat v + 1) * 8 * 8 ^ length bs"
      by (rule mult_le_mono1 [OF le])
    also have "\<dots> \<le> 2 ^ 64"
      using Cons.prems by (simp add: algebra_simps)
    finally have "unat (octal_from (push_bit 3 v + ucast (b - 0x30)) bs) <
        (unat (push_bit 3 v + ucast (b - 0x30)) + 1) * 8 ^ length bs"
      using n by (intro Cons.IH) (simp add: algebra_simps)
    also have "\<dots> \<le> (unat v + 1) * 8 * 8 ^ length bs"
      unfolding n by (rule mult_le_mono1 [OF le])
    finally show ?thesis
      using False by (simp add: algebra_simps)
  qed
qed simp

lemma octal_length_bound: "unat (octal (tar_field td off at n)) < 8 ^ n" if "n \<le> 12"
proof -
  have l: "length (tar_field td off at n) \<le> n"
    by (simp add: tar_field_def)
  have "(8 :: nat) ^ length (tar_field td off at n) \<le> 8 ^ 12"
    using l that by (intro power_increasing) auto
  also have "\<dots> \<le> 2 ^ 64"
    by simp
  finally have "unat (octal (tar_field td off at n)) < 8 ^ length (tar_field td off at n)"
    using octal_from_bound [of 0 "tar_field td off at n"] by (simp add: octal_def)
  also have "\<dots> \<le> 8 ^ n"
    using l by (intro power_increasing) auto
  finally show ?thesis .
qed

lemma word_and_le_left: "unat ((a :: u64) AND b) \<le> unat a"
  using word_and_le2 [of a b] by (simp add: word_le_nat_alt)

lemma next_offset_greater:
  assumes "header_at td tsize off"
  shows "unat off + 512 \<le> unat (next_offset td off)" "next_offset td off \<le> tsize"
proof -
  show "next_offset td off \<le> tsize"
    using assms by (simp add: header_at_def not_less)
  define sz where "sz = octal (tar_length td off)"
  define y where "y = (sz + TAR_BLOCK - 1) AND NOT (TAR_BLOCK - 1)"
  have sz: "unat sz < 8 ^ 12"
    unfolding sz_def by (rule octal_length_bound) simp
  have "unat (sz + TAR_BLOCK - 1) = unat sz + 511"
    using sz unat_add_of_nat_u64 [of sz 511] by (simp add: add_diff_eq [symmetric])
  then have y: "unat y < 2 ^ 40"
    using word_and_le_left [of "sz + TAR_BLOCK - 1" "NOT (TAR_BLOCK - 1)"] sz by (simp add: y_def)
  have n: "unat (next_offset td off) = (unat off + 512 + unat y) mod 2 ^ 64"
  proof -
    have "next_offset td off = off + TAR_BLOCK + y"
      by (simp only: next_offset_def Let_def sz_def y_def)
    then show ?thesis
      by (simp add: unat_word_ariths mod_simps)
  qed
  have "unat off \<le> unat (next_offset td off)"
    using assms by (simp add: header_at_def word_le_nat_alt not_less)
  moreover have "unat off + 512 + unat y < 2 * 2 ^ 64"
    using y unat_u64_less [of off] by simp
  ultimately show "unat off + 512 \<le> unat (next_offset td off)"
    using n y unat_u64_less [of off]
    by (cases "unat off + 512 + unat y < 2 ^ 64") (simp_all add: le_mod_geq not_less)
qed

text \<open>The loop over the headers of \<^verbatim>\<open>vfs_init\<close>.\<close>

function tar_load :: "u8 list \<Rightarrow> u64 \<Rightarrow> u64 \<Rightarrow> 'a vfs_scheme \<Rightarrow> int \<times> 'a vfs_scheme" where
  "tar_load td tsize off s =
     (if \<not> header_at td tsize off then (0, s)
      else let (ok, s) = tar_entry td off s
           in if \<not> ok then (-1, s) else tar_load td tsize (next_offset td off) s)"
  by pat_completeness auto
termination
proof (relation "measure (\<lambda>(td, tsize, off, s). unat tsize - unat off)")
  fix td tsize off and s :: "'a vfs_scheme" and x y z
  assume "\<not> \<not> header_at td tsize off"
  then show "((td, tsize, next_offset td off, z), td, tsize, off, s) \<in>
      measure (\<lambda>(td, tsize, off, s). unat tsize - unat off)"
    using next_offset_greater [of td tsize off] by (auto simp: word_le_nat_alt)
qed simp

declare tar_load.simps [simp del]

text \<open>\<^verbatim>\<open>vfs_init\<close>. The archive is None for the null pointer; \<open>tsize\<close> is its size in bytes.\<close>

definition vfs_init :: "u8 list option \<Rightarrow> u64 \<Rightarrow> 'a vfs_scheme \<Rightarrow> int \<times> 'a vfs_scheme" where
  "vfs_init archive tsize s =
     (case archive of
        None \<Rightarrow> (-1, s)
      | Some td \<Rightarrow>
          if tsize < TAR_BLOCK * 2 then (-1, s)
          else let s = s\<lparr>tar_data := td, tar_size := tsize, next_inode := 2\<rparr>;
                   (node, s) = kzalloc vnode_bytes s;
                   s = s\<lparr>root := node\<rparr>
               in if node = 0 then (-1, s)
                  else let s = upd_vnode node (\<lambda>_. zero_vnode) s;
                           (copy, s) = copy_name [] s;
                           s = upd_vnode node (\<lambda>n. n\<lparr>v_name_ptr := copy\<rparr>) s
                       in if copy = 0 then (-1, s)
                          else tar_load td tsize 0
                            (upd_vnode node (\<lambda>n. n\<lparr>v_name := [], v_ino := 1, v_type := VFS_DIR,
                               v_mode := S_IFDIR OR 0x1ed, v_linked := True\<rparr>) s))"

section \<open>Open files\<close>

text \<open>
  \<^verbatim>\<open>vfs_open\<close>. The caller's \<^verbatim>\<open>struct file\<close> is never null; it is returned as it was when the open
  fails.
\<close>

definition open_node :: "string option \<Rightarrow> u32 \<Rightarrow> 'a vfs_scheme \<Rightarrow> (vfs_status + u64) \<times> 'a vfs_scheme" where
  "open_node path flags s =
     (case lookup path s of
        Inr node \<Rightarrow>
          if flags AND VFS_OPEN_CREATE \<noteq> 0 \<and> flags AND VFS_OPEN_EXCLUSIVE \<noteq> 0 then (Inl VFS_EXISTS, s)
          else (Inr node, s)
      | Inl st \<Rightarrow>
          if st = VFS_NOT_FOUND \<and> flags AND VFS_OPEN_CREATE \<noteq> 0
          then (case lookup_parent path s of
                  Inl st \<Rightarrow> (Inl st, s)
                | Inr (parent, name) \<Rightarrow>
                    let (node, s) = new_node parent name VFS_REG (S_IFREG OR 0x1b6) s
                    in if node = 0 then (Inl VFS_NO_SPACE, s) else (Inr node, s))
          else (Inl st, s))"

definition vfs_open :: "string option \<Rightarrow> u32 \<Rightarrow> vfs_file \<Rightarrow> 'a vfs_scheme \<Rightarrow> vfs_status \<times> vfs_file \<times> 'a vfs_scheme" where
  "vfs_open path flags f s =
     (case open_node path flags s of
        (Inl st, s) \<Rightarrow> (st, f, s)
      | (Inr node, s) \<Rightarrow>
          if flags AND VFS_OPEN_DIRECTORY \<noteq> 0 \<and> v_type (vnodes s node) \<noteq> VFS_DIR then (VFS_NOT_DIRECTORY, f, s)
          else if flags AND VFS_OPEN_WRITE \<noteq> 0 \<and> v_type (vnodes s node) = VFS_DIR then (VFS_IS_DIRECTORY, f, s)
          else let s = (if flags AND VFS_OPEN_TRUNCATE \<noteq> 0 \<and> flags AND VFS_OPEN_WRITE \<noteq> 0
                        then upd_vnode node (\<lambda>n. n\<lparr>v_archive := None, v_size := 0\<rparr>) (release_pages node s)
                        else s);
                   f = \<lparr>f_node = node,
                        f_offset = (if flags AND VFS_OPEN_APPEND \<noteq> 0 then v_size (vnodes s node) else 0),
                        f_flags = flags\<rparr>
               in (VFS_OK, f, upd_vnode node (\<lambda>n. n\<lparr>v_refs := v_refs n + 1\<rparr>) s))"

definition vfs_close :: "vfs_file \<Rightarrow> 'a vfs_scheme \<Rightarrow> vfs_file \<times> 'a vfs_scheme" where
  "vfs_close f s =
     (if f_node f = 0 then (f, s)
      else let node = f_node f;
               s = (if v_refs (vnodes s node) \<noteq> 0 then upd_vnode node (\<lambda>n. n\<lparr>v_refs := v_refs n - 1\<rparr>) s else s);
               s = (if \<not> v_linked (vnodes s node) \<and> v_refs (vnodes s node) = 0 then release_node node s else s)
           in (f\<lparr>f_node := 0\<rparr>, s))"

definition vfs_file_info :: "vfs_file \<Rightarrow> 'a vfs_scheme \<Rightarrow> vfs_info" where
  "vfs_file_info f s =
     (let n = vnodes s (f_node f) in \<lparr>i_size = v_size n, i_ino = v_ino n, i_mode = v_mode n, i_type = v_type n\<rparr>)"

text \<open>
  \<^verbatim>\<open>vfs_read\<close>: what the loop puts in the buffer, one piece of a page per round. A page of a file
  that is no longer in the archive is read from its start, as the code does.
\<close>

function read_loop :: "vnode \<Rightarrow> nat \<Rightarrow> nat \<Rightarrow> 'a vfs_scheme \<Rightarrow> u8 list" where
  "read_loop n pos left s =
     (if left = 0 then []
      else let chunk = min (4096 - pos mod 4096) left
           in (case v_archive n of
                 Some base \<Rightarrow> take chunk (drop (unat base + pos) (tar_data s))
               | None \<Rightarrow> mem_load (mem s) (phys_to_virt s (v_pages n ! (pos div 4096))) chunk)
              @ read_loop n (pos + chunk) (left - chunk) s)"
  by pat_completeness auto
termination
  by (relation "measure (\<lambda>(n, pos, left, s). left)") (auto simp: min_def)

declare read_loop.simps [simp del]

definition vfs_read :: "vfs_file \<Rightarrow> u64 \<Rightarrow> 'a vfs_scheme \<Rightarrow> int \<times> u8 list \<times> vfs_file" where
  "vfs_read f len s =
     (if f_node f = 0 \<or> v_type (vnodes s (f_node f)) \<noteq> VFS_REG \<or> f_flags f AND VFS_OPEN_READ = 0 then (-1, [], f)
      else let n = vnodes s (f_node f)
           in if f_offset f \<ge> v_size n then (0, [], f)
              else let available = v_size n - f_offset f;
                       len = (if len > available then available else len)
                   in (uint len, read_loop n (unat (f_offset f)) (unat len) s, f\<lparr>f_offset := f_offset f + len\<rparr>))"

text \<open>\<^verbatim>\<open>vfs_write\<close>: the loop stores the pieces of the buffer.\<close>

function write_loop :: "u64 \<Rightarrow> nat \<Rightarrow> u8 list \<Rightarrow> 'a vfs_scheme \<Rightarrow> 'a vfs_scheme" where
  "write_loop node pos bs s =
     (if bs = [] then s
      else let chunk = min (4096 - pos mod 4096) (length bs);
               dest = phys_to_virt s (v_pages (vnodes s node) ! (pos div 4096)) + word_of_nat (pos mod 4096)
           in write_loop node (pos + chunk) (drop chunk bs) (s\<lparr>mem := mem_store (mem s) dest (take chunk bs)\<rparr>))"
  by pat_completeness auto
termination
  by (relation "measure (\<lambda>(node, pos, bs, s). length bs)") (auto simp: min_def)

declare write_loop.simps [simp del]

definition vfs_write :: "vfs_file \<Rightarrow> u8 list \<Rightarrow> 'a vfs_scheme \<Rightarrow> int \<times> vfs_file \<times> 'a vfs_scheme" where
  "vfs_write f bs s =
     (if f_node f = 0 \<or> v_type (vnodes s (f_node f)) \<noteq> VFS_REG \<or> f_flags f AND VFS_OPEN_WRITE = 0 then (-1, f, s)
      else let node = f_node f;
               f = (if f_flags f AND VFS_OPEN_APPEND \<noteq> 0 then f\<lparr>f_offset := v_size (vnodes s node)\<rparr> else f)
           in if word_of_nat (length bs) > VFS_FILE_MAX - f_offset f then (-1, f, s)
              else let end = f_offset f + word_of_nat (length bs);
                       (ok, s) = ensure_pages node (if end > v_size (vnodes s node) then end else v_size (vnodes s node)) s
                   in if \<not> ok then (-1, f, s)
                      else let s = write_loop node (unat (f_offset f)) bs s;
                               s = (if end > v_size (vnodes s node) then upd_vnode node (\<lambda>n. n\<lparr>v_size := end\<rparr>) s else s)
                           in (int (length bs), f\<lparr>f_offset := end\<rparr>, s))"

text \<open>\<^verbatim>\<open>vfs_seek\<close>: \<open>offset\<close> is the signed value; origin 0, 1 and 2 are begin, current and end.\<close>

definition vfs_seek :: "vfs_file \<Rightarrow> int \<Rightarrow> int \<Rightarrow> 'a vfs_scheme \<Rightarrow> int \<times> vfs_file" where
  "vfs_seek f offset origin s =
     (if f_node f = 0 \<or> v_type (vnodes s (f_node f)) \<noteq> VFS_REG then (-1, f)
      else let base = (if origin = 0 then 0 else if origin = 1 then sint (f_offset f)
                       else if origin = 2 then sint (v_size (vnodes s (f_node f))) else -1)
           in if base < 0 \<or> offset < - base then (-1, f)
              else let next = (word_of_int (base + offset) :: u64)
                   in if next > VFS_FILE_MAX then (-1, f) else (uint next, f\<lparr>f_offset := next\<rparr>))"

text \<open>\<^verbatim>\<open>vfs_readdir\<close>: 1 with the entry, 0 at the end, -1 for what is no directory.\<close>

definition vfs_readdir :: "vfs_file \<Rightarrow> 'a vfs_scheme \<Rightarrow> int \<times> vfs_dirent option \<times> vfs_file" where
  "vfs_readdir f s =
     (if f_node f = 0 \<or> v_type (vnodes s (f_node f)) \<noteq> VFS_DIR then (-1, None, f)
      else case drop (unat (f_offset f)) (v_children (vnodes s (f_node f))) of
             [] \<Rightarrow> (0, None, f)
           | child # _ \<Rightarrow>
               (1, Some \<lparr>d_ino = v_ino (vnodes s child), d_type = v_type (vnodes s child), d_name = v_name (vnodes s child)\<rparr>,
                f\<lparr>f_offset := f_offset f + 1\<rparr>))"

section \<open>Changing the tree\<close>

definition vfs_mkdir :: "string option \<Rightarrow> u32 \<Rightarrow> 'a vfs_scheme \<Rightarrow> vfs_status \<times> 'a vfs_scheme" where
  "vfs_mkdir path mode s =
     (case lookup_parent path s of
        Inl st \<Rightarrow> (st, s)
      | Inr (parent, name) \<Rightarrow>
          if child_named s parent name \<noteq> 0 then (VFS_EXISTS, s)
          else let (node, s) = new_node parent name VFS_DIR (S_IFDIR OR (mode AND 0x1ff)) s
               in if node = 0 then (VFS_NO_SPACE, s) else (VFS_OK, s))"

definition vfs_unlink :: "string option \<Rightarrow> bool \<Rightarrow> 'a vfs_scheme \<Rightarrow> vfs_status \<times> 'a vfs_scheme" where
  "vfs_unlink path remove_directory s =
     (case lookup_parent path s of
        Inl st \<Rightarrow> (st, s)
      | Inr (parent, name) \<Rightarrow>
          let node = child_named s parent name
          in if node = 0 then (VFS_NOT_FOUND, s)
             else if remove_directory \<and> v_type (vnodes s node) \<noteq> VFS_DIR then (VFS_NOT_DIRECTORY, s)
             else if \<not> remove_directory \<and> v_type (vnodes s node) = VFS_DIR then (VFS_IS_DIRECTORY, s)
             else if v_children (vnodes s node) \<noteq> [] then (VFS_NOT_EMPTY, s)
             else (VFS_OK, remove_node node s))"

text \<open>
  The loop of \<^verbatim>\<open>vfs_rename\<close> from a node up its ancestors: None when it would not end, which
  the invariant of the tree below excludes.
\<close>

partial_function (option) has_ancestor :: "u64 \<Rightarrow> u64 \<Rightarrow> 'a vfs_scheme \<Rightarrow> bool option" where
  "has_ancestor node ancestor s =
     (if ancestor = 0 then Some False
      else if ancestor = node then Some True
      else has_ancestor node (v_parent (vnodes s ancestor)) s)"

definition vfs_rename :: "string option \<Rightarrow> string option \<Rightarrow> 'a vfs_scheme \<Rightarrow> (vfs_status \<times> 'a vfs_scheme) option" where
  "vfs_rename old_path new_path s =
     (case lookup_parent old_path s of
        Inl st \<Rightarrow> Some (st, s)
      | Inr (old_parent, old_name) \<Rightarrow>
          let node = child_named s old_parent old_name
          in if node = 0 then Some (VFS_NOT_FOUND, s)
             else case lookup_parent new_path s of
                    Inl st \<Rightarrow> Some (st, s)
                  | Inr (new_parent, new_name) \<Rightarrow>
                      (case has_ancestor node new_parent s of
                         None \<Rightarrow> None
                       | Some True \<Rightarrow> Some (VFS_INVALID, s)
                       | Some False \<Rightarrow> Some (
                           let target = child_named s new_parent new_name;
                               n = vnodes s node; t = vnodes s target
                           in if target = node then (VFS_OK, s)
                              else if target \<noteq> 0 \<and> v_type n = VFS_DIR \<and> v_type t \<noteq> VFS_DIR then (VFS_NOT_DIRECTORY, s)
                              else if target \<noteq> 0 \<and> v_type n \<noteq> VFS_DIR \<and> v_type t = VFS_DIR then (VFS_IS_DIRECTORY, s)
                              else if target \<noteq> 0 \<and> v_children t \<noteq> [] then (VFS_NOT_EMPTY, s)
                              else let (copy, s) = copy_name new_name s
                                   in if copy = 0 then (VFS_NO_SPACE, s)
                                      else let s = (if target \<noteq> 0 then remove_node target s else s);
                                               s = detach node s;
                                               s = kfree (v_name_ptr (vnodes s node)) s;
                                               s = upd_vnode node (\<lambda>n. n\<lparr>v_name_ptr := copy, v_name := new_name\<rparr>) s
                                           in (VFS_OK, attach new_parent node s))))"

end
