(* ===== verification/Console.thy ===== *)
theory Console
  imports Vfs
begin

text \<open>
  The text console of \<open>kernel/console.c\<close> and the serial line behind it: every character goes to the
  serial line, and to the framebuffer as a glyph of eight by sixteen pixels, with the cursor and
  scrolling. The font table is a field of the state, as is what was sent on the serial line and
  the characters that will arrive on it; the framebuffer's bytes are in memory at its address.
\<close>

record framebuffer =
  fb_address :: u64
  fb_width :: u64
  fb_height :: u64
  fb_pitch :: u64
  fb_bpp :: u16
  fb_memory_model :: u8
  red_mask_size :: u8
  red_mask_shift :: u8
  green_mask_size :: u8
  green_mask_shift :: u8
  blue_mask_size :: u8
  blue_mask_shift :: u8

record console = vfs +
  fb :: "framebuffer option"
  text_cols :: u64
  text_rows :: u64
  cursor_col :: u64
  cursor_row :: u64
  fg :: u32
  bg :: u32
  font8x16 :: "nat \<Rightarrow> nat \<Rightarrow> u8"
  serial_tx :: "u8 list"
  serial_rx :: "nat \<Rightarrow> u8"
  serial_rx_pos :: nat

abbreviation (input) FONT_WIDTH :: u64 where "FONT_WIDTH \<equiv> 8"
abbreviation (input) FONT_HEIGHT :: u64 where "FONT_HEIGHT \<equiv> 16"

section \<open>The serial line\<close>

definition serial_putc :: "u8 \<Rightarrow> 'a console_scheme \<Rightarrow> 'a console_scheme" where
  "serial_putc c s = s\<lparr>serial_tx := serial_tx s @ [c]\<rparr>"

definition serial_puts :: "u8 list \<Rightarrow> 'a console_scheme \<Rightarrow> 'a console_scheme" where
  "serial_puts cs s = fold serial_putc cs s"

text \<open>The next character that arrives; the time the code waits for it has no counterpart.\<close>

definition serial_getc :: "'a console_scheme \<Rightarrow> u8 \<times> 'a console_scheme" where
  "serial_getc s = (serial_rx s (serial_rx_pos s), s\<lparr>serial_rx_pos := serial_rx_pos s + 1\<rparr>)"

definition hex_digit :: "nat \<Rightarrow> u8" where
  "hex_digit d = (if d < 10 then 0x30 + word_of_nat d else 0x61 + word_of_nat (d - 10))"

definition serial_puthex :: "u64 \<Rightarrow> 'a console_scheme \<Rightarrow> 'a console_scheme" where
  "serial_puthex v s =
     fold (\<lambda>k. serial_putc (hex_digit (unat (drop_bit (4 * k) v AND 0xf)))) (rev [0..<16]) (serial_puts [0x30, 0x78] s)"

section \<open>Pixels\<close>

definition scale_channel :: "u32 \<Rightarrow> u8 \<Rightarrow> u32" where
  "scale_channel v bits =
     (if bits = 0 then 0 else if bits \<ge> 32 then v
      else let mx = push_bit (unat bits) 1 - 1 :: u64 in ucast (ucast v * mx div 255))"

definition pack_rgb :: "framebuffer \<Rightarrow> u32 \<Rightarrow> u32" where
  "pack_rgb f rgb =
     (let r = drop_bit 16 rgb AND 0xff; g = drop_bit 8 rgb AND 0xff; b = rgb AND 0xff
      in push_bit (unat (red_mask_shift f)) (scale_channel r (red_mask_size f)) OR
         push_bit (unat (green_mask_shift f)) (scale_channel g (green_mask_size f)) OR
         push_bit (unat (blue_mask_shift f)) (scale_channel b (blue_mask_size f)))"

definition put_pixel :: "u64 \<Rightarrow> u64 \<Rightarrow> u32 \<Rightarrow> 'a console_scheme \<Rightarrow> 'a console_scheme" where
  "put_pixel x y rgb s =
     (case fb s of
        None \<Rightarrow> s
      | Some f \<Rightarrow>
          if x \<ge> fb_width f \<or> y \<ge> fb_height f then s
          else let row = fb_address f + y * fb_pitch f; pixel = pack_rgb f rgb
               in if fb_bpp f = 32 then s\<lparr>mem := write32 (mem s) (row + x * 4) pixel\<rparr>
                  else if fb_bpp f = 24
                  then s\<lparr>mem := mem_store (mem s) (row + x * 3)
                         [ucast (pixel AND 0xff), ucast (drop_bit 8 pixel AND 0xff), ucast (drop_bit 16 pixel AND 0xff)]\<rparr>
                  else s)"

definition fill_rect :: "u64 \<Rightarrow> u64 \<Rightarrow> u64 \<Rightarrow> u64 \<Rightarrow> u32 \<Rightarrow> 'a console_scheme \<Rightarrow> 'a console_scheme" where
  "fill_rect x y w h rgb s =
     fold (\<lambda>py. fold (\<lambda>px. put_pixel (x + word_of_nat px) (y + word_of_nat py) rgb) [0..<unat w]) [0..<unat h] s"

definition draw_glyph :: "u64 \<Rightarrow> u64 \<Rightarrow> u8 \<Rightarrow> 'a console_scheme \<Rightarrow> 'a console_scheme" where
  "draw_glyph col row c s =
     (let c = (if c \<ge> 128 then 0x3f else c); x0 = col * FONT_WIDTH; y0 = row * FONT_HEIGHT
      in fold (\<lambda>y s. let bits = font8x16 s (unat c) y
                     in fold (\<lambda>x s. put_pixel (x0 + word_of_nat x) (y0 + word_of_nat y)
                                      (if bits AND drop_bit x 0x80 \<noteq> 0 then fg s else bg s) s) [0..<8] s) [0..<16] s)"

definition scroll_one_line :: "'a console_scheme \<Rightarrow> 'a console_scheme" where
  "scroll_one_line s =
     (case fb s of
        None \<Rightarrow> s
      | Some f \<Rightarrow>
          let line_bytes = FONT_HEIGHT * fb_pitch f;
              keep_bytes = (fb_height f - FONT_HEIGHT) * fb_pitch f;
              s = s\<lparr>mem := memcpy (mem s) (fb_address f) (fb_address f + line_bytes) (unat keep_bytes)\<rparr>;
              s = fill_rect 0 (fb_height f - FONT_HEIGHT) (fb_width f) FONT_HEIGHT (bg s) s
          in s\<lparr>cursor_row := text_rows s - 1\<rparr>)"

definition console_clear :: "'a console_scheme \<Rightarrow> 'a console_scheme" where
  "console_clear s =
     (case fb s of
        None \<Rightarrow> s
      | Some f \<Rightarrow> (fill_rect 0 0 (fb_width f) (fb_height f) (bg s) s)\<lparr>cursor_col := 0, cursor_row := 0\<rparr>)"

text \<open>
  \<^verbatim>\<open>console_init\<close>: None is a missing response, the list its framebuffers. \<open>str\<close> gives the bytes
  of a string literal.
\<close>

definition str :: "string \<Rightarrow> u8 list" where
  "str cs = map (\<lambda>c. of_char c) cs"

definition console_init :: "framebuffer option list option \<Rightarrow> 'a console_scheme \<Rightarrow> int \<times> 'a console_scheme" where
  "console_init response s =
     (case response of
        None \<Rightarrow> (-1, serial_puts (str ''[panic] Limine did not provide a framebuffer'' @ [0xa]) s)
      | Some [] \<Rightarrow> (-1, serial_puts (str ''[panic] Limine did not provide a framebuffer'' @ [0xa]) s)
      | Some (first # _) \<Rightarrow>
          (case first of
             None \<Rightarrow> (-1, (serial_puts (str ''[panic] unsupported framebuffer format'' @ [0xa]) s)\<lparr>fb := None\<rparr>)
           | Some f \<Rightarrow>
               if fb_address f = 0 \<or> fb_memory_model f \<noteq> 1 \<or> (fb_bpp f \<noteq> 24 \<and> fb_bpp f \<noteq> 32) \<or>
                  fb_width f < FONT_WIDTH \<or> fb_height f < FONT_HEIGHT
               then (-1, (serial_puts (str ''[panic] unsupported framebuffer format'' @ [0xa]) s)\<lparr>fb := None\<rparr>)
               else (0, console_clear (s\<lparr>fb := Some f, text_cols := fb_width f div FONT_WIDTH,
                          text_rows := fb_height f div FONT_HEIGHT, cursor_col := 0, cursor_row := 0\<rparr>))))"

section \<open>Characters\<close>

text \<open>The cursor after a character that is no tab, with the scrolling it causes.\<close>

definition console_putc1 :: "u8 \<Rightarrow> 'a console_scheme \<Rightarrow> 'a console_scheme" where
  "console_putc1 c s =
     (let s = serial_putc c s
      in if fb s = None then s
         else let s = (if c = 0xa then s\<lparr>cursor_col := 0, cursor_row := cursor_row s + 1\<rparr>
                       else if c = 0xd then s\<lparr>cursor_col := 0\<rparr>
                       else if c \<ge> 32
                       then let s = draw_glyph (cursor_col s) (cursor_row s) c s;
                                s = s\<lparr>cursor_col := cursor_col s + 1\<rparr>
                            in if cursor_col s \<ge> text_cols s
                               then s\<lparr>cursor_col := 0, cursor_row := cursor_row s + 1\<rparr> else s
                       else s)
              in if cursor_row s \<ge> text_rows s then scroll_one_line s else s)"

definition console_putc :: "u8 \<Rightarrow> 'a console_scheme \<Rightarrow> 'a console_scheme" where
  "console_putc c s =
     (if c = 0x9
      then let s = serial_putc c s
           in if fb s = None then s
              else fold (\<lambda>_. console_putc1 0x20) [0..<unat (4 - (cursor_col s AND 3))] s
      else console_putc1 c s)"

definition console_write :: "u8 list \<Rightarrow> 'a console_scheme \<Rightarrow> 'a console_scheme" where
  "console_write cs s = fold console_putc cs s"

definition console_puts :: "string \<Rightarrow> 'a console_scheme \<Rightarrow> 'a console_scheme" where
  "console_puts cs s = console_write (str cs) s"

definition console_cols :: "'a console_scheme \<Rightarrow> u16" where
  "console_cols s = ucast (text_cols s)"

definition console_rows :: "'a console_scheme \<Rightarrow> u16" where
  "console_rows s = ucast (text_rows s)"

section \<open>The cursor stays on the screen\<close>

definition cursor_ok :: "'a console_scheme \<Rightarrow> bool" where
  "cursor_ok s \<longleftrightarrow> (fb s \<noteq> None \<longrightarrow> cursor_col s < text_cols s \<and> cursor_row s < text_rows s)"

text \<open>Drawing touches nothing but memory.\<close>

lemma put_pixel_mem: "\<exists>m. put_pixel x y rgb s = s\<lparr>mem := m\<rparr>"
  by (cases "fb s") (auto simp: put_pixel_def Let_def intro: exI [of _ "mem s"])

lemma fold_mem:
  assumes "\<And>x (t :: 'a console_scheme). \<exists>m. f x t = t\<lparr>mem := m\<rparr>"
  shows "\<exists>m. fold f xs s = s\<lparr>mem := m\<rparr>"
proof (induction xs arbitrary: s)
  case Nil
  then show ?case
    by (auto intro: exI [of _ "mem s"])
next
  case (Cons x xs)
  obtain m where "f x s = s\<lparr>mem := m\<rparr>"
    using assms by blast
  moreover obtain m' where "fold f xs (s\<lparr>mem := m\<rparr>) = (s\<lparr>mem := m\<rparr>)\<lparr>mem := m'\<rparr>"
    using Cons.IH by blast
  ultimately show ?case
    by auto
qed


lemma draw_glyph_mem: "\<exists>m. draw_glyph col row c s = s\<lparr>mem := m\<rparr>"
  unfolding draw_glyph_def Let_def by (intro fold_mem put_pixel_mem)







section \<open>Properties\<close>


text \<open>
  C23: the framebuffer console has no backspace. The three characters the line editor of
  \<^verbatim>\<open>task_fd_read\<close> writes to erase one (backspace, space, backspace) move the cursor a column to
  the right, while the serial line gets the usual sequence.
\<close>

theorem console_erase_advances:
  assumes "cursor_ok s" "fb s \<noteq> None" "cursor_col s + 1 < text_cols s"
  shows "cursor_col (console_write [0x8, 0x20, 0x8] s) = cursor_col s + 1 \<and>
    cursor_row (console_write [0x8, 0x20, 0x8] s) = cursor_row s \<and>
    serial_tx (console_write [0x8, 0x20, 0x8] s) = serial_tx s @ [0x8, 0x20, 0x8]"
proof -
  have b: "console_putc 0x8 t = serial_putc 0x8 t" if "fb t \<noteq> None" "cursor_row t < text_rows t" for t :: "'a console_scheme"
    using that by (simp add: console_putc_def console_putc1_def serial_putc_def Let_def not_le)
  define t where "t = serial_putc 0x8 s"
  have t: "fb t \<noteq> None" "cursor_row t < text_rows t" "cursor_col t = cursor_col s" "cursor_row t = cursor_row s"
    "text_cols t = text_cols s" "text_rows t = text_rows s" "serial_tx t = serial_tx s @ [0x8]"
    using assms by (simp_all add: t_def serial_putc_def cursor_ok_def)
  define u where "u = console_putc 0x20 t"
  obtain f where f: "fb t = Some f"
    using t(1) by blast
  obtain m where m: "draw_glyph (cursor_col t) (cursor_row t) 0x20 (serial_putc 0x20 t) = (serial_putc 0x20 t)\<lparr>mem := m\<rparr>"
    using draw_glyph_mem by blast
  have u: "u = (serial_putc 0x20 t)\<lparr>mem := m, cursor_col := cursor_col t + 1\<rparr>"
    using m f t(2,5) assms(3) t(3)
    by (simp add: u_def console_putc_def console_putc1_def Let_def serial_putc_def not_le)
  have "console_putc 0x8 s = t"
    using b [of s] assms by (simp add: t_def cursor_ok_def)
  moreover have "console_putc 0x8 u = serial_putc 0x8 u"
    using t(1,2) by (intro b) (simp_all add: u serial_putc_def)
  ultimately have "console_write [0x8, 0x20, 0x8] s = serial_putc 0x8 u"
    by (simp add: console_write_def u_def)
  then show ?thesis
    using t by (simp add: u serial_putc_def)
qed

text \<open>A screen of one hundred columns and fifty rows, its cursor at the start.\<close>

definition example_screen :: console where
  "example_screen = vfs.extend (heap.extend empty_heap (vfs.fields (\<lambda>_. zero_vnode) [] 0 2 0))
     (console.fields
       (Some \<lparr>fb_address = 0xffff800010000000, fb_width = 800, fb_height = 800, fb_pitch = 3200, fb_bpp = 32,
          fb_memory_model = 1, red_mask_size = 8, red_mask_shift = 16, green_mask_size = 8, green_mask_shift = 8,
          blue_mask_size = 8, blue_mask_shift = 0\<rparr>)
       100 50 0 0 0xe6e6e6 0 (\<lambda>_ _. 0) [] (\<lambda>_. 0) 0)"


theorem console_erase_advances_witness:
  "cursor_col (console_write [0x8, 0x20, 0x8] example_screen) = 1"
proof -
  have "cursor_ok example_screen" "fb example_screen \<noteq> None" "cursor_col example_screen = 0" "text_cols example_screen = 100"
    by (simp_all add: cursor_ok_def example_screen_def heap.defs vfs.defs console.defs)
  then show ?thesis
    using console_erase_advances [of example_screen] by simp
qed

end
