(* ===== verification/Task.thy ===== *)
theory Task
  imports Console
begin

text \<open>
  Tasks, file descriptors and pipes of \<open>kernel/task.c\<close>, with the register frames of
  \<open>kernel/arch/x86_64/platform.c\<close>.

  A \<^verbatim>\<open>struct task\<close>, \<^verbatim>\<open>struct open_file\<close> and \<^verbatim>\<open>struct pipe\<close> are records in stores, at the
  addresses the heap returned; the linked list of tasks is the list of their addresses. A task's
  descriptor table is a list of addresses of open files, 0 for a free slot, beside the address of
  the array that holds it; its length is the C \<^verbatim>\<open>fd_count\<close>. A pipe's bytes are in the frame it owns.
  The processor's thread register and floating point state are fields of the state. An operation
  whose C code might never return gives an option, None when it does not.
\<close>

section \<open>State\<close>

record task_frame =
  r15 :: u64
  r14 :: u64
  r13 :: u64
  r12 :: u64
  rbp :: u64
  rbx :: u64
  rax :: u64
  rdi :: u64
  rsi :: u64
  rdx :: u64
  r10 :: u64
  r8 :: u64
  r9 :: u64
  rip :: u64
  cs :: u64
  rflags :: u64
  rsp :: u64
  ss :: u64

datatype task_state = TASK_UNUSED | TASK_RUNNABLE | TASK_BLOCKED | TASK_ZOMBIE
datatype fd_type = FD_CONSOLE | FD_VFS | FD_PIPE_R | FD_PIPE_W

record pipe =
  p_refs :: int
  p_head :: u64
  p_count :: u64
  p_page :: u64
  p_data :: u64

record open_file =
  o_refs :: int
  o_type :: fd_type
  o_pipe :: u64
  o_file :: vfs_file

record task =
  t_pid :: int
  t_ppid :: int
  t_state :: task_state
  t_exit_status :: int
  t_wait_pid :: int
  t_wait_status :: u64
  t_space :: u64
  t_frame :: task_frame
  t_fs_base :: u64
  t_mmap_next :: u64
  t_arch :: "u8 list"
  t_fds_ptr :: u64
  t_fds :: "u64 list"

record kernel = console +
  tasks :: "u64 \<Rightarrow> task"
  task_list :: "u64 list"
  open_files :: "u64 \<Rightarrow> open_file"
  pipes :: "u64 \<Rightarrow> pipe"
  next_pid :: int
  current :: u64
  input :: "u8 list"
  input_pos :: nat
  tls :: u64
  fpu :: "u8 list"
  fpu_reset :: "u8 list"
  halted :: bool

abbreviation (input) PIPE_SIZE :: u64 where "PIPE_SIZE \<equiv> 4096"
abbreviation (input) USER_MMAP_BASE :: u64 where "USER_MMAP_BASE \<equiv> 0x100000000"
abbreviation (input) INT32_MAX :: int where "INT32_MAX \<equiv> 2147483647"
abbreviation (input) task_bytes :: u64 where "task_bytes \<equiv> 736"
abbreviation (input) open_file_bytes :: u64 where "open_file_bytes \<equiv> 40"
abbreviation (input) pipe_bytes :: u64 where "pipe_bytes \<equiv> 40"

definition zero_frame :: task_frame where
  "zero_frame = \<lparr>r15 = 0, r14 = 0, r13 = 0, r12 = 0, rbp = 0, rbx = 0, rax = 0, rdi = 0, rsi = 0, rdx = 0,
     r10 = 0, r8 = 0, r9 = 0, rip = 0, cs = 0, rflags = 0, rsp = 0, ss = 0\<rparr>"

definition zero_task :: task where
  "zero_task = \<lparr>t_pid = 0, t_ppid = 0, t_state = TASK_UNUSED, t_exit_status = 0, t_wait_pid = 0,
     t_wait_status = 0, t_space = 0, t_frame = zero_frame, t_fs_base = 0, t_mmap_next = 0,
     t_arch = replicate 512 0, t_fds_ptr = 0, t_fds = []\<rparr>"

definition zero_file :: vfs_file where
  "zero_file = \<lparr>f_node = 0, f_offset = 0, f_flags = 0\<rparr>"

definition upd_task :: "u64 \<Rightarrow> (task \<Rightarrow> task) \<Rightarrow> 'a kernel_scheme \<Rightarrow> 'a kernel_scheme" where
  "upd_task a f s = s\<lparr>tasks := (tasks s)(a := f (tasks s a))\<rparr>"

definition upd_open :: "u64 \<Rightarrow> (open_file \<Rightarrow> open_file) \<Rightarrow> 'a kernel_scheme \<Rightarrow> 'a kernel_scheme" where
  "upd_open a f s = s\<lparr>open_files := (open_files s)(a := f (open_files s a))\<rparr>"

definition upd_pipe :: "u64 \<Rightarrow> (pipe \<Rightarrow> pipe) \<Rightarrow> 'a kernel_scheme \<Rightarrow> 'a kernel_scheme" where
  "upd_pipe a f s = s\<lparr>pipes := (pipes s)(a := f (pipes s a))\<rparr>"

abbreviation cur :: "'a kernel_scheme \<Rightarrow> task" where
  "cur s \<equiv> tasks s (current s)"

section \<open>The processor\<close>

definition arch_task_frame_init :: "task_frame \<Rightarrow> task_frame" where
  "arch_task_frame_init frame = zero_frame\<lparr>cs := 0x23, ss := 0x1b, rflags := 0x202\<rparr>"

definition arch_task_set_entry :: "task_frame \<Rightarrow> u64 \<Rightarrow> u64 \<Rightarrow> task_frame" where
  "arch_task_set_entry frame pc sp = frame\<lparr>rip := pc, rsp := sp\<rparr>"

definition arch_syscall_number :: "task_frame \<Rightarrow> u64" where
  "arch_syscall_number frame = rax frame"

definition arch_syscall_arg :: "task_frame \<Rightarrow> nat \<Rightarrow> u64" where
  "arch_syscall_arg frame index =
     (let args = [rdi frame, rsi frame, rdx frame, r10 frame, r8 frame, r9 frame]
      in if index < 6 then args ! index else 0)"

definition arch_syscall_return :: "task_frame \<Rightarrow> u64 \<Rightarrow> task_frame" where
  "arch_syscall_return frame v = frame\<lparr>rax := v\<rparr>"

definition arch_syscall_return2 :: "task_frame \<Rightarrow> u64 \<Rightarrow> u64 \<Rightarrow> task_frame" where
  "arch_syscall_return2 frame v status = frame\<lparr>rax := v, rdx := status\<rparr>"

definition arch_set_tls :: "u64 \<Rightarrow> 'a kernel_scheme \<Rightarrow> 'a kernel_scheme" where
  "arch_set_tls v s = s\<lparr>tls := v\<rparr>"

text \<open>The state saved to, and restored from, a task; \<open>fpu_reset\<close> is what \<^verbatim>\<open>fninit\<close> leaves.\<close>

definition arch_task_state_save :: "u64 \<Rightarrow> 'a kernel_scheme \<Rightarrow> 'a kernel_scheme" where
  "arch_task_state_save t s = upd_task t (\<lambda>u. u\<lparr>t_arch := fpu s\<rparr>) s"

definition arch_task_state_restore :: "u64 \<Rightarrow> 'a kernel_scheme \<Rightarrow> 'a kernel_scheme" where
  "arch_task_state_restore t s = s\<lparr>fpu := t_arch (tasks s t)\<rparr>"

definition arch_task_state_init :: "u64 \<Rightarrow> 'a kernel_scheme \<Rightarrow> 'a kernel_scheme" where
  "arch_task_state_init t s = upd_task t (\<lambda>u. u\<lparr>t_arch := fpu_reset s\<rparr>) (s\<lparr>fpu := fpu_reset s\<rparr>)"

definition arch_halt :: "'a kernel_scheme \<Rightarrow> 'a kernel_scheme" where
  "arch_halt s = s\<lparr>halted := True\<rparr>"

section \<open>The list of tasks\<close>

text \<open>The task after one in the list, from the start again at its end.\<close>

definition after :: "'a kernel_scheme \<Rightarrow> u64 \<Rightarrow> u64" where
  "after s t =
     (let hd0 = (\<lambda>ts. case ts of [] \<Rightarrow> 0 | u # _ \<Rightarrow> u)
      in if t = 0 then hd0 (task_list s)
         else case tl (dropWhile (\<lambda>u. u \<noteq> t) (task_list s)) of [] \<Rightarrow> hd0 (task_list s) | u # _ \<Rightarrow> u)"

text \<open>\<^verbatim>\<open>next_task\<close>: its loop from \<open>t\<close>; None when it would go around forever.\<close>

partial_function (option) next_from :: "u64 \<Rightarrow> u64 \<Rightarrow> 'a kernel_scheme \<Rightarrow> u64 option" where
  "next_from start t s =
     (if t = 0 then Some 0
      else if t_state (tasks s t) = TASK_RUNNABLE then Some t
      else let t = after s t in if t = start then Some 0 else next_from start t s)"

definition next_task :: "'a kernel_scheme \<Rightarrow> u64 option" where
  "next_task s = next_from (after s (current s)) (after s (current s)) s"

definition find_task :: "int \<Rightarrow> 'a kernel_scheme \<Rightarrow> u64" where
  "find_task pid s = (case List.find (\<lambda>t. t_pid (tasks s t) = pid) (task_list s) of Some t \<Rightarrow> t | None \<Rightarrow> 0)"

text \<open>\<^verbatim>\<open>alloc_pid\<close>: None when every process number is taken, where the code searches forever.\<close>

partial_function (option) alloc_pid :: "'a kernel_scheme \<Rightarrow> (int \<times> 'a kernel_scheme) option" where
  "alloc_pid s =
     (let pid = next_pid s;
          s = s\<lparr>next_pid := (if next_pid s = INT32_MAX then 1 else next_pid s + 1)\<rparr>
      in if find_task pid s = 0 then Some (pid, s) else alloc_pid s)"

definition task_alloc :: "'a kernel_scheme \<Rightarrow> (u64 \<times> 'a kernel_scheme) option" where
  "task_alloc s =
     (let (t, s) = kzalloc task_bytes s
      in if t = 0 then Some (0, s)
         else let s = upd_task t (\<lambda>_. zero_task) s;
                  s = s\<lparr>task_list := task_list s @ [t]\<rparr>
              in case alloc_pid s of
                   None \<Rightarrow> None
                 | Some (pid, s) \<Rightarrow> Some (t, upd_task t (\<lambda>u. u\<lparr>t_pid := pid\<rparr>) s))"

definition task_free :: "u64 \<Rightarrow> 'a kernel_scheme \<Rightarrow> 'a kernel_scheme" where
  "task_free t s = kfree t (s\<lparr>task_list := remove1 t (task_list s)\<rparr>)"

text \<open>The frame given is the one the interrupted task resumes with; the new one is returned.\<close>

definition switch_to :: "u64 \<Rightarrow> task_frame \<Rightarrow> 'a kernel_scheme \<Rightarrow> task_frame \<times> 'a kernel_scheme" where
  "switch_to nxt frame s =
     (let s = (if current s \<noteq> 0
               then arch_task_state_save (current s) (upd_task (current s) (\<lambda>u. u\<lparr>t_frame := frame\<rparr>) s)
               else s);
          s = s\<lparr>current := nxt\<rparr>;
          s = vmm_space_activate (t_space (cur s)) s;
          s = arch_set_tls (t_fs_base (cur s)) s;
          s = arch_task_state_restore (current s) s
      in (t_frame (cur s), s))"

section \<open>Open files and pipes\<close>

definition file_new :: "fd_type \<Rightarrow> 'a kernel_scheme \<Rightarrow> u64 \<times> 'a kernel_scheme" where
  "file_new type s =
     (let (f, s) = kzalloc open_file_bytes s
      in if f = 0 then (0, s)
         else (f, upd_open f (\<lambda>_. \<lparr>o_refs = 1, o_type = type, o_pipe = 0, o_file = zero_file\<rparr>) s))"

definition pipe_put :: "u64 \<Rightarrow> 'a kernel_scheme \<Rightarrow> 'a kernel_scheme" where
  "pipe_put p s =
     (let s = upd_pipe p (\<lambda>u. u\<lparr>p_refs := p_refs u - 1\<rparr>) s
      in if p_refs (pipes s p) \<noteq> 0 then s else kfree p (pmm_free_page (p_page (pipes s p)) s))"

definition file_put :: "u64 \<Rightarrow> 'a kernel_scheme \<Rightarrow> 'a kernel_scheme" where
  "file_put f s =
     (if f = 0 then s
      else let s = upd_open f (\<lambda>u. u\<lparr>o_refs := o_refs u - 1\<rparr>) s
           in if o_refs (open_files s f) \<noteq> 0 then s
              else let s = (if o_type (open_files s f) = FD_VFS
                            then let (file', s) = vfs_close (o_file (open_files s f)) s
                                 in upd_open f (\<lambda>u. u\<lparr>o_file := file'\<rparr>) s
                            else s);
                       s = (if o_pipe (open_files s f) \<noteq> 0 then pipe_put (o_pipe (open_files s f)) s else s)
                   in kfree f s)"

text \<open>
  The new size of a descriptor table: doubled until it holds the descriptor. The loop of
  \<^verbatim>\<open>fd_reserve\<close> runs with a positive count and a descriptor below \<open>INT32_MAX\<close>; outside of that
  the definition stops where the code would not.
\<close>

function grow_count :: "int \<Rightarrow> int \<Rightarrow> int" where
  "grow_count count fd =
     (if count \<le> fd \<and> 0 < count \<and> fd < INT32_MAX
      then grow_count (if count > INT32_MAX div 2 then INT32_MAX else count * 2) fd else count)"
  by pat_completeness auto
termination
  by (relation "measure (\<lambda>(count, fd). nat (fd + 1 - count))") auto

declare grow_count.simps [simp del]

definition fd_reserve :: "u64 \<Rightarrow> int \<Rightarrow> 'a kernel_scheme \<Rightarrow> int \<times> 'a kernel_scheme" where
  "fd_reserve t fd s =
     (if fd < int (length (t_fds (tasks s t))) then (0, s)
      else if fd = INT32_MAX then (-1, s)
      else let old = length (t_fds (tasks s t));
               count = grow_count (if old \<noteq> 0 then int old else 8) fd;
               (ptr, s) = krealloc (t_fds_ptr (tasks s t)) (word_of_int count * 8) s
           in if ptr = 0 then (-1, s)
              else (0, upd_task t (\<lambda>u. u\<lparr>t_fds_ptr := ptr, t_fds := t_fds u @ replicate (nat count - old) 0\<rparr>) s))"

text \<open>The first free slot from \<open>minimum\<close> on, or the end of the table.\<close>

definition free_slot :: "u64 list \<Rightarrow> nat \<Rightarrow> nat" where
  "free_slot fds minimum = minimum + length (takeWhile (\<lambda>f. f \<noteq> 0) (drop minimum fds))"

definition fd_install :: "u64 \<Rightarrow> u64 \<Rightarrow> int \<Rightarrow> 'a kernel_scheme \<Rightarrow> int \<times> 'a kernel_scheme" where
  "fd_install t f minimum s =
     (let fd = int (free_slot (t_fds (tasks s t)) (nat minimum));
          (r, s) = fd_reserve t fd s
      in if r \<noteq> 0 then (-1, s) else (fd, upd_task t (\<lambda>u. u\<lparr>t_fds := (t_fds u)[nat fd := f]\<rparr>) s))"

definition close_all :: "u64 \<Rightarrow> 'a kernel_scheme \<Rightarrow> 'a kernel_scheme" where
  "close_all t s =
     (let s = fold (\<lambda>fd s. file_put (t_fds (tasks s t) ! fd) s) [0..<length (t_fds (tasks s t))] s;
          s = kfree (t_fds_ptr (tasks s t)) s
      in upd_task t (\<lambda>u. u\<lparr>t_fds_ptr := 0, t_fds := []\<rparr>) s)"

fun init_fds_from :: "u64 \<Rightarrow> int list \<Rightarrow> 'a kernel_scheme \<Rightarrow> int \<times> 'a kernel_scheme" where
  "init_fds_from t [] s = (0, s)"
| "init_fds_from t (fd # fds) s =
     (let (f, s) = file_new FD_CONSOLE s
      in if f = 0 then (-1, close_all t (file_put f s))
         else let (r, s) = fd_install t f fd s
              in if r \<noteq> fd then (-1, close_all t (file_put f s)) else init_fds_from t fds s)"

definition init_fds :: "u64 \<Rightarrow> 'a kernel_scheme \<Rightarrow> int \<times> 'a kernel_scheme" where
  "init_fds t s = init_fds_from t [0, 1, 2] s"

section \<open>Tasks\<close>

definition task_create :: "'a kernel_scheme \<Rightarrow> (u64 \<times> 'a kernel_scheme) option" where
  "task_create s =
     (case task_alloc s of
        None \<Rightarrow> None
      | Some (t, s) \<Rightarrow> Some (
          if t = 0 then (0, s)
          else case vmm_space_create s of
                 (None, s) \<Rightarrow> (0, task_free t s)
               | (Some space, s) \<Rightarrow>
                   let s = upd_task t (\<lambda>u. u\<lparr>t_space := space, t_state := TASK_RUNNABLE,
                             t_mmap_next := USER_MMAP_BASE, t_frame := arch_task_frame_init (t_frame u)\<rparr>) s;
                       s = arch_task_state_init t s;
                       (r, s) = init_fds t s
                   in if r \<noteq> 0 then (0, task_free t (snd (vmm_space_destroy space s))) else (t, s)))"

definition task_set_entry :: "u64 \<Rightarrow> u64 \<Rightarrow> u64 \<Rightarrow> 'a kernel_scheme \<Rightarrow> 'a kernel_scheme" where
  "task_set_entry t pc sp s = upd_task t (\<lambda>u. u\<lparr>t_frame := arch_task_set_entry (t_frame u) pc sp\<rparr>) s"

text \<open>\<^verbatim>\<open>task_start\<close>: the frame the processor leaves the kernel with.\<close>

definition task_start :: "'a kernel_scheme \<Rightarrow> (task_frame \<times> 'a kernel_scheme) option" where
  "task_start s =
     (case next_task s of
        None \<Rightarrow> None
      | Some t \<Rightarrow>
          let s = s\<lparr>current := t\<rparr>
          in if t = 0 then Some (zero_frame, arch_halt s)
             else let s = vmm_space_activate (t_space (cur s)) s;
                      s = arch_set_tls (t_fs_base (cur s)) s;
                      s = arch_task_state_restore (current s) s
                  in Some (t_frame (cur s), s))"

definition task_yield :: "task_frame \<Rightarrow> 'a kernel_scheme \<Rightarrow> (task_frame \<times> 'a kernel_scheme) option" where
  "task_yield frame s =
     (case next_task s of
        None \<Rightarrow> None
      | Some t \<Rightarrow> Some (if t \<noteq> 0 \<and> t \<noteq> current s then switch_to t frame s else (frame, s)))"

definition task_preempt :: "task_frame \<Rightarrow> 'a kernel_scheme \<Rightarrow> (task_frame \<times> 'a kernel_scheme) option" where
  "task_preempt frame s = task_yield frame s"

definition task_fork :: "task_frame \<Rightarrow> 'a kernel_scheme \<Rightarrow> (int \<times> 'a kernel_scheme) option" where
  "task_fork frame s =
     (case task_alloc s of
        None \<Rightarrow> None
      | Some (child, s) \<Rightarrow> Some (
          if child = 0 then (-1, s)
          else case vmm_space_clone (t_space (cur s)) s of
                 (None, s) \<Rightarrow> (-1, task_free child s)
               | (Some space, s) \<Rightarrow>
                   let s = upd_task child (\<lambda>u. u\<lparr>t_space := space\<rparr>) s;
                       (ptr, s) = kmalloc (word_of_nat (length (t_fds (cur s))) * 8) s
                   in if ptr = 0 then (-1, task_free child (snd (vmm_space_destroy space s)))
                      else let fds = t_fds (cur s);
                               s = upd_task child (\<lambda>u. u\<lparr>t_fds_ptr := ptr, t_fds := fds\<rparr>) s;
                               s = fold (\<lambda>f s. if f \<noteq> 0 then upd_open f (\<lambda>u. u\<lparr>o_refs := o_refs u + 1\<rparr>) s else s) fds s;
                               s = upd_task child (\<lambda>u. u\<lparr>t_ppid := t_pid (cur s), t_state := TASK_RUNNABLE,
                                     t_mmap_next := t_mmap_next (cur s), t_fs_base := t_fs_base (cur s),
                                     t_frame := arch_syscall_return2 frame 0 0\<rparr>) s;
                               s = arch_task_state_save (current s) s;
                               s = upd_task child (\<lambda>u. u\<lparr>t_arch := t_arch (cur s)\<rparr>) s
                           in (t_pid (tasks s child), s)))"

text \<open>A C \<^verbatim>\<open>int\<close> as the four bytes it has in memory.\<close>

definition int_bytes :: "int \<Rightarrow> u8 list" where
  "int_bytes v = map (\<lambda>i. ucast (drop_bit (8 * i) (word_of_int v :: u32))) [0..<4]"

fun copy_status_bytes :: "u64 \<Rightarrow> u64 \<Rightarrow> u8 list \<Rightarrow> 'a kernel_scheme \<Rightarrow> int \<times> 'a kernel_scheme" where
  "copy_status_bytes space dst [] s = (0, s)"
| "copy_status_bytes space dst (b # bs) s =
     (let p = vmm_user_phys space dst s
      in if p = 0 then (-1, s)
         else copy_status_bytes space (dst + 1) bs (s\<lparr>mem := (mem s)(phys_to_virt s p := b)\<rparr>))"

definition copy_status :: "u64 \<Rightarrow> u64 \<Rightarrow> int \<Rightarrow> 'a kernel_scheme \<Rightarrow> int \<times> 'a kernel_scheme" where
  "copy_status t dst status s =
     (if dst = 0 then (0, s)
      else if \<not> vmm_user_range_ok (t_space (tasks s t)) dst 4 True s then (-1, s)
      else copy_status_bytes (t_space (tasks s t)) dst (int_bytes status) s)"

definition matches :: "'a kernel_scheme \<Rightarrow> u64 \<Rightarrow> u64 \<Rightarrow> int \<Rightarrow> bool" where
  "matches s child parent pid \<longleftrightarrow>
     t_ppid (tasks s child) = t_pid (tasks s parent) \<and> (pid = -1 \<or> pid = t_pid (tasks s child))"

text \<open>
  \<^verbatim>\<open>task_wait\<close>: the flag tells that the caller was switched away from; the number is the C
  \<^verbatim>\<open>*result\<close>, of no meaning then.
\<close>

definition task_wait :: "task_frame \<Rightarrow> int \<Rightarrow> u64 \<Rightarrow> int \<Rightarrow> 'a kernel_scheme \<Rightarrow>
    (bool \<times> int \<times> task_frame \<times> 'a kernel_scheme) option" where
  "task_wait frame pid status options s =
     (if status \<noteq> 0 \<and> \<not> vmm_user_range_ok (t_space (cur s)) status 4 True s then Some (False, -1, frame, s)
      else let children = filter (\<lambda>c. matches s c (current s) pid) (task_list s)
           in case List.find (\<lambda>c. t_state (tasks s c) = TASK_ZOMBIE) children of
                Some child \<Rightarrow>
                  let s = snd (copy_status (current s) status (t_exit_status (tasks s child) * 256) s)
                  in Some (False, t_pid (tasks s child), frame, task_free child s)
              | None \<Rightarrow>
                  if children = [] then Some (False, -1, frame, s)
                  else if odd options then Some (False, 0, frame, s)
                  else let s = upd_task (current s) (\<lambda>u. u\<lparr>t_state := TASK_BLOCKED, t_wait_pid := pid,
                                 t_wait_status := status\<rparr>) s
                       in case next_task s of
                            None \<Rightarrow> None
                          | Some t \<Rightarrow>
                              if t = 0
                              then Some (False, -1, frame, upd_task (current s) (\<lambda>u. u\<lparr>t_state := TASK_RUNNABLE\<rparr>) s)
                              else let (frame, s) = switch_to t frame s in Some (True, 0, frame, s))"

definition task_exec :: "task_frame \<Rightarrow> u64 \<Rightarrow> u64 \<Rightarrow> u64 \<Rightarrow> 'a kernel_scheme \<Rightarrow> task_frame \<times> 'a kernel_scheme" where
  "task_exec frame space pc sp s =
     (let old = t_space (cur s);
          s = upd_task (current s) (\<lambda>u. u\<lparr>t_space := space, t_fs_base := 0, t_mmap_next := USER_MMAP_BASE\<rparr>) s;
          frame = arch_task_set_entry (arch_task_frame_init frame) pc sp;
          s = arch_task_state_init (current s) s;
          s = arch_task_state_restore (current s) s;
          s = vmm_space_activate (t_space (cur s)) s;
          s = arch_set_tls 0 s
      in (frame, snd (vmm_space_destroy old s)))"

definition task_exit :: "task_frame \<Rightarrow> int \<Rightarrow> 'a kernel_scheme \<Rightarrow> (task_frame \<times> 'a kernel_scheme) option" where
  "task_exit frame status s =
     (let old = current s;
          s = close_all old s;
          s = upd_task old (\<lambda>u. u\<lparr>t_state := TASK_ZOMBIE, t_exit_status := status mod 256\<rparr>) s;
          parent = find_task (t_ppid (tasks s old)) s;
          reap = (parent \<noteq> 0 \<and> t_state (tasks s parent) = TASK_BLOCKED \<and>
                  (t_wait_pid (tasks s parent) = -1 \<or> t_wait_pid (tasks s parent) = t_pid (tasks s old)));
          s = (if reap
               then let s = snd (copy_status parent (t_wait_status (tasks s parent)) (t_exit_status (tasks s old) * 256) s)
                    in upd_task parent (\<lambda>u. u\<lparr>t_frame := arch_syscall_return2 (t_frame u)
                         (word_of_int (t_pid (tasks s old))) 0, t_state := TASK_RUNNABLE\<rparr>) s
               else s)
      in case next_task s of
           None \<Rightarrow> None
         | Some t \<Rightarrow>
             if t = 0 then Some (frame, arch_halt (console_puts (''[kernel] userspace exited'' @ [CHR 0x0A]) s))
             else let (frame, s) = switch_to t frame s;
                      (space, s) = vmm_space_destroy (t_space (tasks s old)) s;
                      s = upd_task old (\<lambda>u. u\<lparr>t_space := space\<rparr>) s
                  in Some (frame, if reap then task_free old s else s))"

definition task_set_fs_base :: "u64 \<Rightarrow> 'a kernel_scheme \<Rightarrow> 'a kernel_scheme" where
  "task_set_fs_base v s = arch_set_tls v (upd_task (current s) (\<lambda>u. u\<lparr>t_fs_base := v\<rparr>) s)"

definition task_pid :: "'a kernel_scheme \<Rightarrow> int" where
  "task_pid s = t_pid (cur s)"

definition task_mmap_next :: "'a kernel_scheme \<Rightarrow> u64" where
  "task_mmap_next s = t_mmap_next (cur s)"

definition task_set_mmap_next :: "u64 \<Rightarrow> 'a kernel_scheme \<Rightarrow> 'a kernel_scheme" where
  "task_set_mmap_next v s = upd_task (current s) (\<lambda>u. u\<lparr>t_mmap_next := v\<rparr>) s"

section \<open>Descriptors of the current task\<close>

text \<open>The C function's result and, for a failed open, the file system's status.\<close>

definition task_fd_open :: "string option \<Rightarrow> u32 \<Rightarrow> 'a kernel_scheme \<Rightarrow> int \<times> vfs_status \<times> 'a kernel_scheme" where
  "task_fd_open path flags s =
     (let (f, s) = file_new FD_VFS s
      in if f = 0 then (-2, VFS_OK, s)
         else case vfs_open path flags (o_file (open_files s f)) s of
                (st, file', s) \<Rightarrow>
                  if st \<noteq> VFS_OK then (-1, st, kfree f s)
                  else let s = upd_open f (\<lambda>u. u\<lparr>o_file := file'\<rparr>) s;
                           (fd, s) = fd_install (current s) f 3 s
                       in if fd < 0 then (-2, VFS_OK, file_put f s) else (fd, VFS_OK, s))"

definition fd_get :: "int \<Rightarrow> 'a kernel_scheme \<Rightarrow> u64" where
  "fd_get fd s = (if fd < 0 \<or> fd \<ge> int (length (t_fds (cur s))) then 0 else t_fds (cur s) ! nat fd)"

text \<open>The open file behind a descriptor of a file, 0 for other descriptors.\<close>

definition task_fd_file :: "int \<Rightarrow> 'a kernel_scheme \<Rightarrow> u64" where
  "task_fd_file fd s =
     (let f = fd_get fd s in if f \<noteq> 0 \<and> o_type (open_files s f) = FD_VFS then f else 0)"

text \<open>
  The line editor of the console: at most 256 characters, until a newline. The characters come
  from the serial line one by one; a run of erase characters with nothing to erase consumes input
  without filling the buffer, hence the option.
\<close>

partial_function (option) read_line :: "u8 list \<Rightarrow> 'a kernel_scheme \<Rightarrow> (u8 list \<times> 'a kernel_scheme) option" where
  "read_line line s =
     (if length line \<ge> 256 then Some (line, s)
      else let (c, s) = serial_getc s;
               c = (if c = 0xd then 0xa else c)
           in if c = 0x8 \<or> c = 0x7f
              then (if line \<noteq> [] then read_line (butlast line) (console_write [0x8, 0x20, 0x8] s) else read_line line s)
              else let s = console_write [c] s
                   in if c = 0xa then Some (line @ [c], s) else read_line (line @ [c]) s)"

text \<open>The pipe's ring, one byte per round.\<close>

fun ring_read :: "u64 \<Rightarrow> nat \<Rightarrow> 'a kernel_scheme \<Rightarrow> u8 list \<times> 'a kernel_scheme" where
  "ring_read p 0 s = ([], s)"
| "ring_read p (Suc n) s =
     (let b = mem s (p_data (pipes s p) + p_head (pipes s p));
          s = upd_pipe p (\<lambda>u. u\<lparr>p_head := (p_head u + 1) mod PIPE_SIZE\<rparr>) s;
          (bs, s) = ring_read p n s
      in (b # bs, s))"

definition ring_write :: "u64 \<Rightarrow> u8 list \<Rightarrow> 'a kernel_scheme \<Rightarrow> 'a kernel_scheme" where
  "ring_write p bs s =
     fold (\<lambda>i s. s\<lparr>mem := (mem s)(p_data (pipes s p) + (p_head (pipes s p) + p_count (pipes s p) + word_of_nat i) mod PIPE_SIZE
                     := bs ! i)\<rparr>) [0..<length bs] s"

definition task_fd_read :: "int \<Rightarrow> u64 \<Rightarrow> 'a kernel_scheme \<Rightarrow> (int \<times> u8 list \<times> 'a kernel_scheme) option" where
  "task_fd_read fd len s =
     (let f = fd_get fd s; o1 = open_files s f
      in if f = 0 then Some (-1, [], s)
         else if o_type o1 = FD_VFS
         then (case vfs_read (o_file o1) len s of
                 (r, bs, file') \<Rightarrow> Some (r, bs, upd_open f (\<lambda>u. u\<lparr>o_file := file'\<rparr>) s))
         else if o_type o1 = FD_CONSOLE
         then (case (if input_pos s = length (input s)
                     then (case read_line [] s of None \<Rightarrow> None | Some (line, s) \<Rightarrow> Some (s\<lparr>input := line, input_pos := 0\<rparr>))
                     else Some s) of
                 None \<Rightarrow> None
               | Some s \<Rightarrow>
                   let done = min (unat len) (length (input s) - input_pos s);
                       bs = take done (drop (input_pos s) (input s));
                       s = s\<lparr>input_pos := input_pos s + done\<rparr>;
                       s = (if input_pos s = length (input s) then s\<lparr>input := [], input_pos := 0\<rparr> else s)
                   in Some (int done, bs, s))
         else if o_type o1 \<noteq> FD_PIPE_R then Some (-1, [], s)
         else let p = o_pipe o1;
                  done = (if len < p_count (pipes s p) then len else p_count (pipes s p));
                  (bs, s) = ring_read p (unat done) s
              in Some (uint done, bs, upd_pipe p (\<lambda>u. u\<lparr>p_count := p_count u - done\<rparr>) s))"

definition task_fd_write :: "int \<Rightarrow> u8 list \<Rightarrow> 'a kernel_scheme \<Rightarrow> int \<times> 'a kernel_scheme" where
  "task_fd_write fd bs s =
     (let f = fd_get fd s; o1 = open_files s f
      in if f = 0 then (-1, s)
         else if o_type o1 = FD_CONSOLE then (int (length bs), console_write bs s)
         else if o_type o1 = FD_VFS
         then (case vfs_write (o_file o1) bs s of
                 (r, file', s) \<Rightarrow> (r, upd_open f (\<lambda>u. u\<lparr>o_file := file'\<rparr>) s))
         else if o_type o1 \<noteq> FD_PIPE_W then (-1, s)
         else let p = o_pipe o1;
                  done = min (length bs) (4096 - unat (p_count (pipes s p)));
                  s = ring_write p (take done bs) s
              in (int done, upd_pipe p (\<lambda>u. u\<lparr>p_count := p_count u + word_of_nat done\<rparr>) s))"

definition task_fd_close :: "int \<Rightarrow> 'a kernel_scheme \<Rightarrow> int \<times> 'a kernel_scheme" where
  "task_fd_close fd s =
     (let f = fd_get fd s
      in if f = 0 then (-1, s)
         else (0, file_put f (upd_task (current s) (\<lambda>u. u\<lparr>t_fds := (t_fds u)[nat fd := 0]\<rparr>) s)))"

definition task_fd_valid :: "int \<Rightarrow> 'a kernel_scheme \<Rightarrow> bool" where
  "task_fd_valid fd s \<longleftrightarrow> fd_get fd s \<noteq> 0"

definition task_fd_dup :: "int \<Rightarrow> int \<Rightarrow> 'a kernel_scheme \<Rightarrow> int \<times> 'a kernel_scheme" where
  "task_fd_dup oldfd minimum s =
     (let f = fd_get oldfd s
      in if f = 0 \<or> minimum < 0 then (-1, s)
         else let (fd, s) = fd_install (current s) f minimum s
              in (fd, if fd \<ge> 0 then upd_open f (\<lambda>u. u\<lparr>o_refs := o_refs u + 1\<rparr>) s else s))"

definition task_fd_dup2 :: "int \<Rightarrow> int \<Rightarrow> 'a kernel_scheme \<Rightarrow> int \<times> 'a kernel_scheme" where
  "task_fd_dup2 oldfd newfd s =
     (let f = fd_get oldfd s
      in if f = 0 \<or> newfd < 0 then (-1, s)
         else if oldfd = newfd then (newfd, s)
         else let (r, s) = fd_reserve (current s) newfd s
              in if r \<noteq> 0 then (-1, s)
                 else let s = upd_open f (\<lambda>u. u\<lparr>o_refs := o_refs u + 1\<rparr>) s;
                          s = file_put (t_fds (cur s) ! nat newfd) s
                      in (newfd, upd_task (current s) (\<lambda>u. u\<lparr>t_fds := (t_fds u)[nat newfd := f]\<rparr>) s))"

text \<open>The two descriptors, or None for -1.\<close>

definition task_fd_pipe :: "'a kernel_scheme \<Rightarrow> (int \<times> int) option \<times> 'a kernel_scheme" where
  "task_fd_pipe s =
     (let (p, s) = kzalloc pipe_bytes s;
          s = (if p \<noteq> 0 then upd_pipe p (\<lambda>_. \<lparr>p_refs = 0, p_head = 0, p_count = 0, p_page = 0, p_data = 0\<rparr>) s else s);
          (r, s) = file_new FD_PIPE_R s;
          (w, s) = file_new FD_PIPE_W s;
          s = (if p \<noteq> 0 then let (page, s) = pmm_alloc_page s in upd_pipe p (\<lambda>u. u\<lparr>p_page := page\<rparr>) s else s)
      in if p = 0 \<or> p_page (pipes s p) = 0 \<or> r = 0 \<or> w = 0
         then let s = (if p \<noteq> 0 \<and> p_page (pipes s p) \<noteq> 0 then pmm_free_page (p_page (pipes s p)) s else s)
              in (None, kfree w (kfree r (kfree p s)))
         else let s = upd_pipe p (\<lambda>u. u\<lparr>p_data := phys_to_virt s (p_page u), p_refs := 2\<rparr>) s;
                  s = upd_open r (\<lambda>u. u\<lparr>o_pipe := p\<rparr>) s;
                  s = upd_open w (\<lambda>u. u\<lparr>o_pipe := p\<rparr>) s;
                  (rfd, s) = fd_install (current s) r 0 s;
                  (wfd, s) = (if rfd < 0 then (-1, s) else fd_install (current s) w 0 s)
              in if wfd < 0
                 then let s = (if rfd \<ge> 0 then upd_task (current s) (\<lambda>u. u\<lparr>t_fds := (t_fds u)[nat rfd := 0]\<rparr>) s else s)
                      in (None, file_put w (file_put r s))
                 else (Some (rfd, wfd), s))"

end
