(* ===== verification/Arch_Abi.thy ===== *)
theory Arch_Abi
  imports Task
begin

text \<open>
  The register frames of the three architectures (\<open>include/kernel/arch.h\<close>, \<open>arch/*/platform.c\<close>): how a
  task is entered, and where a system call has its number, arguments and results. The functions of
  RISC-V and AArch64 have \<open>rv_\<close> and \<open>arm_\<close> in front, those of x86-64 are in \<open>Task\<close>.
\<close>

section \<open>RISC-V\<close>

record rv_frame =
  rv_x :: "u64 list"
  rv_pc :: u64
  rv_status :: u64

definition rv_task_frame_init :: "rv_frame \<Rightarrow> rv_frame" where
  "rv_task_frame_init frame = \<lparr>rv_x = replicate 32 0, rv_pc = 0, rv_status = push_bit 5 1 OR push_bit 13 3\<rparr>"

definition rv_task_set_entry :: "rv_frame \<Rightarrow> u64 \<Rightarrow> u64 \<Rightarrow> rv_frame" where
  "rv_task_set_entry frame pc sp = frame\<lparr>rv_pc := pc, rv_x := (rv_x frame)[2 := sp]\<rparr>"

definition rv_task_state_init :: "u8 list" where
  "rv_task_state_init = replicate 264 0"

definition rv_syscall_number :: "rv_frame \<Rightarrow> u64" where
  "rv_syscall_number frame = rv_x frame ! 17"

definition rv_syscall_arg :: "rv_frame \<Rightarrow> nat \<Rightarrow> u64" where
  "rv_syscall_arg frame index = (if index < 6 then rv_x frame ! (10 + index) else 0)"

definition rv_syscall_return :: "rv_frame \<Rightarrow> u64 \<Rightarrow> rv_frame" where
  "rv_syscall_return frame v = frame\<lparr>rv_x := (rv_x frame)[10 := v]\<rparr>"

definition rv_syscall_return2 :: "rv_frame \<Rightarrow> u64 \<Rightarrow> u64 \<Rightarrow> rv_frame" where
  "rv_syscall_return2 frame v status = frame\<lparr>rv_x := (rv_x frame)[10 := v, 11 := status]\<rparr>"

text \<open>
  The choice of the trap handler on the cause: a timer interrupt preempts, a system call goes on behind
  the instruction, anything else stops the machine.
\<close>

datatype rv_action = Preempt rv_frame | Syscall rv_frame | Halt

definition riscv_trap :: "u64 \<Rightarrow> rv_frame \<Rightarrow> rv_action" where
  "riscv_trap cause frame =
     (if cause = push_bit 63 1 OR 5 then Preempt frame
      else if cause = 8 then Syscall (frame\<lparr>rv_pc := rv_pc frame + 4\<rparr>)
      else Halt)"

section \<open>AArch64\<close>

record arm_frame =
  arm_x :: "u64 list"
  arm_sp :: u64
  arm_pc :: u64
  arm_pstate :: u64

definition arm_task_frame_init :: "arm_frame \<Rightarrow> arm_frame" where
  "arm_task_frame_init frame = \<lparr>arm_x = replicate 31 0, arm_sp = 0, arm_pc = 0, arm_pstate = 0\<rparr>"

definition arm_task_set_entry :: "arm_frame \<Rightarrow> u64 \<Rightarrow> u64 \<Rightarrow> arm_frame" where
  "arm_task_set_entry frame pc sp = frame\<lparr>arm_pc := pc, arm_sp := sp\<rparr>"

definition arm_task_state_init :: "u8 list" where
  "arm_task_state_init = replicate 536 0"

definition arm_syscall_number :: "arm_frame \<Rightarrow> u64" where
  "arm_syscall_number frame = arm_x frame ! 8"

definition arm_syscall_arg :: "arm_frame \<Rightarrow> nat \<Rightarrow> u64" where
  "arm_syscall_arg frame index = (if index < 6 then arm_x frame ! index else 0)"

definition arm_syscall_return :: "arm_frame \<Rightarrow> u64 \<Rightarrow> arm_frame" where
  "arm_syscall_return frame v = frame\<lparr>arm_x := (arm_x frame)[0 := v]\<rparr>"

definition arm_syscall_return2 :: "arm_frame \<Rightarrow> u64 \<Rightarrow> u64 \<Rightarrow> arm_frame" where
  "arm_syscall_return2 frame v status = frame\<lparr>arm_x := (arm_x frame)[0 := v, 1 := status]\<rparr>"

text \<open>
  A synchronous exception is a system call or stops the machine with a report on the serial line; an
  interrupt preempts the task when it is the timer's, and is acknowledged to the controller. The value
  read from the controller is an argument, the values written to it are results.
\<close>

definition aarch64_sync :: "u64 \<Rightarrow> u64 \<Rightarrow> arm_frame \<Rightarrow> 'a console_scheme \<Rightarrow> bool \<times> 'a console_scheme" where
  "aarch64_sync esr far frame s =
     (if drop_bit 26 esr = 0x15 then (True, s)
      else let s = serial_puts (str ''[fault] esr='') s;
               s = serial_puthex esr s;
               s = serial_puts (str '' elr='') s;
               s = serial_puthex (arm_pc frame) s;
               s = serial_puts (str '' far='') s;
               s = serial_puthex far s
           in (False, serial_putc 0xa s))"

definition aarch64_irq :: "u32 \<Rightarrow> bool \<times> u32" where
  "aarch64_irq pending = (let irq = pending AND 0x3ff in (irq = 27, irq))"

section \<open>The contract\<close>

text \<open>
  What the kernel relies on of a frame: entering a task sets where it runs and leaves the rest of a
  frame as it was; the results of a call can be read by the program, which goes on where it was.
\<close>

locale trap_frame =
  fixes frame_ok :: "'f \<Rightarrow> bool"
    and result :: "'f \<Rightarrow> u64" and status :: "'f \<Rightarrow> u64" and pc :: "'f \<Rightarrow> u64" and sp :: "'f \<Rightarrow> u64"
    and init :: "'f \<Rightarrow> 'f" and set_entry :: "'f \<Rightarrow> u64 \<Rightarrow> u64 \<Rightarrow> 'f" and return2 :: "'f \<Rightarrow> u64 \<Rightarrow> u64 \<Rightarrow> 'f"
  assumes init_ok: "frame_ok (init f)"
    and entry: "frame_ok f \<Longrightarrow> frame_ok (set_entry f a b) \<and> pc (set_entry f a b) = a \<and> sp (set_entry f a b) = b"
    and return: "frame_ok f \<Longrightarrow> frame_ok (return2 f v st) \<and> result (return2 f v st) = v \<and> status (return2 f v st) = st \<and>
      pc (return2 f v st) = pc f \<and> sp (return2 f v st) = sp f"
begin

text \<open>A new task that is entered and has had results of calls is still at its entry.\<close>

lemma entered: "frame_ok (fold (\<lambda>(v, st) f. return2 f v st) rs (set_entry (init f) a b)) \<and>
    pc (fold (\<lambda>(v, st) f. return2 f v st) rs (set_entry (init f) a b)) = a \<and>
    sp (fold (\<lambda>(v, st) f. return2 f v st) rs (set_entry (init f) a b)) = b"
proof (induction rs rule: rev_induct)
  case Nil
  then show ?case
    using entry [OF init_ok] by simp
next
  case (snoc r rs)
  then show ?case
    using return by (cases r) simp
qed

end

interpretation x86_frame: trap_frame "\<lambda>_. True" rax rdx rip rsp
    arch_task_frame_init arch_task_set_entry arch_syscall_return2
  by unfold_locales (simp_all add: arch_task_frame_init_def arch_task_set_entry_def arch_syscall_return2_def)

interpretation rv_frame: trap_frame "\<lambda>f. length (rv_x f) = 32" "\<lambda>f. rv_x f ! 10" "\<lambda>f. rv_x f ! 11" rv_pc "\<lambda>f. rv_x f ! 2"
    rv_task_frame_init rv_task_set_entry rv_syscall_return2
  by unfold_locales (simp_all add: rv_task_frame_init_def rv_task_set_entry_def rv_syscall_return2_def)

interpretation arm_frame: trap_frame "\<lambda>f. length (arm_x f) = 31" "\<lambda>f. arm_x f ! 0" "\<lambda>f. arm_x f ! 1" arm_pc arm_sp
    arm_task_frame_init arm_task_set_entry arm_syscall_return2
  by unfold_locales (simp_all add: arm_task_frame_init_def arm_task_set_entry_def arm_syscall_return2_def)

end
