(* ===== verification/Arch_Boot.thy ===== *)
theory Arch_Boot
  imports Vmm_Riscv Vmm_Aarch64 Phys_Mem
begin

text \<open>
  What \<open>arch/riscv64/platform.c\<close>, \<open>arch/aarch64/platform.c\<close> and the AArch64 part of \<open>serial.c\<close> do to their
  machines: the registers of the trap entry, the timers, the interrupt controller and the types of
  memory. As in \<open>Cpu_X86\<close>, an instruction that loads a register stores into the field of that register.
\<close>

section \<open>RISC-V\<close>

text \<open>A call of the firmware is the three registers it is made with; \<open>rv_time\<close> is the time it reads.\<close>

record rv_cpu = riscv +
  stvec :: u64
  sscratch :: u64
  sie :: u64
  sstatus :: u64
  tp :: u64
  rv_time :: u64
  sbi_calls :: "(u64 \<times> u64 \<times> u64) list"

abbreviation (input) rv_timer_ticks :: u64 where "rv_timer_ticks \<equiv> 100000"

definition rv_timer_reset :: "'a rv_cpu_scheme \<Rightarrow> 'a rv_cpu_scheme" where
  "rv_timer_reset s = (let now = rv_time s in s\<lparr>sbi_calls := sbi_calls s @ [(0x54494d45, 0, now + rv_timer_ticks)]\<rparr>)"

definition rv_arch_init :: "u64 \<Rightarrow> u64 \<Rightarrow> 'a rv_cpu_scheme \<Rightarrow> 'a rv_cpu_scheme" where
  "rv_arch_init trap_entry kernel_stack s =
     (let s = s\<lparr>stvec := trap_entry, sscratch := kernel_stack\<rparr>;
          s = s\<lparr>sie := sie s OR push_bit 5 1\<rparr>;
          s = s\<lparr>sstatus := sstatus s OR push_bit 13 3\<rparr>
      in rv_timer_reset s)"

definition rv_set_tls :: "u64 \<Rightarrow> 'a rv_cpu_scheme \<Rightarrow> 'a rv_cpu_scheme" where
  "rv_set_tls v s = s\<lparr>tp := v\<rparr>"

section \<open>AArch64\<close>

text \<open>The registers that exist at exception levels 1 and 2 are functions of the level.\<close>

record arm_cpu = aarch64 +
  spsel :: u64
  mair :: "nat \<Rightarrow> u64"
  vbar :: "nat \<Rightarrow> u64"
  cptr_el2 :: u64
  cpacr_el1 :: u64
  gicd :: u64
  gicc :: u64
  arm_timer_ticks :: u64
  cntfrq :: u64
  cntv_tval :: u64
  cntv_ctl :: u64
  tpidr :: u64
  uart :: u64

abbreviation (input) GICD_BASE :: u64 where "GICD_BASE \<equiv> 0x08000000"
abbreviation (input) GICC_BASE :: u64 where "GICC_BASE \<equiv> 0x08010000"
abbreviation (input) UART_BASE :: u64 where "UART_BASE \<equiv> 0x09000000"
abbreviation (input) TIMER_IRQ :: nat where "TIMER_IRQ \<equiv> 27"

definition arm_timer_reset :: "'a arm_cpu_scheme \<Rightarrow> 'a arm_cpu_scheme" where
  "arm_timer_reset s = s\<lparr>cntv_tval := arm_timer_ticks s, cntv_ctl := 1\<rparr>"

text \<open>A store to a register of a device.\<close>

definition device_write :: "u64 \<Rightarrow> u64 \<Rightarrow> u32 \<Rightarrow> 'a phys_scheme \<Rightarrow> 'a phys_scheme" where
  "device_write base offset v s = s\<lparr>mem := write32 (mem s) (base + offset) v\<rparr>"

text \<open>The part of \<^verbatim>\<open>arch_init\<close> that depends on the exception level.\<close>

definition arm_init_level :: "u64 \<Rightarrow> 'a arm_cpu_scheme \<Rightarrow> 'a arm_cpu_scheme" where
  "arm_init_level vectors s =
     (if current_el s = 2
      then let m = mair s 2 AND NOT (push_bit 56 0xff);
               s = s\<lparr>mair := (mair s)(2 := m), vbar := (vbar s)(2 := vectors)\<rparr>
           in s\<lparr>cptr_el2 := cptr_el2 s AND NOT (push_bit 10 1)\<rparr>
      else let m = mair s 1 AND NOT (push_bit 56 0xff);
               s = s\<lparr>mair := (mair s)(1 := m), vbar := (vbar s)(1 := vectors)\<rparr>
           in s\<lparr>cpacr_el1 := cpacr_el1 s OR push_bit 20 3\<rparr>)"

definition arm_arch_init :: "u64 \<Rightarrow> 'a arm_cpu_scheme \<Rightarrow> 'a arm_cpu_scheme" where
  "arm_arch_init vectors s =
     (let s = s\<lparr>spsel := 1\<rparr>;
          s = arm_init_level vectors s;
          s = fold (\<lambda>p s. snd (arm_map_kernel (phys_to_virt s p) p (VMM_WRITE OR VMM_DEVICE) s)) [GICD_BASE, GICD_BASE + PAGE_SIZE] s;
          s = snd (arm_map_kernel (phys_to_virt s GICC_BASE) GICC_BASE (VMM_WRITE OR VMM_DEVICE) s);
          s = s\<lparr>gicd := phys_to_virt s GICD_BASE\<rparr>;
          s = s\<lparr>gicc := phys_to_virt s GICC_BASE\<rparr>;
          s = device_write (gicd s) 0 1 s;
          s = device_write (gicd s) 0x100 (push_bit (TIMER_IRQ mod 32) 1) s;
          s = device_write (gicc s) 4 0xff s;
          s = device_write (gicc s) 0 1 s;
          s = s\<lparr>arm_timer_ticks := cntfrq s div 100\<rparr>
      in arm_timer_reset s)"

definition arm_set_tls :: "u64 \<Rightarrow> 'a arm_cpu_scheme \<Rightarrow> 'a arm_cpu_scheme" where
  "arm_set_tls v s = s\<lparr>tpidr := v\<rparr>"

definition arm_serial_init :: "'a arm_cpu_scheme \<Rightarrow> 'a arm_cpu_scheme" where
  "arm_serial_init s =
     (let s = snd (arm_map_kernel (phys_to_virt s UART_BASE) UART_BASE (VMM_WRITE OR VMM_DEVICE) s)
      in s\<lparr>uart := phys_to_virt s UART_BASE\<rparr>)"

section \<open>The type of the memory of devices\<close>

text \<open>
  A leaf descriptor selects one of the eight bytes of the register \<open>mair\<close> of the level it is used at; 0 is
  memory of a device.
\<close>

definition memory_type :: "u64 \<Rightarrow> u64 \<Rightarrow> u64" where
  "memory_type attributes descriptor = drop_bit (8 * unat (drop_bit 2 descriptor AND 7)) attributes AND 0xff"

definition arm_leaf :: "u64 \<Rightarrow> u64 \<Rightarrow> bool \<Rightarrow> u64" where
  "arm_leaf frame flags user = (frame AND ARM_MASK) OR
     (0x703 OR (if user then 0x20000000000040 OR (if flags AND VMM_WRITE = 0 then DESC_RO else 0)
                else if flags AND VMM_DEVICE \<noteq> 0 then 0x6000000000001C else 0))"

lemma arm_map_page_leaf:
  "arm_map_page tab virt frame flags user s =
     (case arm_get_pte tab virt True s of (pte, t) \<Rightarrow> if pte = 0 then (-1, t) else (0, wr pte (arm_leaf frame flags user) t))"
  by (simp add: arm_map_page_def arm_leaf_def Let_def split: prod.split)

text \<open>The index of the memory type in a leaf descriptor.\<close>

lemma arm_leaf_index:
  "drop_bit 2 (arm_leaf frame flags user) AND 7 = (if \<not> user \<and> flags AND VMM_DEVICE \<noteq> 0 then 7 else 0)"
proof -
  have d: "drop_bit 2 x AND 7 = drop_bit 2 (x AND 0x1C)" for x :: u64
    by (simp add: drop_bit_and)
  have "((frame AND ARM_MASK) OR b) AND 0x1C = b AND 0x1C" for b
    by (simp add: bit.conj_disj_distrib2 and.assoc)
  then have "drop_bit 2 ((frame AND ARM_MASK) OR b) AND 7 = drop_bit 2 b AND 7" for b
    by (simp only: d)
  from this [of "0x703 OR b" for b] show ?thesis
    unfolding arm_leaf_def by (simp only:) simp
qed

lemma arm_more:
  "phys.more (snd (arm_map_kernel virt frame flags s)) = phys.more s"
proof -
  have tab: "phys.more (snd (arm_next_table table i create t)) = phys.more t" for table i create and t :: "'b phys_scheme"
    by (auto simp: arm_next_table_def wr_def Let_def split: prod.split) (metis pmm_frame(3) snd_conv)+
  have desc: "phys.more (snd (arm_descend shifts table virt create t)) = phys.more t" for shifts table create and t :: "'b phys_scheme"
  proof (induction shifts arbitrary: table t)
    case (Cons shift shifts)
    then show ?case
      using tab by (simp add: Let_def split_def)
  qed simp
  have "phys.more (snd (arm_get_pte tab virt create t)) = phys.more t" for tab create and t :: "'b phys_scheme"
    using desc by (simp add: arm_get_pte_def split_def Let_def del: arm_descend.simps)
  then show ?thesis
    by (simp add: arm_map_kernel_def arm_map_page_leaf wr_def split_def)
qed

lemma arm_cpu_more:
  assumes "phys.more s = phys.more t"
  shows "mair s = mair t" "arm_el s = arm_el t" "vbar s = vbar t" "cntfrq s = cntfrq t"
  using assms by (cases s; cases t; simp)+

lemmas arm_map_frame = arm_cpu_more [OF arm_more]

lemma arm_arch_init_mair:
  "mair (arm_arch_init vectors s) = (let el = if current_el s = 2 then 2 else 1
     in (mair s)(el := mair s el AND NOT (push_bit 56 0xff)))"
  by (simp add: arm_arch_init_def arm_timer_reset_def device_write_def arm_init_level_def current_el_def arm_map_frame Let_def)

text \<open>
  C12: Devices get their kind of memory. After \<^verbatim>\<open>arch_init\<close>, whatever the registers were before, the leaf
  descriptor that a mapping stores selects the memory type of devices when the kernel maps a device, and for any
  other mapping the type that the bootloader set up for memory, which \<^verbatim>\<open>arch_init\<close> left as it was; a
  mapping fails only when there is no table entry for it, and stores nothing then.
\<close>

theorem arm_device_memory:
  "case arm_get_pte tab virt True (arm_arch_init vectors s) of (pte, t) \<Rightarrow>
     if pte = 0 then arm_map_page tab virt frame flags user (arm_arch_init vectors s) = (-1, t)
     else \<exists>e. arm_map_page tab virt frame flags user (arm_arch_init vectors s) = (0, wr pte e t) \<and>
       memory_type (mair (arm_arch_init vectors s) (if current_el s = 2 then 2 else 1)) e =
         (if user \<or> flags AND VMM_DEVICE = 0 then memory_type (mair s (if current_el s = 2 then 2 else 1)) 0 else 0)"
proof -
  let ?el = "if current_el s = 2 then 2 else 1 :: nat"
  have z: "drop_bit 56 (m AND NOT (push_bit 56 0xff)) AND 0xff = 0" "(m AND NOT (push_bit 56 0xff)) AND 0xff = m AND 0xff" for m :: u64
    by (simp_all add: drop_bit_and and.assoc)
  have "mair (arm_arch_init vectors s) ?el = mair s ?el AND NOT (push_bit 56 0xff)"
    by (simp add: arm_arch_init_mair Let_def)
  then have "memory_type (mair (arm_arch_init vectors s) ?el) (arm_leaf frame flags user) =
      (if user \<or> flags AND VMM_DEVICE = 0 then memory_type (mair s ?el) 0 else 0)"
    using z [of "mair s ?el"] by (simp add: memory_type_def arm_leaf_index)
  then show ?thesis
    by (auto simp: arm_map_page_leaf split: prod.split)
qed

end
