(* ===== verification/Vfs_Data.thy ===== *)
theory Vfs_Data
  imports Vfs
begin

text \<open>
  What the files of \<open>kernel/fs/vfs.c\<close> hold. The contents of a node are the bytes of its frames, or of
  the archive while it is still there; the invariant says that the frames are its own, and zero
  behind its end. Writing then is an update of that list of bytes, with zeros for a hole, and keeps
  every other file; reading is proved for files in the archive and from page boundaries, and the
  bytes the code returns elsewhere in a page are stated as they are.
\<close>

section \<open>Bytes of frames\<close>

text \<open>The byte at an offset below 4096 of a frame.\<close>

definition fbyte :: "'a phys_scheme \<Rightarrow> u64 \<Rightarrow> nat \<Rightarrow> u8" where
  "fbyte s p j = frame_byte s p (word_of_nat j)"

lemma page_address_eq:
  assumes "page_aligned p" "page_aligned q" "i < 4096" "j < 4096"
    "q + h + word_of_nat j = p + h + word_of_nat i"
  shows "q = p \<and> j = i"
proof -
  have "in_page (p + h) (p + h + word_of_nat i)"
    using assms(3) by (intro in_page_add) (simp add: word_less_4096)
  moreover have "in_page (q + h) (q + h + word_of_nat j)"
    using assms(4) by (intro in_page_add) (simp add: word_less_4096)
  ultimately have "q = p"
    using in_page_disjoint [OF assms(2,1)] assms(5) by simp
  then have "(word_of_nat j :: u64) = word_of_nat i"
    using assms(5) by simp
  then have "unat (word_of_nat j :: u64) = unat (word_of_nat i :: u64)"
    by (rule arg_cong)
  then show ?thesis
    using assms(3,4) \<open>q = p\<close> by simp
qed

lemma page_distance:
  assumes "page_aligned p" "page_aligned q" "off + n \<le> 4096" "j < 4096"
  shows "unat (q + h + word_of_nat j - (p + h + word_of_nat off)) < n \<longleftrightarrow> q = p \<and> off \<le> j \<and> j < off + n"
    "q = p \<Longrightarrow> off \<le> j \<Longrightarrow> unat (q + h + word_of_nat j - (p + h + word_of_nat off)) = j - off"
proof -
  let ?d = "q + h + word_of_nat j - (p + h + word_of_nat off)"
  show d: "unat ?d = j - off" if "q = p" "off \<le> j"
  proof -
    have "?d = word_of_nat j - word_of_nat off"
      using that(1) by simp
    also have "\<dots> = word_of_nat (j - off)"
      using that(2) by simp
    finally show ?thesis
      using assms(4) by simp
  qed
  have "q = p \<and> j = off + unat ?d" if "unat ?d < n"
  proof (rule page_address_eq [OF assms(1,2)])
    show "off + unat ?d < 4096"
      using that assms(3) by linarith
    show "q + h + word_of_nat j = p + h + word_of_nat (off + unat ?d)"
      by simp
  qed (rule assms(4))
  then show "unat ?d < n \<longleftrightarrow> q = p \<and> off \<le> j \<and> j < off + n"
    using d by fastforce
qed

lemma fbyte_store:
  assumes "page_aligned p" "page_aligned q" "off + length xs \<le> 4096" "j < 4096"
  shows "fbyte (s\<lparr>mem := mem_store (mem s) (phys_to_virt s p + word_of_nat off) xs\<rparr>) q j =
    (if q = p \<and> off \<le> j \<and> j < off + length xs then xs ! (j - off) else fbyte s q j)"
proof -
  note d = page_distance [OF assms, of "hhdm s"]
  have "fbyte (s\<lparr>mem := mem_store (mem s) (phys_to_virt s p + word_of_nat off) xs\<rparr>) q j =
      mem_store (mem s) (p + hhdm s + word_of_nat off) xs (q + hhdm s + word_of_nat j)"
    by (simp add: fbyte_def frame_byte_def phys_to_virt_def)
  also have "\<dots> = (if unat (q + hhdm s + word_of_nat j - (p + hhdm s + word_of_nat off)) < length xs
      then xs ! unat (q + hhdm s + word_of_nat j - (p + hhdm s + word_of_nat off)) else mem s (q + hhdm s + word_of_nat j))"
    using assms(3) by (intro mem_store_apply) linarith
  also have "mem s (q + hhdm s + word_of_nat j) = fbyte s q j"
    by (simp add: fbyte_def frame_byte_def phys_to_virt_def)
  finally show ?thesis
    unfolding d(1) using d(2) by presburger
qed

lemma fbyte_upd [simp]: "fbyte (upd_vnode a f s) = fbyte s"
  by (simp add: fun_eq_iff fbyte_def frame_byte_def upd_vnode_def phys_to_virt_def)

lemma free_frames_upd [simp]: "free_frames (upd_vnode a f s) = free_frames s"
  by (simp add: fun_eq_iff free_frames_def future_frames_def bump_ok_def upd_vnode_def)

lemma upd_vnode_fields [simp]:
  "vnodes (upd_vnode a f s) = (vnodes s)(a := f (vnodes s a))" "tar_data (upd_vnode a f s) = tar_data s"
  "hhdm (upd_vnode a f s) = hhdm s" "mem (upd_vnode a f s) = mem s" "root (upd_vnode a f s) = root s"
  "phys_to_virt (upd_vnode a f s) = phys_to_virt s"
  by (simp_all add: upd_vnode_def phys_to_virt_def fun_eq_iff)

lemma vfs_more_eq:
  assumes "heap.more s = heap.more t"
  shows "vnodes s = vnodes t" "tar_data s = tar_data t" "tar_size s = tar_size t" "next_inode s = next_inode t"
    "root s = root t" "vfs.more s = vfs.more t"
  using assms by (cases s; cases t; simp)+

lemma pmm_vfs_fields [simp]:
  "vnodes (snd (pmm_alloc_page s)) = vnodes s" "tar_data (snd (pmm_alloc_page s)) = tar_data s"
  "root (snd (pmm_alloc_page s)) = root s"
  "vnodes (pmm_free_page p s) = vnodes s" "tar_data (pmm_free_page p s) = tar_data s"
  "root (pmm_free_page p s) = root s"
  by (simp_all add: vfs_more_eq [OF heap_more_eq(7) [OF pmm_frame(3)]] vfs_more_eq [OF heap_more_eq(7) [OF pmm_frame(6)]])

section \<open>Contents\<close>

definition page_byte :: "vnode \<Rightarrow> 'a vfs_scheme \<Rightarrow> nat \<Rightarrow> u8" where
  "page_byte n s i = fbyte s (v_pages n ! (i div 4096)) (i mod 4096)"

definition node_byte :: "vnode \<Rightarrow> 'a vfs_scheme \<Rightarrow> nat \<Rightarrow> u8" where
  "node_byte n s i = (case v_archive n of Some base \<Rightarrow> tar_data s ! (unat base + i) | None \<Rightarrow> page_byte n s i)"

definition content :: "'a vfs_scheme \<Rightarrow> u64 \<Rightarrow> u8 list" where
  "content s a = map (node_byte (vnodes s a) s) [0..<unat (v_size (vnodes s a))]"

text \<open>The frames of a node are its own: aligned, distinct, none of them free.\<close>

definition pages_ok :: "u64 list \<Rightarrow> vnode \<Rightarrow> bool" where
  "pages_ok F n \<longleftrightarrow> length (v_pages n) = 16 \<and>
     (\<forall>k < 16. v_pages n ! k \<noteq> 0 \<longrightarrow> page_aligned (v_pages n ! k) \<and> v_pages n ! k \<notin> set F) \<and>
     (\<forall>k < 16. \<forall>l < 16. v_pages n ! k \<noteq> 0 \<longrightarrow> v_pages n ! k = v_pages n ! l \<longrightarrow> k = l)"

definition present :: "vnode \<Rightarrow> nat \<Rightarrow> bool" where
  "present n i \<longleftrightarrow> v_pages n ! (i div 4096) \<noteq> 0"

definition file_ok :: "u64 list \<Rightarrow> 'a vfs_scheme \<Rightarrow> u64 \<Rightarrow> bool" where
  "file_ok F s a \<longleftrightarrow>
     (let n = vnodes s a
      in pages_ok F n \<and> unat (v_size n) \<le> 65536 \<and>
         (case v_archive n of
            None \<Rightarrow> (\<forall>i < unat (v_size n). present n i) \<and>
                    (\<forall>i < 65536. unat (v_size n) \<le> i \<and> present n i \<longrightarrow> page_byte n s i = 0)
          | Some base \<Rightarrow> unat base + unat (v_size n) \<le> length (tar_data s) \<and>
                    (\<forall>i < 65536. present n i \<longrightarrow> page_byte n s i = 0)))"

text \<open>Two states that agree on the frames in use, but for those given.\<close>

definition agree :: "u64 set \<Rightarrow> 'a phys_scheme \<Rightarrow> 'a phys_scheme \<Rightarrow> bool" where
  "agree Q s t \<longleftrightarrow> (\<forall>q j. page_aligned q \<and> q \<notin> Q \<and> j < 4096 \<longrightarrow> fbyte t q j = fbyte s q j)"

lemma agree_refl [simp]: "agree Q s s"
  by (simp add: agree_def)

lemma agree_trans: "agree Q s t \<Longrightarrow> agree Q t u \<Longrightarrow> agree Q s u"
  by (simp add: agree_def)

lemma agree_mono: "agree Q s t \<Longrightarrow> Q \<subseteq> R \<Longrightarrow> agree R s t"
  by (auto simp: agree_def)

lemma agree_page_byte:
  assumes "agree Q s t" "pages_ok F n" "i < 65536" "present n i" "v_pages n ! (i div 4096) \<notin> Q"
  shows "page_byte n t i = page_byte n s i"
  using assms by (simp add: agree_def page_byte_def pages_ok_def present_def less_mult_imp_div_less)

lemma agree_other:
  assumes "agree Q s t" "file_ok F s b" "vnodes t b = vnodes s b" "tar_data t = tar_data s"
    "\<And>p. p \<in> set (v_pages (vnodes s b)) \<Longrightarrow> p \<noteq> 0 \<Longrightarrow> p \<notin> Q" "set F' \<subseteq> set F"
  shows "content t b = content s b" "file_ok F' t b"
proof -
  let ?n = "vnodes s b"
  have ok: "pages_ok F ?n" "unat (v_size ?n) \<le> 65536"
    using assms(2) by (simp_all add: file_ok_def Let_def)
  have same: "page_byte ?n t i = page_byte ?n s i" if "i < 65536" "present ?n i" for i
  proof (rule agree_page_byte [OF assms(1) ok(1) that])
    have "i div 4096 < length (v_pages ?n)"
      using ok(1) that(1) by (simp add: pages_ok_def less_mult_imp_div_less)
    then show "v_pages ?n ! (i div 4096) \<notin> Q"
      using that(2) assms(5) by (simp add: present_def)
  qed
  have "pages_ok F' ?n"
    using ok(1) assms(6) by (auto simp: pages_ok_def)
  then show "file_ok F' t b"
    using assms(2-4) same by (auto simp: file_ok_def Let_def split: option.splits)
  show "content t b = content s b"
    using assms(2-4) same ok(2)
    by (auto simp: content_def node_byte_def file_ok_def Let_def split: option.splits)
qed

section \<open>Getting the frames\<close>

lemma set_page:
  assumes "pages_ok F n" "k < 16" "p \<noteq> 0" "page_aligned p" "p \<in> set F" "p \<notin> set F'" "set F' \<subseteq> set F"
  shows "pages_ok F' (n\<lparr>v_pages := (v_pages n)[k := p]\<rparr>)"
  using assms unfolding pages_ok_def by (auto simp: nth_list_update)

text \<open>The pages a node has.\<close>

definition own :: "vnode \<Rightarrow> u64 set" where
  "own n = {p \<in> set (v_pages n). p \<noteq> 0}"

text \<open>
  What filling pages does to the node: its pages grow by frames that were free and are zero, the
  rest is kept.
\<close>

definition filled :: "u64 \<Rightarrow> u64 list \<Rightarrow> 'a vfs_scheme \<Rightarrow> u64 list \<Rightarrow> 'a vfs_scheme \<Rightarrow> bool" where
  "filled a F s F' t \<longleftrightarrow> free_frames t F' \<and> set F' \<subseteq> set F \<and> agree (set F) s t \<and> tar_data t = tar_data s \<and>
     hhdm t = hhdm s \<and> own (vnodes t a) \<subseteq> set F \<union> own (vnodes s a) \<and>
     (\<exists>ps. vnodes t = (vnodes s)(a := (vnodes s a)\<lparr>v_pages := ps\<rparr>) \<and>
        pages_ok F' (vnodes t a) \<and>
        (\<forall>k < 16. v_pages (vnodes s a) ! k \<noteq> 0 \<longrightarrow> ps ! k = v_pages (vnodes s a) ! k) \<and>
        (\<forall>i < 65536. present (vnodes t a) i \<and> \<not> present (vnodes s a) i \<longrightarrow> page_byte (vnodes t a) t i = 0))"

lemma filledD:
  assumes "filled a F s F' t"
  shows "free_frames t F'" "set F' \<subseteq> set F" "agree (set F) s t" "tar_data t = tar_data s" "pages_ok F' (vnodes t a)"
    "b \<noteq> a \<Longrightarrow> vnodes t b = vnodes s b" "vnodes t a = (vnodes s a)\<lparr>v_pages := v_pages (vnodes t a)\<rparr>"
    "k < 16 \<Longrightarrow> v_pages (vnodes s a) ! k \<noteq> 0 \<Longrightarrow> v_pages (vnodes t a) ! k = v_pages (vnodes s a) ! k"
    "i < 65536 \<Longrightarrow> present (vnodes t a) i \<Longrightarrow> \<not> present (vnodes s a) i \<Longrightarrow> page_byte (vnodes t a) t i = 0"
    "own (vnodes t a) \<subseteq> set F \<union> own (vnodes s a)"
  using assms by (auto simp: filled_def)

lemma filled_trans:
  assumes "filled a F s F1 s1" "filled a F1 s1 F2 s2"
  shows "filled a F s F2 s2"
proof -
  note d1 = filledD [OF assms(1)] and d2 = filledD [OF assms(2)]
  have zero: "page_byte (vnodes s2 a) s2 i = 0"
    if i: "i < 65536" "present (vnodes s2 a) i" "\<not> present (vnodes s a) i" for i
  proof (cases "present (vnodes s1 a) i")
    case True
    have k: "i div 4096 < 16"
      using i(1) by (simp add: less_mult_imp_div_less)
    then have "page_byte (vnodes s2 a) s2 i = page_byte (vnodes s1 a) s2 i"
      using d2(8) [OF k] True by (simp add: page_byte_def present_def)
    also have "\<dots> = page_byte (vnodes s1 a) s1 i"
      using d1(5) True k by (intro agree_page_byte [OF d2(3) d1(5) i(1)]) (auto simp: pages_ok_def present_def)
    finally show ?thesis
      using d1(9) [OF i(1) True i(3)] by simp
  next
    case False
    then show ?thesis
      using d2(9) i by blast
  qed
  show ?thesis
    unfolding filled_def
  proof (intro conjI exI [of _ "v_pages (vnodes s2 a)"])
    show "agree (set F) s s2"
      using d1(3) agree_mono [OF d2(3) d1(2)] by (rule agree_trans)
    show "hhdm s2 = hhdm s"
      using assms by (simp add: filled_def)
    show "vnodes s2 = (vnodes s)(a := (vnodes s a)\<lparr>v_pages := v_pages (vnodes s2 a)\<rparr>)"
    proof
      fix b
      show "vnodes s2 b = ((vnodes s)(a := (vnodes s a)\<lparr>v_pages := v_pages (vnodes s2 a)\<rparr>)) b"
      proof (cases "b = a")
        case True
        have "vnodes s2 a = (vnodes s1 a)\<lparr>v_pages := v_pages (vnodes s2 a)\<rparr>"
          by (rule d2(7))
        also have "\<dots> = (vnodes s a)\<lparr>v_pages := v_pages (vnodes s2 a)\<rparr>"
          by (subst d1(7)) simp
        finally show ?thesis
          using True by simp
      next
        case False
        then show ?thesis
          using d1(6) [OF False] d2(6) [OF False] by simp
      qed
    qed
    show "\<forall>k < 16. v_pages (vnodes s a) ! k \<noteq> 0 \<longrightarrow> v_pages (vnodes s2 a) ! k = v_pages (vnodes s a) ! k"
      using d1(8) d2(8) by simp
    show "\<forall>i < 65536. present (vnodes s2 a) i \<and> \<not> present (vnodes s a) i \<longrightarrow> page_byte (vnodes s2 a) s2 i = 0"
      using zero by blast
    show "set F2 \<subseteq> set F" "own (vnodes s2 a) \<subseteq> set F \<union> own (vnodes s a)"
      using d1(2,10) d2(2,10) by blast+
    show "tar_data s2 = tar_data s"
      using d1(4) d2(4) by simp
  qed (fact d2)+
qed

lemma fill_one:
  assumes "free_frames s (p # F)" "pages_ok (p # F) (vnodes s a)" "k < 16" "v_pages (vnodes s a) ! k = 0"
  shows "filled a (p # F) s F (upd_vnode a (\<lambda>n. n\<lparr>v_pages := (v_pages n)[k := p]\<rparr>) (snd (pmm_alloc_page s)))"
proof -
  let ?n = "vnodes s a" and ?t = "upd_vnode a (\<lambda>n. n\<lparr>v_pages := (v_pages n)[k := p]\<rparr>) (snd (pmm_alloc_page s))"
  note al = pmm_alloc_Cons [OF assms(1)]
  have p: "p \<noteq> 0" "page_aligned p" "p \<notin> set F"
    using free_frames_aligned [OF assms(1)] free_frames_distinct [OF assms(1)] by auto
  have k: "length (v_pages ?n) = 16"
    using assms(2) by (simp add: pages_ok_def)
  have n: "vnodes ?t a = ?n\<lparr>v_pages := (v_pages ?n)[k := p]\<rparr>"
    by simp
  have ok: "pages_ok F (vnodes ?t a)"
    unfolding n using assms p by (intro set_page [of "p # F"]) auto
  have zero: "fbyte ?t p j = 0" if "j < 4096" for j
    using pmm.alloc_zero [OF assms(1), of "word_of_nat j"] that by (simp add: fbyte_def word_less_4096)
  have agree: "agree (set (p # F)) s ?t"
    using pmm.alloc_other [OF assms(1)] al(1) by (auto simp: agree_def fbyte_def word_less_4096)
  have new: "page_byte (vnodes ?t a) ?t i = 0" if "present (vnodes ?t a) i" "\<not> present ?n i" "i < 65536" for i
  proof -
    have "i div 4096 = k"
      using that assms(3) k unfolding n present_def by (auto simp: nth_list_update split: if_splits)
    then show ?thesis
      unfolding n page_byte_def using zero assms(3) k by simp
  qed
  show ?thesis
    unfolding filled_def
  proof (intro conjI exI [of _ "(v_pages ?n)[k := p]"])
    show "\<forall>l < 16. v_pages ?n ! l \<noteq> 0 \<longrightarrow> (v_pages ?n)[k := p] ! l = v_pages ?n ! l"
      using assms(4) by (metis nth_list_update_neq)
    show "own (vnodes ?t a) \<subseteq> set (p # F) \<union> own ?n"
      using set_update_subset_insert [of "v_pages ?n" k p] unfolding n own_def by auto
  qed (use al agree new ok in auto)
qed

lemma fill_pages_filled:
  assumes "free_frames s F" "pages_ok F (vnodes s a)" "set is \<subseteq> {..<16}" "fill_pages a is s = (ok, t)"
  shows "\<exists>F'. filled a F s F' t \<and> (if ok then \<forall>k \<in> set is. v_pages (vnodes t a) ! k \<noteq> 0 else F' = [])"
  using assms
proof (induction "is" arbitrary: s F)
  case Nil
  then have "filled a F s F t"
    unfolding filled_def by (intro conjI exI [of _ "v_pages (vnodes s a)"]) auto
  then show ?case
    using Nil by auto
next
  case (Cons k ks)
  let ?n = "vnodes s a"
  have k: "k < 16" and ks: "set ks \<subseteq> {..<16}"
    using Cons.prems(3) by auto
  show ?case
  proof (cases "v_pages ?n ! k = 0")
    case False
    then obtain F' where F': "filled a F s F' t" "if ok then \<forall>k \<in> set ks. v_pages (vnodes t a) ! k \<noteq> 0 else F' = []"
      using Cons.IH [OF Cons.prems(1,2) ks] Cons.prems(4) by auto
    moreover have "v_pages (vnodes t a) ! k \<noteq> 0"
      using filledD(8) [OF F'(1) k] False by simp
    ultimately show ?thesis
      by auto
  next
    case z: True
    show ?thesis
    proof (cases F)
      case Nil
      let ?s = "snd (pmm_alloc_page s)"
      have al: "fst (pmm_alloc_page s) = 0" "free_frames ?s []" "mem ?s = mem s"
        using pmm_alloc_Nil [of s] Cons.prems(1) Nil by simp_all
      then have t: "t = upd_vnode a (\<lambda>n. n\<lparr>v_pages := (v_pages n)[k := 0]\<rparr>) ?s" "\<not> ok"
        using Cons.prems(4) z by (simp_all add: split_def)
      have "(v_pages ?n)[k := 0] = v_pages ?n"
        using z by (metis list_update_id)
      then have "vnodes t = (vnodes s)(a := ?n\<lparr>v_pages := v_pages ?n\<rparr>)"
        using t by simp
      moreover have "agree (set F) s t"
        using t al(3) by (simp add: agree_def fbyte_def frame_byte_def phys_to_virt_def)
      ultimately have "filled a F s [] t"
        using t al(2) Cons.prems(2) Nil unfolding filled_def by (intro conjI exI [of _ "v_pages ?n"]) auto
      then show ?thesis
        using t(2) by auto
    next
      case (Cons p F1)
      let ?s2 = "upd_vnode a (\<lambda>n. n\<lparr>v_pages := (v_pages n)[k := p]\<rparr>) (snd (pmm_alloc_page s))"
      have one: "filled a F s F1 ?s2"
        using fill_one [of s p F1 a k] \<open>free_frames s F\<close> \<open>pages_ok F ?n\<close> k z Cons by simp
      have p: "fst (pmm_alloc_page s) = p" "p \<noteq> 0"
        using pmm_alloc_Cons [of s p F1] \<open>free_frames s F\<close> free_frames_aligned [of s F p] Cons by auto
      then have t: "fill_pages a ks ?s2 = (ok, t)"
        using \<open>fill_pages a (k # ks) s = (ok, t)\<close> z by (simp add: split_def)
      obtain F' where F': "filled a F1 ?s2 F' t" "if ok then \<forall>k \<in> set ks. v_pages (vnodes t a) ! k \<noteq> 0 else F' = []"
        using Cons.IH [OF filledD(1,5) [OF one] ks t] by blast
      have "length (v_pages ?n) = 16"
        using \<open>pages_ok F ?n\<close> by (simp add: pages_ok_def)
      then have "v_pages (vnodes t a) ! k \<noteq> 0"
        using filledD(8) [OF F'(1) k] k p(2) by simp
      then show ?thesis
        using filled_trans [OF one F'(1)] F'(2) by auto
    qed
  qed
qed

section \<open>Storing into the frames\<close>

lemma agree_same_page:
  assumes "agree Q s (s\<lparr>mem := m\<rparr>)" "page_aligned q" "q \<notin> Q"
  shows "same_page (mem s) m (phys_to_virt s q)"
  unfolding same_page_def
proof (intro allI impI)
  fix a
  assume "in_page (phys_to_virt s q) a"
  then have j: "unat (a - phys_to_virt s q) < 4096"
    by (simp add: in_page_def word_less_4096)
  then have "fbyte (s\<lparr>mem := m\<rparr>) q (unat (a - phys_to_virt s q)) = fbyte s q (unat (a - phys_to_virt s q))"
    using assms by (simp add: agree_def)
  then show "mem s a = m a"
    by (simp add: fbyte_def frame_byte_def phys_to_virt_def)
qed

lemma agree_free_frames:
  assumes "agree Q s (s\<lparr>mem := m\<rparr>)" "free_frames s F" "Q \<inter> set F = {}"
  shows "free_frames (s\<lparr>mem := m\<rparr>) F"
  using assms(3) free_frames_aligned [OF assms(2)]
  by (intro free_frames_mem [OF assms(2)] agree_same_page [OF assms(1)]) blast+

lemma own_free: "pages_ok F n \<Longrightarrow> own n \<inter> set F = {}"
  by (auto simp: own_def pages_ok_def in_set_conv_nth)

lemma own_nth: "pages_ok F n \<Longrightarrow> k < 16 \<Longrightarrow> v_pages n ! k \<noteq> 0 \<Longrightarrow> v_pages n ! k \<in> own n"
  by (simp add: own_def pages_ok_def)

lemma page_store:
  assumes "pages_ok F n" "k < 16" "v_pages n ! k \<noteq> 0" "off + length xs \<le> 4096"
    "t = s\<lparr>mem := mem_store (mem s) (phys_to_virt s (v_pages n ! k) + word_of_nat off) xs\<rparr>"
  shows "agree (own n) s t"
    "i < 65536 \<Longrightarrow> present n i \<Longrightarrow> page_byte n t i =
       (if 4096 * k + off \<le> i \<and> i < 4096 * k + off + length xs then xs ! (i - (4096 * k + off)) else page_byte n s i)"
proof -
  have p: "page_aligned (v_pages n ! k)"
    using assms(1-3) by (simp add: pages_ok_def)
  have f: "fbyte t q j = (if q = v_pages n ! k \<and> off \<le> j \<and> j < off + length xs then xs ! (j - off) else fbyte s q j)"
    if "page_aligned q" "j < 4096" for q j
    unfolding assms(5) by (rule fbyte_store [OF p that(1) assms(4) that(2)])
  show "agree (own n) s t"
    using f own_nth [OF assms(1-3)] by (auto simp: agree_def)
  assume i: "i < 65536" "present n i"
  have k': "i div 4096 < 16"
    using i(1) by (simp add: less_mult_imp_div_less)
  have q: "page_aligned (v_pages n ! (i div 4096))"
    using assms(1) k' i(2) by (simp add: pages_ok_def present_def)
  have same: "v_pages n ! (i div 4096) = v_pages n ! k \<longleftrightarrow> i div 4096 = k"
    using assms(1-3) k' by (metis pages_ok_def)
  have e: "i = 4096 * (i div 4096) + i mod 4096"
    by simp
  have rng: "4096 * k + off \<le> i \<and> i < 4096 * k + off + length xs \<longleftrightarrow>
      i div 4096 = k \<and> off \<le> i mod 4096 \<and> i mod 4096 < off + length xs" (is "?l \<longleftrightarrow> ?r")
  proof
    assume ?l
    then have "4096 * k \<le> i" "i < 4096 * k + 4096"
      using assms(4) by linarith+
    then have "i div 4096 = k"
      by (simp add: div_nat_eqI)
    then show ?r
      using \<open>?l\<close> e by linarith
  next
    assume ?r
    then show ?l
      using e by linarith
  qed
  show "page_byte n t i =
       (if 4096 * k + off \<le> i \<and> i < 4096 * k + off + length xs then xs ! (i - (4096 * k + off)) else page_byte n s i)"
  proof (cases "4096 * k + off \<le> i \<and> i < 4096 * k + off + length xs")
    case True
    then have "i div 4096 = k" "off \<le> i mod 4096" "i mod 4096 < off + length xs"
      using rng by blast+
    moreover from this have "i mod 4096 - off = i - (4096 * k + off)"
      using e by linarith
    ultimately show ?thesis
      using f [OF q, of "i mod 4096"] True by (simp add: page_byte_def)
  next
    case False
    then show ?thesis
      using f [OF q, of "i mod 4096"] same rng by (auto simp: page_byte_def)
  qed
qed

lemma write_loop_effect:
  assumes "pages_ok F (vnodes s a)" "free_frames s F" "pos + length bs \<le> 65536"
    "\<And>i. pos \<le> i \<Longrightarrow> i < pos + length bs \<Longrightarrow> present (vnodes s a) i"
  shows "\<exists>m. write_loop a pos bs s = s\<lparr>mem := m\<rparr> \<and> free_frames (s\<lparr>mem := m\<rparr>) F \<and>
    agree (own (vnodes s a)) s (s\<lparr>mem := m\<rparr>) \<and>
    (\<forall>i < 65536. present (vnodes s a) i \<longrightarrow> page_byte (vnodes s a) (s\<lparr>mem := m\<rparr>) i =
       (if pos \<le> i \<and> i < pos + length bs then bs ! (i - pos) else page_byte (vnodes s a) s i))"
  using assms
proof (induction "length bs" arbitrary: pos bs s rule: less_induct)
  case less
  let ?n = "vnodes s a"
  show ?case
  proof (cases "bs = []")
    case True
    then show ?thesis
      using less.prems by (intro exI [of _ "mem s"]) (auto simp: write_loop.simps)
  next
    case False
    define c where "c = min (4096 - pos mod 4096) (length bs)"
    have c: "0 < c" "c \<le> length bs" "pos mod 4096 + c \<le> 4096"
      using False by (auto simp: c_def min_def)
    define t where "t = s\<lparr>mem := mem_store (mem s) (phys_to_virt s (v_pages ?n ! (pos div 4096)) +
        word_of_nat (pos mod 4096)) (take c bs)\<rparr>"
    have step: "write_loop a pos bs s = write_loop a (pos + c) (drop c bs) t"
      using False by (simp add: write_loop.simps [of a pos bs] c_def [symmetric] t_def Let_def)
    have "0 < length bs"
      using False by simp
    then have k: "pos div 4096 < 16"
      using less.prems(3) by (intro less_mult_imp_div_less) linarith
    have "v_pages ?n ! (pos div 4096) \<noteq> 0"
      using less.prems(4) [of pos] \<open>0 < length bs\<close> by (simp add: present_def)
    note st = page_store [OF less.prems(1) k this, of "pos mod 4096" "take c bs" t s, OF _ t_def]
    have l: "length (take c bs) = c"
      using c(2) by simp
    have ag: "agree (own ?n) s t"
      using st(1) c l by simp
    have fr: "free_frames t F"
      using agree_free_frames [OF ag [unfolded t_def] less.prems(2) own_free [OF less.prems(1)]] by (simp add: t_def)
    have n: "vnodes t = vnodes s"
      by (simp add: t_def)
    have IH: "\<exists>m. write_loop a (pos + c) (drop c bs) t = t\<lparr>mem := m\<rparr> \<and> free_frames (t\<lparr>mem := m\<rparr>) F \<and>
      agree (own ?n) t (t\<lparr>mem := m\<rparr>) \<and>
      (\<forall>i < 65536. present ?n i \<longrightarrow> page_byte ?n (t\<lparr>mem := m\<rparr>) i =
        (if pos + c \<le> i \<and> i < pos + c + length (drop c bs) then drop c bs ! (i - (pos + c)) else page_byte ?n t i))"
    proof -
      have "length (drop c bs) < length bs" "pos + c + length (drop c bs) \<le> 65536"
        using c \<open>0 < length bs\<close> less.prems(3) by simp_all
      moreover have "present ?n i" if "pos + c \<le> i" "i < pos + c + length (drop c bs)" for i
        using less.prems(4) [of i] that c(2) by simp
      ultimately show ?thesis
        using less.hyps [of "drop c bs" t "pos + c", unfolded n, OF _ less.prems(1) fr] by blast
    qed
    then obtain m where m: "write_loop a (pos + c) (drop c bs) t = t\<lparr>mem := m\<rparr>" "free_frames (t\<lparr>mem := m\<rparr>) F"
      "agree (own ?n) t (t\<lparr>mem := m\<rparr>)"
      "\<And>i. i < 65536 \<Longrightarrow> present ?n i \<Longrightarrow> page_byte ?n (t\<lparr>mem := m\<rparr>) i =
        (if pos + c \<le> i \<and> i < pos + c + length (drop c bs) then drop c bs ! (i - (pos + c)) else page_byte ?n t i)"
      by blast
    have tm: "t\<lparr>mem := m\<rparr> = s\<lparr>mem := m\<rparr>"
      by (simp add: t_def)
    have byte: "page_byte ?n (s\<lparr>mem := m\<rparr>) i =
        (if pos \<le> i \<and> i < pos + length bs then bs ! (i - pos) else page_byte ?n s i)"
      if i: "i < 65536" "present ?n i" for i
    proof -
      have b: "page_byte ?n t i = (if pos \<le> i \<and> i < pos + c then bs ! (i - pos) else page_byte ?n s i)"
        using st(2) [OF _ i] c l by auto
      consider "i < pos" | "pos \<le> i" "i < pos + c" | "pos + c \<le> i" "i < pos + length bs" | "pos + length bs \<le> i"
        by linarith
      then show ?thesis
      proof cases
        case 3
        then have "c + (i - (pos + c)) = i - pos"
          by linarith
        then show ?thesis
          using m(4) [OF i] 3 c(2) by (simp add: tm)
      qed (use m(4) [OF i] b c in \<open>simp_all add: tm\<close>)
    qed
    show ?thesis
      using m ag byte agree_trans [OF ag m(3)] by (intro exI [of _ m]) (simp add: step tm)
  qed
qed

lemma copy_archive_effect:
  assumes "pages_ok F (vnodes s a)" "free_frames s F" "unat (v_size (vnodes s a)) \<le> 65536"
    "unat base + unat (v_size (vnodes s a)) \<le> length (tar_data s)"
    "c \<le> (unat (v_size (vnodes s a)) + 4095) div 4096" "\<And>k. k < c \<Longrightarrow> v_pages (vnodes s a) ! k \<noteq> 0"
  shows "\<exists>m. fold (copy_archive_page a base) [0..<c] s = s\<lparr>mem := m\<rparr> \<and> free_frames (s\<lparr>mem := m\<rparr>) F \<and>
    agree (own (vnodes s a)) s (s\<lparr>mem := m\<rparr>) \<and>
    (\<forall>i < 65536. present (vnodes s a) i \<longrightarrow> page_byte (vnodes s a) (s\<lparr>mem := m\<rparr>) i =
       (if i < 4096 * c \<and> i < unat (v_size (vnodes s a)) then tar_data s ! (unat base + i)
        else page_byte (vnodes s a) s i))"
  using assms(5,6)
proof (induction c)
  case 0
  then show ?case
    using assms(2) by (intro exI [of _ "mem s"]) simp
next
  case (Suc c)
  let ?n = "vnodes s a" and ?z = "unat (v_size (vnodes s a))"
  obtain m where m: "fold (copy_archive_page a base) [0..<c] s = s\<lparr>mem := m\<rparr>" "free_frames (s\<lparr>mem := m\<rparr>) F"
    "agree (own ?n) s (s\<lparr>mem := m\<rparr>)"
    "\<And>i. i < 65536 \<Longrightarrow> present ?n i \<Longrightarrow> page_byte ?n (s\<lparr>mem := m\<rparr>) i =
       (if i < 4096 * c \<and> i < ?z then tar_data s ! (unat base + i) else page_byte ?n s i)"
    using Suc by auto
  have c: "c < 16" "4096 * c < ?z"
    using Suc.prems(1) assms(3) by linarith+
  define am where "am = (if ?z - 4096 * c > 4096 then 4096 else ?z - 4096 * c)"
  define xs where "xs = take am (drop (unat base + 4096 * c) (tar_data s))"
  have am: "am \<le> 4096" "4096 * c + am \<le> ?z" "am < 4096 \<Longrightarrow> 4096 * c + am = ?z"
    using c by (auto simp: am_def)
  have xs: "length xs = am"
    using am assms(4) by (simp add: xs_def)
  define s1 where "s1 = s\<lparr>mem := m\<rparr>"
  define t where "t = s1\<lparr>mem := mem_store (mem s1) (phys_to_virt s1 (v_pages ?n ! c) + word_of_nat 0) xs\<rparr>"
  have s1: "vnodes s1 = vnodes s" "tar_data s1 = tar_data s"
    by (simp_all add: s1_def)
  have step: "fold (copy_archive_page a base) [0..<Suc c] s = t"
    by (simp add: m(1) copy_archive_page_def Let_def t_def xs_def am_def s1_def [symmetric] s1)
  note st = page_store [OF assms(1) c(1) Suc.prems(2) [of c], of 0 xs t s1, OF _ _ t_def]
  have ag: "agree (own ?n) s1 t"
    using st(1) xs am(1) by simp
  have tm: "t = s\<lparr>mem := mem t\<rparr>"
    by (simp add: t_def s1_def)
  have fr: "free_frames t F"
    using agree_free_frames [of "own ?n" s1 "mem t"] ag m(2) own_free [OF assms(1)]
    by (simp add: t_def s1_def)
  have byte: "page_byte ?n t i =
      (if i < 4096 * Suc c \<and> i < ?z then tar_data s ! (unat base + i) else page_byte ?n s i)"
    if i: "i < 65536" "present ?n i" for i
  proof -
    have b: "page_byte ?n t i = (if 4096 * c \<le> i \<and> i < 4096 * c + am then xs ! (i - 4096 * c) else page_byte ?n s1 i)"
      using st(2) [OF _ _ i] xs am(1) by simp
    show ?thesis
    proof (cases "4096 * c \<le> i \<and> i < 4096 * c + am")
      case True
      then have "xs ! (i - 4096 * c) = tar_data s ! (unat base + 4096 * c + (i - 4096 * c))"
      proof -
        have "i - 4096 * c < am" "unat base + 4096 * c \<le> length (tar_data s)"
          using True am assms(4) by linarith+
        then show ?thesis
          unfolding xs_def by (simp only: nth_take nth_drop)
      qed
      moreover have "unat base + 4096 * c + (i - 4096 * c) = unat base + i" "i < 4096 * Suc c" "i < ?z"
        using True am by simp_all
      ultimately show ?thesis
        using b True by simp
    next
      case False
      then have "i < 4096 * Suc c \<and> i < ?z \<longleftrightarrow> i < 4096 * c \<and> i < ?z"
        using am by (cases "am = 4096") auto
      moreover have "page_byte ?n t i = page_byte ?n s1 i"
        using b False by simp
      ultimately show ?thesis
        using m(4) [OF i] by (simp add: s1_def)
    qed
  qed
  have "agree (own ?n) s t"
    using agree_trans [OF m(3) ag [unfolded s1_def]] by simp
  then show ?case
    using fr byte tm unfolding step by (intro exI [of _ "mem t"]) simp
qed

section \<open>Writing\<close>

lemma filled_content:
  assumes "filled a F s F' t" "file_ok F s a"
  shows "file_ok F' t a" "content t a = content s a"
proof -
  note d = filledD [OF assms(1)]
  let ?n = "vnodes s a" and ?m = "vnodes t a"
  have n: "v_archive ?m = v_archive ?n" "v_size ?m = v_size ?n"
    by (subst d(7), simp)+
  have ok: "pages_ok F ?n" "unat (v_size ?n) \<le> 65536"
    using assms(2) by (simp_all add: file_ok_def Let_def)
  have old: "present ?m i \<and> page_byte ?m t i = page_byte ?n s i" if i: "i < 65536" "present ?n i" for i
  proof -
    have k: "i div 4096 < 16"
      using i(1) by (simp add: less_mult_imp_div_less)
    have p: "v_pages ?m ! (i div 4096) = v_pages ?n ! (i div 4096)"
      using d(8) [OF k] i(2) by (simp add: present_def)
    then have "page_byte ?m t i = page_byte ?n t i"
      by (simp add: page_byte_def)
    also have "\<dots> = page_byte ?n s i"
      using ok(1) k i(2) by (intro agree_page_byte [OF d(3) ok(1) i]) (auto simp: pages_ok_def present_def)
    finally show ?thesis
      using p i(2) by (simp add: present_def)
  qed
  show "file_ok F' t a"
  proof (cases "v_archive ?n")
    case None
    then have z: "\<forall>i < unat (v_size ?n). present ?n i"
      "\<forall>i < 65536. unat (v_size ?n) \<le> i \<and> present ?n i \<longrightarrow> page_byte ?n s i = 0"
      using assms(2) by (simp_all add: file_ok_def Let_def)
    have "page_byte ?m t i = 0" if "i < 65536" "unat (v_size ?n) \<le> i" "present ?m i" for i
      using old [of i] z(2) d(9) [of i] that by (cases "present ?n i") simp_all
    then show ?thesis
      using d(5) ok z(1) old None unfolding file_ok_def Let_def n by auto
  next
    case (Some base)
    then have z: "unat base + unat (v_size ?n) \<le> length (tar_data s)"
      "\<forall>i < 65536. present ?n i \<longrightarrow> page_byte ?n s i = 0"
      using assms(2) by (simp_all add: file_ok_def Let_def)
    have "page_byte ?m t i = 0" if "i < 65536" "present ?m i" for i
      using old [of i] z(2) d(9) [of i] that by (cases "present ?n i") simp_all
    then show ?thesis
      using d(4,5) ok z(1) Some unfolding file_ok_def Let_def n by auto
  qed
  show "content t a = content s a"
    using old ok(2) assms(2) d(4) n
    by (auto simp: content_def node_byte_def file_ok_def Let_def split: option.splits)
qed

text \<open>
  Overwriting a list of bytes from an offset on, with zeros between its end and the offset.
\<close>

definition overwrite :: "nat \<Rightarrow> u8 list \<Rightarrow> u8 list \<Rightarrow> u8 list" where
  "overwrite pos bs xs = take pos (xs @ replicate (pos - length xs) 0) @ bs @ drop (pos + length bs) xs"

lemma length_overwrite [simp]: "length (overwrite pos bs xs) = max (pos + length bs) (length xs)"
  by (simp add: overwrite_def)

lemma nth_overwrite:
  "i < max (pos + length bs) (length xs) \<Longrightarrow> overwrite pos bs xs ! i =
     (if pos \<le> i \<and> i < pos + length bs then bs ! (i - pos) else if i < length xs then xs ! i else 0)"
  by (auto simp: overwrite_def nth_append min_def)

text \<open>What \<^verbatim>\<open>ensure_pages\<close> leaves: the file's bytes are in its frames, up to the end asked for.\<close>

lemma ensure_pages_effect:
  assumes "free_frames s F" "file_ok F s a" "v_size (vnodes s a) \<le> e" "e \<le> VFS_FILE_MAX" "ensure_pages a e s = (ok, t)"
  shows "\<exists>F'. free_frames t F' \<and> set F' \<subseteq> set F \<and> file_ok F' t a \<and> content t a = content s a \<and>
    v_size (vnodes t a) = v_size (vnodes s a) \<and> v_type (vnodes t a) = v_type (vnodes s a) \<and>
    agree (set F \<union> own (vnodes s a)) s t \<and> tar_data t = tar_data s \<and> (\<forall>b. b \<noteq> a \<longrightarrow> vnodes t b = vnodes s b) \<and>
    own (vnodes t a) \<subseteq> set F \<union> own (vnodes s a) \<and>
    (if ok then v_archive (vnodes t a) = None \<and> (\<forall>i < unat e. present (vnodes t a) i) else F' = [])"
proof -
  have e: "unat e \<le> 65536"
    using assms(4) by (simp add: word_le_nat_alt)
  define cnt where "cnt = unat ((e + PAGE_SIZE - 1) div PAGE_SIZE)"
  have cnt: "cnt = (unat e + 4095) div 4096"
    using e unat_add_of_nat_u64 [of e 4095] by (simp add: cnt_def unat_div add_diff_eq [symmetric])
  then have cnt16: "cnt \<le> 16"
    using e by linarith
  obtain okf s1 where f: "fill_pages a [0..<cnt] s = (okf, s1)"
    by (cases "fill_pages a [0..<cnt] s")
  have ok0: "pages_ok F (vnodes s a)" "unat (v_size (vnodes s a)) \<le> 65536"
    using assms(2) by (simp_all add: file_ok_def Let_def)
  obtain F' where F': "filled a F s F' s1" "if okf then \<forall>k \<in> set [0..<cnt]. v_pages (vnodes s1 a) ! k \<noteq> 0 else F' = []"
  proof -
    have "set [0..<cnt] \<subseteq> {..<16}"
      using cnt16 by auto
    then show thesis
      using fill_pages_filled [OF assms(1) ok0(1) _ f] that by blast
  qed
  note d = filledD [OF F'(1)] and c = filled_content [OF F'(1) assms(2)]
  have same: "v_size (vnodes s1 a) = v_size (vnodes s a)" "v_type (vnodes s1 a) = v_type (vnodes s a)"
    "v_archive (vnodes s1 a) = v_archive (vnodes s a)"
    by (subst d(7), simp)+
  have own1: "own (vnodes s1 a) \<subseteq> set F \<union> own (vnodes s a)"
    by (rule d(10))
  have ens: "ensure_pages a e s = (if \<not> okf then (False, s1) else case v_archive (vnodes s1 a) of None \<Rightarrow> (True, s1)
      | Some base \<Rightarrow> (True, upd_vnode a (\<lambda>n. n\<lparr>v_archive := None\<rparr>)
          (fold (copy_archive_page a base) [0..<(unat (v_size (vnodes s1 a)) + 4095) div 4096] s1)))"
    unfolding ensure_pages_def cnt_def [symmetric] f by (simp add: leD [OF assms(4)])
  show ?thesis
  proof (cases okf)
    case False
    then have "t = s1" "\<not> ok"
      using assms(5) by (simp_all add: ens)
    then show ?thesis
      using d c same own1 F'(2) False agree_mono [OF d(3)] by (intro exI [of _ F']) auto
  next
    case True
    have pres: "present (vnodes s1 a) i" if "i < unat e" for i
    proof -
      have "i div 4096 < cnt"
        using that cnt by linarith
      then show ?thesis
        using F'(2) True by (simp add: present_def)
    qed
    show ?thesis
    proof (cases "v_archive (vnodes s a)")
      case None
      then have "t = s1" "ok"
        using assms(5) True same by (simp_all add: ens)
      then show ?thesis
        using d c same own1 True None pres agree_mono [OF d(3)] by (intro exI [of _ F']) auto
    next
      case (Some base)
      let ?n = "vnodes s1 a" and ?z = "unat (v_size (vnodes s1 a))"
      let ?c = "(?z + 4095) div 4096"
      have ok1: "pages_ok F' ?n" "?z \<le> 65536" "unat base + ?z \<le> length (tar_data s1)"
        "\<And>i. i < 65536 \<Longrightarrow> present ?n i \<Longrightarrow> page_byte ?n s1 i = 0"
        using c(1) Some same by (simp_all add: file_ok_def Let_def)
      have "?z \<le> unat e"
        using assms(3) same by (simp add: word_le_nat_alt)
      then have pk: "v_pages ?n ! k \<noteq> 0" if "k < ?c" for k
        using pres [of "4096 * k"] that by (simp add: present_def)
      obtain m where m: "fold (copy_archive_page a base) [0..<?c] s1 = s1\<lparr>mem := m\<rparr>" "free_frames (s1\<lparr>mem := m\<rparr>) F'"
        "agree (own ?n) s1 (s1\<lparr>mem := m\<rparr>)"
        "\<And>i. i < 65536 \<Longrightarrow> present ?n i \<Longrightarrow> page_byte ?n (s1\<lparr>mem := m\<rparr>) i =
           (if i < 4096 * ?c \<and> i < ?z then tar_data s1 ! (unat base + i) else page_byte ?n s1 i)"
        using copy_archive_effect [OF ok1(1) d(1) ok1(2,3) order_refl pk] by blast
      have t: "ok" "t = upd_vnode a (\<lambda>n. n\<lparr>v_archive := None\<rparr>) (s1\<lparr>mem := m\<rparr>)"
        using assms(5) True same Some m(1) by (simp_all add: ens)
      have n: "vnodes t a = ?n\<lparr>v_archive := None\<rparr>"
        by (simp add: t(2))
      have pb: "page_byte (vnodes t a) t i = page_byte ?n (s1\<lparr>mem := m\<rparr>) i" "present (vnodes t a) i = present ?n i" for i
        by (simp_all add: t(2) page_byte_def present_def)
      have z: "i < 4096 * ?c" if "i < ?z" for i
        using that by linarith
      have byte: "page_byte (vnodes t a) t i = (if i < ?z then tar_data s1 ! (unat base + i) else 0)"
        if "i < 65536" "present ?n i" for i
        using m(4) [OF that] ok1(4) [OF that] z by (simp add: pb)
      have "file_ok F' t a"
        using ok1(1,2) byte pres \<open>?z \<le> unat e\<close> unfolding file_ok_def Let_def pb(2)
        by (simp add: n pages_ok_def)
      moreover have "content t a = content s1 a"
        using byte pres \<open>?z \<le> unat e\<close> ok1(2) Some same
        by (simp add: content_def node_byte_def n)
      moreover have "agree (set F \<union> own (vnodes s a)) s t"
      proof -
        have "agree (own ?n) s1 t"
          using m(3) by (simp add: agree_def t(2))
        then show ?thesis
          using agree_trans [OF agree_mono [OF d(3)] agree_mono [OF _ own1]] by blast
      qed
      moreover have "own (vnodes t a) = own ?n"
        by (simp add: n own_def)
      moreover have "free_frames t F'"
        using m(2) by (simp add: t(2))
      ultimately show ?thesis
        using d c same own1 pres t(1) pb n by (intro exI [of _ F']) (simp add: t(2))
    qed
  qed
qed

lemma write_fits:
  assumes "pos0 \<le> VFS_FILE_MAX" "n < 18446744073709551616"
  shows "word_of_nat n > VFS_FILE_MAX - pos0 \<longleftrightarrow> unat pos0 + n > 65536"
    "unat pos0 + n \<le> 65536 \<Longrightarrow> unat (pos0 + word_of_nat n) = unat pos0 + n"
proof -
  have "unat (VFS_FILE_MAX - pos0) = 65536 - unat pos0" "unat pos0 \<le> 65536"
    using assms(1) unat_sub [OF assms(1)] by (simp_all add: word_le_nat_alt)
  then show "word_of_nat n > VFS_FILE_MAX - pos0 \<longleftrightarrow> unat pos0 + n > 65536"
    using assms(2) by (auto simp: word_less_nat_alt)
  show "unat pos0 + n \<le> 65536 \<Longrightarrow> unat (pos0 + word_of_nat n) = unat pos0 + n"
    by (intro unat_add_of_nat_u64) linarith
qed

lemma written_content:
  assumes "pages_ok F (vnodes s a)" "unat (v_size (vnodes s a)) \<le> 65536" "v_archive (vnodes s a) = None"
    "\<forall>i < 65536. unat (v_size (vnodes s a)) \<le> i \<and> present (vnodes s a) i \<longrightarrow> page_byte (vnodes s a) s i = 0"
    "pos + length bs \<le> 65536" "\<forall>i < max (pos + length bs) (unat (v_size (vnodes s a))). present (vnodes s a) i"
    "\<forall>i < 65536. present (vnodes s a) i \<longrightarrow> page_byte (vnodes s a) (s\<lparr>mem := m\<rparr>) i =
       (if pos \<le> i \<and> i < pos + length bs then bs ! (i - pos) else page_byte (vnodes s a) s i)"
    "t = upd_vnode a (\<lambda>n. n\<lparr>v_size := z\<rparr>) (s\<lparr>mem := m\<rparr>)"
    "unat z = max (pos + length bs) (unat (v_size (vnodes s a)))"
  shows "file_ok F t a" "content t a = overwrite pos bs (content s a)"
proof -
  let ?n = "vnodes s a"
  have n: "vnodes t a = ?n\<lparr>v_size := z\<rparr>"
    by (simp add: assms(8))
  have pb: "page_byte (?n\<lparr>v_size := z\<rparr>) t i = page_byte ?n (s\<lparr>mem := m\<rparr>) i" "present (?n\<lparr>v_size := z\<rparr>) i = present ?n i" for i
    by (simp_all add: assms(8) page_byte_def present_def)
  have "pages_ok F (?n\<lparr>v_size := z\<rparr>)"
    using assms(1) by (simp add: pages_ok_def)
  then show "file_ok F t a"
    using assms(2-7,9) by (simp add: file_ok_def Let_def n pb)
  show "content t a = overwrite pos bs (content s a)"
  proof (rule nth_equalityI)
    show l: "length (content t a) = length (overwrite pos bs (content s a))"
      by (simp add: content_def n assms(9))
    fix i
    assume "i < length (content t a)"
    then have i: "i < max (pos + length bs) (unat (v_size ?n))" "i < 65536"
      using assms(2,5,9) by (simp_all add: content_def n)
    have "content t a ! i = page_byte ?n (s\<lparr>mem := m\<rparr>) i"
      using i(1) assms(3,9) by (simp add: content_def n node_byte_def pb)
    also have "\<dots> = (if pos \<le> i \<and> i < pos + length bs then bs ! (i - pos)
        else if i < unat (v_size ?n) then page_byte ?n s i else 0)"
      using i assms(4,6,7) by auto
    also have "\<dots> = overwrite pos bs (content s a) ! i"
      using i assms(3) by (subst nth_overwrite) (auto simp: content_def node_byte_def)
    finally show "content t a ! i = overwrite pos bs (content s a) ! i" .
  qed
qed

text \<open>The core of \<^verbatim>\<open>vfs_write\<close>, after its checks.\<close>

lemma write_core:
  assumes "free_frames s F" "file_ok F s a" "pos0 \<le> VFS_FILE_MAX" "length bs < 18446744073709551616"
    "unat pos0 + length bs \<le> 65536" "e = pos0 + word_of_nat (length bs)"
    "ensure_pages a (if e > v_size (vnodes s a) then e else v_size (vnodes s a)) s = (True, s1)"
    "s2 = write_loop a (unat pos0) bs s1"
    "t = (if e > v_size (vnodes s2 a) then upd_vnode a (\<lambda>n. n\<lparr>v_size := e\<rparr>) s2 else s2)"
  shows "\<exists>F'. free_frames t F' \<and> set F' \<subseteq> set F \<and> file_ok F' t a \<and> content t a = overwrite (unat pos0) bs (content s a) \<and>
    agree (set F \<union> own (vnodes s a)) s t \<and> tar_data t = tar_data s \<and> (\<forall>b. b \<noteq> a \<longrightarrow> vnodes t b = vnodes s b) \<and>
    own (vnodes t a) \<subseteq> set F \<union> own (vnodes s a) \<and> v_archive (vnodes t a) = None \<and>
    v_type (vnodes t a) = v_type (vnodes s a)"
proof -
  let ?e = "if e > v_size (vnodes s a) then e else v_size (vnodes s a)"
  have e: "unat e = unat pos0 + length bs"
    using write_fits(2) [OF assms(3,4,5)] assms(6) by simp
  have z: "unat (v_size (vnodes s a)) \<le> 65536"
    using assms(2) by (simp add: file_ok_def Let_def)
  have me: "unat ?e = max (unat pos0 + length bs) (unat (v_size (vnodes s a)))"
    using e by (simp add: word_less_nat_alt)
  have le: "v_size (vnodes s a) \<le> ?e" "?e \<le> VFS_FILE_MAX"
    using me z assms(5) by (simp_all add: word_le_nat_alt del: if_split)
  obtain F' where F': "free_frames s1 F'" "set F' \<subseteq> set F" "file_ok F' s1 a" "content s1 a = content s a"
    "v_size (vnodes s1 a) = v_size (vnodes s a)" "agree (set F \<union> own (vnodes s a)) s s1" "tar_data s1 = tar_data s"
    "\<forall>b. b \<noteq> a \<longrightarrow> vnodes s1 b = vnodes s b" "own (vnodes s1 a) \<subseteq> set F \<union> own (vnodes s a)"
    "v_archive (vnodes s1 a) = None" "\<forall>i < unat ?e. present (vnodes s1 a) i" "v_type (vnodes s1 a) = v_type (vnodes s a)"
    using ensure_pages_effect [OF assms(1,2) le assms(7)] by auto
  let ?n = "vnodes s1 a"
  have n: "pages_ok F' ?n" "unat (v_size ?n) \<le> 65536"
    "\<forall>i < 65536. unat (v_size ?n) \<le> i \<and> present ?n i \<longrightarrow> page_byte ?n s1 i = 0"
    using F'(3,10) by (simp_all add: file_ok_def Let_def)
  have pr: "\<forall>i < max (unat pos0 + length bs) (unat (v_size ?n)). present ?n i"
    using F'(11) unfolding me F'(5) .
  have pr1: "present ?n i" if "unat pos0 \<le> i" "i < unat pos0 + length bs" for i
    using pr that by auto
  obtain m where m: "s2 = s1\<lparr>mem := m\<rparr>" "free_frames (s1\<lparr>mem := m\<rparr>) F'" "agree (own ?n) s1 (s1\<lparr>mem := m\<rparr>)"
    "\<forall>i < 65536. present ?n i \<longrightarrow> page_byte ?n (s1\<lparr>mem := m\<rparr>) i =
       (if unat pos0 \<le> i \<and> i < unat pos0 + length bs then bs ! (i - unat pos0) else page_byte ?n s1 i)"
    using write_loop_effect [OF n(1) F'(1) assms(5) pr1] assms(8) by blast
  have t: "t = upd_vnode a (\<lambda>n. n\<lparr>v_size := ?e\<rparr>) (s1\<lparr>mem := m\<rparr>)"
    using F'(5) by (simp add: assms(9) m(1) upd_vnode_def fun_upd_idem)
  have ez: "unat ?e = max (unat pos0 + length bs) (unat (v_size ?n))"
    unfolding F'(5) by (rule me)
  note w = written_content [OF n(1,2) F'(10) n(3) assms(5) pr m(4) t ez]
  have "agree (own ?n) s1 t"
    using m(3) by (simp add: t agree_def)
  then have "agree (set F \<union> own (vnodes s a)) s t"
    using agree_trans [OF F'(6) agree_mono [OF _ F'(9)]] by blast
  moreover have "own (vnodes t a) = own ?n"
    by (simp add: t own_def)
  moreover have "free_frames t F'"
    using m(2) by (simp add: t)
  moreover have "\<forall>b. b \<noteq> a \<longrightarrow> vnodes t b = vnodes s b" "tar_data t = tar_data s" "v_archive (vnodes t a) = None"
    "v_type (vnodes t a) = v_type (vnodes s a)"
    using F'(7,8,10,12) by (simp_all add: t)
  ultimately show ?thesis
    using w F'(2,4,9) by auto
qed

section \<open>Reading\<close>

lemma map_upt_split: "k \<le> l \<Longrightarrow> map g [a..<a + l] = map g [a..<a + k] @ map g [a + k..<a + l]" for a k l :: nat
  using upt_add_eq_append [of a "a + k" "l - k"] by simp

lemma mem_load_page:
  assumes "pos mod 4096 = 0" "c \<le> 4096"
  shows "mem_load (mem s) (phys_to_virt s (v_pages n ! (pos div 4096))) c = map (page_byte n s) [pos..<pos + c]"
proof (rule nth_equalityI)
  fix i
  assume "i < length (mem_load (mem s) (phys_to_virt s (v_pages n ! (pos div 4096))) c)"
  then have i: "i < c"
    by simp
  have "(pos + i) div 4096 = pos div 4096" "(pos + i) mod 4096 = i"
    using assms i by (auto simp: div_add1_eq mod_add_left_eq [symmetric])
  then show "mem_load (mem s) (phys_to_virt s (v_pages n ! (pos div 4096))) c ! i = map (page_byte n s) [pos..<pos + c] ! i"
    using i by (simp add: page_byte_def fbyte_def frame_byte_def)
qed simp

lemma read_loop_bytes:
  assumes "v_archive n \<noteq> None \<or> pos mod 4096 = 0"
    "\<And>base. v_archive n = Some base \<Longrightarrow> unat base + pos + left \<le> length (tar_data s)"
  shows "read_loop n pos left s = map (node_byte n s) [pos..<pos + left]"
  using assms
proof (induction left arbitrary: pos rule: less_induct)
  case (less left)
  show ?case
  proof (cases "left = 0")
    case True
    then show ?thesis
      by (simp add: read_loop.simps)
  next
    case False
    define c where "c = min (4096 - pos mod 4096) left"
    have c: "0 < c" "c \<le> left" "c \<le> 4096" "left - c < left"
      using False by (auto simp: c_def min_def)
    have head: "(case v_archive n of Some base \<Rightarrow> take c (drop (unat base + pos) (tar_data s))
        | None \<Rightarrow> mem_load (mem s) (phys_to_virt s (v_pages n ! (pos div 4096))) c) =
        map (node_byte n s) [pos..<pos + c]"
    proof (cases "v_archive n")
      case None
      then show ?thesis
        using less.prems(1) mem_load_page [of pos c s n] c(3) by (simp add: node_byte_def [abs_def])
    next
      case (Some base)
      then have "unat base + pos + c \<le> length (tar_data s)"
        using less.prems(2) [OF Some] c(2) by linarith
      then show ?thesis
        using Some by (intro nth_equalityI) (simp_all add: node_byte_def add.assoc)
    qed
    have "left - c = 0 \<or> v_archive n \<noteq> None \<or> (pos + c) mod 4096 = 0"
      using less.prems(1) by (auto simp: c_def min_def)
    then have tail: "read_loop n (pos + c) (left - c) s = map (node_byte n s) [pos + c..<pos + left]"
    proof
      assume "left - c = 0"
      then show ?thesis
        using c(2) by (simp add: read_loop.simps)
    next
      assume "v_archive n \<noteq> None \<or> (pos + c) mod 4096 = 0"
      moreover have "unat base + (pos + c) + (left - c) \<le> length (tar_data s)" if "v_archive n = Some base" for base
        using less.prems(2) [OF that] c(2) by linarith
      ultimately have "read_loop n (pos + c) (left - c) s = map (node_byte n s) [pos + c..<pos + c + (left - c)]"
        by (rule less.IH [OF c(4)])
      then show ?thesis
        using c(2) by simp
    qed
    have "read_loop n pos left s = map (node_byte n s) [pos..<pos + c] @ map (node_byte n s) [pos + c..<pos + left]"
      unfolding read_loop.simps [of n pos left] using False head tail by (simp add: c_def [symmetric] Let_def)
    then show ?thesis
      by (simp only: map_upt_split [OF c(2)])
  qed
qed

section \<open>Properties\<close>

text \<open>
  C19: \<^verbatim>\<open>vfs_write\<close> on a regular file open for writing. Either it fails with -1, the file's bytes
  are what they were, and the write would pass the limit of 65536 bytes or there is no free frame
  left; or it returns the number of bytes and the file is overwritten from the offset (its end
  when appending) with zeros in a hole, the offset moved behind the bytes. Whether the file was in
  the archive or not makes no difference. Every other file keeps its bytes, and the frames of
  files stay apart from each other and from the free frames.
\<close>

theorem vfs_write_content:
  assumes "free_frames s F" "file_ok F s a" "f_node f = a" "a \<noteq> 0" "v_type (vnodes s a) = VFS_REG"
    "f_flags f AND VFS_OPEN_WRITE \<noteq> 0" "f_offset f \<le> VFS_FILE_MAX" "length bs < 18446744073709551616"
    "off = (if f_flags f AND VFS_OPEN_APPEND \<noteq> 0 then length (content s a) else unat (f_offset f))"
    "vfs_write f bs s = (r, g, t)"
  shows "\<exists>F'. free_frames t F' \<and> file_ok F' t a \<and>
    (if r = -1 then content t a = content s a \<and> (65536 < off + length bs \<or> F' = [])
     else r = int (length bs) \<and> off + length bs \<le> 65536 \<and> content t a = overwrite off bs (content s a) \<and>
       unat (f_offset g) = off + length bs) \<and>
    (\<forall>b. b \<noteq> a \<and> file_ok F s b \<and> own (vnodes s b) \<inter> own (vnodes s a) = {} \<longrightarrow>
       content t b = content s b \<and> file_ok F' t b \<and> own (vnodes t b) \<inter> own (vnodes t a) = {})"
proof -
  define o1 where "o1 = (if f_flags f AND VFS_OPEN_APPEND \<noteq> 0 then v_size (vnodes s a) else f_offset f)"
  have z: "unat (v_size (vnodes s a)) \<le> 65536"
    using assms(2) by (simp add: file_ok_def Let_def)
  have o1: "o1 \<le> VFS_FILE_MAX" "unat o1 = off"
    using assms(7,9) z by (simp_all add: o1_def content_def word_le_nat_alt)
  define e where "e = o1 + word_of_nat (length bs)"
  obtain ok s1 where en: "ensure_pages a (if e > v_size (vnodes s a) then e else v_size (vnodes s a)) s = (ok, s1)"
    by (cases "ensure_pages a (if e > v_size (vnodes s a) then e else v_size (vnodes s a)) s")
  define s2 where "s2 = write_loop a (unat o1) bs s1"
  define f1 where "f1 = f\<lparr>f_offset := o1\<rparr>"
  have f1: "(if f_flags f AND VFS_OPEN_APPEND \<noteq> 0 then f\<lparr>f_offset := v_size (vnodes s a)\<rparr> else f) = f1"
    by (simp add: f1_def o1_def)
  have w: "vfs_write f bs s =
    (if word_of_nat (length bs) > VFS_FILE_MAX - o1 then (-1, f1, s)
     else if \<not> ok then (-1, f1, s1)
     else (int (length bs), f1\<lparr>f_offset := e\<rparr>,
       if e > v_size (vnodes s2 a) then upd_vnode a (\<lambda>n. n\<lparr>v_size := e\<rparr>) s2 else s2))"
  proof -
    have "f_offset f1 = o1"
      by (simp add: f1_def)
    then show ?thesis
      unfolding vfs_write_def assms(3) f1 Let_def using assms(4-6)
      by (simp only: e_def [symmetric] en prod.case s2_def [symmetric] de_Morgan_disj simp_thms if_False not_not)
  qed
  have others: "\<forall>b. b \<noteq> a \<and> file_ok F s b \<and> own (vnodes s b) \<inter> own (vnodes s a) = {} \<longrightarrow>
      content t b = content s b \<and> file_ok F' t b \<and> own (vnodes t b) \<inter> own (vnodes t a) = {}"
    if "agree (set F \<union> own (vnodes s a)) s t" "tar_data t = tar_data s" "\<forall>b. b \<noteq> a \<longrightarrow> vnodes t b = vnodes s b"
      "set F' \<subseteq> set F" "own (vnodes t a) \<subseteq> set F \<union> own (vnodes s a)" for F'
  proof (intro allI impI)
    fix b
    assume b: "b \<noteq> a \<and> file_ok F s b \<and> own (vnodes s b) \<inter> own (vnodes s a) = {}"
    then have "own (vnodes s b) \<inter> set F = {}"
      by (intro own_free) (simp add: file_ok_def Let_def)
    then have d: "own (vnodes s b) \<inter> (set F \<union> own (vnodes s a)) = {}"
      using b by blast
    then have "p \<notin> set F \<union> own (vnodes s a)" if "p \<in> set (v_pages (vnodes s b))" "p \<noteq> 0" for p
      using that by (auto simp: own_def)
    then have "content t b = content s b" "file_ok F' t b"
      using agree_other [OF that(1), of F b F'] b that(2-4) by blast+
    then show "content t b = content s b \<and> file_ok F' t b \<and> own (vnodes t b) \<inter> own (vnodes t a) = {}"
      using d that(3,5) b by auto
  qed
  consider "65536 < off + length bs" | "off + length bs \<le> 65536" "\<not> ok" | "off + length bs \<le> 65536" "ok"
    by linarith
  then show ?thesis
  proof cases
    case 1
    then have "r = -1" "t = s"
      using w assms(10) write_fits(1) [OF o1(1) assms(8)] o1(2) by simp_all
    then show ?thesis
      using others [of F] assms(1,2) 1 by (intro exI [of _ F]) simp
  next
    case 2
    then have r: "r = -1" "t = s1"
      using w assms(10) write_fits(1) [OF o1(1) assms(8)] o1(2) by simp_all
    have le: "v_size (vnodes s a) \<le> (if e > v_size (vnodes s a) then e else v_size (vnodes s a))"
      "(if e > v_size (vnodes s a) then e else v_size (vnodes s a)) \<le> VFS_FILE_MAX"
      using z 2(1) o1(2) write_fits(2) [OF o1(1) assms(8)] by (simp_all add: e_def word_le_nat_alt word_less_nat_alt)
    obtain F' where "free_frames s1 F'" "set F' \<subseteq> set F" "file_ok F' s1 a" "content s1 a = content s a"
      "agree (set F \<union> own (vnodes s a)) s s1" "tar_data s1 = tar_data s"
      "\<forall>b. b \<noteq> a \<longrightarrow> vnodes s1 b = vnodes s b" "own (vnodes s1 a) \<subseteq> set F \<union> own (vnodes s a)" "F' = []"
      using ensure_pages_effect [OF assms(1,2) le en] 2(2) by auto
    then show ?thesis
      using others [of F'] r by (intro exI [of _ F']) simp
  next
    case 3
    then have r: "r = int (length bs)" "g = f1\<lparr>f_offset := e\<rparr>"
      "t = (if e > v_size (vnodes s2 a) then upd_vnode a (\<lambda>n. n\<lparr>v_size := e\<rparr>) s2 else s2)"
      using w assms(10) write_fits(1) [OF o1(1) assms(8)] o1(2) by simp_all
    obtain F' where "free_frames t F'" "set F' \<subseteq> set F" "file_ok F' t a" "content t a = overwrite (unat o1) bs (content s a)"
      "agree (set F \<union> own (vnodes s a)) s t" "tar_data t = tar_data s"
      "\<forall>b. b \<noteq> a \<longrightarrow> vnodes t b = vnodes s b" "own (vnodes t a) \<subseteq> set F \<union> own (vnodes s a)"
      using write_core [OF assms(1,2) o1(1) assms(8) _ e_def _ s2_def r(3)] 3 o1(2) en by auto
    then show ?thesis
      using others [of F'] r 3(1) o1 write_fits(2) [OF o1(1) assms(8)]
      by (intro exI [of _ F']) (simp add: e_def)
  qed
qed

text \<open>
  C20: \<^verbatim>\<open>vfs_read\<close> on a regular file open for reading, from the archive or with the offset at the start
  of a page: it returns the bytes of the file from the offset on, as many as asked for and there
  are, and moves the offset behind them; at the end of the file it returns 0.
\<close>

theorem vfs_read_content:
  assumes "file_ok F s a" "f_node f = a" "a \<noteq> 0" "v_type (vnodes s a) = VFS_REG" "f_flags f AND VFS_OPEN_READ \<noteq> 0"
    "v_archive (vnodes s a) \<noteq> None \<or> unat (f_offset f) mod 4096 = 0"
    "n = min (unat len) (length (content s a) - unat (f_offset f))"
  shows "vfs_read f len s = (int n, take n (drop (unat (f_offset f)) (content s a)), f\<lparr>f_offset := f_offset f + word_of_nat n\<rparr>)"
proof (cases "f_offset f \<ge> v_size (vnodes s a)")
  case True
  then have "n = 0"
    using assms(7) by (simp add: content_def word_le_nat_alt)
  then show ?thesis
    using True assms(2-5) by (simp add: vfs_read_def)
next
  case False
  let ?n = "vnodes s a" and ?o = "unat (f_offset f)"
  have z: "unat (v_size ?n) \<le> 65536" "?o < unat (v_size ?n)"
    using assms(1) False by (simp_all add: file_ok_def Let_def word_le_nat_alt)
  define l where "l = (if len > v_size ?n - f_offset f then v_size ?n - f_offset f else len)"
  have d: "unat (v_size ?n - f_offset f) = unat (v_size ?n) - ?o"
    using False by (intro unat_sub) simp
  then have l: "unat l = n"
    using assms(7) by (simp add: l_def content_def word_less_nat_alt)
  have b: "unat base + ?o + n \<le> length (tar_data s)" if "v_archive ?n = Some base" for base
  proof -
    have "unat base + unat (v_size ?n) \<le> length (tar_data s)"
      using assms(1) that by (simp add: file_ok_def Let_def)
    moreover have "n \<le> unat (v_size ?n) - ?o"
      by (simp add: assms(7) content_def)
    ultimately show ?thesis
      using z(2) by linarith
  qed
  have "read_loop ?n ?o n s = map (node_byte ?n s) [?o..<?o + n]"
    using read_loop_bytes [OF assms(6) b] .
  also have "\<dots> = take n (drop ?o (content s a))"
    using assms(7) z by (simp add: content_def drop_map take_map)
  finally have r: "read_loop ?n ?o n s = take n (drop ?o (content s a))" .
  have "uint l = int n" "l = word_of_nat n"
    unfolding uint_nat l by (simp_all flip: l)
  have "vfs_read f len s = (uint l, read_loop ?n ?o (unat l) s, f\<lparr>f_offset := f_offset f + l\<rparr>)"
    using False assms(3-5) by (simp only: vfs_read_def Let_def assms(2) l_def [symmetric] simp_thms if_False)
  then show ?thesis
    using r \<open>uint l = int n\<close> \<open>l = word_of_nat n\<close> l by simp
qed

text \<open>
  C21: the code reads a page of a file that is no longer in the archive from its start. A read
  within one page from an offset inside it returns the first bytes of the page in place of those at
  the offset, although \<^verbatim>\<open>vfs_write\<close> stores at the offset. \<^verbatim>\<open>handle_read\<close> reads in pieces of 512 bytes, so
  a file longer than that reads back wrong.
\<close>

theorem vfs_read_page_start:
  assumes "file_ok F s a" "f_node f = a" "a \<noteq> 0" "v_type (vnodes s a) = VFS_REG" "f_flags f AND VFS_OPEN_READ \<noteq> 0"
    "v_archive (vnodes s a) = None" "0 < unat len" "unat (f_offset f) + unat len \<le> length (content s a)"
    "unat (f_offset f) mod 4096 + unat len \<le> 4096"
  shows "vfs_read f len s = (int (unat len),
    take (unat len) (drop (unat (f_offset f) - unat (f_offset f) mod 4096) (content s a)), f\<lparr>f_offset := f_offset f + len\<rparr>)"
proof -
  let ?n = "vnodes s a" and ?o = "unat (f_offset f)"
  have z: "?o + unat len \<le> unat (v_size ?n)"
    using assms(8) by (simp add: content_def)
  have nf: "\<not> f_offset f \<ge> v_size ?n" and nl: "\<not> len > v_size ?n - f_offset f"
    using z assms(7) unat_sub [of "f_offset f" "v_size ?n"] by (simp_all add: word_le_nat_alt not_less)
  have c: "min (4096 - ?o mod 4096) (unat len) = unat len"
    using assms(9) by simp
  let ?p = "?o - ?o mod 4096"
  have p: "?p mod 4096 = 0" "?p div 4096 = ?o div 4096"
    by (simp_all add: minus_mod_eq_mult_div)
  have "read_loop ?n ?o (unat len) s = mem_load (mem s) (phys_to_virt s (v_pages ?n ! (?p div 4096))) (unat len)"
    using assms(6,7) by (simp add: read_loop.simps [of ?n ?o] c Let_def p(2)) (simp add: read_loop.simps)
  also have "\<dots> = map (page_byte ?n s) [?p..<?p + unat len]"
    using assms(9) by (intro mem_load_page p(1)) linarith
  also have "\<dots> = take (unat len) (drop ?p (content s a))"
    using z assms(6) by (simp add: content_def drop_map take_map node_byte_def [abs_def])
  finally show ?thesis
    using assms(2-5) nf nl by (simp add: vfs_read_def Let_def)
qed

text \<open>
  \<^verbatim>\<open>vfs_seek\<close> moves the offset of a regular file exactly when the origin is one of the three and
  the target lies between 0 and 65536, and then returns the target; otherwise it returns -1 and
  changes nothing. So offsets stay within the bounds the other operations rely on.
\<close>

theorem vfs_seek_bounds:
  assumes "file_ok F s (f_node f)" "f_node f \<noteq> 0" "v_type (vnodes s (f_node f)) = VFS_REG" "f_offset f \<le> VFS_FILE_MAX"
    "- 9223372036854775808 \<le> offset" "offset < 9223372036854775808"
    "target = (if origin = 0 then 0 else if origin = 1 then uint (f_offset f) else uint (v_size (vnodes s (f_node f)))) + offset"
  shows "vfs_seek f offset origin s =
    (if origin \<in> {0, 1, 2} \<and> 0 \<le> target \<and> target \<le> 65536 then (target, f\<lparr>f_offset := word_of_int target\<rparr>) else (-1, f))"
proof -
  have b: "unat (f_offset f) \<le> 65536" "unat (v_size (vnodes s (f_node f))) \<le> 65536"
    using assms(1,4) by (simp_all add: file_ok_def Let_def word_le_nat_alt)
  then have bu: "uint (f_offset f) \<le> 65536" "uint (v_size (vnodes s (f_node f))) \<le> 65536"
    unfolding uint_nat by linarith+
  have s: "sint x = uint x" if "unat x \<le> 65536" for x :: u64
  proof -
    have "uint x \<le> 65536"
      using that unfolding uint_nat by linarith
    then show ?thesis
      using uint_ge_0 [of x] unfolding sint_uint by (intro signed_take_bit_int_eq_self; simp; linarith)
  qed
  define base where "base = (if origin = 0 then 0 else if origin = 1 then sint (f_offset f)
      else if origin = 2 then sint (v_size (vnodes s (f_node f))) else -1)"
  have seek: "vfs_seek f offset origin s =
      (if base < 0 \<or> offset < - base then (-1, f)
       else if (word_of_int (base + offset) :: u64) > VFS_FILE_MAX then (-1, f)
       else (uint (word_of_int (base + offset) :: u64), f\<lparr>f_offset := word_of_int (base + offset)\<rparr>))"
    using assms(2,3) by (simp only: vfs_seek_def base_def [symmetric] Let_def simp_thms if_False)
  show ?thesis
  proof (cases "origin \<in> {0, 1, 2}")
    case True
    then have base: "base + offset = target" "0 \<le> base" "base \<le> 65536"
      using b bu by (auto simp: base_def assms(7) s)
    show ?thesis
    proof (cases "0 \<le> target")
      case t: True
      have "target < 18446744073709551616"
        using base assms(6) by linarith
      then have u: "uint (word_of_int target :: u64) = target"
        using t by (simp add: unsigned_of_int take_bit_int_eq_self)
      then have w: "(word_of_int target :: u64) > VFS_FILE_MAX \<longleftrightarrow> target > 65536"
        by (simp add: word_less_def)
      have "\<not> (base < 0 \<or> offset < - base)"
        using base t by linarith
      then show ?thesis
        using True t unfolding seek base(1) w u by simp
    next
      case False
      then have "base < 0 \<or> offset < - base"
        using base by linarith
      then show ?thesis
        using False unfolding seek by simp
    qed
  next
    case False
    then have "base < 0"
      by (simp add: base_def)
    then show ?thesis
      using False unfolding seek by simp
  qed
qed

section \<open>A file of three bytes in the archive\<close>

definition example_files :: vfs where
  "example_files = heap.extend empty_heap (vfs.fields
     ((\<lambda>_. zero_vnode)(0x9000 := zero_vnode\<lparr>v_type := 1, v_linked := True, v_size := 3, v_archive := Some 0\<rparr>))
     [1, 2, 3] 3 2 0)"

lemma example_files_ok: "file_ok F example_files 0x9000" "content example_files 0x9000 = [1, 2, 3]"
  by (simp_all add: example_files_def heap.defs vfs.defs file_ok_def pages_ok_def present_def zero_vnode_def
      content_def node_byte_def upt_rec less_mult_imp_div_less)

lemma example_files_fields:
  "v_type (vnodes example_files 0x9000) = 1" "v_archive (vnodes example_files 0x9000) = Some 0"
  "v_size (vnodes example_files 0x9000) = 3"
  by (simp_all add: example_files_def heap.defs vfs.defs)

lemma example_files_free: "free_frames example_files [0x1000, 0x2000]"
proof -
  have "free_frames empty_heap (all_frames two_frames)"
    unfolding empty_heap_def by (rule mm_init_free_frames [OF two_frames_ok])
  then show ?thesis
    by (simp add: two_frames_all free_frames_def future_frames_def bump_ok_def example_files_def heap.defs)
qed

theorem vfs_write_content_witness:
  "\<exists>F t g r. vfs_write \<lparr>f_node = 0x9000, f_offset = 1, f_flags = 3\<rparr> [9] example_files = (r, g, t) \<and> free_frames t F \<and>
     content t 0x9000 = (if r = -1 then [1, 2, 3] else [1, 9, 3])"
proof -
  obtain r g t where w: "vfs_write \<lparr>f_node = 0x9000, f_offset = 1, f_flags = 3\<rparr> [9] example_files = (r, g, t)"
    by (cases "vfs_write \<lparr>f_node = 0x9000, f_offset = 1, f_flags = 3\<rparr> [9] example_files") auto
  show ?thesis
    using vfs_write_content [OF example_files_free example_files_ok(1) _ _ _ _ _ _ _ w]
    by (auto simp: example_files_ok example_files_fields w overwrite_def)
qed

theorem vfs_read_content_witness:
  "vfs_read \<lparr>f_node = 0x9000, f_offset = 1, f_flags = 1\<rparr> 9 example_files =
     (2, [2, 3], \<lparr>f_node = 0x9000, f_offset = 3, f_flags = 1\<rparr>)"
proof -
  let ?f = "\<lparr>f_node = 0x9000, f_offset = 1, f_flags = 1\<rparr>"
  have 1: "f_node ?f = 0x9000" "(0x9000 :: u64) \<noteq> 0" "f_flags ?f AND VFS_OPEN_READ \<noteq> 0"
    by simp_all
  have 2: "v_archive (vnodes example_files 0x9000) \<noteq> None \<or> unat (f_offset ?f) mod 4096 = 0"
    by (simp add: example_files_fields)
  have 3: "(2 :: nat) = min (unat (9 :: u64)) (length (content example_files 0x9000) - unat (f_offset ?f))"
    by (simp add: example_files_ok(2))
  show ?thesis
    unfolding vfs_read_content [OF example_files_ok(1) 1(1,2) example_files_fields(1) 1(3) 2 3]
    by (simp add: example_files_ok(2))
qed

theorem vfs_seek_bounds_witness:
  "vfs_seek \<lparr>f_node = 0x9000, f_offset = 1, f_flags = 1\<rparr> (-1) 2 example_files =
     (2, \<lparr>f_node = 0x9000, f_offset = 2, f_flags = 1\<rparr>)"
proof -
  let ?f = "\<lparr>f_node = 0x9000, f_offset = 1, f_flags = 1\<rparr>"
  have 1: "file_ok [] example_files (f_node ?f)"
    by (simp add: example_files_ok)
  have 2: "f_node ?f \<noteq> 0"
    by simp
  have 3: "v_type (vnodes example_files (f_node ?f)) = VFS_REG"
    by (simp add: example_files_fields)
  have 4: "f_offset ?f \<le> VFS_FILE_MAX"
    by simp
  show ?thesis
    using vfs_seek_bounds [OF 1 2 3 4, of "-1" 2 2] by (simp add: example_files_fields)
qed

text \<open>A file of three bytes in a frame.\<close>

definition example_paged :: vfs where
  "example_paged = heap.extend
     (empty_heap\<lparr>mem := (\<lambda>a. if unat (a - 0xffff800000001000) < 3 then word_of_nat (7 + unat (a - 0xffff800000001000)) else 0)\<rparr>)
     (vfs.fields ((\<lambda>_. zero_vnode)(0x9000 := zero_vnode\<lparr>v_type := 1, v_linked := True, v_size := 3,
       v_pages := 0x1000 # replicate 15 0\<rparr>)) [] 0 2 0)"

lemma example_paged_fields:
  "v_type (vnodes example_paged 0x9000) = 1" "v_archive (vnodes example_paged 0x9000) = None"
  "v_size (vnodes example_paged 0x9000) = 3" "v_pages (vnodes example_paged 0x9000) = 0x1000 # replicate 15 0"
  by (simp_all add: example_paged_def heap.defs vfs.defs zero_vnode_def)

lemma example_paged_byte:
  assumes "i < 4096"
  shows "page_byte (vnodes example_paged 0x9000) example_paged i = (if i < 3 then word_of_nat (7 + i) else 0)"
proof -
  have "0x1000 + hhdm example_paged + word_of_nat i - 0xffff800000001000 = (word_of_nat i :: u64)"
    by (simp add: example_paged_def heap.defs empty_heap_fields)
  then have "page_byte (vnodes example_paged 0x9000) example_paged i =
      (if unat (word_of_nat i :: u64) < 3 then word_of_nat (7 + unat (word_of_nat i :: u64)) else 0)"
    using assms by (simp add: page_byte_def example_paged_fields fbyte_def frame_byte_def phys_to_virt_def)
      (simp add: example_paged_def heap.defs)
  then show ?thesis
    using assms by simp
qed

lemma example_paged_ok: "file_ok [] example_paged 0x9000" "content example_paged 0x9000 = [7, 8, 9]"
proof -
  have nth: "(0x1000 # replicate 15 (0 :: u64)) ! k = (if k = 0 then 0x1000 else 0)" if "k < 16" for k
    using that by (cases k) simp_all
  have "i < 4096" if "i < 65536" "present (vnodes example_paged 0x9000) i" for i
  proof -
    have "i div 4096 < 16"
      using that(1) by (simp add: less_mult_imp_div_less)
    then have "i div 4096 = 0"
      using that(2) nth by (simp add: present_def example_paged_fields split: if_splits)
    then show ?thesis
      by simp
  qed
  moreover have "present (vnodes example_paged 0x9000) i" if "i < 3" for i
    using that by (simp add: present_def example_paged_fields)
  ultimately show "file_ok [] example_paged 0x9000"
    using example_paged_byte nth
    by (simp add: file_ok_def Let_def example_paged_fields pages_ok_def page_aligned_def)
  show "content example_paged 0x9000 = [7, 8, 9]"
    using example_paged_byte by (simp add: content_def example_paged_fields node_byte_def upt_rec)
qed

theorem vfs_read_page_start_witness:
  "vfs_read \<lparr>f_node = 0x9000, f_offset = 1, f_flags = 1\<rparr> 2 example_paged =
     (2, [7, 8], \<lparr>f_node = 0x9000, f_offset = 3, f_flags = 1\<rparr>) \<and>
   drop 1 (content example_paged 0x9000) = [8, 9]"
proof -
  let ?f = "\<lparr>f_node = 0x9000, f_offset = 1, f_flags = 1\<rparr>"
  have 1: "f_node ?f = 0x9000" "(0x9000 :: u64) \<noteq> 0" "f_flags ?f AND VFS_OPEN_READ \<noteq> 0" "0 < unat (2 :: u64)"
    "unat (f_offset ?f) mod 4096 + unat (2 :: u64) \<le> 4096"
    by simp_all
  have 2: "unat (f_offset ?f) + unat (2 :: u64) \<le> length (content example_paged 0x9000)"
    by (simp add: example_paged_ok(2))
  show ?thesis
    unfolding vfs_read_page_start [OF example_paged_ok(1) 1(1,2) example_paged_fields(1) 1(3) example_paged_fields(2) 1(4) 2 1(5)]
    by (simp add: example_paged_ok(2))
qed

end
