(* ===== verification/Task_Pipe.thy ===== *)
theory Task_Pipe
  imports Task
begin

text \<open>
  Pipes of \<open>kernel/task.c\<close>: the ring of 4096 bytes between a reading and a writing descriptor is a
  bounded queue of bytes. The queue is an interface of its own, a locale with the laws of putting
  and getting, from which the order of a stream over any run follows; the ring buffer is its
  interpretation.
\<close>

section \<open>A bounded queue of bytes\<close>

locale byte_queue =
  fixes put :: "'b list \<Rightarrow> 's \<Rightarrow> nat \<times> 's"
    and get :: "nat \<Rightarrow> 's \<Rightarrow> 'b list \<times> 's"
    and ok :: "'s \<Rightarrow> bool"
    and queue :: "'s \<Rightarrow> 'b list"
    and room :: nat
  assumes put_count: "ok s \<Longrightarrow> fst (put bs s) = min (length bs) (room - length (queue s))"
    and put_queue: "ok s \<Longrightarrow> queue (snd (put bs s)) = queue s @ take (fst (put bs s)) bs"
    and put_ok: "ok s \<Longrightarrow> ok (snd (put bs s))"
    and get_bytes: "ok s \<Longrightarrow> fst (get n s) = take n (queue s)"
    and get_queue: "ok s \<Longrightarrow> queue (snd (get n s)) = drop n (queue s)"
    and get_ok: "ok s \<Longrightarrow> ok (snd (get n s))"
    and room_ok: "ok s \<Longrightarrow> length (queue s) \<le> room"
begin

text \<open>A run of puts (with their bytes) and gets (with their sizes): what was taken in and given out.\<close>

fun run :: "('b list + nat) list \<Rightarrow> 's \<Rightarrow> 'b list \<times> 'b list \<times> 's" where
  "run [] s = ([], [], s)"
| "run (Inl bs # ops) s =
     (let (n, s) = put bs s; (i, out, s) = run ops s in (take n bs @ i, out, s))"
| "run (Inr n # ops) s =
     (let (bs, s) = get n s; (i, out, s) = run ops s in (i, bs @ out, s))"

lemma run_fifo: "ok s \<Longrightarrow> run ops s = (i, out, t) \<Longrightarrow> ok t \<and> queue s @ i = out @ queue t"
proof (induction ops arbitrary: s i out t)
  case Nil
  then show ?case
    by simp
next
  case (Cons op ops)
  show ?case
  proof (cases op)
    case (Inl bs)
    obtain i' out' t' where r: "run ops (snd (put bs s)) = (i', out', t')"
      by (cases "run ops (snd (put bs s))") auto
    have "i = take (fst (put bs s)) bs @ i'" "out = out'" "t = t'"
      using Cons.prems(2) r by (simp_all add: Inl split_def)
    then show ?thesis
      using Cons.IH [OF put_ok [OF Cons.prems(1)] r] put_queue [OF Cons.prems(1), of bs] by simp
  next
    case (Inr n)
    obtain i' out' t' where r: "run ops (snd (get n s)) = (i', out', t')"
      by (cases "run ops (snd (get n s))") auto
    have "i = i'" "out = fst (get n s) @ out'" "t = t'"
      using Cons.prems(2) r by (simp_all add: Inr split_def)
    then show ?thesis
      using Cons.IH [OF get_ok [OF Cons.prems(1)] r] get_queue [OF Cons.prems(1), of n] get_bytes [OF Cons.prems(1), of n]
      by simp (metis append_assoc append_take_drop_id)
  qed
qed

lemma put_full: "ok s \<Longrightarrow> length (queue s) = room \<Longrightarrow> fst (put bs s) = 0"
  by (simp add: put_count)

lemma get_empty: "ok s \<Longrightarrow> queue s = [] \<Longrightarrow> fst (get n s) = []"
  by (simp add: get_bytes)

end

section \<open>The ring\<close>

text \<open>The address of the byte that is \<open>i\<close> places behind the head.\<close>

definition ring_at :: "pipe \<Rightarrow> nat \<Rightarrow> u64" where
  "ring_at p i = p_data p + word_of_nat ((unat (p_head p) + i) mod 4096)"

definition pipe_queue :: "u64 \<Rightarrow> 'a kernel_scheme \<Rightarrow> u8 list" where
  "pipe_queue p s = map (\<lambda>i. mem s (ring_at (pipes s p) i)) [0..<unat (p_count (pipes s p))]"

definition pipe_ok :: "u64 \<Rightarrow> 'a kernel_scheme \<Rightarrow> bool" where
  "pipe_ok p s \<longleftrightarrow> p_head (pipes s p) < PIPE_SIZE \<and> p_count (pipes s p) \<le> PIPE_SIZE"

lemma mod_shift_inj:
  fixes h i j m :: nat
  assumes "(h + i) mod m = (h + j) mod m" "i < m" "j < m"
  shows "i = j"
proof -
  have "a = b" if "(h + a) mod m = (h + b) mod m" "a \<le> b" "b < m" for a b
  proof -
    have "m dvd (h + b) - (h + a)"
      using that(1,2) by (metis add_le_mono1 add.commute mod_eq_dvd_iff_nat)
    then show ?thesis
      using that(2,3) by (auto dest: dvd_imp_le)
  qed
  then show ?thesis
    using assms by (metis le_cases)
qed

lemma ring_at_eq:
  assumes "i < 4096" "j < 4096"
  shows "ring_at p i = ring_at p j \<longleftrightarrow> i = j"
proof
  assume "ring_at p i = ring_at p j"
  then have "(word_of_nat ((unat (p_head p) + i) mod 4096) :: u64) = word_of_nat ((unat (p_head p) + j) mod 4096)"
    by (simp add: ring_at_def)
  then have "unat (word_of_nat ((unat (p_head p) + i) mod 4096) :: u64) = unat (word_of_nat ((unat (p_head p) + j) mod 4096) :: u64)"
    by (rule arg_cong)
  moreover have "(unat (p_head p) + k) mod 4096 < 18446744073709551616" for k
    by (rule less_trans [OF mod_less_divisor]) simp_all
  ultimately have "(unat (p_head p) + i) mod 4096 = (unat (p_head p) + j) mod 4096"
    by (simp only: unat_word_of_nat_u64)
  then show "i = j"
    using assms by (rule mod_shift_inj)
qed simp

lemma upd_pipe_fields [simp]:
  "pipes (upd_pipe p f s) = (pipes s)(p := f (pipes s p))" "mem (upd_pipe p f s) = mem s"
  "tasks (upd_pipe p f s) = tasks s" "current (upd_pipe p f s) = current s" "open_files (upd_pipe p f s) = open_files s"
  by (simp_all add: upd_pipe_def)

lemma word_eq_of_unat: "unat (w :: u64) = n \<Longrightarrow> w = word_of_nat n"
  by auto

lemma ring_step:
  assumes "h < (4096 :: u64)"
  shows "(h + 1) mod PIPE_SIZE = word_of_nat ((unat h + 1) mod 4096)"
proof -
  have "unat (h + 1) = unat h + 1"
    using assms unat_add_of_nat_u64 [of h 1] by (simp add: word_less_nat_alt)
  then have "unat ((h + 1) mod PIPE_SIZE) = (unat h + 1) mod 4096"
    by (simp add: unat_mod)
  then show ?thesis
    by (rule word_eq_of_unat)
qed

lemma ring_read_eq:
  assumes "p_head (pipes s p) < PIPE_SIZE"
  shows "ring_read p n s = (map (\<lambda>i. mem s (ring_at (pipes s p) i)) [0..<n],
    upd_pipe p (\<lambda>u. u\<lparr>p_head := word_of_nat ((unat (p_head u) + n) mod 4096)\<rparr>) s)"
  using assms
proof (induction n arbitrary: s)
  case 0
  have "word_of_nat (unat (p_head (pipes s p)) mod 4096) = p_head (pipes s p)"
    using 0 by (simp add: word_less_nat_alt)
  then show ?case
    by (simp add: upd_pipe_def)
next
  case (Suc n)
  let ?h = "p_head (pipes s p)"
  define t where "t = upd_pipe p (\<lambda>u. u\<lparr>p_head := (p_head u + 1) mod PIPE_SIZE\<rparr>) s"
  have h: "(?h + 1) mod PIPE_SIZE = word_of_nat ((unat ?h + 1) mod 4096)"
    by (rule ring_step [OF Suc.prems])
  have lt: "(unat ?h + 1) mod 4096 < 4096"
    by simp
  then have u: "unat (word_of_nat ((unat ?h + 1) mod 4096) :: u64) = (unat ?h + 1) mod 4096"
    by (intro unat_word_of_nat_u64) linarith
  have t: "pipes t p = (pipes s p)\<lparr>p_head := word_of_nat ((unat ?h + 1) mod 4096)\<rparr>" "mem t = mem s"
    by (simp_all add: t_def h del: of_nat_Suc)
  have "p_head (pipes t p) < PIPE_SIZE"
    using lt u by (simp add: t word_less_nat_alt del: of_nat_Suc)
  note IH = Suc.IH [OF this]
  have at: "ring_at (pipes t p) i = ring_at (pipes s p) (Suc i)" for i
    using u by (simp add: ring_at_def t mod_add_left_eq del: of_nat_Suc)
  have b: "p_data (pipes s p) + ?h = ring_at (pipes s p) 0"
    using Suc.prems by (simp add: ring_at_def word_less_nat_alt)
  have tl: "map (\<lambda>i. mem s (ring_at (pipes s p) i)) [0..<Suc n] =
      mem s (ring_at (pipes s p) 0) # map (\<lambda>i. mem s (ring_at (pipes s p) (Suc i))) [0..<n]"
    by (simp add: map_upt_Suc del: upt_Suc)
  have snd: "upd_pipe p (\<lambda>u. u\<lparr>p_head := word_of_nat ((unat (p_head u) + n) mod 4096)\<rparr>) t =
      upd_pipe p (\<lambda>u. u\<lparr>p_head := word_of_nat ((unat (p_head u) + Suc n) mod 4096)\<rparr>) s"
    using u by (simp add: upd_pipe_def t_def h mod_add_left_eq del: of_nat_Suc)
  have "ring_read p (Suc n) s = (mem s (p_data (pipes s p) + ?h) # fst (ring_read p n t), snd (ring_read p n t))"
    by (simp add: t_def Let_def split_def)
  then show ?case
    unfolding tl IH fst_conv snd_conv at t(2) b snd .
qed

lemma ring_write_mem:
  assumes "unat (p_count (pipes s p)) + length bs \<le> 4096" "p_head (pipes s p) < PIPE_SIZE"
  shows "\<exists>m. ring_write p bs s = s\<lparr>mem := m\<rparr> \<and> (\<forall>i < 4096. m (ring_at (pipes s p) i) =
    (if unat (p_count (pipes s p)) \<le> i \<and> i < unat (p_count (pipes s p)) + length bs
     then bs ! (i - unat (p_count (pipes s p))) else mem s (ring_at (pipes s p) i)))"
proof -
  let ?p = "pipes s p" and ?c = "unat (p_count (pipes s p))"
  let ?f = "\<lambda>i s. s\<lparr>mem := (mem s)(p_data (pipes s p) +
    (p_head (pipes s p) + p_count (pipes s p) + word_of_nat i) mod PIPE_SIZE := bs ! i)\<rparr>"
  have "\<exists>m. fold ?f [0..<k] s = s\<lparr>mem := m\<rparr> \<and> (\<forall>i < 4096. m (ring_at ?p i) =
      (if ?c \<le> i \<and> i < ?c + k then bs ! (i - ?c) else mem s (ring_at ?p i)))" if "k \<le> length bs" for k
    using that
  proof (induction k)
    case 0
    then show ?case
      by (intro exI [of _ "mem s"]) auto
  next
    case (Suc k)
    then obtain m where m: "fold ?f [0..<k] s = s\<lparr>mem := m\<rparr>" "\<And>i. i < 4096 \<Longrightarrow> m (ring_at ?p i) =
        (if ?c \<le> i \<and> i < ?c + k then bs ! (i - ?c) else mem s (ring_at ?p i))"
      using Suc.IH [OF Suc_leD [OF Suc.prems]] by blast
    have ck: "?c + k < 4096"
      using Suc.prems assms(1) by linarith
    have "unat (p_head ?p + p_count ?p + word_of_nat k) = unat (p_head ?p) + (?c + k)"
    proof -
      have "unat (p_head ?p) < 4096"
        using assms(2) by (simp add: word_less_nat_alt)
      then have "unat (p_head ?p + p_count ?p) = unat (p_head ?p) + ?c"
        using ck unat_add_of_nat_u64 [of "p_head ?p" ?c] by simp
      then show ?thesis
        using \<open>unat (p_head ?p) < 4096\<close> ck unat_add_of_nat_u64 [of "p_head ?p + p_count ?p" k] by simp
    qed
    then have u: "unat ((p_head ?p + p_count ?p + word_of_nat k) mod PIPE_SIZE) = (unat (p_head ?p) + (?c + k)) mod 4096"
      by (simp add: unat_mod)
    have at: "p_data ?p + (p_head ?p + p_count ?p + word_of_nat k) mod PIPE_SIZE = ring_at ?p (?c + k)"
      unfolding ring_at_def u [symmetric] by simp
    have "fold ?f [0..<Suc k] s = s\<lparr>mem := m(ring_at ?p (?c + k) := bs ! k)\<rparr>"
      by (simp add: m(1) at)
    moreover have "(m(ring_at ?p (?c + k) := bs ! k)) (ring_at ?p i) =
        (if ?c \<le> i \<and> i < ?c + Suc k then bs ! (i - ?c) else mem s (ring_at ?p i))" if "i < 4096" for i
      using m(2) [OF that] ring_at_eq [OF that ck] by (cases "i = ?c + k") auto
    ultimately show ?case
      by blast
  qed
  then show ?thesis
    unfolding ring_write_def by blast
qed

section \<open>The ring is a bounded queue\<close>

text \<open>The pipe branches of \<^verbatim>\<open>task_fd_read\<close> and \<^verbatim>\<open>task_fd_write\<close>, on the pipe.\<close>

definition pipe_read :: "u64 \<Rightarrow> nat \<Rightarrow> 'a kernel_scheme \<Rightarrow> u8 list \<times> 'a kernel_scheme" where
  "pipe_read p n s =
     (let done = min n (unat (p_count (pipes s p))); (bs, s) = ring_read p done s
      in (bs, upd_pipe p (\<lambda>u. u\<lparr>p_count := p_count u - word_of_nat done\<rparr>) s))"

definition pipe_write :: "u64 \<Rightarrow> u8 list \<Rightarrow> 'a kernel_scheme \<Rightarrow> nat \<times> 'a kernel_scheme" where
  "pipe_write p bs s =
     (let done = min (length bs) (4096 - unat (p_count (pipes s p)))
      in (done, upd_pipe p (\<lambda>u. u\<lparr>p_count := p_count u + word_of_nat done\<rparr>) (ring_write p (take done bs) s)))"

lemma task_fd_read_pipe:
  assumes "fd_get fd s = f" "f \<noteq> 0" "o_type (open_files s f) = FD_PIPE_R"
  shows "task_fd_read fd len s = (let (bs, t) = pipe_read (o_pipe (open_files s f)) (unat len) s
    in Some (int (min (unat len) (unat (p_count (pipes s (o_pipe (open_files s f)))))), bs, t))"
proof -
  let ?c = "p_count (pipes s (o_pipe (open_files s f)))"
  have "unat (if len < ?c then len else ?c) = min (unat len) (unat ?c)"
    by (simp add: word_less_nat_alt)
  moreover from this have "(if len < ?c then len else ?c) = word_of_nat (min (unat len) (unat ?c))"
    by (rule word_eq_of_unat)
  moreover from calculation have "uint (if len < ?c then len else ?c) = int (min (unat len) (unat ?c))"
    by (metis uint_nat)
  ultimately show ?thesis
    using assms by (simp add: task_fd_read_def pipe_read_def Let_def split_def del: if_split)
qed

lemma task_fd_write_pipe:
  assumes "fd_get fd s = f" "f \<noteq> 0" "o_type (open_files s f) = FD_PIPE_W"
  shows "task_fd_write fd bs s = (let (n, t) = pipe_write (o_pipe (open_files s f)) bs s in (int n, t))"
  using assms by (simp add: task_fd_write_def pipe_write_def Let_def)

lemma pipe_read_queue:
  assumes "pipe_ok p s"
  shows "fst (pipe_read p n s) = take n (pipe_queue p s) \<and>
    pipe_queue p (snd (pipe_read p n s)) = drop n (pipe_queue p s) \<and> pipe_ok p (snd (pipe_read p n s))"
proof -
  let ?p = "pipes s p"
  define k where "k = min n (unat (p_count ?p))"
  define t where "t = snd (pipe_read p n s)"
  have ok: "p_head ?p < PIPE_SIZE" "unat (p_count ?p) \<le> 4096" "k \<le> unat (p_count ?p)"
    using assms by (simp_all add: pipe_ok_def k_def word_le_nat_alt)
  have r: "pipe_read p n s = (map (\<lambda>i. mem s (ring_at ?p i)) [0..<k],
      upd_pipe p (\<lambda>u. u\<lparr>p_count := p_count u - word_of_nat k\<rparr>)
        (upd_pipe p (\<lambda>u. u\<lparr>p_head := word_of_nat ((unat (p_head u) + k) mod 4096)\<rparr>) s))"
    by (simp add: pipe_read_def Let_def ring_read_eq [OF ok(1)] k_def [symmetric])
  have h: "(unat (p_head ?p) + k) mod 4096 < 4096"
    by simp
  then have uh: "unat (word_of_nat ((unat (p_head ?p) + k) mod 4096) :: u64) = (unat (p_head ?p) + k) mod 4096"
    by (intro unat_word_of_nat_u64) linarith
  have uc: "unat (p_count ?p - word_of_nat k) = unat (p_count ?p) - k"
    using ok by (subst unat_sub) (simp_all add: word_le_nat_alt)
  have t: "pipes t p = ?p\<lparr>p_head := word_of_nat ((unat (p_head ?p) + k) mod 4096), p_count := p_count ?p - word_of_nat k\<rparr>"
    "mem t = mem s"
    by (simp_all add: t_def r del: of_nat_add)
  have at: "ring_at (pipes t p) i = ring_at ?p (k + i)" for i
    using uh by (simp add: ring_at_def t mod_add_left_eq add.assoc del: of_nat_add)
  have tk: "map (\<lambda>i. mem s (ring_at ?p i)) [0..<k] = take n (pipe_queue p s)"
    by (rule nth_equalityI) (auto simp: pipe_queue_def k_def)
  have "pipe_queue p t = map (\<lambda>i. mem s (ring_at ?p (k + i))) [0..<unat (p_count ?p) - k]"
    by (simp add: pipe_queue_def at t(2)) (simp add: t uc)
  also have "\<dots> = drop n (pipe_queue p s)"
    by (rule nth_equalityI) (auto simp: pipe_queue_def k_def min_def)
  finally have "pipe_queue p t = drop n (pipe_queue p s)" .
  moreover have "pipe_ok p t"
    using h uh uc ok by (simp add: pipe_ok_def t word_less_nat_alt word_le_nat_alt del: of_nat_add)
  moreover have "fst (pipe_read p n s) = take n (pipe_queue p s)"
    by (simp add: r tk)
  ultimately show ?thesis
    unfolding t_def [symmetric] by simp
qed

lemma pipe_write_queue:
  assumes "pipe_ok p s"
  shows "fst (pipe_write p bs s) = min (length bs) (4096 - length (pipe_queue p s)) \<and>
    pipe_queue p (snd (pipe_write p bs s)) = pipe_queue p s @ take (fst (pipe_write p bs s)) bs \<and>
    pipe_ok p (snd (pipe_write p bs s))"
proof -
  let ?p = "pipes s p" and ?c = "unat (p_count (pipes s p))"
  define k where "k = min (length bs) (4096 - ?c)"
  have ok: "p_head ?p < PIPE_SIZE" "?c \<le> 4096" "?c + length (take k bs) \<le> 4096" "length (take k bs) = k"
    using assms by (auto simp: pipe_ok_def k_def word_le_nat_alt)
  obtain m where m: "ring_write p (take k bs) s = s\<lparr>mem := m\<rparr>"
    "\<And>i. i < 4096 \<Longrightarrow> m (ring_at ?p i) = (if ?c \<le> i \<and> i < ?c + k then take k bs ! (i - ?c) else mem s (ring_at ?p i))"
    using ring_write_mem [OF ok(3,1)] ok(4) by auto
  define t where "t = snd (pipe_write p bs s)"
  have w: "pipe_write p bs s = (k, upd_pipe p (\<lambda>u. u\<lparr>p_count := p_count u + word_of_nat k\<rparr>) (s\<lparr>mem := m\<rparr>))"
    by (simp add: pipe_write_def Let_def k_def [symmetric] m(1))
  have uc: "unat (p_count ?p + word_of_nat k) = ?c + k"
    using ok by (intro unat_add_of_nat_u64) linarith
  have t: "pipes t p = ?p\<lparr>p_count := p_count ?p + word_of_nat k\<rparr>" "mem t = m"
    by (simp_all add: t_def w)
  have at: "ring_at (pipes t p) i = ring_at ?p i" for i
    by (simp add: ring_at_def t)
  have "pipe_queue p t = map (\<lambda>i. m (ring_at ?p i)) [0..<?c + k]"
    by (simp add: pipe_queue_def at t(2)) (simp add: t uc)
  also have "\<dots> = pipe_queue p s @ take k bs"
  proof (rule nth_equalityI)
    fix i
    assume "i < length (map (\<lambda>i. m (ring_at ?p i)) [0..<?c + k])"
    then have i: "i < ?c + k" "i < 4096"
      using ok by simp_all
    then show "map (\<lambda>i. m (ring_at ?p i)) [0..<?c + k] ! i = (pipe_queue p s @ take k bs) ! i"
      using m(2) [OF i(2)] by (simp add: pipe_queue_def nth_append)
  qed (use ok(4) in \<open>simp add: pipe_queue_def\<close>)
  finally have "pipe_queue p t = pipe_queue p s @ take k bs" .
  moreover have "pipe_ok p t"
    using uc ok by (simp add: pipe_ok_def t word_le_nat_alt)
  moreover have "length (pipe_queue p s) = ?c"
    by (simp add: pipe_queue_def)
  moreover have "fst (pipe_write p bs s) = k"
    by (simp add: w)
  ultimately show ?thesis
    unfolding t_def [symmetric] by (simp add: k_def)
qed

interpretation pipe: byte_queue "pipe_write p" "pipe_read p" "pipe_ok p" "pipe_queue p" 4096 for p
proof
  fix s :: "'a kernel_scheme"
  show "pipe_ok p s \<Longrightarrow> length (pipe_queue p s) \<le> 4096"
    by (simp add: pipe_ok_def pipe_queue_def word_le_nat_alt)
qed (use pipe_read_queue pipe_write_queue in blast)+

section \<open>Properties\<close>

text \<open>
  C24: writing to and reading from a pipe's descriptors. A write takes as many bytes as there is room
  for in 4096 and appends them to the bytes in the pipe; a read returns the first bytes in the
  pipe, as many as asked for and there are, and removes just those. Neither ever waits: a full pipe
  takes 0 bytes and an empty one gives 0.
\<close>

theorem pipe_fd_queue:
  assumes "pipe_ok p s" "fd_get fd s \<noteq> 0" "o_pipe (open_files s (fd_get fd s)) = p"
  shows "(o_type (open_files s (fd_get fd s)) = FD_PIPE_W \<longrightarrow>
      (\<exists>t. task_fd_write fd bs s = (int (min (length bs) (4096 - length (pipe_queue p s))), t) \<and> pipe_ok p t \<and>
         pipe_queue p t = pipe_queue p s @ take (4096 - length (pipe_queue p s)) bs)) \<and>
    (o_type (open_files s (fd_get fd s)) = FD_PIPE_R \<longrightarrow>
      (\<exists>t. task_fd_read fd len s =
           Some (int (min (unat len) (length (pipe_queue p s))), take (unat len) (pipe_queue p s), t) \<and>
         pipe_ok p t \<and> pipe_queue p t = drop (unat len) (pipe_queue p s)))"
proof (intro conjI impI)
  assume w: "o_type (open_files s (fd_get fd s)) = FD_PIPE_W"
  show "\<exists>t. task_fd_write fd bs s = (int (min (length bs) (4096 - length (pipe_queue p s))), t) \<and> pipe_ok p t \<and>
         pipe_queue p t = pipe_queue p s @ take (4096 - length (pipe_queue p s)) bs"
    using task_fd_write_pipe [OF refl assms(2) w, of bs] pipe.put_count [OF assms(1), of bs]
      pipe.put_queue [OF assms(1), of bs] pipe.put_ok [OF assms(1), of bs]
    by (intro exI [of _ "snd (pipe_write p bs s)"]) (auto simp: assms(3) split_def min_def)
next
  assume r: "o_type (open_files s (fd_get fd s)) = FD_PIPE_R"
  have "length (pipe_queue p s) = unat (p_count (pipes s p))"
    by (simp add: pipe_queue_def)
  then show "\<exists>t. task_fd_read fd len s =
         Some (int (min (unat len) (length (pipe_queue p s))), take (unat len) (pipe_queue p s), t) \<and>
         pipe_ok p t \<and> pipe_queue p t = drop (unat len) (pipe_queue p s)"
    using task_fd_read_pipe [OF refl assms(2) r, of len] pipe.get_bytes [OF assms(1), of "unat len"]
      pipe.get_queue [OF assms(1), of "unat len"] pipe.get_ok [OF assms(1), of "unat len"]
    by (cases "pipe_read p (unat len) s") (simp add: assms(3))
qed

text \<open>
  C25: a pipe is first in, first out: over any sequence of writes and reads, the bytes read followed
  by those still in the pipe are the bytes that were in it at the start followed by those the
  writes took. No byte is lost, doubled or reordered, however the ring wraps.
\<close>

theorem pipe_fifo:
  assumes "pipe_ok p s" "byte_queue.run (pipe_write p) (pipe_read p) ops s = (taken, given, t)"
  shows "pipe_ok p t \<and> pipe_queue p s @ taken = given @ pipe_queue p t"
  by (rule pipe.run_fifo [OF assms])

text \<open>A task with an empty pipe on the descriptors 0 and 1, the ring about to wrap.\<close>

definition example_pipe :: kernel where
  "example_pipe = console.extend example_screen
     (kernel.fields
       ((\<lambda>_. zero_task)(0x100 := zero_task\<lparr>t_pid := 1, t_state := TASK_RUNNABLE, t_fds := [0x200, 0x300]\<rparr>))
       [0x100]
       ((\<lambda>_. \<lparr>o_refs = 1, o_type = FD_PIPE_R, o_pipe = 0x400, o_file = zero_file\<rparr>)
          (0x300 := \<lparr>o_refs = 1, o_type = FD_PIPE_W, o_pipe = 0x400, o_file = zero_file\<rparr>))
       (\<lambda>_. \<lparr>p_refs = 2, p_head = 4095, p_count = 0, p_page = 0x1000, p_data = 0xffff800000001000\<rparr>)
       2 0x100 [] 0 0 [] [] False)"

lemma example_pipe_fields:
  "pipes example_pipe = (\<lambda>_. \<lparr>p_refs = 2, p_head = 4095, p_count = 0, p_page = 0x1000, p_data = 0xffff800000001000\<rparr>)"
  "fd_get 0 example_pipe = 0x200" "fd_get 1 example_pipe = 0x300"
  "o_type (open_files example_pipe 0x200) = FD_PIPE_R" "o_type (open_files example_pipe 0x300) = FD_PIPE_W"
  "o_pipe (open_files example_pipe 0x200) = 0x400" "o_pipe (open_files example_pipe 0x300) = 0x400"
  by (simp_all add: example_pipe_def console.defs kernel.defs fd_get_def)

lemma example_pipe_ok: "pipe_ok 0x400 example_pipe" "pipe_queue 0x400 example_pipe = []"
  by (simp_all add: pipe_ok_def pipe_queue_def example_pipe_fields)

theorem pipe_fd_queue_witness:
  "\<exists>t. task_fd_write 1 [7, 8, 9] example_pipe = (3, t) \<and> pipe_queue 0x400 t = [7, 8, 9]"
  using pipe_fd_queue [OF example_pipe_ok(1), of 1 "[7, 8, 9]" 5]
  by (auto simp: example_pipe_fields example_pipe_ok)

theorem pipe_fifo_witness:
  "\<exists>taken given t. byte_queue.run (pipe_write 0x400) (pipe_read 0x400) [Inl [7, 8, 9], Inr 2] example_pipe = (taken, given, t) \<and>
     taken = given @ pipe_queue 0x400 t"
proof -
  obtain taken given t where r:
    "byte_queue.run (pipe_write 0x400) (pipe_read 0x400) [Inl [7, 8, 9], Inr 2] example_pipe = (taken, given, t)"
    by (metis prod_cases3)
  then show ?thesis
    using pipe_fifo [OF example_pipe_ok(1) r] by (auto simp: example_pipe_ok)
qed

end
