(* ===== verification/Task_Sched.thy ===== *)
theory Task_Sched
  imports Task_Pipe
begin

text \<open>
  The scheduler and the process numbers of \<open>kernel/task.c\<close>: the search for the next task goes once
  around the list and always ends, yielding is fair, and a process number is always found and never
  one in use.
\<close>

section \<open>The circular order of tasks\<close>

text \<open>The list has no task twice and the current task, when there is one, is in it.\<close>

definition sched_ok :: "'a kernel_scheme \<Rightarrow> bool" where
  "sched_ok s \<longleftrightarrow> distinct (task_list s) \<and> 0 \<notin> set (task_list s) \<and> (current s \<noteq> 0 \<longrightarrow> current s \<in> set (task_list s))"

definition runnable :: "'a kernel_scheme \<Rightarrow> u64 \<Rightarrow> bool" where
  "runnable s t \<longleftrightarrow> t_state (tasks s t) = TASK_RUNNABLE"

text \<open>The tasks in the order the scheduler tries them: from behind the current one, which is last.\<close>

definition ring :: "'a kernel_scheme \<Rightarrow> u64 list" where
  "ring s = (if current s = 0 then task_list s
     else tl (dropWhile (\<lambda>u. u \<noteq> current s) (task_list s)) @ takeWhile (\<lambda>u. u \<noteq> current s) (task_list s) @ [current s])"

lemma while_split:
  "t \<notin> set xs \<Longrightarrow> dropWhile (\<lambda>u. u \<noteq> t) (xs @ t # ys) = t # ys"
  "t \<notin> set xs \<Longrightarrow> takeWhile (\<lambda>u. u \<noteq> t) (xs @ t # ys) = xs"
  by (induction xs) auto

lemma split_at_current:
  assumes "sched_ok s" "current s \<noteq> 0"
  obtains xs ys where "task_list s = xs @ current s # ys" "ring s = ys @ xs @ [current s]"
proof -
  obtain xs ys where l: "task_list s = xs @ current s # ys" "current s \<notin> set xs"
    using assms by (metis sched_ok_def split_list_first)
  then have "dropWhile (\<lambda>u. u \<noteq> current s) (task_list s) = current s # ys"
    "takeWhile (\<lambda>u. u \<noteq> current s) (task_list s) = xs"
    by (simp_all add: while_split)
  then show thesis
    using l assms(2) by (intro that [of xs ys]) (simp_all add: ring_def)
qed

lemma set_ring: "sched_ok s \<Longrightarrow> set (ring s) = set (task_list s)"
  and distinct_ring: "sched_ok s \<Longrightarrow> distinct (ring s)"
  and length_ring: "sched_ok s \<Longrightarrow> length (ring s) = length (task_list s)"
proof -
  assume s: "sched_ok s"
  have "set (ring s) = set (task_list s) \<and> distinct (ring s) \<and> length (ring s) = length (task_list s)"
  proof (cases "current s = 0")
    case True
    then show ?thesis
      using s by (simp add: ring_def sched_ok_def)
  next
    case False
    then obtain xs ys where "task_list s = xs @ current s # ys" "ring s = ys @ xs @ [current s]"
      using s split_at_current by blast
    then show ?thesis
      using s by (auto simp: sched_ok_def)
  qed
  then show "set (ring s) = set (task_list s)" "distinct (ring s)" "length (ring s) = length (task_list s)"
    by blast+
qed

text \<open>\<open>after\<close> steps along any rotation of the list.\<close>

lemma after_next:
  assumes "distinct (task_list s)" "0 \<notin> set (task_list s)" "task_list s = xs @ t # ys"
  shows "after s t = hd (ys @ xs @ [t])"
proof -
  have "t \<notin> set xs" "t \<noteq> 0"
    using assms by auto
  then have d: "dropWhile (\<lambda>u. u \<noteq> t) (task_list s) = t # ys"
    using assms(3) by (simp add: while_split)
  show ?thesis
  proof (cases ys)
    case Nil
    then show ?thesis
      using d \<open>t \<noteq> 0\<close> assms(3) by (cases xs) (simp_all add: after_def Let_def)
  next
    case (Cons y zs)
    then show ?thesis
      using d \<open>t \<noteq> 0\<close> by (simp add: after_def Let_def)
  qed
qed

lemma after_ring:
  assumes "sched_ok s" "ring s = us @ t # v # ws"
  shows "after s t = v"
proof -
  have d: "distinct (task_list s)" "0 \<notin> set (task_list s)"
    using assms(1) by (simp_all add: sched_ok_def)
  show ?thesis
  proof (cases "current s = 0")
    case True
    then show ?thesis
      using after_next [OF d, of us t "v # ws"] assms(2) by (simp add: ring_def)
  next
    case False
    then obtain xs ys where l: "task_list s = xs @ current s # ys" and r: "ring s = ys @ xs @ [current s]"
      using assms(1) split_at_current by blast
    have "us @ t # v # ws = ys @ xs @ [current s]"
      using assms(2) r by simp
    then have "(\<exists>zs. ys = us @ t # v # zs) \<or> ys = us @ [t] \<and> v # ws = xs @ [current s] \<or>
        (\<exists>zs. us = ys @ zs \<and> zs @ t # v # ws = xs @ [current s])"
      by (auto simp: append_eq_append_conv2 Cons_eq_append_conv append_eq_Cons_conv)
    then consider zs where "ys = us @ t # v # zs" | "ys = us @ [t]" "v # ws = xs @ [current s]"
      | zs where "us = ys @ zs" "zs @ t # v # ws = xs @ [current s]"
      by blast
    then show ?thesis
    proof cases
      case 1
      then show ?thesis
        using after_next [OF d, of "xs @ current s # us" t "v # zs"] l by simp
    next
      case 2
      then have "task_list s = (xs @ current s # us) @ t # []" "hd (xs @ [current s]) = v"
        using l by (auto simp flip: 2(2))
      then show ?thesis
        using after_next [OF d, of "xs @ current s # us" t "[]"] by (cases xs) simp_all
    next
      case 3
      then have "(\<exists>z2. xs = zs @ t # v # z2) \<or> xs = zs @ [t] \<and> v = current s"
        by (auto simp: append_eq_append_conv2 Cons_eq_append_conv append_eq_Cons_conv)
      then show ?thesis
        using after_next [OF d, of zs t] l by auto
    qed
  qed
qed

lemma after_ring_last:
  assumes "sched_ok s" "ring s = us @ [t]"
  shows "after s t = hd (ring s)"
proof -
  have d: "distinct (task_list s)" "0 \<notin> set (task_list s)"
    using assms(1) by (simp_all add: sched_ok_def)
  show ?thesis
  proof (cases "current s = 0")
    case True
    then show ?thesis
      using after_next [OF d, of us t "[]"] assms(2) by (simp add: ring_def)
  next
    case False
    then obtain xs ys where l: "task_list s = xs @ current s # ys" and r: "ring s = ys @ xs @ [current s]"
      using assms(1) split_at_current by blast
    then show ?thesis
      using after_next [OF d l] assms(2) by simp
  qed
qed

lemma after_current: "sched_ok s \<Longrightarrow> after s (current s) = (if ring s = [] then 0 else hd (ring s))"
proof (cases "current s = 0")
  case True
  then show ?thesis
    by (cases "task_list s") (simp_all add: ring_def after_def)
next
  case False
  assume s: "sched_ok s"
  then obtain xs ys where l: "task_list s = xs @ current s # ys" and r: "ring s = ys @ xs @ [current s]"
    using False split_at_current by blast
  then show ?thesis
    using after_next [of s xs "current s" ys] s by (simp add: sched_ok_def)
qed

section \<open>The search\<close>

lemma next_from_suffix:
  assumes "sched_ok s" "ring s = us @ t # ws"
  shows "next_from (hd (ring s)) t s = Some (case List.find (runnable s) (t # ws) of None \<Rightarrow> 0 | Some u \<Rightarrow> u)"
  using assms(2)
proof (induction ws arbitrary: us t)
  case Nil
  have "t \<noteq> 0"
    using set_ring [OF assms(1)] Nil assms(1) by (auto simp: sched_ok_def)
  then show ?case
    using after_ring_last [OF assms(1) Nil] by (simp add: next_from.simps [of _ t] runnable_def)
next
  case (Cons v ws)
  have z: "t \<noteq> 0"
    using set_ring [OF assms(1)] Cons.prems assms(1) by (auto simp: sched_ok_def)
  have "v \<noteq> hd (ring s)"
    using distinct_ring [OF assms(1)] Cons.prems by (cases us) auto
  moreover have "next_from (hd (ring s)) v s = Some (case List.find (runnable s) (v # ws) of None \<Rightarrow> 0 | Some u \<Rightarrow> u)"
    using Cons.prems by (intro Cons.IH [of "us @ [t]"]) simp
  ultimately show ?case
    using z after_ring [OF assms(1) Cons.prems] by (simp add: next_from.simps [of _ t] flip: runnable_def)
qed

lemma next_task_find:
  assumes "sched_ok s"
  shows "next_task s = Some (case List.find (runnable s) (ring s) of None \<Rightarrow> 0 | Some u \<Rightarrow> u)"
proof (cases "ring s")
  case Nil
  then show ?thesis
    using after_current [OF assms] by (simp add: next_task_def next_from.simps)
next
  case (Cons t ws)
  then show ?thesis
    using after_current [OF assms] next_from_suffix [OF assms, of "[]" t ws] by (simp add: next_task_def)
qed

section \<open>Switching\<close>

text \<open>What a switch keeps of the scheduler's view, and the state of every task.\<close>

lemma upd_task_fields [simp]:
  "tasks (upd_task a f s) = (tasks s)(a := f (tasks s a))" "task_list (upd_task a f s) = task_list s"
  "current (upd_task a f s) = current s" "next_pid (upd_task a f s) = next_pid s" "fpu (upd_task a f s) = fpu s"
  by (simp_all add: upd_task_def)

lemma switch_to_fields:
  assumes "switch_to nxt frame s = (fr, t)"
  shows "task_list t = task_list s" "current t = nxt" "t_state (tasks t u) = t_state (tasks s u)"
    "t_pid (tasks t u) = t_pid (tasks s u)" "fr = t_frame (tasks t nxt)"
    "t_frame (tasks t u) = (if u = current s \<and> u \<noteq> 0 then frame else t_frame (tasks s u))"
    "tls t = t_fs_base (tasks s nxt)" "cr3 t = t_space (tasks s nxt)" "current_space t = t_space (tasks s nxt)"
    "nxt \<noteq> current s \<or> current s = 0 \<Longrightarrow> fpu t = t_arch (tasks s nxt)"
  using assms
  by (auto simp: switch_to_def Let_def arch_task_state_save_def arch_task_state_restore_def arch_set_tls_def
      vmm_space_activate_def)

section \<open>Fairness\<close>

text \<open>Yields one after the other, each with the frame of the task that traps.\<close>

fun yields :: "task_frame list \<Rightarrow> 'a kernel_scheme \<Rightarrow> 'a kernel_scheme option" where
  "yields [] s = Some s"
| "yields (f # fs) s = (case task_yield f s of None \<Rightarrow> None | Some (_, s) \<Rightarrow> yields fs s)"

lemma find_first: "\<forall>u \<in> set us. \<not> P u \<Longrightarrow> P v \<Longrightarrow> List.find P (us @ v # ws) = Some v"
  by (induction us) auto

lemma yield_step:
  assumes "sched_ok s" "ring s = us @ v # ws" "\<forall>u \<in> set us. \<not> runnable s u" "runnable s v" "task_yield f s = Some (g, t)"
  shows "current t = v \<and> sched_ok t \<and> task_list t = task_list s \<and> runnable t = runnable s"
proof -
  have "List.find (runnable s) (ring s) = Some v"
    unfolding assms(2) using assms(3,4) by (rule find_first)
  then have n: "next_task s = Some v"
    by (simp add: next_task_find [OF assms(1)])
  have v: "v \<in> set (task_list s)" "v \<noteq> 0"
    using set_ring [OF assms(1)] assms(1,2) by (auto simp: sched_ok_def)
  show ?thesis
  proof (cases "v = current s")
    case True
    then show ?thesis
      using n assms(1,5) by (simp add: task_yield_def)
  next
    case False
    then have "switch_to v f s = (g, t)"
      using n v(2) assms(5) by (simp add: task_yield_def)
    note sw = switch_to_fields [OF this]
    have "runnable t = runnable s"
      by (simp add: runnable_def sw(3) fun_eq_iff)
    then show ?thesis
      using sw v assms(1) by (simp add: sched_ok_def)
  qed
qed

lemma ring_of_next:
  assumes "sched_ok s" "ring s = us @ v # ws" "current t = v" "task_list t = task_list s"
  shows "ring t = ws @ us @ [v]"
proof (cases "current s = 0")
  case True
  then have "task_list t = us @ v # ws" "v \<notin> set us" "v \<noteq> 0"
    using assms by (auto simp: ring_def sched_ok_def)
  then show ?thesis
    using assms(3) by (simp add: ring_def while_split)
next
  case False
  then obtain xs ys where l: "task_list s = xs @ current s # ys" and r: "ring s = ys @ xs @ [current s]"
    using assms(1) split_at_current by blast
  have d: "distinct (task_list s)" "0 \<notin> set (task_list s)"
    using assms(1) by (simp_all add: sched_ok_def)
  have "v \<in> set (task_list s)"
    using set_ring [OF assms(1)] assms(2) by auto
  then have "v \<noteq> 0"
    using d(2) by blast
  have rt: "ring t = b @ a @ [v]" if "task_list s = a @ v # b" for a b
    using that d(1) \<open>v \<noteq> 0\<close> assms(3,4) by (auto simp: ring_def while_split)
  have eq: "us @ v # ws = ys @ xs @ [current s]"
    using assms(2) r by simp
  obtain zs where "us = ys @ zs \<and> zs @ v # ws = xs @ [current s] \<or> us @ zs = ys \<and> v # ws = zs @ xs @ [current s]"
    using eq by (auto simp: append_eq_append_conv2)
  then consider zs where "ys = us @ v # zs" "ws = zs @ xs @ [current s]" | zs where "us = ys @ zs" "zs @ v # ws = xs @ [current s]"
    by (cases zs) auto
  then show ?thesis
  proof cases
    case 1
    then show ?thesis
      using rt [of "xs @ current s # us" zs] l by simp
  next
    case 2
    then consider z2 where "xs = zs @ v # z2" "ws = z2 @ [current s]" | "zs = xs" "v = current s" "ws = []"
      by (auto simp: append_eq_append_conv2 Cons_eq_append_conv append_eq_Cons_conv)
    then show ?thesis
    proof cases
      case a: 1
      then show ?thesis
        using rt [of zs "z2 @ current s # ys"] l 2 by simp
    next
      case b: 2
      then show ?thesis
        using rt [of xs ys] l 2 by simp
    qed
  qed
qed

lemma yields_reach:
  assumes "sched_ok s" "ring s = us @ u # ws" "runnable s u" "length us < length fs"
  shows "\<exists>k \<le> length us. \<exists>t. yields (take (Suc k) fs) s = Some t \<and> current t = u"
  using assms
proof (induction "length us" arbitrary: us ws s fs rule: less_induct)
  case less
  obtain f fs' where fs: "fs = f # fs'"
    using less.prems(4) by (cases fs) auto
  obtain g t where y: "task_yield f s = Some (g, t)"
    by (cases "task_yield f s") (auto simp: task_yield_def next_task_find [OF less.prems(1)] split: if_splits)
  show ?case
  proof (cases "\<exists>v \<in> set us. runnable s v")
    case False
    then have "current t = u"
      using yield_step [OF less.prems(1,2) _ less.prems(3) y] by blast
    then show ?thesis
      using y by (intro exI [of _ 0]) (simp add: fs)
  next
    case True
    then obtain us1 v us2 where us: "us = us1 @ v # us2" "runnable s v" "\<forall>x \<in> set us1. \<not> runnable s x"
      by (metis split_list_first_prop)
    have r: "ring s = us1 @ v # (us2 @ u # ws)"
      using less.prems(2) us(1) by simp
    have t: "current t = v" "sched_ok t" "task_list t = task_list s" "runnable t = runnable s"
      using yield_step [OF less.prems(1) r us(3,2) y] by blast+
    have "ring t = us2 @ u # (ws @ us1 @ [v])"
      using ring_of_next [OF less.prems(1) r t(1,3)] by simp
    then obtain k t' where k: "k \<le> length us2" "yields (take (Suc k) fs') t = Some t'" "current t' = u"
      using less.hyps [of us2 t "ws @ us1 @ [v]" fs'] less.prems(3,4) us(1) t(2,4) fs by auto
    then show ?thesis
      using y us(1) by (intro exI [of _ "Suc k"]) (simp add: fs)
  qed
qed

section \<open>Process numbers\<close>

definition next_number :: "int \<Rightarrow> int" where
  "next_number pid = (if pid = INT32_MAX then 1 else pid + 1)"

definition pid_used :: "'a kernel_scheme \<Rightarrow> int \<Rightarrow> bool" where
  "pid_used s pid \<longleftrightarrow> (\<exists>t \<in> set (task_list s). t_pid (tasks s t) = pid)"

lemma find_task_0:
  assumes "0 \<notin> set (task_list s)"
  shows "find_task pid s = 0 \<longleftrightarrow> \<not> pid_used s pid"
  using assms unfolding find_task_def pid_used_def
  by (auto split: option.splits simp: find_None_iff find_Some_iff) (metis nth_mem)

lemma alloc_pid_steps:
  assumes "0 \<notin> set (task_list s)" "\<forall>j < k. pid_used s ((next_number ^^ j) (next_pid s))"
    "\<not> pid_used s ((next_number ^^ k) (next_pid s))"
  shows "alloc_pid s = Some ((next_number ^^ k) (next_pid s), s\<lparr>next_pid := (next_number ^^ Suc k) (next_pid s)\<rparr>)"
  using assms
proof (induction k arbitrary: s)
  case 0
  show ?case
  proof -
    let ?t = "s\<lparr>next_pid := next_number (next_pid s)\<rparr>"
    have "find_task (next_pid s) ?t = 0"
      using 0 find_task_0 [of ?t "next_pid s"] by (simp add: pid_used_def)
    then show ?thesis
      by (simp add: alloc_pid.simps [of s] Let_def next_number_def)
  qed
next
  case (Suc k)
  let ?t = "s\<lparr>next_pid := next_number (next_pid s)\<rparr>"
  have used: "pid_used ?t = pid_used s"
    by (simp add: pid_used_def fun_eq_iff)
  have "pid_used s (next_pid s)"
    using Suc.prems(2) by force
  then have f: "find_task (next_pid s) ?t \<noteq> 0"
    using find_task_0 [of ?t] Suc.prems(1) used by simp
  have sh: "(next_number ^^ j) (next_number (next_pid s)) = (next_number ^^ Suc j) (next_pid s)" for j
    by (simp add: funpow_swap1)
  have "alloc_pid s = alloc_pid ?t"
    using f by (simp add: alloc_pid.simps [of s] Let_def next_number_def)
  also have "\<dots> = Some ((next_number ^^ k) (next_pid ?t), ?t\<lparr>next_pid := (next_number ^^ Suc k) (next_pid ?t)\<rparr>)"
  proof (rule Suc.IH)
    show "\<forall>j < k. pid_used ?t ((next_number ^^ j) (next_pid ?t))"
      using Suc.prems(2) by (auto simp: used sh simp del: funpow.simps)
    show "\<not> pid_used ?t ((next_number ^^ k) (next_pid ?t))"
      using Suc.prems(3) by (simp add: used sh del: funpow.simps)
  qed (use Suc.prems(1) in simp)
  finally show ?case
    by (simp add: sh del: funpow.simps)
qed

text \<open>The numbers tried: a cycle through all of \<open>1..INT32_MAX\<close>.\<close>

lemma mod_step:
  assumes "0 < (n :: int)"
  shows "(x + 1) mod n = (if x mod n = n - 1 then 0 else x mod n + 1)"
proof (cases "x mod n = n - 1")
  case True
  then show ?thesis
    using mod_add_left_eq [of x n 1] by simp
next
  case False
  then have "x mod n + 1 < n" "0 \<le> x mod n"
    using pos_mod_bound [OF assms, of x] pos_mod_sign [OF assms, of x] by linarith+
  then show ?thesis
    using False mod_add_left_eq [of x n 1] mod_pos_pos_trivial [of "x mod n + 1" n] by simp
qed

lemma next_number_iter:
  assumes "1 \<le> pid" "pid \<le> INT32_MAX"
  shows "(next_number ^^ k) pid = (pid - 1 + int k) mod INT32_MAX + 1"
proof (induction k)
  case 0
  then show ?case
    using mod_pos_pos_trivial [of "pid - 1" INT32_MAX] assms by simp
next
  case (Suc k)
  have "next_number (m + 1) = (if m = INT32_MAX - 1 then 0 else m + 1) + 1" for m :: int
    unfolding next_number_def by auto
  moreover have "(pid - 1 + int (Suc k)) mod INT32_MAX = (pid - 1 + int k + 1) mod INT32_MAX"
    by (simp only: of_nat_Suc add_ac)
  moreover have "(next_number ^^ Suc k) pid = next_number ((pid - 1 + int k) mod INT32_MAX + 1)"
    by (simp only: funpow.simps o_apply Suc.IH)
  ultimately show ?case
    using mod_step [of INT32_MAX "pid - 1 + int k"] by (simp only: zero_less_numeral simp_thms)
qed

lemma free_number:
  assumes "length (task_list s) < 2147483647" "1 \<le> next_pid s" "next_pid s \<le> INT32_MAX"
  shows "\<exists>k \<le> length (task_list s). \<not> pid_used s ((next_number ^^ k) (next_pid s))"
proof (rule ccontr)
  let ?g = "\<lambda>k. (next_number ^^ k) (next_pid s)" and ?K = "{..length (task_list s)}"
  assume "\<not> ?thesis"
  then have "?g ` ?K \<subseteq> (\<lambda>t. t_pid (tasks s t)) ` set (task_list s)"
    unfolding pid_used_def image_subset_iff image_iff by force
  then have "card (?g ` ?K) \<le> card ((\<lambda>t. t_pid (tasks s t)) ` set (task_list s))"
    by (intro card_mono) simp_all
  also have "\<dots> \<le> length (task_list s)"
    by (meson List.finite_set card_image_le card_length order_trans)
  finally have le: "card (?g ` ?K) \<le> length (task_list s)" .
  have "inj_on ?g ?K"
  proof (rule inj_onI)
    fix j k
    assume jk: "j \<in> ?K" "k \<in> ?K" "?g j = ?g k"
    then have "(next_pid s - 1 + int j) mod INT32_MAX = (next_pid s - 1 + int k) mod INT32_MAX"
      using next_number_iter [OF assms(2,3)] by simp
    then have "(next_pid s - 1 + int j - (next_pid s - 1)) mod INT32_MAX = (next_pid s - 1 + int k - (next_pid s - 1)) mod INT32_MAX"
      by (rule mod_diff_cong [OF _ refl])
    then have "int j mod INT32_MAX = int k mod INT32_MAX"
      by (simp only: add_diff_cancel_left')
    moreover have "int j < INT32_MAX" "int k < INT32_MAX"
      using jk(1,2) assms(1) by simp_all
    ultimately have "int j = int k"
      by (simp only: mod_pos_pos_trivial of_nat_0_le_iff)
    then show "j = k"
      by simp
  qed
  then have "card (?g ` ?K) = Suc (length (task_list s))"
    by (simp add: card_image)
  then show False
    using le by simp
qed

section \<open>Properties\<close>

text \<open>
  C26: the search for the next task always ends, and finds the first runnable task behind the current
  one in the circle of tasks, the current task itself last; it gives 0 exactly when no task is
  runnable.
\<close>

theorem next_task_first:
  assumes "sched_ok s"
  shows "\<exists>t. next_task s = Some t \<and>
    (if \<forall>u \<in> set (task_list s). \<not> runnable s u then t = 0
     else \<exists>us ws. ring s = us @ t # ws \<and> runnable s t \<and> (\<forall>u \<in> set us. \<not> runnable s u)) \<and>
    set (ring s) = set (task_list s) \<and> distinct (ring s) \<and> (current s \<noteq> 0 \<longrightarrow> last (ring s) = current s)"
proof -
  have "last (ring s) = current s" if "current s \<noteq> 0"
    using that by (simp add: ring_def)
  moreover have "\<exists>t. next_task s = Some t \<and>
    (if \<forall>u \<in> set (task_list s). \<not> runnable s u then t = 0
     else \<exists>us ws. ring s = us @ t # ws \<and> runnable s t \<and> (\<forall>u \<in> set us. \<not> runnable s u))"
  proof (cases "\<forall>u \<in> set (task_list s). \<not> runnable s u")
    case True
    then have "List.find (runnable s) (ring s) = None"
      by (simp add: find_None_iff set_ring [OF assms])
    then show ?thesis
      using True by (simp add: next_task_find [OF assms])
  next
    case False
    then have "\<exists>t \<in> set (ring s). runnable s t"
      by (simp add: set_ring [OF assms])
    then obtain us t ws where r: "ring s = us @ t # ws" "runnable s t" "\<forall>u \<in> set us. \<not> runnable s u"
      using split_list_first_prop [of "ring s" "runnable s"] by blast
    have "List.find (runnable s) (ring s) = Some t"
      unfolding r(1) using r(3,2) by (rule find_first)
    then show ?thesis
      using False r by (auto simp: next_task_find [OF assms])
  qed
  ultimately show ?thesis
    by (simp only: set_ring [OF assms] distinct_ring [OF assms] simp_thms) fast
qed

text \<open>
  C27: the scheduler is fair. Whatever the frames the tasks trap with, when each task that gets the
  processor yields, every runnable task gets it within as many yields as there are tasks.
\<close>

theorem yield_fair:
  assumes "sched_ok s" "u \<in> set (task_list s)" "runnable s u" "length (task_list s) \<le> length fs"
  shows "\<exists>k \<le> length (task_list s). \<exists>t. yields (take k fs) s = Some t \<and> current t = u"
proof -
  obtain us ws where r: "ring s = us @ u # ws"
    using assms(2) set_ring [OF assms(1)] by (metis split_list)
  then have l: "length us < length (task_list s)"
    using length_ring [OF assms(1)] by (metis add_Suc_right length_Cons length_append less_add_Suc1)
  then obtain k t where "k \<le> length us" "yields (take (Suc k) fs) s = Some t" "current t = u"
    using yields_reach [OF assms(1) r assms(3), of fs] assms(4) by auto
  then show ?thesis
    using l by (intro exI [of _ "Suc k"]) auto
qed

text \<open>
  C28: a new process number always exists while there are fewer tasks than numbers, the search for it
  ends, and it is positive and borne by no task.
\<close>

theorem alloc_pid_fresh:
  assumes "0 \<notin> set (task_list s)" "length (task_list s) < 2147483647" "1 \<le> next_pid s" "next_pid s \<le> INT32_MAX"
  shows "\<exists>pid n. alloc_pid s = Some (pid, s\<lparr>next_pid := n\<rparr>) \<and> 1 \<le> pid \<and> pid \<le> INT32_MAX \<and> 1 \<le> n \<and> n \<le> INT32_MAX \<and>
    (\<forall>t \<in> set (task_list s). t_pid (tasks s t) \<noteq> pid)"
proof -
  define k where "k = (LEAST k. \<not> pid_used s ((next_number ^^ k) (next_pid s)))"
  have k: "\<not> pid_used s ((next_number ^^ k) (next_pid s))" "\<forall>j < k. pid_used s ((next_number ^^ j) (next_pid s))"
    using free_number [OF assms(2-4)] LeastI [of "\<lambda>k. \<not> pid_used s ((next_number ^^ k) (next_pid s))"]
    by (auto simp: k_def dest: not_less_Least)
  have b: "1 \<le> (next_number ^^ j) (next_pid s) \<and> (next_number ^^ j) (next_pid s) \<le> INT32_MAX" for j
  proof -
    have "0 \<le> (next_pid s - 1 + int j) mod INT32_MAX" "(next_pid s - 1 + int j) mod INT32_MAX < INT32_MAX"
      by simp_all
    then show ?thesis
      unfolding next_number_iter [OF assms(3,4)] by linarith
  qed
  show ?thesis
    using alloc_pid_steps [OF assms(1) k(2,1)] k(1) b [of k] b [of "Suc k"]
    by (auto simp: pid_used_def simp del: funpow.simps)
qed

text \<open>Two tasks, the first one running and the second one ready; number 1 and 2 are taken.\<close>

definition example_two :: kernel where
  "example_two = example_pipe\<lparr>
     tasks := (\<lambda>_. zero_task)(0x100 := zero_task\<lparr>t_pid := 1, t_state := TASK_RUNNABLE\<rparr>,
                              0x200 := zero_task\<lparr>t_pid := 2, t_state := TASK_RUNNABLE\<rparr>),
     task_list := [0x100, 0x200], current := 0x100, next_pid := 2\<rparr>"

lemma example_two_fields:
  "task_list example_two = [0x100, 0x200]" "current example_two = 0x100" "next_pid example_two = 2"
  "tasks example_two = (\<lambda>_. zero_task)(0x100 := zero_task\<lparr>t_pid := 1, t_state := TASK_RUNNABLE\<rparr>,
                              0x200 := zero_task\<lparr>t_pid := 2, t_state := TASK_RUNNABLE\<rparr>)"
  by (simp_all add: example_two_def)

lemma example_two_ok: "sched_ok example_two" "runnable example_two 0x200" "ring example_two = [0x200, 0x100]"
  by (simp_all add: sched_ok_def runnable_def ring_def example_two_fields)

theorem next_task_first_witness: "next_task example_two = Some 0x200"
proof -
  obtain t where t: "next_task example_two = Some t"
    "if \<forall>u \<in> set (task_list example_two). \<not> runnable example_two u then t = 0
     else \<exists>us ws. ring example_two = us @ t # ws \<and> runnable example_two t \<and> (\<forall>u \<in> set us. \<not> runnable example_two u)"
    using next_task_first [OF example_two_ok(1)] by blast
  then obtain us ws where "ring example_two = us @ t # ws" "\<forall>u \<in> set us. \<not> runnable example_two u"
    using example_two_ok(2) by (auto simp: example_two_fields split: if_splits)
  then show ?thesis
    using t(1) example_two_ok(2,3) by (cases us) auto
qed

theorem yield_fair_witness:
  "\<exists>k \<le> 2. \<exists>t. yields (take k [zero_frame, zero_frame]) example_two = Some t \<and> current t = 0x200"
proof -
  have "0x200 \<in> set (task_list example_two)" "length (task_list example_two) \<le> length [zero_frame, zero_frame]"
    by (simp_all add: example_two_fields)
  from yield_fair [OF example_two_ok(1) this(1) example_two_ok(2) this(2)] show ?thesis
    by (simp add: example_two_fields numeral_2_eq_2)
qed

theorem alloc_pid_fresh_witness:
  "\<exists>pid n. alloc_pid example_two = Some (pid, example_two\<lparr>next_pid := n\<rparr>) \<and> 1 \<le> pid \<and> pid \<noteq> 1 \<and> pid \<noteq> 2"
proof -
  have "0 \<notin> set (task_list example_two)" "length (task_list example_two) < 2147483647"
    "1 \<le> next_pid example_two" "next_pid example_two \<le> INT32_MAX"
    by (simp_all add: example_two_fields)
  from alloc_pid_fresh [OF this] show ?thesis
    by (auto simp: example_two_fields)
qed

end
