(* ===== verification/User_Elf.thy ===== *)
theory User_Elf
  imports Task
begin

text \<open>
  The program loader of \<open>kernel/user.c\<close>: an ELF executable is read from the file system into a
  buffer, checked, mapped segment by segment, and given a stack with its arguments, environment
  and auxiliary vector. The file's image is a list of bytes, the packed ELF structures are fields
  of it, little endian.
\<close>

section \<open>Little-endian fields\<close>

definition le_bytes :: "nat \<Rightarrow> u64 \<Rightarrow> u8 list" where
  "le_bytes n v = map (\<lambda>i. ucast (drop_bit (8 * i) v)) [0..<n]"

definition le_field :: "u8 list \<Rightarrow> nat \<Rightarrow> nat \<Rightarrow> u64" where
  "le_field bs off n = horner_sum ucast 256 (take n (drop off bs))"

abbreviation (input) USER_MIN :: u64 where "USER_MIN \<equiv> 0x400000"
abbreviation (input) USER_IMAGE_END :: u64 where "USER_IMAGE_END \<equiv> 0x10000000"
abbreviation (input) USER_STACK_TOP :: u64 where "USER_STACK_TOP \<equiv> 0x80000000"
abbreviation (input) USER_STACK_SIZE :: u64 where "USER_STACK_SIZE \<equiv> 65536"
abbreviation (input) PT_LOAD :: u32 where "PT_LOAD \<equiv> 1"
abbreviation (input) PT_PHDR :: u32 where "PT_PHDR \<equiv> 6"
abbreviation (input) PF_W :: u32 where "PF_W \<equiv> 2"

record elf64_ehdr =
  e_ident :: "u8 list"
  e_type :: u16
  e_machine :: u16
  e_entry :: u64
  e_phoff :: u64
  e_phentsize :: u16
  e_phnum :: u16

record elf64_phdr =
  ph_type :: u32
  ph_flags :: u32
  ph_offset :: u64
  ph_vaddr :: u64
  ph_filesz :: u64
  ph_memsz :: u64

definition ehdr_of :: "u8 list \<Rightarrow> elf64_ehdr" where
  "ehdr_of bs = \<lparr>e_ident = take 16 bs, e_type = ucast (le_field bs 16 2), e_machine = ucast (le_field bs 18 2),
     e_entry = le_field bs 24 8, e_phoff = le_field bs 32 8, e_phentsize = ucast (le_field bs 54 2),
     e_phnum = ucast (le_field bs 56 2)\<rparr>"

definition phdr_of :: "u8 list \<Rightarrow> nat \<Rightarrow> elf64_phdr" where
  "phdr_of bs off = \<lparr>ph_type = ucast (le_field bs off 4), ph_flags = ucast (le_field bs (off + 4) 4),
     ph_offset = le_field bs (off + 8) 8, ph_vaddr = le_field bs (off + 16) 8,
     ph_filesz = le_field bs (off + 32) 8, ph_memsz = le_field bs (off + 40) 8\<rparr>"

text \<open>The program headers the ELF header counts.\<close>

definition phdrs_of :: "u8 list \<Rightarrow> elf64_phdr list" where
  "phdrs_of bs =
     (let eh = ehdr_of bs in map (\<lambda>i. phdr_of bs (unat (e_phoff eh) + 56 * i)) [0..<unat (e_phnum eh)])"

section \<open>Writing to the new address space\<close>

definition page_down :: "u64 \<Rightarrow> u64" where
  "page_down x = x AND NOT (PAGE_SIZE - 1)"

definition page_up :: "u64 \<Rightarrow> u64" where
  "page_up x = (x + PAGE_SIZE - 1) AND NOT (PAGE_SIZE - 1)"

function copy_out :: "u64 \<Rightarrow> u64 \<Rightarrow> u8 list \<Rightarrow> 'a phys_scheme \<Rightarrow> int \<times> 'a phys_scheme" where
  "copy_out space dst bs s =
     (if bs = [] then (0, s)
      else let p = vmm_user_phys space dst s
           in if p = 0 then (-1, s)
              else let chunk = min (4096 - unat (dst AND (PAGE_SIZE - 1))) (length bs)
                   in copy_out space (dst + word_of_nat chunk) (drop chunk bs)
                        (s\<lparr>mem := mem_store (mem s) (phys_to_virt s p) (take chunk bs)\<rparr>))"
  by pat_completeness auto
termination
proof (relation "measure (\<lambda>(space, dst, bs, s). length bs)")
  fix space dst :: u64 and bs :: "u8 list" and s :: "'a phys_scheme" and p :: u64 and chunk :: nat
  assume "bs \<noteq> []" "chunk = min (4096 - unat (dst AND (PAGE_SIZE - 1))) (length bs)"
  moreover have "unat (dst AND (PAGE_SIZE - 1)) < 4096"
    using page_off_less [of dst] by (simp add: page_off_def word_less_nat_alt)
  ultimately show "((space, dst + word_of_nat chunk, drop chunk bs,
      s\<lparr>mem := mem_store (mem s) (phys_to_virt s p) (take chunk bs)\<rparr>), space, dst, bs, s)
      \<in> measure (\<lambda>(space, dst, bs, s). length bs)"
    by (cases bs) auto
qed simp

declare copy_out.simps [simp del]

definition zero_out :: "u64 \<Rightarrow> u64 \<Rightarrow> nat \<Rightarrow> 'a phys_scheme \<Rightarrow> int \<times> 'a phys_scheme" where
  "zero_out space dst n s = copy_out space dst (replicate n 0) s"

text \<open>The pages of \<^verbatim>\<open>map_range\<close>, from \<^verbatim>\<open>align_down(start)\<close> below \<^verbatim>\<open>align_up(end)\<close>.\<close>

definition range_pages :: "u64 \<Rightarrow> u64 \<Rightarrow> u64 list" where
  "range_pages start stop =
     map (\<lambda>i. page_down start + word_of_nat i * PAGE_SIZE) [0..<(unat (page_up stop) - unat (page_down start)) div 4096]"

fun map_pages :: "u64 \<Rightarrow> u64 list \<Rightarrow> 'a phys_scheme \<Rightarrow> int \<times> 'a phys_scheme" where
  "map_pages space [] s = (0, s)"
| "map_pages space (va # vas) s =
     (if vmm_user_phys space va s \<noteq> 0 then map_pages space vas s
      else let (frame, s) = pmm_alloc_page s
           in if frame = 0 then (-1, s)
              else let (r, s) = vmm_map_user space va frame VMM_WRITE s
                   in if r \<noteq> 0 then (-1, pmm_free_page frame s) else map_pages space vas s)"

definition map_range :: "u64 \<Rightarrow> u64 \<Rightarrow> u64 \<Rightarrow> 'a phys_scheme \<Rightarrow> int \<times> 'a phys_scheme" where
  "map_range space start stop s = map_pages space (range_pages start stop) s"

definition find_phdr :: "elf64_ehdr \<Rightarrow> elf64_phdr list \<Rightarrow> u64" where
  "find_phdr eh phs =
     (case List.find (\<lambda>p. ph_type p = PT_PHDR) phs of
        Some p \<Rightarrow> ph_vaddr p
      | None \<Rightarrow>
          let n = ucast (e_phnum eh) * ucast (e_phentsize eh)
          in case List.find (\<lambda>p. ph_type p = PT_LOAD \<and> e_phoff eh \<ge> ph_offset p \<and>
                       e_phoff eh + n \<le> ph_offset p + ph_filesz p) phs of
               Some p \<Rightarrow> ph_vaddr p + e_phoff eh - ph_offset p
             | None \<Rightarrow> 0)"

section \<open>The stack\<close>

text \<open>The new stack pointer, which is also the address of what was put there.\<close>

definition put_stack :: "u64 \<Rightarrow> u64 \<Rightarrow> u8 list \<Rightarrow> 'a phys_scheme \<Rightarrow> u64 option \<times> 'a phys_scheme" where
  "put_stack space sp bs s =
     (if sp < USER_STACK_TOP - USER_STACK_SIZE + word_of_nat (length bs) then (None, s)
      else let sp = sp - word_of_nat (length bs); (r, s) = copy_out space sp bs s
           in if r \<noteq> 0 then (None, s) else (Some sp, s))"

text \<open>The strings of a list, the last one first; their addresses in the order of the list.\<close>

fun put_strings :: "u64 \<Rightarrow> u64 \<Rightarrow> string list \<Rightarrow> 'a phys_scheme \<Rightarrow> (u64 \<times> u64 list) option \<times> 'a phys_scheme" where
  "put_strings space sp [] s = (Some (sp, []), s)"
| "put_strings space sp (v # vs) s =
     (case put_strings space sp vs s of
        (None, s) \<Rightarrow> (None, s)
      | (Some (sp, as), s) \<Rightarrow>
          (case put_stack space sp (map of_char v @ [0]) s of
             (None, s) \<Rightarrow> (None, s)
           | (Some sp, s) \<Rightarrow> (Some (sp, sp # as), s)))"

definition stack_random :: "u8 list" where
  "stack_random = [0x6e, 0x61, 0x72, 0x63, 0x4f, 0x73, 0x2d, 0x6c, 0x69, 0x74, 0x74, 0x6c, 0x65, 0x2d, 0x6f, 0x73]"

text \<open>The words above the stack pointer: argument count, arguments, environment, auxiliary vector.\<close>

definition stack_words :: "elf64_ehdr \<Rightarrow> u64 \<Rightarrow> u64 list \<Rightarrow> u64 list \<Rightarrow> u64 \<Rightarrow> u64 list" where
  "stack_words eh phdr argp envp randomp =
     [word_of_nat (length argp)] @ argp @ [0] @ envp @ [0] @
     [3, phdr, 4, ucast (e_phentsize eh), 5, ucast (e_phnum eh), 6, PAGE_SIZE, 9, e_entry eh, 25, randomp,
      31, (if argp = [] then 0 else hd argp), 0, 0]"

definition build_stack :: "u64 \<Rightarrow> elf64_ehdr \<Rightarrow> u64 \<Rightarrow> string list \<Rightarrow> string list \<Rightarrow> 'a phys_scheme \<Rightarrow>
    u64 option \<times> 'a phys_scheme" where
  "build_stack space eh phdr argv envp s =
     (case map_range space (USER_STACK_TOP - USER_STACK_SIZE) USER_STACK_TOP s of (r, s) \<Rightarrow>
      if r \<noteq> 0 then (None, s)
      else if length argv > 16 \<or> length envp > 16 then (None, s)
      else case put_strings space USER_STACK_TOP envp s of
             (None, s) \<Rightarrow> (None, s)
           | (Some (sp, env_addresses), s) \<Rightarrow>
               (case put_strings space sp argv s of
                  (None, s) \<Rightarrow> (None, s)
                | (Some (sp, argp), s) \<Rightarrow>
                    (case put_stack space sp stack_random s of
                       (None, s) \<Rightarrow> (None, s)
                     | (Some randomp, s) \<Rightarrow>
                         let sp = randomp AND NOT 0xf;
                             words = stack_words eh phdr argp env_addresses randomp;
                             sp = (sp - word_of_nat (length words) * 8) AND NOT 0xf;
                             (r, s) = copy_out space sp (concat (map (le_bytes 8) words)) s
                         in if r \<noteq> 0 then (None, s) else (Some sp, s))))"

section \<open>Loading\<close>

text \<open>The checks on the ELF header, and those on a loadable segment.\<close>

definition ehdr_ok :: "u8 list \<Rightarrow> bool" where
  "ehdr_ok img \<longleftrightarrow>
     length img \<ge> 64 \<and>
     (let eh = ehdr_of img; n = ucast (e_phnum eh) * ucast (e_phentsize eh) :: u64; sz = word_of_nat (length img)
      in take 6 (e_ident eh) = [0x7f, 0x45, 0x4c, 0x46, 2, 1] \<and> e_type eh = 2 \<and> e_machine eh = 62 \<and>
         e_phentsize eh = 56 \<and> e_phnum eh \<noteq> 0 \<and> \<not> (e_phoff eh > sz \<or> n > sz - e_phoff eh))"

definition segment_ok :: "u64 \<Rightarrow> elf64_phdr \<Rightarrow> bool" where
  "segment_ok sz p \<longleftrightarrow>
     \<not> (ph_filesz p > ph_memsz p \<or> ph_offset p > sz \<or> ph_filesz p > sz - ph_offset p \<or>
        ph_vaddr p < USER_MIN \<or> ph_vaddr p \<ge> USER_IMAGE_END \<or> ph_memsz p > USER_IMAGE_END - ph_vaddr p)"

fun load_segments :: "u64 \<Rightarrow> u8 list \<Rightarrow> elf64_phdr list \<Rightarrow> 'a phys_scheme \<Rightarrow> bool \<times> 'a phys_scheme" where
  "load_segments space img [] s = (True, s)"
| "load_segments space img (p # ps) s =
     (if ph_type p \<noteq> PT_LOAD then load_segments space img ps s
      else if \<not> segment_ok (word_of_nat (length img)) p then (False, s)
      else if ph_memsz p = 0 then load_segments space img ps s
      else let (r, s) = map_range space (ph_vaddr p) (ph_vaddr p + ph_memsz p) s
           in if r \<noteq> 0 then (False, s)
              else let (r, s) = copy_out space (ph_vaddr p) (take (unat (ph_filesz p)) (drop (unat (ph_offset p)) img)) s
                   in if r \<noteq> 0 then (False, s)
                      else let (r, s) = zero_out space (ph_vaddr p + ph_filesz p) (unat (ph_memsz p - ph_filesz p)) s
                           in if r \<noteq> 0 then (False, s) else load_segments space img ps s)"

fun protect_pages :: "u64 \<Rightarrow> u64 \<Rightarrow> u64 list \<Rightarrow> 'a phys_scheme \<Rightarrow> bool \<times> 'a phys_scheme" where
  "protect_pages space flags [] s = (True, s)"
| "protect_pages space flags (va # vas) s =
     (let (r, s) = vmm_protect_user space va flags s
      in if r \<noteq> 0 then (False, s) else protect_pages space flags vas s)"

fun protect_segments :: "u64 \<Rightarrow> elf64_phdr list \<Rightarrow> 'a phys_scheme \<Rightarrow> bool \<times> 'a phys_scheme" where
  "protect_segments space [] s = (True, s)"
| "protect_segments space (p # ps) s =
     (if ph_type p \<noteq> PT_LOAD \<or> ph_memsz p = 0 then protect_segments space ps s
      else let (ok, s) = protect_pages space (if ph_flags p AND PF_W \<noteq> 0 then VMM_WRITE else 0)
                           (range_pages (ph_vaddr p) (ph_vaddr p + ph_memsz p)) s
           in if \<not> ok then (False, s) else protect_segments space ps s)"

text \<open>What becomes of the image once it is read: entry point and stack pointer, or None for -1.\<close>

definition load_image :: "u64 \<Rightarrow> u8 list \<Rightarrow> string list \<Rightarrow> string list \<Rightarrow> 'a phys_scheme \<Rightarrow>
    (u64 \<times> u64) option \<times> 'a phys_scheme" where
  "load_image space img argv envp s =
     (if \<not> ehdr_ok img then (None, s)
      else let eh = ehdr_of img; phs = phdrs_of img; phdr = find_phdr eh phs
           in if phdr = 0 then (None, s)
              else let (ok, s) = load_segments space img phs s
                   in if \<not> ok then (None, s)
                      else let (ok, s) = protect_segments space phs s
                           in if \<not> ok then (None, s)
                              else case build_stack space eh phdr argv envp s of
                                     (None, s) \<Rightarrow> (None, s)
                                   | (Some sp, s) \<Rightarrow> (Some (e_entry eh, sp), s))"

definition load :: "u64 \<Rightarrow> string \<Rightarrow> string list \<Rightarrow> string list \<Rightarrow> 'a vfs_scheme \<Rightarrow>
    (u64 \<times> u64) option \<times> 'a vfs_scheme" where
  "load space path argv envp s =
     (if argv = [] then (None, s)
      else case vfs_open (Some path) VFS_OPEN_READ zero_file s of
             (st, f, s) \<Rightarrow>
               if st \<noteq> VFS_OK then (None, s)
               else let info = vfs_file_info f s
                    in if i_type info \<noteq> VFS_REG \<or> i_size info > VFS_FILE_MAX then (None, snd (vfs_close f s))
                       else case vfs_read f (i_size info) s of
                              (r, img, f) \<Rightarrow>
                                let s = snd (vfs_close f s)
                                in if r \<noteq> uint (i_size info) then (None, s) else load_image space img argv envp s)"

definition user_exec :: "task_frame \<Rightarrow> string \<Rightarrow> string list \<Rightarrow> string list \<Rightarrow> 'a kernel_scheme \<Rightarrow>
    int \<times> task_frame \<times> 'a kernel_scheme" where
  "user_exec frame path argv envp s =
     (case vmm_space_create s of
        (None, s) \<Rightarrow> (-1, frame, s)
      | (Some space, s) \<Rightarrow>
          (case load space path argv envp s of
             (None, s) \<Rightarrow> (-1, frame, snd (vmm_space_destroy space s))
           | (Some (entry, stack), s) \<Rightarrow>
               let (frame, s) = task_exec frame space entry stack s in (0, frame, s)))"

text \<open>\<^verbatim>\<open>user_start\<close>: the frame the processor enters user mode with.\<close>

definition user_start :: "'a kernel_scheme \<Rightarrow> (task_frame \<times> 'a kernel_scheme) option" where
  "user_start s =
     (case task_create s of
        None \<Rightarrow> None
      | Some (t, s) \<Rightarrow>
          (case (if t = 0 then (None, s)
                 else load (t_space (tasks s t)) ''/sbin/init'' [''/sbin/init''] [] s) of
             (None, s) \<Rightarrow> Some (zero_frame, arch_halt (console_puts (''[panic] cannot start init'' @ [CHR 0x0A]) s))
           | (Some (entry, stack), s) \<Rightarrow>
               task_start (console_puts (''[user] entering ring 3'' @ [CHR 0x0A]) (task_set_entry t entry stack s))))"

end
