(* ===== verification/User_Space.thy ===== *)
theory User_Space
  imports User_Elf Vmm_Tables
begin

text \<open>
  The memory of a program: the bytes at its addresses, over page tables that are well formed and whose
  user pages are in frames of their own. A store through the page walks of the kernel, as \<open>copy_out\<close>
  of \<open>user.c\<close> and the copies of \<open>syscall.c\<close> make, is an update of that memory and of nothing else.
\<close>

section \<open>User bytes\<close>

text \<open>Where in the kernel's memory a byte of the program is, and the frame of its page.\<close>

definition user_byte :: "u64 \<Rightarrow> 'a phys_scheme \<Rightarrow> u64 \<Rightarrow> u64" where
  "user_byte space s a = phys_to_virt s (vmm_user_phys space a s)"

definition user_frame :: "u64 \<Rightarrow> 'a phys_scheme \<Rightarrow> u64 \<Rightarrow> u64" where
  "user_frame space s a = page_base (vmm_user_phys space a s)"

text \<open>
  The pages of a program: well-formed tables, and every page that the program may access in a frame
  that is neither a table nor free, nor that of another page.
\<close>

definition user_space :: "u64 \<Rightarrow> u64 list \<Rightarrow> 'a phys_scheme \<Rightarrow> bool" where
  "user_space space xs s \<longleftrightarrow>
     pt_ok s space xs \<and>
     (\<forall>a. page_access space a False s \<longrightarrow> data_frame s space xs (user_frame space s a)) \<and>
     (\<forall>a b. a \<le> USER_LIMIT \<longrightarrow> b \<le> USER_LIMIT \<longrightarrow> page_access space a False s \<longrightarrow> page_access space b False s \<longrightarrow>
        user_frame space s a = user_frame space s b \<longrightarrow> page_base a = page_base b)"

lemma user_spaceD:
  assumes "user_space space xs s"
  shows "pt_ok s space xs" "page_access space a False s \<Longrightarrow> data_frame s space xs (user_frame space s a)"
    "a \<le> USER_LIMIT \<Longrightarrow> b \<le> USER_LIMIT \<Longrightarrow> page_access space a False s \<Longrightarrow> page_access space b False s \<Longrightarrow>
       user_frame space s a = user_frame space s b \<Longrightarrow> page_base a = page_base b"
  using assms unfolding user_space_def by blast+

lemma page_access_read: "page_access space a w s \<Longrightarrow> page_access space a False s"
  by (auto simp: page_access_def Let_def)

lemma or_off: "page_aligned f \<Longrightarrow> f OR page_off a = f + page_off a"
proof (rule disjunctive_add [symmetric])
  fix n assume f: "page_aligned f"
  have "\<not> bit f n" if "n < 12"
    using arg_cong [OF f [unfolded page_aligned_def mask_12], of "\<lambda>w. bit w n"] that by (simp add: bit_simps mask_12)
  then show "\<not> bit f n \<or> \<not> bit (page_off a) n"
    by (auto simp: page_off_def mask_12 bit_simps)
qed

lemma user_phys_frame:
  assumes "page_access space a False s"
  shows "vmm_user_phys space a s = user_frame space s a + page_off a" "page_aligned (user_frame space s a)"
  using assms page_off_less [of a] by (simp_all add: user_frame_def vmm_user_phys_access or_off)

lemma user_phys_nonzero: "user_space space xs s \<Longrightarrow> page_access space a False s \<Longrightarrow> vmm_user_phys space a s \<noteq> 0"
  using user_spaceD(2) [of space xs s a] by (auto simp: data_frame_def user_frame_def page_base_def)

text \<open>Within a page, user bytes follow each other.\<close>

lemma user_frame_base: "user_frame space s (page_base a) = user_frame space s a"
  by (cases "page_access space a False s") (simp_all add: user_frame_def vmm_user_phys_access get_pte_page_base or_off page_off_less)

lemma user_byte_frame:
  "page_access space a False s \<Longrightarrow> user_byte space s a = phys_to_virt s (user_frame space s a) + page_off a"
  by (simp add: user_byte_def user_phys_frame phys_to_virt_def)

lemma in_page_user_byte:
  "page_access space a False s \<Longrightarrow> in_page (phys_to_virt s (user_frame space s a)) (user_byte space s a)"
  by (simp add: user_byte_frame in_page_add page_off_less)

lemma user_byte_inj:
  assumes u: "user_space space xs s" and a: "page_access space a False s" "a \<le> USER_LIMIT"
    and b: "page_access space b False s" "b \<le> USER_LIMIT" and eq: "user_byte space s a = user_byte space s b"
  shows "a = b"
proof -
  have "user_frame space s a = user_frame space s b"
    using in_page_disjoint [of _ _ "hhdm s"] in_page_user_byte [OF a(1)] in_page_user_byte [OF b(1)]
      user_phys_frame(2) [OF a(1)] user_phys_frame(2) [OF b(1)] eq
    by (simp add: phys_to_virt_def)
  then have "page_base a = page_base b" "page_off a = page_off b"
    using user_spaceD(3) [OF u a(2) b(2) a(1) b(1)] eq by (simp_all add: user_byte_frame a b)
  then show ?thesis
    by (metis page_base_off)
qed

section \<open>Stores into user pages\<close>

text \<open>A store that keeps every page but some frame of the program changes no table.\<close>

lemma user_store:
  assumes u: "user_space space xs s" and a: "page_access space a False s"
    and keep: "\<And>t. page_aligned t \<Longrightarrow> t \<noteq> user_frame space s a \<Longrightarrow> same_page m (mem s) (phys_to_virt s t)"
  shows "pt_view (s\<lparr>mem := m\<rparr>) space = pt_view s space" "user_space space xs (s\<lparr>mem := m\<rparr>)"
    "huge_at (s\<lparr>mem := m\<rparr>) space q = huge_at s space q"
proof -
  let ?s = "s\<lparr>mem := m\<rparr>"
  note ok = user_spaceD(1) [OF u]
  note d = user_spaceD(2) [OF u a]
  have v: "phys_to_virt ?s = phys_to_virt s"
    by (simp add: phys_to_virt_def fun_eq_iff)
  have rds: "rd ?s (entry_at (phys_to_virt s t) j) = rd s (entry_at (phys_to_virt s t) j)"
    if "tpath q" "pt_walk s space q = Some t" "j < 512" for q t j
  proof -
    have "t \<noteq> user_frame space s a"
      using d that(1,2) unfolding data_frame_def by blast
    then have "same_page (mem ?s) (mem s) (phys_to_virt s t)"
      using keep pt_okD(6) [OF ok that(1,2)] by simp
    then show ?thesis
      using that(3) by (rule rd_same_page)
  qed
  have walk: "pt_walk ?s space q = pt_walk s space q" if "tpath q" for q
  proof (rule pt_walk_cong)
    fix r j t assume r: "prefix (r @ [j]) q" "pt_walk s space r = Some t"
    then have "tpath r" "j < 512"
      using that tpath_prefix by auto
    then show "pt_step ?s t j = pt_step s t j"
      using rds r(2) by (simp add: pt_step_def v)
  qed
  show view: "pt_view ?s space = pt_view s space"
    using walk rds by (intro pt_view_cong) (auto simp: v)
  show "huge_at ?s space q = huge_at s space q"
    using walk rds by (auto simp: huge_at_def v)
  have "free_frames ?s xs"
  proof (rule free_frames_mem [OF pt_okD(1) [OF ok]])
    fix p assume "p \<in> set xs"
    then have "p \<noteq> user_frame space s a" "page_aligned p"
      using d free_frames_aligned [OF pt_okD(1) [OF ok]] unfolding data_frame_def by blast+
    then have "same_page m (mem s) (phys_to_virt s p)"
      using keep by blast
    then show "same_page (mem s) m (phys_to_virt s p)"
      by (simp add: same_page_def)
  qed
  then have ok': "pt_ok ?s space xs"
    by (rule pt_ok_same_walks [OF ok _ subset_refl _ walk]) simp_all
  have acc: "page_access space b w ?s = page_access space b w s" for b w
    by (simp add: page_access_view [OF ok] page_access_view [OF ok'] view)
  have fr: "user_frame space ?s b = user_frame space s b" for b
    by (simp add: user_frame_def vmm_user_phys_view [OF ok] vmm_user_phys_view [OF ok'] view)
  have "data_frame ?s space xs f = data_frame s space xs f" for f
    using walk unfolding data_frame_def v by (metis walk)
  then show "user_space space xs ?s"
    using u ok' unfolding user_space_def acc fr by blast
qed

text \<open>Views determine where the user bytes are.\<close>

lemma user_byte_view:
  assumes "pt_ok s space xs" "pt_ok t space ys" "pt_view t space = pt_view s space" "hhdm t = hhdm s"
  shows "user_byte space t = user_byte space s" "page_access space a w t = page_access space a w s"
  using assms by (simp_all add: user_byte_def fun_eq_iff vmm_user_phys_view phys_to_virt_def page_access_view)

text \<open>The first bytes from an address on, up to the end of its page.\<close>

definition rest_of_page :: "u64 \<Rightarrow> nat" where
  "rest_of_page a = 4096 - unat (a AND (PAGE_SIZE - 1))"

lemma same_page_add:
  assumes "i < rest_of_page a"
  shows "page_base (a + word_of_nat i) = page_base a" "page_off (a + word_of_nat i) = page_off a + word_of_nat i"
proof -
  have "page_off a + word_of_nat i < PAGE_SIZE"
    using assms page_off_less [of a] unfolding rest_of_page_def page_off_def [symmetric]
    by (simp add: word_less_nat_alt unat_word_ariths unat_of_nat)
  from page_base_aligned_add [OF page_aligned_base [of a] this] page_off_aligned_add [OF page_aligned_base [of a] this]
  show "page_base (a + word_of_nat i) = page_base a" "page_off (a + word_of_nat i) = page_off a + word_of_nat i"
    using page_base_off [of a] by (metis add.assoc)+
qed

lemma user_byte_add:
  assumes "page_access space a False s" "i < rest_of_page a"
  shows "user_byte space s (a + word_of_nat i) = user_byte space s a + word_of_nat i"
proof -
  have "page_access space (a + word_of_nat i) False s"
    using assms(1) page_access_base [of space a False s] page_access_base [of space "a + word_of_nat i" False s]
    by (simp add: same_page_add(1) [OF assms(2)])
  moreover have "user_frame space s (a + word_of_nat i) = user_frame space s a"
    using user_frame_base [of space s "a + word_of_nat i"] user_frame_base [of space s a]
    by (simp add: same_page_add(1) [OF assms(2)])
  ultimately show ?thesis
    using assms by (simp add: user_byte_frame same_page_add(2) add.assoc)
qed

lemma rest_of_page_le: "0 < rest_of_page a" "rest_of_page a \<le> 4096"
  using page_off_less [of a] by (simp_all add: rest_of_page_def page_off_def word_less_nat_alt)

section \<open>Stores of bytes\<close>

text \<open>A store of bytes at a user address, within its page.\<close>

lemma store_user_bytes:
  assumes u: "user_space space xs s" and a: "page_access space a False s" and n: "length ys \<le> rest_of_page a"
  defines "m \<equiv> mem_store (mem s) (user_byte space s a) ys"
  shows "pt_view (s\<lparr>mem := m\<rparr>) space = pt_view s space" "user_space space xs (s\<lparr>mem := m\<rparr>)"
    "huge_at (s\<lparr>mem := m\<rparr>) space q = huge_at s space q"
    "i < length ys \<Longrightarrow> m (user_byte space s (a + word_of_nat i)) = ys ! i"
    "(\<And>i. i < length ys \<Longrightarrow> x \<noteq> user_byte space s (a + word_of_nat i)) \<Longrightarrow> m x = mem s x"
proof -
  have len: "length ys < 18446744073709551616"
    using n rest_of_page_le(2) [of a] by simp
  have m: "m b = (if unat (b - user_byte space s a) < length ys then ys ! unat (b - user_byte space s a) else mem s b)" for b
    using mem_store_apply [OF len] by (simp add: m_def)
  note add = user_byte_add [OF a less_le_trans [OF _ n]]
  show "i < length ys \<Longrightarrow> m (user_byte space s (a + word_of_nat i)) = ys ! i"
    using len by (simp add: add m unat_of_nat)
  show other: "m x = mem s x" if "\<And>i. i < length ys \<Longrightarrow> x \<noteq> user_byte space s (a + word_of_nat i)" for x
    using that [of "unat (x - user_byte space s a)"] add [of "unat (x - user_byte space s a)"] by (auto simp: m)
  have keep: "same_page m (mem s) (phys_to_virt s t)" if "page_aligned t" "t \<noteq> user_frame space s a" for t
    unfolding same_page_def
  proof (intro allI impI)
    fix b assume b: "in_page (phys_to_virt s t) b"
    show "m b = mem s b"
    proof (rule other)
      fix i assume i: "i < length ys"
      have "page_base (a + word_of_nat i) = page_base a"
        using same_page_add(1) [of i a] i n by simp
      then have "page_access space (a + word_of_nat i) False s" "user_frame space s (a + word_of_nat i) = user_frame space s a"
        using a page_access_base user_frame_base by metis+
      then have "in_page (phys_to_virt s (user_frame space s a)) (user_byte space s (a + word_of_nat i))"
        using in_page_user_byte by metis
      then show "b \<noteq> user_byte space s (a + word_of_nat i)"
        using in_page_disjoint [of t "user_frame space s a" "hhdm s" b] b that user_phys_frame(2) [OF a] by (auto simp: phys_to_virt_def)
    qed
  qed
  show "pt_view (s\<lparr>mem := m\<rparr>) space = pt_view s space" "user_space space xs (s\<lparr>mem := m\<rparr>)"
    "huge_at (s\<lparr>mem := m\<rparr>) space q = huge_at s space q"
    by (rule user_store [OF u a], erule (1) keep)+
qed

text \<open>What a copy to user memory leaves: the bytes in their places, everything else as it was.\<close>

definition copied :: "u64 \<Rightarrow> u64 \<Rightarrow> u8 list \<Rightarrow> 'a phys_scheme \<Rightarrow> 'a phys_scheme \<Rightarrow> bool" where
  "copied space dst bs s s' \<longleftrightarrow>
     (\<exists>m. s' = s\<lparr>mem := m\<rparr>) \<and> pt_view s' space = pt_view s space \<and> (\<forall>q. huge_at s' space q = huge_at s space q) \<and>
     (\<forall>i. i < length bs \<longrightarrow> mem s' (user_byte space s (dst + word_of_nat i)) = bs ! i) \<and>
     (\<forall>x. (\<forall>i. i < length bs \<longrightarrow> x \<noteq> user_byte space s (dst + word_of_nat i)) \<longrightarrow> mem s' x = mem s x)"

lemma copied_Nil [simp]: "copied space dst [] s s"
  by (auto simp: copied_def intro: exI [of _ "mem s"])

lemma copy_out_bytes:
  assumes "user_space space xs s" "unat dst + length bs \<le> unat USER_LIMIT + 1"
    and "\<And>i. i < length bs \<Longrightarrow> page_access space (dst + word_of_nat i) False s"
  shows "\<exists>s'. copy_out space dst bs s = (0, s') \<and> copied space dst bs s s' \<and> user_space space xs s'"
  using assms
proof (induction bs arbitrary: dst s rule: measure_induct_rule [where f = length])
  case (less bs)
  show ?case
  proof (cases "bs = []")
    case True
    then show ?thesis
      using less by (simp add: copy_out.simps)
  next
    case False
    define chunk where "chunk = min (rest_of_page dst) (length bs)"
    have c: "0 < chunk" "chunk \<le> length bs" "chunk \<le> rest_of_page dst"
      using False rest_of_page_le(1) [of dst] by (auto simp: chunk_def)
    have first: "page_access space dst False s"
      using less.prems(3) [of 0] False by auto
    define t where "t = s\<lparr>mem := mem_store (mem s) (user_byte space s dst) (take chunk bs)\<rparr>"
    have "length (take chunk bs) \<le> rest_of_page dst"
      using c by simp
    note st = store_user_bytes [OF less.prems(1) first this, folded t_def]
    have "hhdm t = hhdm s"
      by (simp add: t_def)
    note v = user_byte_view [OF user_spaceD(1) [OF less.prems(1)] user_spaceD(1) [OF st(2)] st(1) this]
    have shift: "dst + word_of_nat chunk + word_of_nat i = dst + word_of_nat (chunk + i)" for i
      by simp
    have u: "unat (dst + word_of_nat i) = unat dst + i" if "i \<le> length bs" for i
      using less.prems(2) that by (intro unat_add_of_nat_u64) simp
    have acc: "page_access space (dst + word_of_nat chunk + word_of_nat i) False t" if "i < length (drop chunk bs)" for i
      using less.prems(3) [of "chunk + i"] that c(2) by (simp only: v shift) simp
    have "length (drop chunk bs) < length bs" "unat (dst + word_of_nat chunk) + length (drop chunk bs) \<le> unat USER_LIMIT + 1"
      using c False u [OF c(2)] less.prems(2) by simp_all
    from less.IH [OF this(1) st(2) this(2) acc]
    obtain s' where s': "copy_out space (dst + word_of_nat chunk) (drop chunk bs) t = (0, s')"
      "copied space (dst + word_of_nat chunk) (drop chunk bs) t s'" "user_space space xs s'"
      by blast
    note s'D = s'(2) [unfolded copied_def v shift]
    have apart: "user_byte space s (dst + word_of_nat i) \<noteq> user_byte space s (dst + word_of_nat j)"
      if "i < length bs" "j < length bs" "i \<noteq> j" for i j
    proof
      assume "user_byte space s (dst + word_of_nat i) = user_byte space s (dst + word_of_nat j)"
      then have "dst + word_of_nat i = dst + word_of_nat j"
        using user_byte_inj [OF less.prems(1) less.prems(3) [OF that(1)] _ less.prems(3) [OF that(2)]] u [of i] u [of j] that less.prems(2)
        by (simp add: word_le_nat_alt)
      then show False
        using u [of i] u [of j] that by simp
    qed
    have "mem s' (user_byte space s (dst + word_of_nat i)) = bs ! i" if "i < length bs" for i
    proof (cases "i < chunk")
      case True
      have "user_byte space s (dst + word_of_nat i) \<noteq> user_byte space s (dst + word_of_nat (chunk + j))"
        if "j < length (drop chunk bs)" for j
        using apart [OF \<open>i < length bs\<close>, of "chunk + j"] that True by simp
      then have "mem s' (user_byte space s (dst + word_of_nat i)) = mem t (user_byte space s (dst + word_of_nat i))"
        using s'D by blast
      also have "\<dots> = bs ! i"
        using st(4) [of i] True c(2) by (simp add: t_def)
      finally show ?thesis .
    next
      case False
      have "i - chunk < length (drop chunk bs)"
        using False that by simp
      then have "mem s' (user_byte space s (dst + word_of_nat (chunk + (i - chunk)))) = drop chunk bs ! (i - chunk)"
        using s'D by blast
      then show ?thesis
        using False that by simp
    qed
    moreover have "mem s' x = mem s x" if x: "\<And>i. i < length bs \<Longrightarrow> x \<noteq> user_byte space s (dst + word_of_nat i)" for x
    proof -
      have "x \<noteq> user_byte space s (dst + word_of_nat (chunk + j))" if "j < length (drop chunk bs)" for j
        using x [of "chunk + j"] that by simp
      then have "mem s' x = mem t x"
        using s'D by blast
      also have "\<dots> = mem s x"
        using st(5) [of x] that by (simp add: t_def)
      finally show ?thesis .
    qed
    moreover have "\<exists>m. s' = s\<lparr>mem := m\<rparr>" "pt_view s' space = pt_view s space" "\<forall>q. huge_at s' space q = huge_at s space q"
      using s'D st(1,3) by (auto simp: t_def)
    ultimately have "copied space dst bs s s'"
      by (simp add: copied_def)
    moreover have "user_frame space s dst \<noteq> 0"
      using user_spaceD(2) [OF less.prems(1) first] by (simp add: data_frame_def)
    then have "vmm_user_phys space dst s \<noteq> 0"
      by (auto simp: user_frame_def page_base_def)
    then have "copy_out space dst bs s = (0, s')"
      using s'(1) False
      by (subst copy_out.simps) (simp add: t_def chunk_def rest_of_page_def user_byte_def Let_def)
    ultimately show ?thesis
      using s'(3) by blast
  qed
qed

section \<open>The memory of a program\<close>

text \<open>The bytes a program can read, below the limit of the user half.\<close>

definition umem :: "u64 \<Rightarrow> 'a phys_scheme \<Rightarrow> u64 \<Rightarrow> u8 option" where
  "umem space s a = (if a \<le> USER_LIMIT \<and> page_access space a False s then Some (mem s (user_byte space s a)) else None)"

text \<open>Bytes put over a part of a memory.\<close>

definition over :: "u64 \<Rightarrow> u8 list \<Rightarrow> (u64 \<Rightarrow> u8 option) \<Rightarrow> u64 \<Rightarrow> u8 option" where
  "over dst bs m a = (if unat dst \<le> unat a \<and> unat a < unat dst + length bs then Some (bs ! (unat a - unat dst)) else m a)"

lemma umem_dom: "a \<in> dom (umem space s) \<longleftrightarrow> a \<le> USER_LIMIT \<and> page_access space a False s"
  by (auto simp: umem_def split: if_splits)

lemma copied_umem:
  assumes u: "user_space space xs s" "user_space space xs s'" and c: "copied space dst bs s s'"
    and range: "unat dst + length bs \<le> unat USER_LIMIT + 1" "\<And>i. i < length bs \<Longrightarrow> page_access space (dst + word_of_nat i) False s"
  shows "umem space s' = over dst bs (umem space s)"
proof
  fix a
  have h: "hhdm s' = hhdm s"
    using c by (auto simp: copied_def)
  have "pt_view s' space = pt_view s space"
    using c by (simp add: copied_def)
  note v = user_byte_view [OF user_spaceD(1) [OF u(1)] user_spaceD(1) [OF u(2)] this h]
  have at: "unat (dst + word_of_nat i) = unat dst + i" if "i < length bs" for i
    using that range(1) by (intro unat_add_of_nat_u64) simp
  show "umem space s' a = over dst bs (umem space s) a"
  proof (cases "unat dst \<le> unat a \<and> unat a < unat dst + length bs")
    case True
    define i where "i = unat a - unat dst"
    have i: "i < length bs" "a = dst + word_of_nat i"
      using True at [of i] by (auto simp: i_def word_unat_eq_iff)
    have "mem s' (user_byte space s (dst + word_of_nat i)) = bs ! i"
      using c i(1) unfolding copied_def by blast
    moreover have "a \<le> USER_LIMIT"
      using True range(1) by (simp add: word_le_nat_alt)
    ultimately show ?thesis
      using range(2) [OF i(1)] True by (simp add: umem_def over_def v flip: i_def) (simp add: i(2))
  next
    case False
    have "mem s' (user_byte space s a) = mem s (user_byte space s a)" if a: "a \<le> USER_LIMIT" "page_access space a False s"
    proof -
      have "user_byte space s a \<noteq> user_byte space s (dst + word_of_nat i)" if i: "i < length bs" for i
      proof
        assume "user_byte space s a = user_byte space s (dst + word_of_nat i)"
        then have "a = dst + word_of_nat i"
          using range(1) at [OF i] i by (intro user_byte_inj [OF u(1) a(2,1) range(2) [OF i]]) (simp_all add: word_le_nat_alt)
        then show False
          using False at [OF i] i by simp
      qed
      then show ?thesis
        using c unfolding copied_def by blast
    qed
    then show ?thesis
      using False by (simp only: umem_def over_def v if_False) simp
  qed
qed

lemma copy_out_umem:
  assumes u: "user_space space xs s"
    and range: "unat dst + length bs \<le> unat USER_LIMIT + 1" "\<And>i. i < length bs \<Longrightarrow> page_access space (dst + word_of_nat i) False s"
  shows "\<exists>s'. copy_out space dst bs s = (0, s') \<and> user_space space xs s' \<and> umem space s' = over dst bs (umem space s) \<and>
    hhdm s' = hhdm s \<and> phys.more s' = phys.more s \<and> pt_view s' space = pt_view s space \<and>
    (\<forall>q. huge_at s' space q = huge_at s space q)"
proof -
  obtain s' where s': "copy_out space dst bs s = (0, s')" "copied space dst bs s s'" "user_space space xs s'"
    using copy_out_bytes [OF u range] by blast
  then show ?thesis
    using copied_umem [OF u s'(3,2) range] by (auto simp: copied_def)
qed

text \<open>Below the limit, a page is determined by its path.\<close>

lemma vpath_inj:
  assumes "vpath a = vpath b" "a \<le> USER_LIMIT" "b \<le> USER_LIMIT"
  shows "page_base a = page_base b"
proof (rule bit_eqI)
  fix n
  have index: "bit a (k + m) \<longleftrightarrow> bit b (k + m)" if "k \<in> {12, 21, 30, 39}" "m < 9" for k m
  proof -
    have "drop_bit k a AND 0x1ff = drop_bit k b AND 0x1ff"
      using assms(1) that(1) by (auto simp: vpath_def)
    then have "bit (drop_bit k a AND mask 9) m \<longleftrightarrow> bit (drop_bit k b AND mask 9) m"
      by (simp add: mask_eq_exp_minus_1)
    then show ?thesis
      using that(2) by (simp add: bit_simps)
  qed
  have high: "\<not> bit c n" if "c \<le> USER_LIMIT" "47 \<le> n" for c :: u64
  proof -
    have "unat c < 2 ^ 47"
      using that(1) by (simp add: word_le_nat_alt)
    then have "take_bit 47 c = c"
      by (simp only: word_unat_eq_iff unsigned_take_bit_eq take_bit_nat_eq_self)
    then show ?thesis
      using bit_take_bit_iff [of 47 c n] that(2) by simp
  qed
  have "bit a n \<longleftrightarrow> bit b n" if "12 \<le> n"
  proof -
    consider "n < 21" | "21 \<le> n" "n < 30" | "30 \<le> n" "n < 39" | "39 \<le> n" "n < 48" | "48 \<le> n"
      by linarith
    then show ?thesis
    proof cases
      case 1 then show ?thesis using index [of 12 "n - 12"] that by simp
    next
      case 2 then show ?thesis using index [of 21 "n - 21"] by simp
    next
      case 3 then show ?thesis using index [of 30 "n - 30"] by simp
    next
      case 4 then show ?thesis using index [of 39 "n - 39"] by simp
    next
      case 5 then show ?thesis using high [OF assms(2)] high [OF assms(3)] by simp
    qed
  qed
  then show "bit (page_base a) n \<longleftrightarrow> bit (page_base b) n"
    by (auto simp: page_base_def mask_12 bit_simps)
qed

section \<open>Two pages\<close>

lemma two_pages_entries:
  assumes "length p = 4" "\<forall>i \<in> set p. i < 512"
  shows "pt_view two_pages 0x1000 p = (if p = [0, 0, 2, 0] then Some 0x5007 else if p = [0, 0, 2, 1] then Some 0x6005 else None)"
proof -
  note p = path4 [OF assms]
  have "pt_walk two_pages 0x1000 (butlast p) = (if butlast p = [0, 0, 2] then Some 0x4000 else None)"
    using two_pages_walk [OF p(1)] p(2) by (auto simp del: length_butlast)
  moreover have "p = butlast p @ [last p]"
    using assms(1) by (cases p rule: rev_cases) auto
  then have "p = [0, 0, 2, i] \<longleftrightarrow> butlast p = [0, 0, 2] \<and> last p = i" for i
    by (metis append_Cons append_Nil butlast_snoc last_snoc)
  ultimately show ?thesis
    using assms p(3) by (simp add: pt_view_def two_pages_rd)
qed

lemma two_pages_user: "user_space 0x1000 [] two_pages"
proof -
  have view: "pt_view two_pages 0x1000 (vpath a) = (if vpath a = [0, 0, 2, 0] then Some 0x5007
      else if vpath a = [0, 0, 2, 1] then Some 0x6005 else None)" for a
    by (rule two_pages_entries) simp_all
  have acc: "page_access 0x1000 a False two_pages \<longleftrightarrow> vpath a = [0, 0, 2, 0] \<or> vpath a = [0, 0, 2, 1]" for a
    by (simp add: page_access_view [OF two_pages_ok] view)
  have base: "page_base (f OR page_off a) = f" if "page_aligned f" for f a
    using that page_off_less [of a] by (simp add: or_off)
  have f1: "user_frame 0x1000 two_pages a = 0x5000" if "vpath a = [0, 0, 2, 0]" for a
    using that view [of a] by (simp add: user_frame_def vmm_user_phys_view [OF two_pages_ok] base page_aligned_def)
  have f2: "user_frame 0x1000 two_pages a = 0x6000" if "vpath a = [0, 0, 2, 1]" for a
    using that view [of a] by (simp add: user_frame_def vmm_user_phys_view [OF two_pages_ok] base page_aligned_def)
  have d: "data_frame two_pages 0x1000 [] 0x5000" "data_frame two_pages 0x1000 [] 0x6000"
    by (simp_all add: data_frame_def two_pages_walk phys_to_virt_def two_pages_fields)
  show ?thesis
    unfolding user_space_def acc
  proof (intro conjI allI impI two_pages_ok)
    fix a assume "vpath a = [0, 0, 2, 0] \<or> vpath a = [0, 0, 2, 1]"
    then show "data_frame two_pages 0x1000 [] (user_frame 0x1000 two_pages a)"
      using f1 f2 d by auto
  next
    fix a b assume l: "a \<le> USER_LIMIT" "b \<le> USER_LIMIT"
      and ab: "vpath a = [0, 0, 2, 0] \<or> vpath a = [0, 0, 2, 1]" "vpath b = [0, 0, 2, 0] \<or> vpath b = [0, 0, 2, 1]"
        "user_frame 0x1000 two_pages a = user_frame 0x1000 two_pages b"
    then have "vpath a = vpath b"
      using f1 [of a] f1 [of b] f2 [of a] f2 [of b] by (elim disjE) simp_all
    then show "page_base a = page_base b"
      using l by (rule vpath_inj)
  qed
qed

end
