(* ===== verification/User_Load.thy ===== *)
theory User_Load
  imports User_Space
begin

text \<open>
  What a program finds in its memory when it starts: the segments of its image and, on its stack, its
  arguments and its environment.
\<close>

section \<open>Mapping pages\<close>

text \<open>What is kept of a program's memory when pages are added: every byte that was there, and whether it can be written.\<close>

definition grown :: "u64 \<Rightarrow> 'a phys_scheme \<Rightarrow> 'a phys_scheme \<Rightarrow> bool" where
  "grown space s s' \<longleftrightarrow> umem space s \<subseteq>\<^sub>m umem space s' \<and> hhdm s' = hhdm s \<and> phys.more s' = phys.more s \<and>
     (\<forall>a. page_access space a False s \<longrightarrow> page_access space a False s' \<and> page_access space a True s' = page_access space a True s)"

lemma grown_refl: "grown space s s"
  by (simp add: grown_def)

lemma grown_trans: "grown space s t \<Longrightarrow> grown space t u \<Longrightarrow> grown space s u"
  by (auto simp: grown_def intro: map_le_trans)

lemma data_outside: "data_frame s space xs f \<Longrightarrow> outside s space xs f"
  using mask_aligned [of f] by (simp add: data_frame_def outside_def)

lemma outside_data: "outside s space xs f \<Longrightarrow> f AND ADDR_MASK = f \<Longrightarrow> phys_to_virt s f \<noteq> 0 \<Longrightarrow> data_frame s space xs f"
  by (simp add: data_frame_def outside_def)

text \<open>A frame that is taken from the free ones is outside the tables, and nothing else has changed.\<close>

lemma alloc_kept:
  assumes ok: "pt_ok s space xs" and alloc: "pmm_alloc_page s = (f, s')" "f \<noteq> 0"
  shows "\<exists>ys. xs = f # ys \<and> pt_ok s' space ys \<and> outside s' space ys f \<and> kept s space xs s' ys \<and>
    pt_view s' space = pt_view s space \<and> hhdm s' = hhdm s \<and> phys.more s' = phys.more s \<and>
    (\<forall>q. huge_at s' space q \<longrightarrow> huge_at s space q)"
proof -
  note okD = pt_okD [OF ok]
  have s': "s' = snd (pmm_alloc_page s)"
    using alloc(1) by simp
  have "xs \<noteq> []"
    using okD(1) pmm.alloc_empty alloc by (metis fst_conv)
  then obtain g ys where xs: "xs = g # ys"
    by (cases xs) auto
  then have g: "g = f"
    using okD(1) pmm.alloc_pop alloc(1) by (metis fst_conv)
  have dist: "f \<notin> set ys"
    using free_frames_distinct [OF okD(1)] xs g by simp
  have A: "pt_ok s' space ys" "\<And>q. tpath q \<Longrightarrow> pt_walk s' space q = pt_walk s space q"
    "\<And>q u j. tpath q \<Longrightarrow> pt_walk s space q = Some u \<Longrightarrow> j < 512 \<Longrightarrow>
      rd s' (entry_at (phys_to_virt s u) j) = rd s (entry_at (phys_to_virt s u) j)"
    using pt_ok_alloc [OF ok [unfolded xs]] by (simp_all add: s')
  have "pt_view s' space = pt_view s space"
    using A(2,3) by (intro pt_view_cong) (simp_all add: s')
  moreover have "\<forall>q. huge_at s' space q \<longrightarrow> huge_at s space q"
    using A(2,3) by (fastforce simp: huge_at_def s')
  moreover have "outside s' space ys f"
    using dist free_frames_aligned [OF okD(1), of f] okD(6) [of _ f] A(2) xs g by (auto simp: outside_def)
  moreover have "kept s space xs s' ys"
    unfolding kept_def
  proof (intro conjI allI impI)
    fix u assume u: "outside s space xs u"
    then show "outside s' space ys u"
      using A(2) xs by (simp add: outside_def)
    have "u \<noteq> f" "page_aligned u"
      using u xs g by (auto simp: outside_def)
    then show "same_page (mem s') (mem s) (phys_to_virt s u)"
      using alloc_other_page [OF okD(1), of u] alloc(1) by simp
  qed (use xs in auto)
  ultimately show ?thesis
    using xs g A(1) pmm_frame by (simp add: s')
qed

text \<open>A new page of a program.\<close>

lemma leaf_frame:
  assumes "f AND ADDR_MASK = f"
  shows "(f OR leaf_bits True flags) AND ADDR_MASK = f" "(f OR leaf_bits True flags) AND PTE_USER \<noteq> 0"
proof -
  have d: "(f OR leaf_bits True flags) AND m = (f AND m) OR (leaf_bits True flags AND m)" for m
    by (simp only: bit.conj_disj_distrib2)
  have "leaf_bits True flags AND ADDR_MASK = 0" "leaf_bits True flags AND PTE_USER = PTE_USER"
    by (simp_all add: leaf_bits_def bit.conj_disj_distrib2)
  moreover have "f AND PTE_USER = 0"
  proof -
    have "f AND PTE_USER = (f AND ADDR_MASK) AND PTE_USER"
      by (simp only: assms)
    then show ?thesis
      by (simp only: and.assoc) simp
  qed
  ultimately show "(f OR leaf_bits True flags) AND ADDR_MASK = f" "(f OR leaf_bits True flags) AND PTE_USER \<noteq> 0"
    unfolding d using assms by simp_all
qed

lemma page_access_path: "pt_ok s space xs \<Longrightarrow> vpath a = vpath b \<Longrightarrow> page_access space a w s = page_access space b w s"
  by (simp add: page_access_view)

lemma map_user_grown:
  assumes u: "user_space space xs s" and new: "vmm_user_phys space va s = 0"
    and alloc: "pmm_alloc_page s = (f, s1)" "f \<noteq> 0" and map: "vmm_map_user space va f flags s1 = (0, s2)"
  shows "\<exists>zs. user_space space zs s2 \<and> grown space s s2 \<and> page_access space va False s2 \<and>
    length xs \<le> length zs + 4 \<and> (\<forall>q. huge_at s2 space q \<longrightarrow> huge_at s space q)"
proof -
  note ok = user_spaceD(1) [OF u]
  obtain ys where a: "xs = f # ys" "pt_ok s1 space ys" "outside s1 space ys f" "kept s space xs s1 ys"
    "pt_view s1 space = pt_view s space" "hhdm s1 = hhdm s" "phys.more s1 = phys.more s"
    "\<And>q. huge_at s1 space q \<Longrightarrow> huge_at s space q"
    using alloc_kept [OF ok alloc] by blast
  have f: "f AND ADDR_MASK = f" "phys_to_virt s f \<noteq> 0"
    using pt_okD(4,5) [OF ok, of f] a(1) by simp_all
  define e where "e = f OR leaf_bits True flags"
  note e = leaf_frame [OF f(1), of flags, folded e_def]
  obtain zs where m: "pt_ok s2 space zs" "phys.more s2 = phys.more s1" "hhdm s2 = hhdm s1" "kept s1 space ys s2 zs"
    "pt_view s2 space = (pt_view s1 space)(vpath va \<mapsto> e)"
    "length ys \<le> length zs + 3" "\<And>q. huge_at s2 space q \<Longrightarrow> huge_at s1 space q"
    using vmm_map_kept [OF a(2) map [unfolded vmm_map_user_def]] f(1) by (auto simp: e_def)
  have pv: "phys_to_virt s1 = phys_to_virt s" "phys_to_virt s2 = phys_to_virt s"
    using a(6) m(3) by (simp_all add: phys_to_virt_def fun_eq_iff)
  note k = kept_trans [OF a(4) m(4) pv(1)]
  note view = m(5) [unfolded a(5)]
  have none: "\<not> page_access space va False s"
    using user_phys_nonzero [OF u] new by blast
  have acc: "page_access space b False s2 \<longleftrightarrow> vpath b = vpath va \<or> page_access space b False s"
    "vpath b \<noteq> vpath va \<Longrightarrow> page_access space b True s2 = page_access space b True s" for b
    using e(2) by (auto simp: page_access_view [OF m(1)] page_access_view [OF ok] view)
  have apart: "vpath b \<noteq> vpath va" if "page_access space b False s" for b
    using none that page_access_path [OF ok] by metis
  have fr: "user_frame space s2 b = (if vpath b = vpath va then f else user_frame space s b)" for b
    using e page_off_less [of b] mask_aligned [of f] f(1)
    by (simp add: user_frame_def vmm_user_phys_view [OF m(1)] vmm_user_phys_view [OF ok] view or_off)
  have old: "outside s space xs (user_frame space s b)" if "page_access space b False s" for b
    using data_outside [OF user_spaceD(2) [OF u that]] .
  have "user_space space zs s2"
    unfolding user_space_def acc(1)
  proof (intro conjI allI impI m(1))
    fix b assume "vpath b = vpath va \<or> page_access space b False s"
    then show "data_frame s2 space zs (user_frame space s2 b)"
    proof
      assume "vpath b = vpath va"
      then show ?thesis
        using outside_data [OF keptD(2) [OF m(4) a(3)] f(1)] f(2) by (simp add: fr pv)
    next
      assume b: "page_access space b False s"
      show ?thesis
        using outside_data [OF keptD(2) [OF k old [OF b]]] user_spaceD(2) [OF u b] apart [OF b]
        by (simp add: fr pv data_frame_def)
    qed
  next
    fix b c assume l: "b \<le> USER_LIMIT" "c \<le> USER_LIMIT"
      and bc: "vpath b = vpath va \<or> page_access space b False s" "vpath c = vpath va \<or> page_access space c False s"
        "user_frame space s2 b = user_frame space s2 c"
    have f_new: "f \<noteq> user_frame space s d" if "page_access space d False s" for d
      using old [OF that] a(1) by (auto simp: outside_def)
    show "page_base b = page_base c"
    proof (cases "vpath b = vpath c")
      case True
      then show ?thesis
        using l by (rule vpath_inj)
    next
      case False
      then have "page_access space b False s" "page_access space c False s" "user_frame space s b = user_frame space s c"
        using bc f_new [of b] f_new [of c] by (auto simp: fr split: if_splits)
      then show ?thesis
        using user_spaceD(3) [OF u l] by blast
    qed
  qed
  moreover have "umem space s b = umem space s2 b" if "b \<in> dom (umem space s)" for b
  proof -
    have b: "b \<le> USER_LIMIT" "page_access space b False s"
      using that by (simp_all add: umem_dom)
    have "user_byte space s2 b = user_byte space s b"
      using apart [OF b(2)] by (simp add: user_byte_def vmm_user_phys_view [OF m(1)] vmm_user_phys_view [OF ok] view pv)
    moreover have "mem s2 (user_byte space s b) = mem s (user_byte space s b)"
      using keptD(3) [OF k old [OF b(2)]] in_page_user_byte [OF b(2)] by (simp add: same_page_def)
    ultimately show ?thesis
      using b acc(1) by (simp add: umem_def)
  qed
  ultimately show ?thesis
    using acc apart a(1,6,7,8) m(2,3,6,7) by (auto simp: grown_def map_le_def)
qed

text \<open>Four free frames are enough for a page, where no huge page is in the way.\<close>

lemma map_user_works:
  assumes ok: "pt_ok s space xs" and n: "4 \<le> length xs" and huge: "\<And>q. \<not> huge_at s space q"
    and alloc: "pmm_alloc_page s = (f, s1)" and map: "vmm_map_user space va f flags s1 = (r, s2)"
  shows "f \<noteq> 0" "r = 0"
proof -
  obtain g ys where xs: "xs = g # ys"
    using n by (cases xs) auto
  then show f: "f \<noteq> 0"
    using pt_okD(1) [OF ok] pmm.alloc_pop alloc free_frames_aligned by (metis fst_conv list.set_intros(1))
  obtain zs where z: "xs = f # zs" "pt_ok s1 space zs" "\<And>q. huge_at s1 space q \<Longrightarrow> huge_at s space q"
    using alloc_kept [OF ok alloc f] by blast
  have "\<not> length zs < 3" "\<not> blocked s1 space (vpath va)"
    using n z(1,3) huge by (auto simp: blocked_def)
  then show "r = 0"
    using vmm_map_kept [OF z(2) map [unfolded vmm_map_user_def]] by (auto split: if_splits)
qed

lemma grown_dom: "grown space s s' \<Longrightarrow> a \<in> dom (umem space s) \<Longrightarrow> a \<in> dom (umem space s')"
  unfolding grown_def using map_le_implies_dom_le by blast

lemma map_pages_grown:
  assumes "user_space space xs s" "map_pages space vas s = (0, s')" "\<And>va. va \<in> set vas \<Longrightarrow> va \<le> USER_LIMIT"
  shows "\<exists>ys. user_space space ys s' \<and> grown space s s' \<and> set vas \<subseteq> dom (umem space s') \<and>
    length xs \<le> length ys + 4 * length vas \<and> (\<forall>q. huge_at s' space q \<longrightarrow> huge_at s space q)"
  using assms
proof (induction vas arbitrary: s xs)
  case Nil
  then show ?case
    by (auto simp: grown_refl)
next
  case (Cons va vas)
  show ?case
  proof (cases "vmm_user_phys space va s = 0")
    case False
    then have "map_pages space vas s = (0, s')"
      using Cons.prems(2) by simp
    from Cons.IH [OF Cons.prems(1) this Cons.prems(3)]
    obtain ys where ys: "user_space space ys s'" "grown space s s'" "set vas \<subseteq> dom (umem space s')"
      "length xs \<le> length ys + 4 * length vas" "\<forall>q. huge_at s' space q \<longrightarrow> huge_at s space q"
      by (auto simp del: domIff)
    have "va \<in> dom (umem space s)"
      using False Cons.prems(3) [of va] by (auto simp: umem_dom vmm_user_phys_access split: if_splits)
    from grown_dom [OF ys(2) this] ys show ?thesis
      by auto
  next
    case True
    obtain f s1 where alloc: "pmm_alloc_page s = (f, s1)"
      by fastforce
    obtain r s2 where map: "vmm_map_user space va f VMM_WRITE s1 = (r, s2)"
      by fastforce
    have run: "f \<noteq> 0" "r = 0" "map_pages space vas s2 = (0, s')"
      using Cons.prems(2) True alloc map by (auto split: if_splits)
    obtain zs where zs: "user_space space zs s2" "grown space s s2" "page_access space va False s2"
      "length xs \<le> length zs + 4" "\<forall>q. huge_at s2 space q \<longrightarrow> huge_at s space q"
      using map_user_grown [OF Cons.prems(1) True alloc run(1)] map run(2) by blast
    from Cons.IH [OF zs(1) run(3) Cons.prems(3)]
    obtain ys where ys: "user_space space ys s'" "grown space s2 s'" "set vas \<subseteq> dom (umem space s')"
      "length zs \<le> length ys + 4 * length vas" "\<forall>q. huge_at s' space q \<longrightarrow> huge_at s2 space q"
      by (auto simp del: domIff)
    have "va \<in> dom (umem space s2)"
      using zs(3) Cons.prems(3) by (simp add: umem_dom)
    from grown_dom [OF ys(2) this] ys zs(4,5) grown_trans [OF zs(2) ys(2)] show ?thesis
      by (intro exI [of _ ys]) auto
  qed
qed

lemma map_pages_works:
  assumes "user_space space xs s" "\<And>q. \<not> huge_at s space q" "4 * length vas \<le> length xs"
  shows "\<exists>s'. map_pages space vas s = (0, s')"
  using assms
proof (induction vas arbitrary: s xs)
  case (Cons va vas)
  show ?case
  proof (cases "vmm_user_phys space va s = 0")
    case False
    then show ?thesis
      using Cons by simp
  next
    case True
    obtain f s1 where alloc: "pmm_alloc_page s = (f, s1)"
      by fastforce
    obtain r s2 where map: "vmm_map_user space va f VMM_WRITE s1 = (r, s2)"
      by fastforce
    have "4 \<le> length xs"
      using Cons.prems(3) by simp
    note works = map_user_works [OF user_spaceD(1) [OF Cons.prems(1)] this Cons.prems(2) alloc map]
    obtain zs where zs: "user_space space zs s2" "length xs \<le> length zs + 4" "\<forall>q. huge_at s2 space q \<longrightarrow> huge_at s space q"
      using map_user_grown [OF Cons.prems(1) True alloc works(1)] map works(2) by blast
    have "\<exists>s'. map_pages space vas s2 = (0, s')"
      using Cons.IH [OF zs(1)] zs(2,3) Cons.prems(2,3) by auto
    then show ?thesis
      using True alloc map works by simp
  qed
qed simp

section \<open>Ranges of pages\<close>

lemma unat_page_up:
  "unat a < 18446744073709547520 \<Longrightarrow> unat (page_up a) = (unat a + 4095) div 4096 * 4096"
proof -
  assume a: "unat a < 18446744073709547520"
  have "page_up a = page_base (a + 4095)"
    by (simp add: page_up_def page_base_def add.commute)
  moreover have "unat (a + 4095) = unat a + 4095"
    using a by (simp add: unat_word_ariths)
  ultimately show ?thesis
    by (simp add: unat_page_base minus_mod_eq_div_mult)
qed

lemma range_pages_cover:
  assumes "unat start \<le> unat a" "unat a < unat stop" "unat stop < 18446744073709547520"
  shows "page_base a \<in> set (range_pages start stop)"
proof -
  define i where "i = unat a div 4096 - unat start div 4096"
  have "unat start div 4096 \<le> unat a div 4096"
    using assms(1) by (rule div_le_mono)
  then have i: "unat a div 4096 = unat start div 4096 + i"
    by (simp add: i_def)
  have base: "unat (page_base start) = unat start div 4096 * 4096" "unat (page_base a) = unat a div 4096 * 4096"
    by (simp_all add: unat_page_base minus_mod_eq_div_mult)
  have "unat a div 4096 < (unat stop + 4095) div 4096"
    using assms(2) by linarith
  then have "i < (unat (page_up stop) - unat (page_down start)) div 4096"
    using i base(1) assms(3) by (simp add: unat_page_up page_down_def page_base_def flip: diff_mult_distrib)
  moreover have "page_base a = page_down start + word_of_nat i * PAGE_SIZE"
  proof -
    have "unat (page_base start + word_of_nat (i * 4096)) = unat (page_base start) + i * 4096"
      using base i unat_u64_less [of "page_base a"] by (intro unat_add_of_nat_u64) (simp add: algebra_simps)
    then have "page_base a = page_base start + word_of_nat (i * 4096)"
      using base i by (simp only: word_unat_eq_iff) (simp add: algebra_simps)
    then show ?thesis
      by (simp add: page_down_def page_base_def)
  qed
  ultimately show ?thesis
    unfolding range_pages_def by auto
qed

lemma range_pages_bound:
  assumes "va \<in> set (range_pages start stop)" "unat stop < 18446744073709547520"
  shows "unat va < (unat stop + 4095) div 4096 * 4096" "page_aligned va"
proof -
  obtain i where i: "i < (unat (page_up stop) - unat (page_down start)) div 4096" "va = page_base start + word_of_nat (i * 4096)"
    using assms(1) by (auto simp: range_pages_def page_down_def page_base_def)
  have base: "unat (page_down start) = unat start div 4096 * 4096" "page_down start = page_base start"
    unfolding page_down_def page_base_def [symmetric] by (simp_all add: unat_page_base minus_mod_eq_div_mult)
  have "unat start div 4096 + i < (unat stop + 4095) div 4096"
    using i(1) by (simp add: unat_page_up assms(2) base(1) flip: diff_mult_distrib)
  then have lt: "(unat start div 4096 + i) * 4096 < (unat stop + 4095) div 4096 * 4096"
    by simp
  have "(unat stop + 4095) div 4096 * 4096 \<le> unat stop + 4095"
    by (rule div_times_less_eq_dividend)
  with lt have "unat (page_down start) + i * 4096 < 18446744073709551616"
    using assms(2) base(1) by (simp add: add_mult_distrib)
  then have "unat va = unat (page_down start) + i * 4096"
    unfolding i(2) base(2) [symmetric] by (rule unat_add_of_nat_u64)
  then have va: "unat va = (unat start div 4096 + i) * 4096"
    by (simp only: base(1) add_mult_distrib)
  show "unat va < (unat stop + 4095) div 4096 * 4096" "page_aligned va"
    using lt by (simp_all only: va page_aligned_unat dvd_triv_right)
qed

lemma map_range_grown:
  assumes "user_space space xs s" "map_range space start stop s = (0, s')" "unat stop \<le> 0x80000000"
  shows "\<exists>ys. user_space space ys s' \<and> grown space s s' \<and> set (range_pages start stop) \<subseteq> dom (umem space s') \<and>
    (\<forall>a. unat start \<le> unat a \<longrightarrow> unat a < unat stop \<longrightarrow> page_access space a False s') \<and>
    length xs \<le> length ys + 4 * length (range_pages start stop) \<and> (\<forall>q. huge_at s' space q \<longrightarrow> huge_at s space q)"
proof -
  have "va \<le> USER_LIMIT" if "va \<in> set (range_pages start stop)" for va
    using range_pages_bound(1) [OF that] assms(3) by (simp add: word_le_nat_alt)
  from map_pages_grown [OF assms(1) assms(2) [unfolded map_range_def] this]
  obtain ys where ys: "user_space space ys s'" "grown space s s'" "set (range_pages start stop) \<subseteq> dom (umem space s')"
    "length xs \<le> length ys + 4 * length (range_pages start stop)" "\<forall>q. huge_at s' space q \<longrightarrow> huge_at s space q"
    by blast
  have "page_access space a False s'" if "unat start \<le> unat a" "unat a < unat stop" for a
  proof -
    have "page_base a \<in> dom (umem space s')"
      using range_pages_cover [OF that] assms(3) ys(3) by auto
    then show ?thesis
      by (simp add: umem_dom)
  qed
  then show ?thesis
    using ys by blast
qed

section \<open>The image\<close>

text \<open>
  The bytes of a segment in memory: those of the file and zeros behind them. The image puts the
  segments over each other in their order.
\<close>

definition segment_bytes :: "u8 list \<Rightarrow> elf64_phdr \<Rightarrow> u8 list" where
  "segment_bytes img p =
     take (unat (ph_filesz p)) (drop (unat (ph_offset p)) img) @ replicate (unat (ph_memsz p - ph_filesz p)) 0"

fun image_over :: "u8 list \<Rightarrow> elf64_phdr list \<Rightarrow> (u64 \<Rightarrow> u8 option) \<Rightarrow> u64 \<Rightarrow> u8 option" where
  "image_over img [] m = m"
| "image_over img (p # ps) m =
     image_over img ps (if ph_type p = PT_LOAD then over (ph_vaddr p) (segment_bytes img p) m else m)"

lemma over_Nil [simp]: "over d [] m = m"
  by (auto simp: over_def fun_eq_iff)

lemma over_mono: "m \<subseteq>\<^sub>m n \<Longrightarrow> over d bs m \<subseteq>\<^sub>m over d bs n"
  by (auto simp: over_def map_le_def split: if_splits)

lemma over_append:
  assumes "unat d + length xs < 18446744073709551616"
  shows "over (d + word_of_nat (length xs)) ys (over d xs m) = over d (xs @ ys) m"
  using unat_add_of_nat_u64 [OF assms] by (auto simp: over_def fun_eq_iff nth_append)

text \<open>What the checks of a segment give.\<close>

lemma segment_okD:
  assumes "segment_ok (word_of_nat (length img)) p" "length img < 18446744073709551616"
  shows "unat (ph_vaddr p + ph_memsz p) = unat (ph_vaddr p) + unat (ph_memsz p)"
    "unat (ph_vaddr p) + unat (ph_memsz p) \<le> 0x10000000" "0x400000 \<le> unat (ph_vaddr p)"
    "unat (ph_memsz p - ph_filesz p) = unat (ph_memsz p) - unat (ph_filesz p)" "unat (ph_filesz p) \<le> unat (ph_memsz p)"
    "length (take (unat (ph_filesz p)) (drop (unat (ph_offset p)) img)) = unat (ph_filesz p)"
    "length (segment_bytes img p) = unat (ph_memsz p)"
proof -
  note a = assms(1) [unfolded segment_ok_def de_Morgan_disj not_less not_le]
  have v: "ph_vaddr p \<le> USER_IMAGE_END"
    using a by (auto simp: word_le_nat_alt word_less_nat_alt)
  have m: "unat (ph_memsz p) \<le> 0x10000000 - unat (ph_vaddr p)"
    using a v by (simp add: word_le_nat_alt unat_sub)
  then show sum: "unat (ph_vaddr p) + unat (ph_memsz p) \<le> 0x10000000"
    using v by (simp add: word_le_nat_alt)
  show "unat (ph_vaddr p + ph_memsz p) = unat (ph_vaddr p) + unat (ph_memsz p)"
    using sum by (subst unat_add_lem [THEN iffD1]) simp_all
  show "0x400000 \<le> unat (ph_vaddr p)"
    using a by (simp add: word_le_nat_alt)
  show f: "unat (ph_filesz p) \<le> unat (ph_memsz p)"
    using a by (simp add: word_le_nat_alt)
  show d: "unat (ph_memsz p - ph_filesz p) = unat (ph_memsz p) - unat (ph_filesz p)"
    using f by (simp add: unat_sub word_le_nat_alt)
  have "ph_offset p \<le> word_of_nat (length img)" "ph_filesz p \<le> word_of_nat (length img) - ph_offset p"
    using a by simp_all
  then have "unat (ph_filesz p) \<le> length img - unat (ph_offset p)"
    using unat_sub [of "ph_offset p" "word_of_nat (length img)"] assms(2) by (simp add: word_le_nat_alt)
  then show l: "length (take (unat (ph_filesz p)) (drop (unat (ph_offset p)) img)) = unat (ph_filesz p)"
    by simp
  show "length (segment_bytes img p) = unat (ph_memsz p)"
    unfolding segment_bytes_def length_append l length_replicate d using f by simp
qed

text \<open>The pages of a segment, and how many pages a program header asks for.\<close>

definition segment_range :: "elf64_phdr \<Rightarrow> u64 list" where
  "segment_range p = (if ph_type p = PT_LOAD \<and> ph_memsz p \<noteq> 0 then range_pages (ph_vaddr p) (ph_vaddr p + ph_memsz p) else [])"

definition image_pages :: "elf64_phdr list \<Rightarrow> nat" where
  "image_pages ps = sum_list (map (\<lambda>p. length (segment_range p)) ps)"

lemma load_segment_umem:
  assumes u: "user_space space xs s" and ok: "segment_ok (word_of_nat (length img)) p" "length img < 18446744073709551616"
    and map: "map_range space (ph_vaddr p) (ph_vaddr p + ph_memsz p) s = (0, s1)"
  shows "\<exists>ys s2 s3. copy_out space (ph_vaddr p) (take (unat (ph_filesz p)) (drop (unat (ph_offset p)) img)) s1 = (0, s2) \<and>
    zero_out space (ph_vaddr p + ph_filesz p) (unat (ph_memsz p - ph_filesz p)) s2 = (0, s3) \<and>
    user_space space ys s3 \<and> hhdm s3 = hhdm s \<and> phys.more s3 = phys.more s \<and>
    umem space s3 = over (ph_vaddr p) (segment_bytes img p) (umem space s1) \<and> umem space s \<subseteq>\<^sub>m umem space s1 \<and>
    set (range_pages (ph_vaddr p) (ph_vaddr p + ph_memsz p)) \<subseteq> dom (umem space s1) \<and>
    length xs \<le> length ys + 4 * length (range_pages (ph_vaddr p) (ph_vaddr p + ph_memsz p)) \<and>
    (\<forall>q. huge_at s3 space q \<longrightarrow> huge_at s space q)"
proof -
  note D = segment_okD [OF ok]
  let ?fb = "take (unat (ph_filesz p)) (drop (unat (ph_offset p)) img)"
  let ?zb = "replicate (unat (ph_memsz p - ph_filesz p)) 0 :: u8 list"
  obtain ys where g: "user_space space ys s1" "grown space s s1"
    "\<And>a. unat (ph_vaddr p) \<le> unat a \<Longrightarrow> unat a < unat (ph_vaddr p) + unat (ph_memsz p) \<Longrightarrow> page_access space a False s1"
    "set (range_pages (ph_vaddr p) (ph_vaddr p + ph_memsz p)) \<subseteq> dom (umem space s1)"
    "length xs \<le> length ys + 4 * length (range_pages (ph_vaddr p) (ph_vaddr p + ph_memsz p))"
    "\<forall>q. huge_at s1 space q \<longrightarrow> huge_at s space q"
    using map_range_grown [OF u map] D(1,2) by (auto simp del: domIff)
  have at: "unat (ph_vaddr p + word_of_nat i) = unat (ph_vaddr p) + i" if "i \<le> unat (ph_memsz p)" for i
    using that D(2) by (intro unat_add_of_nat_u64) simp
  have fs: "ph_vaddr p + ph_filesz p = ph_vaddr p + word_of_nat (unat (ph_filesz p))"
    by simp
  obtain s2 where s2: "copy_out space (ph_vaddr p) ?fb s1 = (0, s2)" "user_space space ys s2"
    "umem space s2 = over (ph_vaddr p) ?fb (umem space s1)" "hhdm s2 = hhdm s1" "phys.more s2 = phys.more s1"
    "pt_view s2 space = pt_view s1 space" "\<forall>q. huge_at s2 space q = huge_at s1 space q"
    using copy_out_umem [OF g(1), of "ph_vaddr p" ?fb] D(2,5) g(3) at by (simp only: D(6)) auto
  have acc: "page_access space a False s2 = page_access space a False s1" for a
    using page_access_view [OF user_spaceD(1) [OF s2(2)]] page_access_view [OF user_spaceD(1) [OF g(1)]] s2(6) by simp
  have at2: "ph_vaddr p + ph_filesz p + word_of_nat i = ph_vaddr p + word_of_nat (unat (ph_filesz p) + i)" for i
    by simp
  have lim: "unat (ph_vaddr p + ph_filesz p) + length ?zb \<le> unat USER_LIMIT + 1"
    using D(2,4,5) at [of "unat (ph_filesz p)"] by simp
  have "page_access space (ph_vaddr p + ph_filesz p + word_of_nat i) False s2" if "i < length ?zb" for i
    unfolding at2 acc using g(3) at [of "unat (ph_filesz p) + i"] that D(4) by simp
  from copy_out_umem [OF s2(2) lim this]
  obtain s3 where s3: "copy_out space (ph_vaddr p + ph_filesz p) ?zb s2 = (0, s3)"
    "user_space space ys s3" "hhdm s3 = hhdm s2" "phys.more s3 = phys.more s2"
    "umem space s3 = over (ph_vaddr p + ph_filesz p) ?zb (umem space s2)" "\<forall>q. huge_at s3 space q = huge_at s2 space q"
    by blast
  have "umem space s3 = over (ph_vaddr p) (segment_bytes img p) (umem space s1)"
    using over_append [of "ph_vaddr p" ?fb] D(2,5,6) fs by (simp add: s3(5) s2(3) segment_bytes_def)
  moreover have "hhdm s3 = hhdm s" "phys.more s3 = phys.more s" "umem space s \<subseteq>\<^sub>m umem space s1"
    using s2(4,5) s3(3,4) g(2) by (simp_all add: grown_def)
  moreover have "\<forall>q. huge_at s3 space q \<longrightarrow> huge_at s space q"
    using s2(7) s3(6) g(6) by blast
  ultimately show ?thesis
    using s2(1) s3(1,2) g(4,5) unfolding zero_out_def by blast
qed

lemma over_dom: "dom m \<subseteq> dom (over d bs m)"
  by (auto simp: over_def)

lemma load_segments_umem:
  assumes "user_space space xs s" "load_segments space img ps s = (True, s')" "length img < 18446744073709551616"
    and "m \<subseteq>\<^sub>m umem space s"
  shows "\<exists>ys. user_space space ys s' \<and> hhdm s' = hhdm s \<and> phys.more s' = phys.more s \<and> image_over img ps m \<subseteq>\<^sub>m umem space s' \<and>
    dom (umem space s) \<subseteq> dom (umem space s') \<and> (\<forall>p \<in> set ps. set (segment_range p) \<subseteq> dom (umem space s')) \<and>
    length xs \<le> length ys + 4 * image_pages ps \<and> (\<forall>q. huge_at s' space q \<longrightarrow> huge_at s space q)"
  using assms
proof (induction ps arbitrary: s xs m)
  case Nil
  then show ?case
    by (intro exI [of _ xs]) (auto simp: image_pages_def)
next
  case (Cons p ps)
  show ?case
  proof (cases "ph_type p = PT_LOAD")
    case False
    then have "load_segments space img ps s = (True, s')" "segment_range p = []"
      using Cons.prems(2) by (simp_all add: segment_range_def)
    then show ?thesis
      using Cons.IH [OF Cons.prems(1) _ Cons.prems(3,4)] False by (auto simp: image_pages_def simp del: domIff)
  next
    case load: True
    then have ok: "segment_ok (word_of_nat (length img)) p"
      using Cons.prems(2) by (auto split: if_splits)
    show ?thesis
    proof (cases "ph_memsz p = 0")
      case True
      have "segment_bytes img p = []" "segment_range p = []" "load_segments space img ps s = (True, s')"
        using segment_okD(7) [OF ok Cons.prems(3)] True Cons.prems(2) load ok by (simp_all add: segment_range_def)
      then show ?thesis
        using Cons.IH [OF Cons.prems(1) _ Cons.prems(3,4)] load by (auto simp: image_pages_def simp del: domIff)
    next
      case False
      have seg: "segment_range p = range_pages (ph_vaddr p) (ph_vaddr p + ph_memsz p)"
        using load False by (simp add: segment_range_def)
      obtain r s1 where map: "map_range space (ph_vaddr p) (ph_vaddr p + ph_memsz p) s = (r, s1)"
        by fastforce
      have "r = 0"
        using Cons.prems(2) load ok False map by (auto split: if_splits)
      note map' = map [unfolded this]
      obtain ys s2 s3 where S: "copy_out space (ph_vaddr p) (take (unat (ph_filesz p)) (drop (unat (ph_offset p)) img)) s1 = (0, s2)"
        "zero_out space (ph_vaddr p + ph_filesz p) (unat (ph_memsz p - ph_filesz p)) s2 = (0, s3)"
        "user_space space ys s3" "hhdm s3 = hhdm s" "phys.more s3 = phys.more s"
        "umem space s3 = over (ph_vaddr p) (segment_bytes img p) (umem space s1)" "umem space s \<subseteq>\<^sub>m umem space s1"
        "set (segment_range p) \<subseteq> dom (umem space s1)" "length xs \<le> length ys + 4 * length (segment_range p)"
        "\<forall>q. huge_at s3 space q \<longrightarrow> huge_at s space q"
        using load_segment_umem [OF Cons.prems(1) ok Cons.prems(3) map', folded seg] by blast
      have run: "load_segments space img ps s3 = (True, s')"
        using Cons.prems(2) load ok False map' S(1,2) by simp
      have m: "over (ph_vaddr p) (segment_bytes img p) m \<subseteq>\<^sub>m umem space s3"
        unfolding S(6) using Cons.prems(4) S(7) by (intro over_mono) (rule map_le_trans)
      obtain zs where Z: "user_space space zs s'" "hhdm s' = hhdm s3" "phys.more s' = phys.more s3"
        "image_over img ps (over (ph_vaddr p) (segment_bytes img p) m) \<subseteq>\<^sub>m umem space s'"
        "dom (umem space s3) \<subseteq> dom (umem space s')" "\<forall>p \<in> set ps. set (segment_range p) \<subseteq> dom (umem space s')"
        "length ys \<le> length zs + 4 * image_pages ps" "\<forall>q. huge_at s' space q \<longrightarrow> huge_at s3 space q"
        using Cons.IH [OF S(3) run Cons.prems(3) m] by blast
      have "dom (umem space s1) \<subseteq> dom (umem space s')"
        using Z(5) over_dom [of "umem space s1"] unfolding S(6) by blast
      moreover have "dom (umem space s) \<subseteq> dom (umem space s1)"
        by (rule map_le_implies_dom_le [OF S(7)])
      moreover have "length xs \<le> length zs + 4 * image_pages (p # ps)"
        using S(9) Z(7) by (simp add: image_pages_def)
      moreover have "\<forall>q. huge_at s' space q \<longrightarrow> huge_at s space q"
        using S(10) Z(8) by blast
      ultimately show ?thesis
        using S(4,5,8) Z(1-4,6) load by (intro exI [of _ zs]) (simp del: domIff, blast)
    qed
  qed
qed

text \<open>With four free frames for a page of the image, only a bad segment is refused.\<close>

lemma load_segments_works:
  assumes "user_space space xs s" "\<And>q. \<not> huge_at s space q" "length img < 18446744073709551616" "4 * image_pages ps \<le> length xs"
    and "\<And>p. p \<in> set ps \<Longrightarrow> ph_type p = PT_LOAD \<Longrightarrow> segment_ok (word_of_nat (length img)) p"
  shows "\<exists>s'. load_segments space img ps s = (True, s')"
  using assms
proof (induction ps arbitrary: s xs)
  case (Cons p ps)
  show ?case
  proof (cases "ph_type p = PT_LOAD \<and> ph_memsz p \<noteq> 0")
    case False
    then have "segment_range p = []"
      by (auto simp: segment_range_def)
    then have "\<exists>s'. load_segments space img ps s = (True, s')"
      using Cons.IH [OF Cons.prems(1,2,3)] Cons.prems(4,5) by (simp add: image_pages_def)
    then show ?thesis
      using False Cons.prems(5) by auto
  next
    case True
    then have ok: "segment_ok (word_of_nat (length img)) p" and seg: "segment_range p = range_pages (ph_vaddr p) (ph_vaddr p + ph_memsz p)"
      using Cons.prems(5) by (simp_all add: segment_range_def)
    have n: "4 * length (segment_range p) + 4 * image_pages ps \<le> length xs"
      using Cons.prems(4) by (simp add: image_pages_def)
    obtain s1 where map: "map_range space (ph_vaddr p) (ph_vaddr p + ph_memsz p) s = (0, s1)"
      using map_pages_works [OF Cons.prems(1,2), of "segment_range p"] n unfolding map_range_def seg by auto
    obtain ys s2 s3 where S: "copy_out space (ph_vaddr p) (take (unat (ph_filesz p)) (drop (unat (ph_offset p)) img)) s1 = (0, s2)"
      "zero_out space (ph_vaddr p + ph_filesz p) (unat (ph_memsz p - ph_filesz p)) s2 = (0, s3)"
      "user_space space ys s3" "length xs \<le> length ys + 4 * length (segment_range p)" "\<forall>q. huge_at s3 space q \<longrightarrow> huge_at s space q"
      using load_segment_umem [OF Cons.prems(1) ok Cons.prems(3) map, folded seg] by blast
    have "4 * image_pages ps \<le> length ys"
      using n S(4) by linarith
    then have "\<exists>s'. load_segments space img ps s3 = (True, s')"
      using Cons.IH [OF S(3) _ Cons.prems(3)] Cons.prems(2,5) S(5) by simp
    then show ?thesis
      using True ok map S(1,2) by simp
  qed
qed simp

section \<open>Protection\<close>

text \<open>A change of the tables that keeps where every page is keeps the memory.\<close>

lemma kept_umem:
  assumes u: "user_space space xs s" and ok: "pt_ok s' space xs" and k: "kept s space xs s' xs" and h: "hhdm s' = hhdm s"
    and acc: "\<And>a. page_access space a False s' = page_access space a False s"
    and phys: "\<And>a. vmm_user_phys space a s' = vmm_user_phys space a s"
  shows "user_space space xs s'" "umem space s' = umem space s"
proof -
  have pv: "phys_to_virt s' = phys_to_virt s"
    by (simp add: phys_to_virt_def fun_eq_iff h)
  have fr: "user_frame space s' = user_frame space s"
    by (simp add: user_frame_def fun_eq_iff phys)
  have d: "data_frame s' space xs (user_frame space s a)" if "page_access space a False s" for a
    using user_spaceD(2) [OF u that] outside_data [OF keptD(2) [OF k data_outside [OF user_spaceD(2) [OF u that]]]]
    by (simp add: pv data_frame_def)
  show "user_space space xs s'"
    unfolding user_space_def acc fr using ok d user_spaceD(3) [OF u] by blast
  have "mem s' (user_byte space s a) = mem s (user_byte space s a)" if "page_access space a False s" for a
    using keptD(3) [OF k data_outside [OF user_spaceD(2) [OF u that]]] in_page_user_byte [OF that] by (simp add: same_page_def)
  then show "umem space s' = umem space s"
    by (simp add: umem_def fun_eq_iff user_byte_def acc phys pv)
qed

lemma protect_user_umem:
  assumes u: "user_space space xs s" and run: "vmm_protect_user space va flags s = (0, s')"
  shows "user_space space xs s'" "umem space s' = umem space s" "hhdm s' = hhdm s" "phys.more s' = phys.more s"
    "page_access space a True s' = (if vpath a = vpath va then flags AND VMM_WRITE \<noteq> 0 else page_access space a True s)"
    "huge_at s' space q \<Longrightarrow> huge_at s space q"
proof -
  note ok = user_spaceD(1) [OF u]
  have "page_access space va False s"
    using run vmm_protect_refused by (metis prod.inject zero_neq_neg_one)
  from vmm_protect_leaf [OF ok this, of flags] obtain t d e where t: "pt_walk s space (butlast (vpath va)) = Some t"
    and d: "pt_view s space (vpath va) = Some d" "d AND PTE_USER \<noteq> 0"
    and s': "s' = wr (entry_at (phys_to_virt s t) (last (vpath va))) e s"
    and e: "e AND PTE_PRESENT \<noteq> 0" "e AND PTE_USER \<noteq> 0" "e AND ADDR_MASK = d AND ADDR_MASK"
      "e AND PTE_WRITE \<noteq> 0 \<longleftrightarrow> flags AND VMM_WRITE \<noteq> 0"
    using run by auto
  note l = leaf_wr [OF ok t, where e = e, folded s']
  have acc: "page_access space a False s' = page_access space a False s" for a
    using d e(1,2) by (simp add: page_access_view [OF ok] page_access_view [OF l(1)] l(3))
  have phys: "vmm_user_phys space a s' = vmm_user_phys space a s" for a
    using d e by (simp add: vmm_user_phys_view [OF ok] vmm_user_phys_view [OF l(1)] l(3))
  show "hhdm s' = hhdm s" "phys.more s' = phys.more s"
    by (simp_all add: s')
  then show "user_space space xs s'" "umem space s' = umem space s"
    using kept_umem [OF u l(1) leaf_kept [OF ok t, of e, folded s'] _ acc phys] by simp_all
  show "page_access space a True s' = (if vpath a = vpath va then flags AND VMM_WRITE \<noteq> 0 else page_access space a True s)"
    using d e by (simp add: page_access_view [OF ok] page_access_view [OF l(1)] l(3))
  show "huge_at s' space q \<Longrightarrow> huge_at s space q"
    using leaf_huge [OF ok t] s' by blast
qed

lemma protect_user_works: "user_space space xs s \<Longrightarrow> page_access space va False s \<Longrightarrow> \<exists>s'. vmm_protect_user space va flags s = (0, s')"
  using vmm_protect_leaf [OF user_spaceD(1)] by blast

lemma protect_pages_umem:
  assumes "user_space space xs s" "protect_pages space flags vas s = (True, s')"
  shows "user_space space xs s' \<and> umem space s' = umem space s \<and> hhdm s' = hhdm s \<and> phys.more s' = phys.more s \<and>
    (\<forall>q. huge_at s' space q \<longrightarrow> huge_at s space q) \<and>
    (\<forall>a. page_access space a True s' = (if vpath a \<in> vpath ` set vas then flags AND VMM_WRITE \<noteq> 0 else page_access space a True s))"
  using assms
proof (induction vas arbitrary: s)
  case (Cons va vas)
  obtain r t where t: "vmm_protect_user space va flags s = (r, t)"
    by fastforce
  then have run: "vmm_protect_user space va flags s = (0, t)" "protect_pages space flags vas t = (True, s')"
    using Cons.prems(2) by (auto split: if_splits)
  note p = protect_user_umem [OF Cons.prems(1) run(1)]
  show ?case
    using Cons.IH [OF p(1) run(2)] p(2-6) by auto
qed simp

lemma protect_pages_works:
  assumes "user_space space xs s" "set vas \<subseteq> dom (umem space s)"
  shows "\<exists>s'. protect_pages space flags vas s = (True, s')"
  using assms
proof (induction vas arbitrary: s)
  case (Cons va vas)
  have "page_access space va False s"
    using Cons.prems(2) by (simp add: umem_dom)
  then obtain t where t: "vmm_protect_user space va flags s = (0, t)"
    using protect_user_works [OF Cons.prems(1)] by blast
  note p = protect_user_umem [OF Cons.prems(1) t]
  have "\<exists>s'. protect_pages space flags vas t = (True, s')"
    using Cons.IH [OF p(1)] Cons.prems(2) p(2) by simp
  then show ?case
    using t by simp
qed simp

text \<open>Whether a byte can be written: as the last segment on its page says.\<close>

fun writable_over :: "elf64_phdr list \<Rightarrow> (u64 \<Rightarrow> bool) \<Rightarrow> u64 \<Rightarrow> bool" where
  "writable_over [] w = w"
| "writable_over (p # ps) w =
     writable_over ps (if ph_type p = PT_LOAD \<and> ph_memsz p \<noteq> 0
       then (\<lambda>a. if page_base a \<in> set (range_pages (ph_vaddr p) (ph_vaddr p + ph_memsz p)) then ph_flags p AND PF_W \<noteq> 0 else w a)
       else w)"

lemma vpath_base: "vpath (page_base a) = vpath a"
  by (simp add: vpath_def drop_bit_page_base)

lemma vpath_page:
  assumes "\<And>va. va \<in> set vas \<Longrightarrow> va \<le> USER_LIMIT \<and> page_aligned va" "a \<le> USER_LIMIT"
  shows "vpath a \<in> vpath ` set vas \<longleftrightarrow> page_base a \<in> set vas"
proof
  assume "vpath a \<in> vpath ` set vas"
  then obtain va where va: "va \<in> set vas" "vpath a = vpath va"
    by blast
  then have "page_base a = page_base va"
    using assms by (intro vpath_inj) auto
  then show "page_base a \<in> set vas"
    using va(1) assms(1) page_base_aligned by simp
next
  assume "page_base a \<in> set vas"
  then show "vpath a \<in> vpath ` set vas"
    using vpath_base [of a] by (metis imageI)
qed

lemma load_segments_ok:
  "load_segments space img ps s = (True, s') \<Longrightarrow> p \<in> set ps \<Longrightarrow> ph_type p = PT_LOAD \<Longrightarrow> segment_ok (word_of_nat (length img)) p"
proof (induction ps arbitrary: s)
  case (Cons q ps)
  then show ?case
    by (cases "p = q") (auto split: if_splits prod.splits)
qed simp

lemma segment_pages:
  fixes img :: "u8 list"
  assumes "segment_ok (word_of_nat (length img)) p" "length img < 18446744073709551616"
  shows "va \<in> set (range_pages (ph_vaddr p) (ph_vaddr p + ph_memsz p)) \<Longrightarrow> va \<le> USER_LIMIT \<and> page_aligned va"
    "unat (ph_vaddr p) \<le> unat a \<Longrightarrow> unat a < unat (ph_vaddr p) + unat (ph_memsz p) \<Longrightarrow>
      page_base a \<in> set (range_pages (ph_vaddr p) (ph_vaddr p + ph_memsz p))"
proof -
  note D = segment_okD(1,2) [OF assms]
  show "va \<le> USER_LIMIT \<and> page_aligned va" if "va \<in> set (range_pages (ph_vaddr p) (ph_vaddr p + ph_memsz p))"
    using range_pages_bound [OF that] D by (simp add: word_le_nat_alt)
  show "page_base a \<in> set (range_pages (ph_vaddr p) (ph_vaddr p + ph_memsz p))"
    if "unat (ph_vaddr p) \<le> unat a" "unat a < unat (ph_vaddr p) + unat (ph_memsz p)"
    using range_pages_cover [of "ph_vaddr p" a "ph_vaddr p + ph_memsz p"] that D by simp
qed

lemma protect_segments_umem:
  fixes img :: "u8 list"
  assumes "user_space space xs s" "protect_segments space ps s = (True, s')" "length img < 18446744073709551616"
    and "\<And>p. p \<in> set ps \<Longrightarrow> ph_type p = PT_LOAD \<Longrightarrow> segment_ok (word_of_nat (length img)) p"
    and "\<And>a. a \<le> USER_LIMIT \<Longrightarrow> page_access space a True s = w a"
  shows "user_space space xs s' \<and> umem space s' = umem space s \<and> hhdm s' = hhdm s \<and> phys.more s' = phys.more s \<and>
    (\<forall>q. huge_at s' space q \<longrightarrow> huge_at s space q) \<and>
    (\<forall>a. a \<le> USER_LIMIT \<longrightarrow> page_access space a True s' = writable_over ps w a)"
  using assms
proof (induction ps arbitrary: s w)
  case (Cons p ps)
  show ?case
  proof (cases "ph_type p = PT_LOAD \<and> ph_memsz p \<noteq> 0")
    case False
    then show ?thesis
      using Cons.IH [OF Cons.prems(1) _ Cons.prems(3) _ Cons.prems(5)] Cons.prems(2,4) by (auto split: if_splits)
  next
    case True
    let ?f = "if ph_flags p AND PF_W \<noteq> 0 then VMM_WRITE else 0"
    let ?vas = "range_pages (ph_vaddr p) (ph_vaddr p + ph_memsz p)"
    obtain ok t where t: "protect_pages space ?f ?vas s = (ok, t)"
      by fastforce
    then have run: "protect_pages space ?f ?vas s = (True, t)" "protect_segments space ps t = (True, s')"
      using Cons.prems(2) True by (auto split: if_splits)
    note P = protect_pages_umem [OF Cons.prems(1) run(1)]
    have seg: "segment_ok (word_of_nat (length img)) p"
      using Cons.prems(4) True by simp
    have "page_access space a True t = (if page_base a \<in> set ?vas then ph_flags p AND PF_W \<noteq> 0 else w a)" if "a \<le> USER_LIMIT" for a
      using P vpath_page [OF segment_pages(1) [OF seg Cons.prems(3)] that] Cons.prems(5) [OF that] by auto
    from Cons.IH [OF conjunct1 [OF P] run(2) Cons.prems(3) Cons.prems(4) this]
    show ?thesis
      using P True by simp
  qed
qed simp

lemma protect_segments_works:
  assumes "user_space space xs s" "\<forall>p \<in> set ps. set (segment_range p) \<subseteq> dom (umem space s)"
  shows "\<exists>s'. protect_segments space ps s = (True, s')"
  using assms
proof (induction ps arbitrary: s)
  case (Cons p ps)
  show ?case
  proof (cases "ph_type p = PT_LOAD \<and> ph_memsz p \<noteq> 0")
    case False
    then show ?thesis
      using Cons by auto
  next
    case True
    let ?f = "if ph_flags p AND PF_W \<noteq> 0 then VMM_WRITE else 0"
    have seg: "segment_range p = range_pages (ph_vaddr p) (ph_vaddr p + ph_memsz p)"
      using True by (simp add: segment_range_def)
    have "set (range_pages (ph_vaddr p) (ph_vaddr p + ph_memsz p)) \<subseteq> dom (umem space s)"
      using Cons.prems(2) unfolding seg [symmetric] by simp
    from protect_pages_works [OF Cons.prems(1) this]
    obtain t where t: "protect_pages space ?f (range_pages (ph_vaddr p) (ph_vaddr p + ph_memsz p)) s = (True, t)"
      by blast
    note P = protect_pages_umem [OF Cons.prems(1) t]
    have "\<exists>s'. protect_segments space ps t = (True, s')"
      using Cons.IH [of t] P Cons.prems(2) by (simp del: domIff)
    then show ?thesis
      using True t by simp
  qed
qed simp

lemma over_domD: "a \<in> dom (over d bs m) \<Longrightarrow> unat d \<le> unat a \<and> unat a < unat d + length bs \<or> a \<in> dom m"
  by (auto simp: over_def split: if_splits)

lemma image_dom:
  assumes "\<And>p. p \<in> set ps \<Longrightarrow> ph_type p = PT_LOAD \<Longrightarrow> segment_ok (word_of_nat (length img)) p" "length img < 18446744073709551616"
    and "\<And>a. a \<in> dom m \<Longrightarrow> unat a < 0x10000000" "a \<in> dom (image_over img ps m)"
  shows "unat a < 0x10000000"
  using assms
proof (induction ps arbitrary: m)
  case (Cons p ps)
  have "unat b < 0x10000000" if "b \<in> dom (if ph_type p = PT_LOAD then over (ph_vaddr p) (segment_bytes img p) m else m)" for b
    using that Cons.prems(1) [of p] Cons.prems(3) [of b] segment_okD(2,7) [OF _ Cons.prems(2), of p]
    by (simp split: if_splits) (use over_domD in fastforce)
  then show ?case
    using Cons.IH [of "if ph_type p = PT_LOAD then over (ph_vaddr p) (segment_bytes img p) m else m"] Cons.prems(1,2,4) by auto
qed simp

lemma writable_image:
  assumes "\<And>p. p \<in> set ps \<Longrightarrow> ph_type p = PT_LOAD \<Longrightarrow> segment_ok (word_of_nat (length img)) p" "length img < 18446744073709551616"
    and "a \<in> dom (image_over img ps m)" "a \<in> dom m \<Longrightarrow> w a = w' a"
  shows "writable_over ps w a = writable_over ps w' a"
  using assms
proof (induction ps arbitrary: m w w')
  case (Cons p ps)
  show ?case
  proof (cases "ph_type p = PT_LOAD")
    case False
    then show ?thesis
      using Cons.IH [of m w w'] Cons.prems by auto
  next
    case load: True
    then have seg: "segment_ok (word_of_nat (length img)) p"
      using Cons.prems(1) by simp
    show ?thesis
    proof (cases "ph_memsz p = 0")
      case True
      then have "segment_bytes img p = []"
        using segment_okD(7) [OF seg Cons.prems(2)] by simp
      then show ?thesis
        using Cons.IH [of m w w'] Cons.prems load True by auto
    next
      case False
      let ?P = "set (range_pages (ph_vaddr p) (ph_vaddr p + ph_memsz p))"
      have "page_base a \<in> ?P \<or> w a = w' a" if "a \<in> dom (over (ph_vaddr p) (segment_bytes img p) m)"
        using over_domD [OF that] Cons.prems(4) segment_okD(7) [OF seg Cons.prems(2)] segment_pages(2) [OF seg Cons.prems(2), of a]
        by metis
      then have w: "(if page_base a \<in> ?P then ph_flags p AND PF_W \<noteq> 0 else w a) = (if page_base a \<in> ?P then ph_flags p AND PF_W \<noteq> 0 else w' a)"
        if "a \<in> dom (over (ph_vaddr p) (segment_bytes img p) m)"
        using that by auto
      have "a \<in> dom (image_over img ps (over (ph_vaddr p) (segment_bytes img p) m))"
        using Cons.prems(3) load by simp
      from Cons.IH [where w = "\<lambda>a. if page_base a \<in> ?P then ph_flags p AND PF_W \<noteq> 0 else w a"
          and w' = "\<lambda>a. if page_base a \<in> ?P then ph_flags p AND PF_W \<noteq> 0 else w' a", OF Cons.prems(1) Cons.prems(2) this w]
      show ?thesis
        using load False by simp
    qed
  qed
qed simp

end
