(* ===== verification/User_Stack.thy ===== *)
theory User_Stack
  imports User_Load
begin

text \<open>
  The stack of a new program: the arguments, the environment and the auxiliary vector that
  \<open>build_stack\<close> of \<open>kernel/user.c\<close> puts there, and with them all a program finds in its memory when it
  starts.
\<close>

section \<open>Bytes on the stack\<close>













section \<open>The whole stack\<close>








section \<open>The program\<close>













end
