(* ===== verification/User_Fork.thy ===== *)
theory User_Fork
  imports User_Space Vmm_Clone
begin

text \<open>
  \<^verbatim>\<open>vmm_space_clone\<close>, with which \<^verbatim>\<open>fork\<close> makes the memory of the child: the new address space reads as
  the old one did, with the same access rights, and no later store through one of them is seen in the other.
\<close>

section \<open>Paths of addresses\<close>

lemma index_bits: "(i :: u64) < 512 \<Longrightarrow> 9 \<le> n \<Longrightarrow> \<not> bit i n"
proof -
  assume "i < 512" "9 \<le> n"
  then have "take_bit 9 i = i"
    by (simp only: word_unat_eq_iff unsigned_take_bit_eq take_bit_nat_eq_self_iff) (simp add: word_less_nat_alt)
  then show "\<not> bit i n"
    using bit_take_bit_iff [of 9 i n] \<open>9 \<le> n\<close> by simp
qed

definition path_addr :: "u64 list \<Rightarrow> u64" where
  "path_addr p = push_bit 39 (p ! 0) OR push_bit 30 (p ! 1) OR push_bit 21 (p ! 2) OR push_bit 12 (p ! 3)"

lemma below_limit: "(\<And>n. 47 \<le> n \<Longrightarrow> \<not> bit a n) \<Longrightarrow> a \<le> USER_LIMIT"
proof -
  assume h: "\<And>n. 47 \<le> n \<Longrightarrow> \<not> bit a n"
  have "take_bit 47 a = a"
    by (rule bit_eqI) (use h in \<open>auto simp: bit_take_bit_iff not_less [symmetric]\<close>)
  then have "take_bit 47 (unat a) = unat a"
    by (metis unsigned_take_bit_eq)
  then have "unat a < 2 ^ 47"
    using take_bit_nat_less_exp [of 47 "unat a"] by simp
  then show ?thesis
    by (simp add: word_le_nat_alt)
qed

lemma path_addr:
  assumes "length p = 4" "\<forall>i \<in> set p. i < 512"
  shows "vpath (path_addr p) = p" "hd p < 256 \<Longrightarrow> path_addr p \<le> USER_LIMIT"
proof -
  obtain i j k l where p: "p = [i, j, k, l]"
    using assms(1) by (auto simp: numeral_eq_Suc length_Suc_conv)
  note hi = index_bits [of i] index_bits [of j] index_bits [of k] index_bits [of l]
  have at: "bit (path_addr p) n \<longleftrightarrow> n < 64 \<and> (39 \<le> n \<and> bit i (n - 39) \<or> 30 \<le> n \<and> bit j (n - 30) \<or>
      21 \<le> n \<and> bit k (n - 21) \<or> 12 \<le> n \<and> bit l (n - 12))" for n
    by (auto simp: path_addr_def p bit_simps)
  have idx: "drop_bit n (path_addr p) AND 0x1ff = v"
    if b: "\<And>m. m < 9 \<Longrightarrow> bit (path_addr p) (n + m) \<longleftrightarrow> bit v m" and v: "v < 512" for n v
  proof -
    have "drop_bit n (path_addr p) AND mask 9 = v"
    proof (rule bit_eqI)
      fix m
      show "bit (drop_bit n (path_addr p) AND mask 9) m \<longleftrightarrow> bit v m"
        using b [of m] index_bits [OF v, of m] by (cases "m < 9") (auto simp: bit_simps at)
    qed
    then show ?thesis
      by (simp add: mask_eq_exp_minus_1)
  qed
  have "i < 512" "j < 512" "k < 512" "l < 512"
    using assms(2) by (simp_all add: p)
  note lt = this
  have "drop_bit 39 (path_addr p) AND 0x1ff = i" "drop_bit 30 (path_addr p) AND 0x1ff = j"
    "drop_bit 21 (path_addr p) AND 0x1ff = k" "drop_bit 12 (path_addr p) AND 0x1ff = l"
    by (rule idx; use hi lt in \<open>auto simp: at\<close>)+
  then show "vpath (path_addr p) = p"
    by (simp only: vpath_def) (simp only: p)
  show "path_addr p \<le> USER_LIMIT" if "hd p < 256"
  proof (rule below_limit)
    fix n :: nat assume n: "47 \<le> n"
    have "take_bit 8 i = i"
      using that by (simp only: word_unat_eq_iff unsigned_take_bit_eq take_bit_nat_eq_self_iff) (simp add: p word_less_nat_alt)
    then have "\<not> bit i (n - 39)"
      using bit_take_bit_iff [of 8 i "n - 39"] n by (cases "n - 39 < 8") (linarith, metis)
    moreover have "\<not> bit j (n - 30)" "\<not> bit k (n - 21)" "\<not> bit l (n - 12)"
      using hi n assms(2) by (simp_all add: p)
    ultimately show "\<not> bit (path_addr p) n"
      by (simp add: at)
  qed
qed

lemma user_index: "a \<le> USER_LIMIT \<Longrightarrow> hd (vpath a) < 256"
proof -
  assume a: "a \<le> USER_LIMIT"
  then have "unat (drop_bit 39 a) < 256"
    by (simp only: unat_drop_bit_eq) (simp add: drop_bit_eq_div word_le_nat_alt less_mult_imp_div_less)
  moreover have "drop_bit 39 a AND 0x1ff \<le> drop_bit 39 a"
    by (rule word_and_le2)
  ultimately show ?thesis
    by (simp add: vpath_def word_less_nat_alt word_le_nat_alt)
qed

section \<open>What the loops of the code are given\<close>

text \<open>
  The user half of an address space as the kernel makes it: pages of the program only, and none of them
  large.
\<close>

definition user_half :: "u64 \<Rightarrow> 'a phys_scheme \<Rightarrow> bool" where
  "user_half space s \<longleftrightarrow> (\<forall>q. huge_at s space q \<longrightarrow> 256 \<le> hd q) \<and>
     (\<forall>p e. pt_view s space p = Some e \<longrightarrow> hd p < 256 \<longrightarrow> e AND PTE_USER \<noteq> 0)"

lemma user_frame_view:
  assumes "pt_ok s space xs" "pt_view s space (vpath a) = Some e" "e AND PTE_USER \<noteq> 0"
  shows "user_frame space s a = e AND ADDR_MASK" "page_access space a False s"
proof -
  show "page_access space a False s"
    using assms by (simp add: page_access_view [OF assms(1)])
  show "user_frame space s a = e AND ADDR_MASK"
    using assms page_off_less [of a] by (simp add: user_frame_def vmm_user_phys_view [OF assms(1)] or_off)
qed

lemma user_leaf:
  assumes u: "user_space space xs s" and h: "user_half space s" and p: "pt_view s space p = Some e" "hd p < 256"
  shows "data_frame s space xs (e AND ADDR_MASK)"
proof -
  note ok = user_spaceD(1) [OF u]
  have v: "vpath (path_addr p) = p"
    using p(1) path_addr(1) [of p] by (auto simp: pt_view_def split: if_splits)
  have "e AND PTE_USER \<noteq> 0"
    using h p unfolding user_half_def by blast
  then have "user_frame space s (path_addr p) = e AND ADDR_MASK" "page_access space (path_addr p) False s"
    using user_frame_view [OF ok, of "path_addr p"] p(1) by (simp_all add: v)
  then show ?thesis
    using user_spaceD(2) [OF u] by metis
qed

lemma user_half_source:
  assumes u: "user_space space xs s" and h: "user_half space s"
    and p: "tpath p" "hd p < 256" "p \<noteq> []" "pt_walk s space p = Some t" "length p + l = 4"
  shows "source_ok s {u. page_aligned u \<and> u \<notin> set xs} l t"
  using p
proof (induction l arbitrary: p t)
  case 0
  then show ?case
    by (simp add: tpath_def)
next
  case (Suc l)
  note ok = user_spaceD(1) [OF u]
  have "(0 < l \<longrightarrow> ent s t i AND PTE_HUGE = 0) \<and> source_ok s {u. page_aligned u \<and> u \<notin> set xs} l (ent s t i AND ADDR_MASK)"
    if i: "i < 512" "ent s t i AND PTE_PRESENT \<noteq> 0" for i
  proof (cases "l = 0")
    case True
    have "length (p @ [i]) = 4" "\<forall>j \<in> set (p @ [i]). j < 512"
      using Suc.prems(1,5) i(1) True by (auto simp: tpath_def)
    then have "pt_view s space (p @ [i]) = Some (ent s t i)"
      using Suc.prems(4) i(2) by (simp add: pt_view_entry pt_entry_def)
    then show ?thesis
      using user_leaf [OF u h, of "p @ [i]"] Suc.prems(2,3) True by (simp add: data_frame_def)
  next
    case False
    then have q: "tpath (p @ [i])" "hd (p @ [i]) < 256"
      using Suc.prems i(1) by (auto simp: tpath_def)
    have huge: "ent s t i AND PTE_HUGE = 0"
    proof (rule ccontr)
      assume "ent s t i AND PTE_HUGE \<noteq> 0"
      then have "huge_at s space (p @ [i])"
        using huge_at_snoc [OF Suc.prems(4)] q(1) i(2) by (simp add: ent_def)
      then show False
        using h q(2) unfolding user_half_def by (metis not_less)
    qed
    then have "pt_walk s space (p @ [i]) = Some (ent s t i AND ADDR_MASK)"
      using Suc.prems(4) i(2) by (simp add: pt_step_ent)
    then show ?thesis
      using Suc.IH [OF q] Suc.prems(5) huge by simp
  qed
  moreover have "page_aligned t" "t \<notin> set xs"
    using pt_okD(6) [OF ok Suc.prems(1,4)] by blast+
  ultimately show ?case
    by simp
qed

text \<open>
  What \<^verbatim>\<open>vmm_space_clone\<close> does: it ends well or for want of memory, and the frames that it takes are
  those that the copy needs.
\<close>

lemma space_clone_run:
  assumes u: "user_space src xs s" and h: "user_half src s" and cr3: "read_cr3 s = src" and xs: "xs = f # zs"
  shows "\<exists>us ys s' ok. zs = us @ ys \<and> grows f s (f # us) s' ys \<and>
    (if ok then vmm_space_clone src s = (Some f, s') \<and> clone_of s s' 4 src f (idx 0 256) us \<and>
       (\<forall>i<512. 256 \<le> unat i \<longrightarrow> ent s' f i = ent s src i) \<and> length us = frames_needed s 4 src (idx 0 256)
     else fst (vmm_space_clone src s) = None \<and> ys = [] \<and> length us < frames_needed s 4 src (idx 0 256))"
proof -
  note ok = user_spaceD(1) [OF u]
  note root = pt_okD(6) [OF ok tpath_Nil pt_walk_Nil]
  note free = pt_okD(1) [OF ok, unfolded xs]
  obtain s1 where s1: "vmm_space_create s = (Some f, s1)" "grows f s [f] s1 zs"
    "\<And>i. i < 512 \<Longrightarrow> ent s1 f i = (if 256 \<le> unat i then ent s src i else 0)"
    using vmm_space_create_grows [OF free cr3] root xs by blast
  note g = growsD [OF s1(2)]
  define A where "A = {u. page_aligned u \<and> u \<notin> set xs}"
  have f: "page_aligned f" "f \<notin> set zs"
    using free_frames_aligned [OF free] free_frames_distinct [OF free] by simp_all
  have "cloning s A f s1 zs"
    using f g(2,3,5,6) pt_okD(4) [OF ok] xs by (auto simp: cloning_def A_def)
  moreover have "src \<in> A"
    using root by (simp add: A_def)
  moreover have "ent s src j AND PTE_HUGE = 0 \<and> source_ok s A 3 (ent s src j AND ADDR_MASK)"
    if j: "j < 256" "ent s src j AND PTE_PRESENT \<noteq> 0" for j
  proof -
    have j': "j < 512" "tpath [j]"
      using j(1) by (auto simp: word_less_nat_alt tpath_def)
    have "\<not> huge_at s src ([] @ [j])"
      using h j(1) unfolding user_half_def by (metis append_Nil list.sel(1) not_less)
    then have huge: "ent s src j AND PTE_HUGE = 0"
      using huge_at_snoc [OF pt_walk_Nil, of s src j] j(2) j'(2) by (simp add: ent_def)
    then have "pt_walk s src [j] = Some (ent s src j AND ADDR_MASK)"
      using j(2) by (simp add: pt_step_ent)
    then show ?thesis
      using user_half_source [OF u h j'(2), of _ 3] j(1) huge by (simp add: A_def)
  qed
  moreover have "ent s1 f j AND PTE_PRESENT = 0" if "j < 256" for j
    using s1(3) [of j] that by (simp add: word_less_nat_alt)
  moreover obtain ok s' where half: "clone_user_half (phys_to_virt s1 f) (phys_to_virt s1 src) [0..<256] s1 = (ok, s')"
    by fastforce
  ultimately obtain us ys where z: "zs = us @ ys" "cloned s 4 src f (idx 0 256) s1 ok us s' ys"
    using clone_user_half_cloned [of s A f s1 zs src 0 ok s'] by auto
  have "grows f s (f # us) s' ys"
    using grows_trans [of f s "[f]" s1 us ys s'] s1(2) z(1) clonedD(1) [OF z(2)] by simp
  moreover have "ent s' f i = ent s src i" if "i < 512" "256 \<le> unat i" for i
    using clonedD(2) [OF z(2) that(1)] s1(3) [OF that(1)] that(2) by (simp add: idx_set)
  moreover have "if ok then vmm_space_clone src s = (Some f, s') else fst (vmm_space_clone src s) = None"
    using half s1(1) by (simp add: vmm_space_clone_def del: upt_rec_numeral)
  ultimately show ?thesis
    using z(1) clonedD(3,4) [OF z(2)] by (intro exI [of _ us] exI [of _ ys] exI [of _ s'] exI [of _ ok]) auto
qed

lemma space_clone_Nil:
  assumes "user_space src [] s"
  shows "fst (vmm_space_clone src s) = None"
proof -
  have "fst (vmm_space_create s) = None"
    using pmm_alloc_Nil(1) pt_okD(1) [OF user_spaceD(1) [OF assms]]
    by (simp add: vmm_space_create_def split_def Let_def del: upt_rec_numeral)
  then show ?thesis
    by (cases "vmm_space_create s") (simp add: vmm_space_clone_def)
qed

section \<open>The parent\<close>

text \<open>A program does not see what happens in the frames that were free, and in others that are not its own.\<close>

lemma space_kept:
  assumes u: "user_space space xs s" and free: "free_frames s' ys" "set ys \<subseteq> set xs" and h: "hhdm s' = hhdm s"
    and F: "\<And>q t. tpath q \<Longrightarrow> pt_walk s space q = Some t \<Longrightarrow> t \<notin> F"
      "\<And>a. a \<le> USER_LIMIT \<Longrightarrow> page_access space a False s \<Longrightarrow> user_frame space s a \<notin> F"
    and keep: "\<And>u. page_aligned u \<Longrightarrow> u \<notin> set xs \<Longrightarrow> u \<notin> F \<Longrightarrow> same_page (mem s') (mem s) (phys_to_virt s u)"
  shows "user_space space ys s'" "tpath q \<Longrightarrow> pt_walk s' space q = pt_walk s space q"
    "tpath q \<Longrightarrow> j < 512 \<Longrightarrow> pt_entry s' space (q @ [j]) = pt_entry s space (q @ [j])"
    "pt_view s' space = pt_view s space" "umem space s' = umem space s" "user_frame space s' = user_frame space s"
proof -
  note ok = user_spaceD(1) [OF u]
  have v: "phys_to_virt s' = phys_to_virt s"
    using h by (simp add: phys_to_virt_def fun_eq_iff)
  have ents: "ent s' t j = ent s t j" if "tpath q" "pt_walk s space q = Some t" "j < 512" for q t j
    using pt_okD(6) [OF ok that(1,2)] F(1) [OF that(1,2)] keep h that(3) by (intro ent_same_page) auto
  show walk: "pt_walk s' space q = pt_walk s space q" if q: "tpath q" for q
  proof (rule pt_walk_cong)
    fix r j t assume r: "prefix (r @ [j]) q" "pt_walk s space r = Some t"
    then have "tpath r" "j < 512"
      using q tpath_prefix by auto
    then show "pt_step s' t j = pt_step s t j"
      using ents r(2) by (simp add: pt_step_ent)
  qed
  show "pt_entry s' space (q @ [j]) = pt_entry s space (q @ [j])" if "tpath q" "j < 512" for q j
    using walk [OF that(1)] ents [OF that(1) _ that(2)] by (cases "pt_walk s space q") (simp_all add: pt_entry_def)
  show view: "pt_view s' space = pt_view s space"
    using walk ents unfolding ent_def v by (intro pt_view_cong) (auto simp: v)
  have ok': "pt_ok s' space ys"
    by (rule pt_ok_same_walks [OF ok free h walk])
  have acc: "page_access space a w s' = page_access space a w s" for a w
    by (simp add: page_access_view [OF ok] page_access_view [OF ok'] view)
  show fr: "user_frame space s' = user_frame space s"
    by (simp add: user_frame_def fun_eq_iff vmm_user_phys_view [OF ok] vmm_user_phys_view [OF ok'] view)
  have "data_frame s' space ys f" if "data_frame s space xs f" for f
    using that walk free(2) unfolding data_frame_def v by (metis subsetD)
  then show "user_space space ys s'"
    using u ok' unfolding user_space_def acc fr by blast
  have "mem s' (user_byte space s a) = mem s (user_byte space s a)" if a: "a \<le> USER_LIMIT" "page_access space a False s" for a
  proof -
    have "same_page (mem s') (mem s) (phys_to_virt s (user_frame space s a))"
      using user_spaceD(2) [OF u a(2)] user_phys_frame(2) [OF a(2)] F(2) [OF a] by (intro keep) (auto simp: data_frame_def)
    then show ?thesis
      using in_page_user_byte [OF a(2)] by (simp add: same_page_def)
  qed
  then show "umem space s' = umem space s"
    using user_byte_view(1) [OF ok ok' view h] by (auto simp: umem_def acc fun_eq_iff)
qed

section \<open>The child\<close>

text \<open>
  The state after a fork, as \<open>space_clone_run\<close> gives it.
\<close>

definition forked :: "u64 \<Rightarrow> u64 \<Rightarrow> u64 list \<Rightarrow> u64 list \<Rightarrow> 'a phys_scheme \<Rightarrow> 'a phys_scheme \<Rightarrow> bool" where
  "forked src dst us ys s s' \<longleftrightarrow>
     user_space src (dst # us @ ys) s \<and> user_half src s \<and> grows dst s (dst # us) s' ys \<and>
     clone_of s s' 4 src dst (idx 0 256) us \<and> (\<forall>i<512. 256 \<le> unat i \<longrightarrow> ent s' dst i = ent s src i)"

lemma forked_src:
  assumes "forked src dst us ys s s'"
  shows "user_space src ys s'" "tpath q \<Longrightarrow> pt_walk s' src q = pt_walk s src q"
    "tpath q \<Longrightarrow> j < 512 \<Longrightarrow> pt_entry s' src (q @ [j]) = pt_entry s src (q @ [j])"
    "pt_view s' src = pt_view s src" "umem src s' = umem src s" "user_frame src s' = user_frame src s"
proof -
  have u: "user_space src (dst # us @ ys) s" and g: "grows dst s (dst # us) s' ys"
    using assms unfolding forked_def by blast+
  have keep: "same_page (mem s') (mem s) (phys_to_virt s u)" if "page_aligned u" "u \<notin> set (dst # us @ ys)" for u
    using growsD(6) [OF g that(1)] that(2) by simp
  have sub: "set ys \<subseteq> set (dst # us @ ys)"
    by auto
  note k = space_kept [OF u growsD(2) [OF g] sub growsD(3) [OF g], of "{}", OF _ _ keep]
  show "user_space src ys s'" "tpath q \<Longrightarrow> pt_walk s' src q = pt_walk s src q"
    "tpath q \<Longrightarrow> j < 512 \<Longrightarrow> pt_entry s' src (q @ [j]) = pt_entry s src (q @ [j])"
    "pt_view s' src = pt_view s src" "umem src s' = umem src s" "user_frame src s' = user_frame src s"
    by (rule k; simp)+
qed

text \<open>Entries of the child: those of the parent in the kernel half, copies in the user half.\<close>

lemma forked_entries:
  assumes f: "forked src dst us ys s s'" and p: "p \<noteq> []" "length p \<le> 4" "\<forall>i \<in> set p. i < 512"
  shows "256 \<le> unat (hd p) \<Longrightarrow> pt_entry s' dst p = pt_entry s src p"
    "unat (hd p) < 256 \<Longrightarrow> ipath (idx 0 256) 4 p"
    "unat (hd p) < 256 \<Longrightarrow> entry_copy s s' (length p = 4) (set us) (pt_entry s src p) (pt_entry s' dst p)"
proof -
  have c: "clone_of s s' 4 src dst (idx 0 256) us" and e: "\<And>i. i < 512 \<Longrightarrow> 256 \<le> unat i \<Longrightarrow> ent s' dst i = ent s src i"
    using f unfolding forked_def by blast+
  show "unat (hd p) < 256 \<Longrightarrow> ipath (idx 0 256) 4 p"
    using p by (simp add: ipath_def idx_set)
  then show "entry_copy s s' (length p = 4) (set us) (pt_entry s src p) (pt_entry s' dst p)" if "unat (hd p) < 256"
    using clone_of_entry [OF c] p that unfolding ipath_def by blast
  assume k: "256 \<le> unat (hd p)"
  obtain i q where q: "p = i # q"
    using p(1) by (cases p) auto
  have "i < 512" "256 \<le> unat i"
    using k p(3) by (simp_all add: q)
  then have i: "ent s' dst i = ent s src i" "pt_entry s' src [i] = pt_entry s src [i]"
    using e forked_src(3) [OF f tpath_Nil] by simp_all
  show "pt_entry s' dst p = pt_entry s src p"
  proof (cases "q = []")
    case True
    then show ?thesis
      using i by (simp add: q pt_entry_simps)
  next
    case False
    have "pt_step s' src i = pt_step s src i"
      using forked_src(2) [OF f, of "[i]"] \<open>i < 512\<close> by (simp add: tpath_def)
    then have "pt_entry s' dst p = pt_entry s' src p"
      using i False by (simp add: q pt_entry_simps pt_step_ent)
    moreover have "tpath (butlast p)" "last p < 512" "p = butlast p @ [last p]"
      using p by (auto simp: tpath_def dest: in_set_butlastD)
    ultimately show ?thesis
      using forked_src(3) [OF f, of "butlast p" "last p"] by simp
  qed
qed

lemma forkedD:
  assumes "forked src dst us ys s s'"
  shows "pt_ok s src (dst # us @ ys)" "user_space src (dst # us @ ys) s" "distinct (dst # us @ ys)"
    "grows dst s (dst # us) s' ys" "phys_to_virt s' = phys_to_virt s" "hhdm s' = hhdm s" "pt_ok s' src ys"
    "f \<in> set (dst # us @ ys) \<Longrightarrow> page_aligned f \<and> f \<noteq> 0 \<and> f AND ADDR_MASK = f \<and> phys_to_virt s f \<noteq> 0"
    "clone_of s s' 4 src dst (idx 0 256) us"
proof -
  show u: "user_space src (dst # us @ ys) s" and g: "grows dst s (dst # us) s' ys"
    and "clone_of s s' 4 src dst (idx 0 256) us"
    using assms unfolding forked_def by blast+
  show ok: "pt_ok s src (dst # us @ ys)" "pt_ok s' src ys"
    using user_spaceD(1) u forked_src(1) [OF assms] by blast+
  show "distinct (dst # us @ ys)"
    by (rule free_frames_distinct [OF pt_okD(1) [OF ok(1)]])
  show "phys_to_virt s' = phys_to_virt s" "hhdm s' = hhdm s"
    using growsD(3,5) [OF g] by simp_all
  show "page_aligned f \<and> f \<noteq> 0 \<and> f AND ADDR_MASK = f \<and> phys_to_virt s f \<noteq> 0" if "f \<in> set (dst # us @ ys)"
    using free_frames_aligned [OF pt_okD(1) [OF ok(1)] that] pt_okD(4,5) [OF ok(1) that] by blast
qed

lemma forked_walk:
  assumes f: "forked src dst us ys s s'" and p: "tpath p" "pt_walk s' dst p = Some t"
  shows "p = [] \<and> t = dst \<or> p \<noteq> [] \<and> 256 \<le> unat (hd p) \<and> pt_walk s src p = Some t \<or>
    p \<noteq> [] \<and> unat (hd p) < 256 \<and> t \<in> set us \<and> (\<exists>e. pt_entry s' dst p = Some e \<and> e AND ADDR_MASK = t)"
proof (cases "p = []")
  case False
  have l: "length p \<le> 4" "\<forall>i \<in> set p. i < 512"
    using p(1) by (auto simp: tpath_def)
  note e = forked_entries [OF f False l]
  obtain v where v: "pt_entry s' dst p = Some v" "v AND ADDR_MASK = t" "v AND PTE_HUGE = 0"
    using p(2) pt_walk_entry [OF False, of s' dst] by (auto split: option.splits if_splits)
  show ?thesis
  proof (cases "unat (hd p) < 256")
    case True
    then show ?thesis
      using e(3) v False entry_copy_frame by metis
  next
    case h: False
    then have "pt_entry s src p = Some v"
      using e(1) v(1) by simp
    then have "pt_walk s src p = Some t"
      using v(2,3) pt_walk_entry [OF False, of s src] by simp
    then show ?thesis
      using h False by simp
  qed
qed (use p in simp)

lemma forked_child_tables:
  assumes f: "forked src dst us ys s s'"
  shows "pt_ok s' dst ys"
proof -
  note d = forkedD [OF f]
  note okD = pt_okD [OF d(1)]
  note g = growsD [OF d(4)]
  have frames: "dst \<notin> set us" "dst \<notin> set ys" "set us \<inter> set ys = {}" "distinct us"
    using d(3) by auto
  have kernel: "t \<notin> set (dst # us @ ys) \<and> phys_to_virt s t \<noteq> 0" if "tpath p" "pt_walk s src p = Some t" for p t
    using okD(6) [OF that] by blast
  show ?thesis
    unfolding pt_ok_def d(5,6)
  proof (intro conjI ballI allI impI)
    show "page_aligned dst"
      using d(8) by simp
    fix p t assume p: "tpath p" "pt_walk s' dst p = Some t"
    show "t \<notin> set ys" "phys_to_virt s t \<noteq> 0"
      using forked_walk [OF f p] kernel [OF p(1)] frames d(8) [of t] by auto
    fix q assume q: "tpath q" "pt_walk s' dst q = Some t"
    have user: "r \<noteq> [] \<and> unat (hd r) < 256 \<Longrightarrow> tpath r \<Longrightarrow> ipath (idx 0 256) 4 r" for r
      using forked_entries(2) [OF f, of r] by (auto simp: tpath_def)
    show "p = q"
      using forked_walk [OF f p] forked_walk [OF f q] kernel [OF p(1)] kernel [OF q(1)] frames
        okD(7) [OF p(1) q(1)] clone_of_inj [OF d(9) frames(4) idx_distinct user [OF _ p(1)] user [OF _ q(1)]]
      by (elim disjE conjE exE) auto
  qed (use g(2) okD(2) pt_okD(4,5) [OF d(1)] in auto)
qed

text \<open>The frame and the rights of a page of the child.\<close>

lemma forked_view:
  assumes f: "forked src dst us ys s s'"
  shows "256 \<le> unat (hd p) \<Longrightarrow> pt_view s' dst p = pt_view s src p"
    "unat (hd p) < 256 \<Longrightarrow> pt_view s src p = None \<Longrightarrow> pt_view s' dst p = None"
    "unat (hd p) < 256 \<Longrightarrow> pt_view s src p = Some e \<Longrightarrow> \<exists>d \<in> set us. pt_view s' dst p = Some (moved d e) \<and>
      d AND ADDR_MASK = d \<and> (\<forall>k<PAGE_SIZE. mem s' (phys_to_virt s d + k) = mem s (phys_to_virt s (e AND ADDR_MASK) + k))"
proof -
  have v: "phys_to_virt s' = phys_to_virt s"
    by (rule forkedD(5) [OF f])
  consider "length p = 4 \<and> (\<forall>i \<in> set p. i < 512)" | "\<not> (length p = 4 \<and> (\<forall>i \<in> set p. i < 512))"
    by blast
  then show "256 \<le> unat (hd p) \<Longrightarrow> pt_view s' dst p = pt_view s src p"
    "unat (hd p) < 256 \<Longrightarrow> pt_view s src p = None \<Longrightarrow> pt_view s' dst p = None"
    "unat (hd p) < 256 \<Longrightarrow> pt_view s src p = Some e \<Longrightarrow> \<exists>d \<in> set us. pt_view s' dst p = Some (moved d e) \<and>
      d AND ADDR_MASK = d \<and> (\<forall>k<PAGE_SIZE. mem s' (phys_to_virt s d + k) = mem s (phys_to_virt s (e AND ADDR_MASK) + k))"
  proof (atomize (full), cases)
    case 1
    then have "p \<noteq> []" "length p \<le> 4" "\<forall>i \<in> set p. i < 512"
      by auto
    note fe = forked_entries [OF f this]
    show "(256 \<le> unat (hd p) \<longrightarrow> pt_view s' dst p = pt_view s src p) \<and>
      (unat (hd p) < 256 \<longrightarrow> pt_view s src p = None \<longrightarrow> pt_view s' dst p = None) \<and>
      (unat (hd p) < 256 \<longrightarrow> pt_view s src p = Some e \<longrightarrow> (\<exists>d \<in> set us. pt_view s' dst p = Some (moved d e) \<and>
        d AND ADDR_MASK = d \<and> (\<forall>k<PAGE_SIZE. mem s' (phys_to_virt s d + k) = mem s (phys_to_virt s (e AND ADDR_MASK) + k))))"
      using fe(1,3) 1 by (auto simp: pt_view_entry entry_copy_def v)
  next
    case 2
    then show "(256 \<le> unat (hd p) \<longrightarrow> pt_view s' dst p = pt_view s src p) \<and>
      (unat (hd p) < 256 \<longrightarrow> pt_view s src p = None \<longrightarrow> pt_view s' dst p = None) \<and>
      (unat (hd p) < 256 \<longrightarrow> pt_view s src p = Some e \<longrightarrow> (\<exists>d \<in> set us. pt_view s' dst p = Some (moved d e) \<and>
        d AND ADDR_MASK = d \<and> (\<forall>k<PAGE_SIZE. mem s' (phys_to_virt s d + k) = mem s (phys_to_virt s (e AND ADDR_MASK) + k))))"
      by (auto simp: pt_view_entry)
  qed
qed

lemma user_half_index: "a \<le> USER_LIMIT \<Longrightarrow> unat (hd (vpath a)) < 256"
  using user_index [of a] by (simp add: word_less_nat_alt)

lemma forked_page:
  assumes f: "forked src dst us ys s s'" and a: "unat (hd (vpath a)) < 256"
  shows "page_access dst a w s' \<longleftrightarrow> page_access src a w s"
    "page_access src a False s \<Longrightarrow> user_frame dst s' a \<in> set us \<and>
       pt_entry s' dst (vpath a) \<noteq> None \<and> the (pt_entry s' dst (vpath a)) AND ADDR_MASK = user_frame dst s' a \<and>
       (\<forall>k<PAGE_SIZE. mem s' (phys_to_virt s (user_frame dst s' a) + k) = mem s (phys_to_virt s (user_frame src s a) + k))"
proof -
  note ok = forkedD(1) [OF f] and ok' = forked_child_tables [OF f]
  note view = forked_view(2,3) [OF f a]
  have bits: "moved d e AND PTE_USER = e AND PTE_USER" "moved d e AND PTE_WRITE = e AND PTE_WRITE" "moved d e AND ADDR_MASK = d"
    if "d AND ADDR_MASK = d" for d e
    using moved_bits [OF that] by simp_all
  show "page_access dst a w s' \<longleftrightarrow> page_access src a w s"
    using view bits by (cases "pt_view s src (vpath a)") (auto simp: page_access_view [OF ok] page_access_view [OF ok'])
  assume "page_access src a False s"
  then obtain e where e: "pt_view s src (vpath a) = Some e" "e AND PTE_USER \<noteq> 0"
    by (auto simp: page_access_view [OF ok])
  then obtain d where d: "d \<in> set us" "pt_view s' dst (vpath a) = Some (moved d e)" "d AND ADDR_MASK = d"
    "\<forall>k<PAGE_SIZE. mem s' (phys_to_virt s d + k) = mem s (phys_to_virt s (e AND ADDR_MASK) + k)"
    using view by blast
  have "user_frame src s a = e AND ADDR_MASK" "user_frame dst s' a = d"
    using user_frame_view(1) [OF ok e] user_frame_view(1) [OF ok' d(2)] bits [OF d(3)] e(2) by simp_all
  then show "user_frame dst s' a \<in> set us \<and>
       pt_entry s' dst (vpath a) \<noteq> None \<and> the (pt_entry s' dst (vpath a)) AND ADDR_MASK = user_frame dst s' a \<and>
       (\<forall>k<PAGE_SIZE. mem s' (phys_to_virt s (user_frame dst s' a) + k) = mem s (phys_to_virt s (user_frame src s a) + k))"
    using d bits(3) [OF d(3)] by (simp add: pt_view_entry)
qed

lemma forked_child_frame:
  assumes f: "forked src dst us ys s s'" and a: "page_access dst a False s'"
  shows "data_frame s' dst ys (user_frame dst s' a)"
proof -
  note d = forkedD [OF f] and ok' = forked_child_tables [OF f]
  have xs: "set us \<inter> set ys = {}" "dst \<notin> set us" "distinct us"
    using d(3) by auto
  have kernel: "pt_walk s src q \<noteq> Some t" if "tpath q" "t \<in> set (dst # us @ ys)" for q t
    using pt_okD(6) [OF d(1) that(1)] that(2) by blast
  show ?thesis
  proof (cases "unat (hd (vpath a)) < 256")
    case True
    then have acc: "page_access src a False s"
      using forked_page(1) [OF f True] a by simp
    let ?f = "user_frame dst s' a"
    note p = forked_page(2) [OF f True acc]
    then obtain e where e: "pt_entry s' dst (vpath a) = Some e" "e AND ADDR_MASK = ?f"
      by auto
    have "pt_walk s' dst q \<noteq> Some ?f" if q: "tpath q" for q
    proof
      assume w: "pt_walk s' dst q = Some ?f"
      then obtain v where v: "q \<noteq> []" "unat (hd q) < 256" "pt_entry s' dst q = Some v" "v AND ADDR_MASK = ?f"
        using forked_walk [OF f q w] kernel [OF q, of ?f] xs(2) p by auto
      have "ipath (idx 0 256) 4 q" "ipath (idx 0 256) 4 (vpath a)"
        using forked_entries(2) [OF f v(1) _ _ v(2)] forked_entries(2) [OF f _ _ _ True] q by (auto simp: tpath_def vpath_def)
      then have "q = vpath a"
        using clone_of_inj [OF d(9) xs(3) idx_distinct _ _ v(3) e(1)] v(4) e(2) by simp
      then show False
        using q by (simp add: tpath_def)
    qed
    moreover have "?f \<notin> set ys"
      using p xs(1) by auto
    ultimately show ?thesis
      using p d(8) [of ?f] by (simp add: data_frame_def d(5))
  next
    case False
    then have view: "pt_view s' dst (vpath a) = pt_view s src (vpath a)"
      using forked_view(1) [OF f] by simp
    then have acc: "page_access src a False s" and fr: "user_frame dst s' a = user_frame src s a"
      using a by (simp_all add: page_access_view [OF d(1)] page_access_view [OF ok'] user_frame_def
          vmm_user_phys_view [OF d(1)] vmm_user_phys_view [OF ok'])
    have "data_frame s src (dst # us @ ys) (user_frame src s a)"
      by (rule user_spaceD(2) [OF d(2) acc])
    moreover have "pt_walk s' dst q \<noteq> Some (user_frame src s a)" if "tpath q" for q
      using calculation forked_walk [OF f that] that unfolding data_frame_def by fastforce
    ultimately show ?thesis
      by (simp add: data_frame_def fr d(5))
  qed
qed

lemma forked_child:
  assumes f: "forked src dst us ys s s'"
  shows "user_space dst ys s'" "umem dst s' = umem src s"
proof -
  note d = forkedD [OF f] and ok' = forked_child_tables [OF f]
  have "page_base a = page_base b"
    if l: "a \<le> USER_LIMIT" "b \<le> USER_LIMIT" and acc: "page_access dst a False s'" "page_access dst b False s'"
      and eq: "user_frame dst s' a = user_frame dst s' b" for a b
  proof -
    have "page_access src a False s" "page_access src b False s"
      using forked_page(1) [OF f] user_half_index l acc by blast+
    note pa = forked_page(2) [OF f user_half_index [OF l(1)] this(1)] and pb = forked_page(2) [OF f user_half_index [OF l(2)] this(2)]
    have ip: "ipath (idx 0 256) 4 (vpath c)" if "c \<le> USER_LIMIT" for c
      using forked_entries(2) [OF f _ _ _ user_half_index [OF that]] by (auto simp: vpath_def)
    have "distinct us"
      using d(3) by simp
    then have "vpath a = vpath b"
      using clone_of_inj [OF d(9) _ idx_distinct ip [OF l(1)] ip [OF l(2)]] pa pb eq by force
    then show ?thesis
      by (rule vpath_inj [OF _ l])
  qed
  then show "user_space dst ys s'"
    using ok' forked_child_frame [OF f] unfolding user_space_def by blast
  show "umem dst s' = umem src s"
  proof
    fix a
    show "umem dst s' a = umem src s a"
    proof (cases "a \<le> USER_LIMIT \<and> page_access src a False s")
      case True
      then have a: "unat (hd (vpath a)) < 256" "page_access src a False s"
        using user_half_index by simp_all
      have acc: "page_access dst a False s'"
        using forked_page(1) [OF f a(1)] a(2) by simp
      have "mem s' (user_byte dst s' a) = mem s (user_byte src s a)"
        using forked_page(2) [OF f a] page_off_less [of a]
        by (simp add: user_byte_frame [OF acc] user_byte_frame [OF a(2)] d(5))
      then show ?thesis
        using True acc by (simp add: umem_def)
    next
      case False
      then show ?thesis
        using forked_page(1) [OF f user_half_index, of a False] by (auto simp: umem_def)
    qed
  qed
qed

lemma space_clone_forked:
  assumes u: "user_space src xs s" and h: "user_half src s" and cr3: "read_cr3 s = src"
    and run: "vmm_space_clone src s = (Some dst, s')"
  shows "\<exists>us ys. xs = dst # us @ ys \<and> forked src dst us ys s s'"
proof (cases xs)
  case Nil
  then show ?thesis
    using space_clone_Nil u run by force
next
  case (Cons f zs)
  then show ?thesis
    using space_clone_run [OF u h cr3 Cons] u h run unfolding forked_def by (auto split: if_splits)
qed

section \<open>Apart\<close>

text \<open>The pages of one program are neither tables nor pages of another.\<close>

definition apart :: "u64 \<Rightarrow> u64 \<Rightarrow> 'a phys_scheme \<Rightarrow> bool" where
  "apart p q s \<longleftrightarrow> (\<forall>a\<le>USER_LIMIT. page_access p a False s \<longrightarrow>
     (\<forall>r. tpath r \<longrightarrow> pt_walk s q r \<noteq> Some (user_frame p s a)) \<and>
     (\<forall>b\<le>USER_LIMIT. page_access q b False s \<longrightarrow> user_frame q s b \<noteq> user_frame p s a))"

text \<open>A store into the pages of one is not seen by the other.\<close>

lemma apart_copied:
  assumes u: "user_space p xs s" "user_space q xs s" and ap: "apart p q s"
    and t: "copied p dst bs s t" "user_space p xs t"
    and range: "unat dst + length bs \<le> unat USER_LIMIT + 1" "\<And>i. i < length bs \<Longrightarrow> page_access p (dst + word_of_nat i) False s"
  shows "umem q t = umem q s"
proof -
  define F where "F = {user_frame p s a | a. a \<le> USER_LIMIT \<and> page_access p a False s}"
  have at: "dst + word_of_nat i \<le> USER_LIMIT" if "i < length bs" for i
    using that range(1) unat_add_of_nat_u64 [of dst i] by (simp add: word_le_nat_alt)
  have "mem t x = mem s x" if x: "in_page (phys_to_virt s f) x" and f: "page_aligned f" "f \<notin> F" for f x
  proof -
    have "x \<noteq> user_byte p s (dst + word_of_nat i)" if i: "i < length bs" for i
    proof
      note acc = range(2) [OF i]
      assume "x = user_byte p s (dst + word_of_nat i)"
      then have "in_page (phys_to_virt s (user_frame p s (dst + word_of_nat i))) x"
        using in_page_user_byte [OF acc] by simp
      then have "f = user_frame p s (dst + word_of_nat i)"
        using in_page_disjoint [OF f(1) user_phys_frame(2) [OF acc]] x by (simp add: phys_to_virt_def)
      then show False
        using f(2) at [OF i] acc unfolding F_def by blast
    qed
    then show ?thesis
      using t(1) unfolding copied_def by blast
  qed
  then have keep: "same_page (mem t) (mem s) (phys_to_virt s f)" if "page_aligned f" "f \<notin> F" for f
    using that by (simp add: same_page_def)
  have h: "hhdm t = hhdm s"
    using t(1) by (auto simp: copied_def)
  have sep: "\<And>r f. tpath r \<Longrightarrow> pt_walk s q r = Some f \<Longrightarrow> f \<notin> F"
    "\<And>b. b \<le> USER_LIMIT \<Longrightarrow> page_access q b False s \<Longrightarrow> user_frame q s b \<notin> F"
    using ap unfolding apart_def F_def by blast+
  show ?thesis
    by (rule space_kept(5) [OF u(2) pt_okD(1) [OF user_spaceD(1) [OF t(2)]] order_refl h sep keep])
qed

lemma apart_copy_out:
  assumes u: "user_space p xs s" "user_space q xs s" and ap: "apart p q s"
    and range: "unat dst + length bs \<le> unat USER_LIMIT + 1" "\<And>i. i < length bs \<Longrightarrow> page_access p (dst + word_of_nat i) False s"
  shows "umem q (snd (copy_out p dst bs s)) = umem q s" "umem p (snd (copy_out p dst bs s)) = over dst bs (umem p s)"
proof -
  obtain t where t: "copy_out p dst bs s = (0, t)" "copied p dst bs s t" "user_space p xs t"
    using copy_out_bytes [OF u(1) range] by blast
  then show "umem q (snd (copy_out p dst bs s)) = umem q s" "umem p (snd (copy_out p dst bs s)) = over dst bs (umem p s)"
    using apart_copied [OF u ap t(2,3) range] copied_umem [OF u(1) t(3,2) range] by simp_all
qed

lemma forked_apart:
  assumes f: "forked src dst us ys s s'"
  shows "apart dst src s'" "apart src dst s'"
proof -
  note d = forkedD [OF f]
  have fr: "user_frame src s' = user_frame src s"
    by (rule forked_src(6) [OF f])
  have acc: "page_access src a False s" if "page_access src a False s'" for a
    using that by (simp add: page_access_view [OF d(1)] page_access_view [OF d(7)] forked_src(4) [OF f])
  have child: "user_frame dst s' a \<in> set us" if "a \<le> USER_LIMIT" "page_access dst a False s'" for a
    using forked_page [OF f user_half_index [OF that(1)]] that(2) by blast
  have parent: "data_frame s src (dst # us @ ys) (user_frame src s' a)" if "page_access src a False s'" for a
    using user_spaceD(2) [OF d(2) acc [OF that]] by (simp add: fr)
  have sep: "user_frame dst s' a \<noteq> user_frame src s' b"
    if "a \<le> USER_LIMIT" "page_access dst a False s'" "page_access src b False s'" for a b
    using child [OF that(1,2)] parent [OF that(3)] by (auto simp: data_frame_def)
  have "pt_walk s' src r \<noteq> Some (user_frame dst s' a)" if "tpath r" "a \<le> USER_LIMIT" "page_access dst a False s'" for r a
    using child [OF that(2,3)] pt_okD(6) [OF d(1) that(1)] forked_src(2) [OF f that(1)] by auto
  then show "apart dst src s'"
    using sep unfolding apart_def by metis
  have "pt_walk s' dst r \<noteq> Some (user_frame src s' a)" if "tpath r" "page_access src a False s'" for r a
    using parent [OF that(2)] forked_walk [OF f that(1)] that(1) by (auto simp: data_frame_def)
  then show "apart src dst s'"
    using sep unfolding apart_def by metis
qed

section \<open>Fork\<close>

text \<open>
  C6: The copy of an address space that \<^verbatim>\<open>fork\<close> makes is private. After \<^verbatim>\<open>vmm_space_clone\<close> of a program's
  space the child reads, at every user address, what the parent read before, may read and write the same
  pages, and the parent's memory is what it was; and a copy into the pages of one of the two, wherever it
  goes, is seen by that one only. Both spaces are well formed over the frames that are left.
\<close>

theorem fork_isolation:
  assumes "user_space src xs s" "user_half src s" "read_cr3 s = src" "vmm_space_clone src s = (Some dst, s')"
  shows "umem src s' = umem src s \<and> umem dst s' = umem src s \<and>
    (\<forall>a w. a \<le> USER_LIMIT \<longrightarrow> page_access dst a w s' = page_access src a w s) \<and>
    (\<exists>ys. user_space src ys s' \<and> user_space dst ys s') \<and>
    (\<forall>a bs. unat a + length bs \<le> unat USER_LIMIT + 1 \<longrightarrow> (\<forall>i<length bs. page_access src (a + word_of_nat i) False s) \<longrightarrow>
       umem dst (snd (copy_out dst a bs s')) = over a bs (umem src s) \<and> umem src (snd (copy_out dst a bs s')) = umem src s \<and>
       umem src (snd (copy_out src a bs s')) = over a bs (umem src s) \<and> umem dst (snd (copy_out src a bs s')) = umem src s)"
proof -
  obtain us ys where f: "forked src dst us ys s s'"
    using space_clone_forked [OF assms] by blast
  have acc: "page_access dst a w s' = page_access src a w s" if "a \<le> USER_LIMIT" for a w
    by (rule forked_page(1) [OF f user_half_index [OF that]])
  have own: "page_access src a w s' = page_access src a w s" for a w
    by (simp add: page_access_view [OF forkedD(1) [OF f]] page_access_view [OF forkedD(7) [OF f]] forked_src(4) [OF f])
  note spaces = forked_src(1) [OF f] forked_child(1) [OF f]
  have "umem dst (snd (copy_out dst a bs s')) = over a bs (umem src s) \<and> umem src (snd (copy_out dst a bs s')) = umem src s \<and>
      umem src (snd (copy_out src a bs s')) = over a bs (umem src s) \<and> umem dst (snd (copy_out src a bs s')) = umem src s"
    if l: "unat a + length bs \<le> unat USER_LIMIT + 1" and r: "\<forall>i<length bs. page_access src (a + word_of_nat i) False s" for a bs
  proof -
    have at: "a + word_of_nat i \<le> USER_LIMIT" if "i < length bs" for i
      using that l unat_add_of_nat_u64 [of a i] by (simp add: word_le_nat_alt)
    have "page_access dst (a + word_of_nat i) False s'" "page_access src (a + word_of_nat i) False s'" if "i < length bs" for i
      using acc [OF at [OF that]] own r that by simp_all
    then show ?thesis
      using apart_copy_out [OF spaces(2,1) forked_apart(1) [OF f] l] apart_copy_out [OF spaces forked_apart(2) [OF f] l]
      by (simp add: forked_child(2) [OF f] forked_src(5) [OF f])
  qed
  then show ?thesis
    using acc spaces forked_child(2) [OF f] forked_src(5) [OF f] by blast
qed

text \<open>
  C7: A fork fails for want of memory only, and never when there is enough: \<^verbatim>\<open>vmm_space_clone\<close> succeeds
  exactly when the free frames are at least one for the root and one for every table and every page of the
  user half that is copied.
\<close>

theorem fork_succeeds_iff:
  assumes "user_space src xs s" "user_half src s" "read_cr3 s = src"
  shows "fst (vmm_space_clone src s) \<noteq> None \<longleftrightarrow> frames_needed s 4 src (idx 0 256) < length xs"
proof (cases xs)
  case Nil
  then show ?thesis
    using space_clone_Nil assms(1) by auto
next
  case (Cons f zs)
  show ?thesis
    using space_clone_run [OF assms Cons] Cons by (auto split: if_splits)
qed

section \<open>An example\<close>

text \<open>More free frames, away from what is in use.\<close>

lemma user_space_more:
  assumes u: "user_space p xs s" and m: "mem t = mem s" "hhdm t = hhdm s" "free_frames t ys"
    and ys: "\<And>f. f \<in> set ys \<Longrightarrow> f AND ADDR_MASK = f \<and> phys_to_virt s f \<noteq> 0"
    and new: "\<And>q v. tpath q \<Longrightarrow> pt_walk s p q = Some v \<Longrightarrow> v \<notin> set ys"
      "\<And>a. page_access p a False s \<Longrightarrow> user_frame p s a \<notin> set ys"
  shows "user_space p ys t" "pt_view t p = pt_view s p" "huge_at t p q = huge_at s p q" "ent t = ent s"
proof -
  note ok = user_spaceD(1) [OF u]
  have v: "phys_to_virt t = phys_to_virt s"
    using m(2) by (simp add: phys_to_virt_def fun_eq_iff)
  show e: "ent t = ent s"
    by (intro ext) (simp add: ent_def rd_def m(1) v)
  have w: "pt_walk t = pt_walk s"
  proof -
    have "pt_step t = pt_step s"
      by (intro ext) (simp only: pt_step_ent e)
    then show ?thesis
      by (intro ext) (simp only: pt_walk_def)
  qed
  show view: "pt_view t p = pt_view s p"
    by (intro ext) (simp only: pt_view_entry pt_entry_def e w)
  show "huge_at t p q = huge_at s p q"
    by (simp only: huge_at_def ent_def [symmetric] e w)
  have ok': "pt_ok t p ys"
    using ok m(3) ys new(1) unfolding pt_ok_def w v m(2) by blast
  have acc: "page_access p a False t = page_access p a False s" for a
    by (simp add: page_access_view [OF ok] page_access_view [OF ok'] view)
  have fr: "user_frame p t a = user_frame p s a" for a
    by (simp add: user_frame_def vmm_user_phys_view [OF ok] vmm_user_phys_view [OF ok'] view)
  show "user_space p ys t"
    using u ok' new(2) unfolding user_space_def acc fr data_frame_def w v by blast
qed

definition fork_state :: vmm where
  "fork_state = mm_init [\<lparr>me_base = 0x10000, me_length = 0x6000, me_type = 0\<rparr>] 0xffff800000000000 two_pages"

lemma fork_state_ok:
  "user_space 0x1000 [0x10000, 0x11000, 0x12000, 0x13000, 0x14000, 0x15000] fork_state"
  "user_half 0x1000 fork_state" "read_cr3 fork_state = 0x1000" "ent fork_state = ent two_pages" "pt_view fork_state 0x1000 = pt_view two_pages 0x1000"
proof -
  let ?map = "[\<lparr>me_base = 0x10000, me_length = 0x6000, me_type = 0\<rparr>]" and ?ys = "[0x10000, 0x11000, 0x12000, 0x13000, 0x14000, 0x15000] :: u64 list"
  have "memmap_ok ?map"
    by (simp add: memmap_ok_def usable_ok_def page_aligned_def)
  then have "free_frames fork_state (all_frames ?map)"
    unfolding fork_state_def by (rule mm_init_free_frames)
  moreover have "all_frames ?map = ?ys"
    by (simp add: all_frames_def region_frames_def frames_between_def align_up_def upt_rec)
  ultimately have free: "free_frames fork_state ?ys"
    by simp
  have m: "mem fork_state = mem two_pages" "hhdm fork_state = hhdm two_pages"
    by (simp_all add: fork_state_def mm_init_def two_pages_fields)
  have view: "pt_view two_pages 0x1000 (vpath a) = (if vpath a = [0, 0, 2, 0] then Some 0x5007
      else if vpath a = [0, 0, 2, 1] then Some 0x6005 else None)" for a
    by (rule two_pages_entries) simp_all
  have fr: "user_frame 0x1000 two_pages a \<in> {0x5000, 0x6000}" if acc: "page_access 0x1000 a False two_pages" for a
  proof -
    obtain e where e: "pt_view two_pages 0x1000 (vpath a) = Some e" "e AND PTE_USER \<noteq> 0"
      using acc unfolding page_access_view [OF two_pages_ok] by blast
    then have "e = 0x5007 \<or> e = 0x6005"
      by (auto simp: view split: if_splits)
    then show ?thesis
      using user_frame_view(1) [OF two_pages_ok e] by auto
  qed
  have new: "v \<notin> set ?ys" if "tpath q" "pt_walk two_pages 0x1000 q = Some v" for q v
    using that(2) by (auto simp: two_pages_walk [OF that(1)] split: if_splits)
  have nf: "user_frame 0x1000 two_pages a \<notin> set ?ys" if "page_access 0x1000 a False two_pages" for a
    using fr [OF that] by auto
  have masks: "f AND ADDR_MASK = f \<and> phys_to_virt two_pages f \<noteq> 0" if "f \<in> set ?ys" for f
    using that by (auto simp: phys_to_virt_def two_pages_fields)
  note more = user_space_more [OF two_pages_user m free masks new nf]
  show "user_space 0x1000 ?ys fork_state" "ent fork_state = ent two_pages" "pt_view fork_state 0x1000 = pt_view two_pages 0x1000"
    by (rule more(1,2,4); assumption)+
  show "read_cr3 fork_state = 0x1000"
    by (simp add: read_cr3_def fork_state_def mm_init_def two_pages_def wr_def Let_def)
  have "\<not> huge_at two_pages 0x1000 q" for q
  proof
    assume "huge_at two_pages 0x1000 q"
    then obtain p i t where p: "q = p @ [i]" "tpath q" "pt_walk two_pages 0x1000 p = Some t"
      "rd two_pages (entry_at (phys_to_virt two_pages t) i) AND PTE_HUGE \<noteq> 0"
      unfolding huge_at_def by blast
    then have "t \<in> {0x1000, 0x2000, 0x3000, 0x4000}" "i < 512"
      using two_pages_walk [of p] by (auto split: if_splits)
    then show False
      using p(4) two_pages_rd by (auto split: if_splits)
  qed
  moreover have "e AND PTE_USER \<noteq> 0" if "pt_view two_pages 0x1000 p = Some e" for p e
    using that two_pages_entries [of p] by (cases "length p = 4 \<and> (\<forall>i \<in> set p. i < 512)") (auto simp: pt_view_entry split: if_splits)
  ultimately show "user_half 0x1000 fork_state"
    using more(2,3) unfolding user_half_def by auto
qed

lemma fork_state_needs: "frames_needed fork_state 4 0x1000 (idx 0 256) = 5"
proof -
  have e: "ent fork_state t i = (if (t, i) = (0x1000, 0) then 0x2007 else if (t, i) = (0x2000, 0) then 0x3007
     else if (t, i) = (0x3000, 2) then 0x4007 else if (t, i) = (0x4000, 0) then 0x5007
     else if (t, i) = (0x4000, 1) then 0x6005 else 0)" if "t \<in> {0x1000, 0x2000, 0x3000, 0x4000}" "i < 512" for t i
    using two_pages_rd [OF that] by (simp add: fork_state_ok(4) ent_def)
  have rest: "frames_needed fork_state l t (idx 3 n) = 0" if "t \<in> {0x1000, 0x2000, 0x3000, 0x4000}" "n \<le> 512" for l t n
  proof (rule frames_needed_absent)
    fix i assume i: "i \<in> set (idx 3 n)"
    then have "3 \<le> unat i" "i < 512"
      using that(2) by (simp_all add: idx_set word_less_nat_alt)
    then show "ent fork_state t i AND PTE_PRESENT = 0"
      using e [OF that(1), of i] by auto
  qed
  have cons: "idx 0 512 = 0 # 1 # 2 # idx 3 512" "idx 0 256 = 0 # 1 # 2 # idx 3 256"
    by (rule idx_3, simp)+
  have vals: "ent fork_state 0x1000 0 = 0x2007" "ent fork_state 0x1000 1 = 0" "ent fork_state 0x1000 2 = 0"
    "ent fork_state 0x2000 0 = 0x3007" "ent fork_state 0x2000 1 = 0" "ent fork_state 0x2000 2 = 0"
    "ent fork_state 0x3000 0 = 0" "ent fork_state 0x3000 1 = 0" "ent fork_state 0x3000 2 = 0x4007"
    "ent fork_state 0x4000 0 = 0x5007" "ent fork_state 0x4000 1 = 0x6005" "ent fork_state 0x4000 2 = 0"
    by (simp_all add: e)
  have 1: "frames_needed fork_state 1 0x4000 (idx 0 512) = 2"
    by (simp add: cons frames_needed.simps(2) vals rest)
  have 2: "frames_needed fork_state 2 0x3000 (idx 0 512) = 3"
    by (simp add: cons frames_needed.simps(2) vals rest 1)
  have 3: "frames_needed fork_state 3 0x2000 (idx 0 512) = 4"
    by (simp add: cons frames_needed.simps(2) vals rest 2)
  show ?thesis
    by (simp add: cons frames_needed.simps(2) vals rest 3)
qed

theorem fork_succeeds_iff_witness:
  "fst (vmm_space_clone 0x1000 fork_state) \<noteq> None \<and> fst (vmm_space_clone 0x1000 two_pages) = None"
  using fork_succeeds_iff [OF fork_state_ok(1-3)] space_clone_Nil [OF two_pages_user] by (simp add: fork_state_needs)

lemma fork_state_clones: "\<exists>dst s'. vmm_space_clone 0x1000 fork_state = (Some dst, s')"
  using space_clone_run [OF fork_state_ok(1-3) refl] by (auto simp: fork_state_needs split: if_splits)

theorem fork_isolation_witness:
  "\<exists>dst s'. vmm_space_clone 0x1000 fork_state = (Some dst, s') \<and> umem dst s' 0x400000 = umem 0x1000 fork_state 0x400000 \<and>
     umem dst s' 0x400000 \<noteq> None \<and> umem dst (snd (copy_out dst 0x400000 [7] s')) 0x400000 = Some 7 \<and>
     umem 0x1000 (snd (copy_out dst 0x400000 [7] s')) = umem 0x1000 fork_state"
proof -
  obtain dst s' where run: "vmm_space_clone 0x1000 fork_state = (Some dst, s')"
    using fork_state_clones by blast
  have acc: "page_access 0x1000 0x400000 False fork_state"
    by (simp add: page_access_view [OF user_spaceD(1) [OF fork_state_ok(1)]] fork_state_ok(5) two_pages_view)
  note iso = fork_isolation [OF fork_state_ok(1-3) run]
  note apart = conjunct2 [OF conjunct2 [OF conjunct2 [OF conjunct2 [OF iso]]], THEN spec [of _ "0x400000"], THEN spec [of _ "[7]"]]
  have "umem dst (snd (copy_out dst 0x400000 [7] s')) = over 0x400000 [7] (umem 0x1000 fork_state)"
    "umem 0x1000 (snd (copy_out dst 0x400000 [7] s')) = umem 0x1000 fork_state"
    using apart acc by simp_all
  then show ?thesis
    using run conjunct1 [OF conjunct2 [OF iso]] acc by (intro exI [of _ dst] exI [of _ s']) (simp add: over_def umem_def)
qed

end
