(* ===== verification/Syscall.thy ===== *)
theory Syscall
  imports User_Elf
begin

text \<open>
  The system calls of \<open>kernel/syscall.c\<close>: the dispatcher, a handler per call, and the copies
  between the kernel and user memory, page by page through the checks of the virtual memory. Paths
  arrive as bytes and become strings; a result is a value and a status.
\<close>

section \<open>State and results\<close>

text \<open>
  \<open>stack_junk\<close> is what an array on the kernel's stack holds before it is written: the code copies
  such bytes to the user in one place.
\<close>

record machine = kernel +
  stack_junk :: "nat \<Rightarrow> u8"

abbreviation (input) NARC_OK :: u32 where "NARC_OK \<equiv> 0"
abbreviation (input) NARC_INVALID_ARGUMENT :: u32 where "NARC_INVALID_ARGUMENT \<equiv> 1"
abbreviation (input) NARC_BAD_HANDLE :: u32 where "NARC_BAD_HANDLE \<equiv> 2"
abbreviation (input) NARC_NOT_FOUND :: u32 where "NARC_NOT_FOUND \<equiv> 3"
abbreviation (input) NARC_IO_ERROR :: u32 where "NARC_IO_ERROR \<equiv> 4"
abbreviation (input) NARC_BAD_ADDRESS :: u32 where "NARC_BAD_ADDRESS \<equiv> 5"
abbreviation (input) NARC_NO_MEMORY :: u32 where "NARC_NO_MEMORY \<equiv> 6"
abbreviation (input) NARC_IS_DIRECTORY :: u32 where "NARC_IS_DIRECTORY \<equiv> 9"
abbreviation (input) NARC_NOT_DIRECTORY :: u32 where "NARC_NOT_DIRECTORY \<equiv> 10"
abbreviation (input) NARC_NOT_SUPPORTED :: u32 where "NARC_NOT_SUPPORTED \<equiv> 12"
abbreviation (input) NARC_NO_CHILD :: u32 where "NARC_NO_CHILD \<equiv> 13"
abbreviation (input) NARC_TRY_AGAIN :: u32 where "NARC_TRY_AGAIN \<equiv> 14"
abbreviation (input) NARC_EXISTS :: u32 where "NARC_EXISTS \<equiv> 15"
abbreviation (input) NARC_NO_SPACE :: u32 where "NARC_NO_SPACE \<equiv> 16"
abbreviation (input) NARC_NOT_EMPTY :: u32 where "NARC_NOT_EMPTY \<equiv> 17"
abbreviation (input) NARC_OPEN_KNOWN :: u64 where "NARC_OPEN_KNOWN \<equiv> 0x7f"
abbreviation (input) USER_MMAP_END :: u64 where "USER_MMAP_END \<equiv> 0x140000000"
abbreviation (input) VFS_PATH_MAX :: u64 where "VFS_PATH_MAX \<equiv> 128"
abbreviation (input) NARC_SYSCALL_TAG :: u64 where "NARC_SYSCALL_TAG \<equiv> 0x4e41524300000000"
abbreviation (input) NARC_SYSCALL_TAG_MASK :: u64 where "NARC_SYSCALL_TAG_MASK \<equiv> 0xffffffff00000000"
abbreviation (input) NARC_SYSCALL_ID_MASK :: u64 where "NARC_SYSCALL_ID_MASK \<equiv> 0x00000000ffffffff"

type_synonym kernel_result = "u64 \<times> u32"

definition result_ok :: "u64 \<Rightarrow> kernel_result" where
  "result_ok v = (v, NARC_OK)"

definition result_error :: "u32 \<Rightarrow> kernel_result" where
  "result_error st = (0, st)"

fun vfs_error :: "vfs_status \<Rightarrow> u32" where
  "vfs_error VFS_NOT_FOUND = NARC_NOT_FOUND"
| "vfs_error VFS_EXISTS = NARC_EXISTS"
| "vfs_error VFS_NOT_DIRECTORY = NARC_NOT_DIRECTORY"
| "vfs_error VFS_IS_DIRECTORY = NARC_IS_DIRECTORY"
| "vfs_error VFS_NO_SPACE = NARC_NO_SPACE"
| "vfs_error VFS_NOT_EMPTY = NARC_NOT_EMPTY"
| "vfs_error _ = NARC_INVALID_ARGUMENT"

text \<open>A register as the C \<^verbatim>\<open>int\<close> it is cast to.\<close>

definition to_int :: "u64 \<Rightarrow> int" where
  "to_int v = sint (ucast v :: u32)"

section \<open>Copies\<close>

lemma page_rest: "(n :: nat) \<noteq> 0 \<Longrightarrow> 0 < min (4096 - unat (a AND (PAGE_SIZE - 1))) n"
  using page_off_less [of a] by (simp add: page_off_def word_less_nat_alt)

function copy_in_loop :: "u64 \<Rightarrow> u64 \<Rightarrow> nat \<Rightarrow> 'a phys_scheme \<Rightarrow> u8 list option" where
  "copy_in_loop space src n s =
     (if n = 0 then Some []
      else let p = vmm_user_phys space src s
           in if p = 0 then None
              else let chunk = min (4096 - unat (src AND (PAGE_SIZE - 1))) n
                   in case copy_in_loop space (src + word_of_nat chunk) (n - chunk) s of
                        None \<Rightarrow> None
                      | Some bs \<Rightarrow> Some (mem_load (mem s) (phys_to_virt s p) chunk @ bs))"
  by pat_completeness auto
termination
  by (relation "measure (\<lambda>(space, src, n, s). n)") (simp_all only: in_measure split_conv wf_measure, use page_rest in fastforce)

declare copy_in_loop.simps [simp del]

text \<open>\<^verbatim>\<open>copy_from_user\<close>: the bytes, or None for -1.\<close>

definition copy_from_user :: "u64 \<Rightarrow> u64 \<Rightarrow> 'a vmm_scheme \<Rightarrow> u8 list option" where
  "copy_from_user src n s =
     (if \<not> vmm_user_range_ok (vmm_space_current s) src n False s then None
      else copy_in_loop (vmm_space_current s) src (unat n) s)"

definition copy_to_user :: "u64 \<Rightarrow> u8 list \<Rightarrow> 'a vmm_scheme \<Rightarrow> int \<times> 'a vmm_scheme" where
  "copy_to_user dst bs s =
     (if \<not> vmm_user_range_ok (vmm_space_current s) dst (word_of_nat (length bs)) True s then (-1, s)
      else copy_out (vmm_space_current s) dst bs s)"

text \<open>\<^verbatim>\<open>copy_string\<close>: at most \<open>capacity\<close> bytes, up to the NUL.\<close>

fun copy_string :: "u64 \<Rightarrow> nat \<Rightarrow> 'a vmm_scheme \<Rightarrow> string option" where
  "copy_string src 0 s = None"
| "copy_string src (Suc capacity) s =
     (case copy_from_user src 1 s of
        Some [b] \<Rightarrow>
          if b = 0 then Some []
          else map_option (\<lambda>cs. char_of (unat b) # cs) (copy_string (src + 1) capacity s)
      | _ \<Rightarrow> None)"

definition copy_path :: "u64 \<Rightarrow> u64 \<Rightarrow> 'a vmm_scheme \<Rightarrow> u32 + string" where
  "copy_path address len s =
     (if len = 0 \<or> len \<ge> VFS_PATH_MAX then Inl NARC_INVALID_ARGUMENT
      else case copy_from_user address len s of
             None \<Rightarrow> Inl NARC_BAD_ADDRESS
           | Some bs \<Rightarrow>
               if 0 \<in> set bs then Inl NARC_INVALID_ARGUMENT else Inr (map (\<lambda>b. char_of (unat b)) bs))"

text \<open>\<^verbatim>\<open>copy_string_list\<close>, from string \<open>count\<close> on with \<open>left\<close> places free; the 17th word must be null.\<close>

fun copy_strings_from :: "u64 \<Rightarrow> nat \<Rightarrow> nat \<Rightarrow> 'a vmm_scheme \<Rightarrow> string list option" where
  "copy_strings_from address count 0 s =
     (case copy_from_user (address + word_of_nat count * 8) 8 s of
        None \<Rightarrow> None
      | Some bs \<Rightarrow> if le_field bs 0 8 \<noteq> 0 then None else Some [])"
| "copy_strings_from address count (Suc left) s =
     (case copy_from_user (address + word_of_nat count * 8) 8 s of
        None \<Rightarrow> None
      | Some bs \<Rightarrow>
          let item = le_field bs 0 8
          in if item = 0 then Some []
             else case copy_string item 128 s of
                    None \<Rightarrow> None
                  | Some v \<Rightarrow> map_option (\<lambda>vs. v # vs) (copy_strings_from address (Suc count) left s))"

definition copy_string_list :: "u64 \<Rightarrow> 'a vmm_scheme \<Rightarrow> string list option" where
  "copy_string_list address s = (if address = 0 then Some [] else copy_strings_from address 0 16 s)"

section \<open>Reading and writing\<close>

partial_function (option) read_chunks :: "int \<Rightarrow> u64 \<Rightarrow> u64 \<Rightarrow> u64 \<Rightarrow> 'a kernel_scheme \<Rightarrow>
    (kernel_result \<times> 'a kernel_scheme) option" where
  "read_chunks fd buffer len done s =
     (if \<not> done < len then Some (result_ok done, s)
      else let want = (if len - done > 512 then 512 else len - done)
           in case task_fd_read fd want s of
                None \<Rightarrow> None
              | Some (got, bs, s) \<Rightarrow>
                  if got < 0 then Some (if done \<noteq> 0 then result_ok done else result_error NARC_IO_ERROR, s)
                  else if got = 0 then Some (result_ok done, s)
                  else let (r, s) = copy_to_user (buffer + done) bs s
                       in if r \<noteq> 0 then Some (result_error NARC_BAD_ADDRESS, s)
                          else let done = done + word_of_int got
                               in if word_of_int got < want then Some (result_ok done, s)
                                  else read_chunks fd buffer len done s)"

definition handle_read :: "u64 \<Rightarrow> u64 \<Rightarrow> u64 \<Rightarrow> 'a kernel_scheme \<Rightarrow> (kernel_result \<times> 'a kernel_scheme) option" where
  "handle_read fd buffer len s =
     (if \<not> task_fd_valid (to_int fd) s then Some (result_error NARC_BAD_HANDLE, s)
      else let f = task_fd_file (to_int fd) s
           in if f \<noteq> 0 \<and> i_type (vfs_file_info (o_file (open_files s f)) s) = VFS_DIR
              then Some (result_error NARC_IS_DIRECTORY, s)
              else if \<not> vmm_user_range_ok (vmm_space_current s) buffer len True s
              then Some (result_error NARC_BAD_ADDRESS, s)
              else read_chunks (to_int fd) buffer len 0 s)"

text \<open>The loop of \<^verbatim>\<open>handle_write\<close>, with \<open>left\<close> bytes to go.\<close>

function write_chunks :: "int \<Rightarrow> u64 \<Rightarrow> u64 \<Rightarrow> nat \<Rightarrow> 'a kernel_scheme \<Rightarrow> kernel_result \<times> 'a kernel_scheme" where
  "write_chunks fd ptr done left s =
     (if left = 0 then (result_ok done, s)
      else let p = vmm_user_phys (vmm_space_current s) ptr s
           in if p = 0 then (result_error NARC_BAD_ADDRESS, s)
              else let chunk = min (4096 - unat (ptr AND (PAGE_SIZE - 1))) left;
                       (wrote, s) = task_fd_write fd (mem_load (mem s) (phys_to_virt s p) chunk) s
                   in if wrote < 0 then (if done \<noteq> 0 then result_ok done else result_error NARC_IO_ERROR, s)
                      else if nat wrote < chunk then (result_ok (done + word_of_int wrote), s)
                      else write_chunks fd (ptr + word_of_int wrote) (done + word_of_int wrote) (left - nat wrote) s)"
  by pat_completeness auto
termination
proof (relation "measure (\<lambda>(fd, ptr, done, left, s). left)")
  fix fd and ptr dn :: u64 and left chunk :: nat and s t u :: "'a kernel_scheme" and x :: "int \<times> 'a kernel_scheme" and wrote :: int
  assume "left \<noteq> 0" and chunk: "chunk = min (4096 - unat (ptr AND (PAGE_SIZE - 1))) left" and "\<not> nat wrote < chunk"
  have "0 < chunk"
    unfolding chunk by (rule page_rest [OF \<open>left \<noteq> 0\<close>])
  with \<open>\<not> nat wrote < chunk\<close> have "0 < nat wrote"
    by linarith
  then show "((fd, ptr + word_of_int wrote, dn + word_of_int wrote, left - nat wrote, t), fd, ptr, dn, left, s)
      \<in> measure (\<lambda>(fd, ptr, done, left, s). left)"
    using \<open>left \<noteq> 0\<close> by auto
qed simp

declare write_chunks.simps [simp del]

definition handle_write :: "u64 \<Rightarrow> u64 \<Rightarrow> u64 \<Rightarrow> 'a kernel_scheme \<Rightarrow> kernel_result \<times> 'a kernel_scheme" where
  "handle_write fd buffer len s =
     (if \<not> task_fd_valid (to_int fd) s then (result_error NARC_BAD_HANDLE, s)
      else if \<not> vmm_user_range_ok (vmm_space_current s) buffer len False s then (result_error NARC_BAD_ADDRESS, s)
      else write_chunks (to_int fd) buffer 0 (unat len) s)"

section \<open>Files\<close>

definition handle_open :: "u64 \<Rightarrow> u64 \<Rightarrow> u64 \<Rightarrow> 'a kernel_scheme \<Rightarrow> kernel_result \<times> 'a kernel_scheme" where
  "handle_open address len flags s =
     (if len = 0 \<or> len \<ge> VFS_PATH_MAX \<or> flags AND NOT NARC_OPEN_KNOWN \<noteq> 0 \<or>
         flags AND 3 = 0 \<or> flags AND 0x10 \<noteq> 0 \<and> flags AND 2 = 0
      then (result_error NARC_INVALID_ARGUMENT, s)
      else case copy_path address len s of
             Inl status \<Rightarrow> (result_error status, s)
           | Inr path \<Rightarrow>
               if hd path \<noteq> CHR ''/'' then (result_error NARC_NOT_FOUND, s)
               else let native_flags =
                          (if flags AND 0x01 \<noteq> 0 then VFS_OPEN_READ else 0) OR
                          (if flags AND 0x02 \<noteq> 0 then VFS_OPEN_WRITE else 0) OR
                          (if flags AND 0x04 \<noteq> 0 then VFS_OPEN_CREATE else 0) OR
                          (if flags AND 0x08 \<noteq> 0 then VFS_OPEN_DIRECTORY else 0) OR
                          (if flags AND 0x10 \<noteq> 0 then VFS_OPEN_TRUNCATE else 0) OR
                          (if flags AND 0x20 \<noteq> 0 then VFS_OPEN_EXCLUSIVE else 0) OR
                          (if flags AND 0x40 \<noteq> 0 then VFS_OPEN_APPEND else 0)
                    in case task_fd_open (Some path) native_flags s of
                         (fd, status, s) \<Rightarrow>
                           if fd = -2 then (result_error NARC_NO_MEMORY, s)
                           else if fd < 0 then (result_error (vfs_error status), s)
                           else (result_ok (word_of_int fd), s))"

definition status_result :: "vfs_status \<Rightarrow> kernel_result" where
  "status_result st = (if st = VFS_OK then result_ok 0 else result_error (vfs_error st))"

definition handle_mkdir :: "u64 \<Rightarrow> u64 \<Rightarrow> u64 \<Rightarrow> 'a kernel_scheme \<Rightarrow> kernel_result \<times> 'a kernel_scheme" where
  "handle_mkdir address len mode s =
     (case copy_path address len s of
        Inl status \<Rightarrow> (result_error status, s)
      | Inr path \<Rightarrow> let (st, s) = vfs_mkdir (Some path) (ucast mode) s in (status_result st, s))"

definition handle_unlink :: "u64 \<Rightarrow> u64 \<Rightarrow> bool \<Rightarrow> 'a kernel_scheme \<Rightarrow> kernel_result \<times> 'a kernel_scheme" where
  "handle_unlink address len remove_directory s =
     (case copy_path address len s of
        Inl status \<Rightarrow> (result_error status, s)
      | Inr path \<Rightarrow> let (st, s) = vfs_unlink (Some path) remove_directory s in (status_result st, s))"

definition handle_rename :: "u64 \<Rightarrow> u64 \<Rightarrow> u64 \<Rightarrow> u64 \<Rightarrow> 'a kernel_scheme \<Rightarrow>
    (kernel_result \<times> 'a kernel_scheme) option" where
  "handle_rename old_address old_len new_address new_len s =
     (case copy_path old_address old_len s of
        Inl status \<Rightarrow> Some (result_error status, s)
      | Inr old_path \<Rightarrow>
          (case copy_path new_address new_len s of
             Inl status \<Rightarrow> Some (result_error status, s)
           | Inr new_path \<Rightarrow>
               map_option (\<lambda>(st, s). (status_result st, s)) (vfs_rename (Some old_path) (Some new_path) s)))"

definition handle_close :: "u64 \<Rightarrow> 'a kernel_scheme \<Rightarrow> kernel_result \<times> 'a kernel_scheme" where
  "handle_close fd s =
     (let (r, s) = task_fd_close (to_int fd) s
      in (if r \<noteq> 0 then result_error NARC_BAD_HANDLE else result_ok 0, s))"

definition handle_seek :: "u64 \<Rightarrow> int \<Rightarrow> u64 \<Rightarrow> 'a kernel_scheme \<Rightarrow> kernel_result \<times> 'a kernel_scheme" where
  "handle_seek fd offset origin s =
     (if origin > 2 then (result_error NARC_INVALID_ARGUMENT, s)
      else let f = task_fd_file (to_int fd) s
           in if f = 0 then (result_error NARC_BAD_HANDLE, s)
              else let (v, file') = vfs_seek (o_file (open_files s f)) offset (uint origin) s;
                       s = upd_open f (\<lambda>u. u\<lparr>o_file := file'\<rparr>) s
                   in (if v < 0 then result_error NARC_INVALID_ARGUMENT else result_ok (word_of_int v), s))"

text \<open>The 24 bytes of \<^verbatim>\<open>narc_file_info_t\<close>.\<close>

definition file_info_bytes :: "u64 \<Rightarrow> u64 \<Rightarrow> u32 \<Rightarrow> u8 \<Rightarrow> u8 list" where
  "file_info_bytes ino sz mode type = le_bytes 8 ino @ le_bytes 8 sz @ le_bytes 4 (ucast mode) @ [type, 0, 0, 0]"

definition handle_file_info :: "u64 \<Rightarrow> u64 \<Rightarrow> 'a kernel_scheme \<Rightarrow> kernel_result \<times> 'a kernel_scheme" where
  "handle_file_info fd address s =
     (if \<not> task_fd_valid (to_int fd) s then (result_error NARC_BAD_HANDLE, s)
      else let f = task_fd_file (to_int fd) s;
               src = vfs_file_info (o_file (open_files s f)) s;
               info = (if f \<noteq> 0
                       then file_info_bytes (i_ino src) (i_size src) (i_mode src) (if i_type src = VFS_DIR then 2 else 1)
                       else file_info_bytes 0 0 (0x2000 OR 0x1b6) 3);
               (r, s) = copy_to_user address info s
           in (if r \<noteq> 0 then result_error NARC_BAD_ADDRESS else result_ok 0, s))"

text \<open>
  The 80 bytes of \<^verbatim>\<open>narc_dir_entry_t\<close>: of the 64 bytes of the name, those after its NUL are what the
  stack held.
\<close>

definition dir_entry_bytes :: "(nat \<Rightarrow> u8) \<Rightarrow> vfs_dirent \<Rightarrow> u8 list" where
  "dir_entry_bytes junk d =
     (let name = map of_char (d_name d) @ [0]
      in le_bytes 8 (d_ino d) @ [if d_type d = VFS_DIR then 2 else 1] @
         take 64 (name @ map junk [length name..<64]) @ replicate 7 0)"

definition handle_read_dir :: "u64 \<Rightarrow> u64 \<Rightarrow> 'a machine_scheme \<Rightarrow> kernel_result \<times> 'a machine_scheme" where
  "handle_read_dir fd address s =
     (let f = task_fd_file (to_int fd) s; o1 = open_files s f
      in if f = 0
         then (if task_fd_valid (to_int fd) s then (result_error NARC_NOT_DIRECTORY, s)
               else (result_error NARC_BAD_HANDLE, s))
         else if i_type (vfs_file_info (o_file o1) s) \<noteq> VFS_DIR then (result_error NARC_NOT_DIRECTORY, s)
         else case vfs_readdir (o_file o1) s of
                (r, entry, file') \<Rightarrow>
                  let s = upd_open f (\<lambda>u. u\<lparr>o_file := file'\<rparr>) s
                  in (case entry of
                        None \<Rightarrow> (if r < 0 then result_error NARC_IO_ERROR else result_ok 0, s)
                      | Some d \<Rightarrow>
                          let (r, s) = copy_to_user address (dir_entry_bytes (stack_junk s) d) s
                          in (if r \<noteq> 0 then result_error NARC_BAD_ADDRESS else result_ok 1, s)))"

section \<open>Memory\<close>

definition page_align :: "u64 \<Rightarrow> u64" where
  "page_align v = (if v > 0xffffffffffffffff - (PAGE_SIZE - 1) then 0 else (v + PAGE_SIZE - 1) AND NOT (PAGE_SIZE - 1))"

text \<open>The loop of \<^verbatim>\<open>handle_map\<close> with \<open>n\<close> pages to go: how much was mapped.\<close>

fun map_loop :: "u64 \<Rightarrow> u64 \<Rightarrow> u64 \<Rightarrow> u64 \<Rightarrow> nat \<Rightarrow> 'a phys_scheme \<Rightarrow> u64 \<times> 'a phys_scheme" where
  "map_loop space base flags mapped 0 s = (mapped, s)"
| "map_loop space base flags mapped (Suc n) s =
     (let (frame, s) = pmm_alloc_page s
      in if frame = 0 then (mapped, s)
         else let (r, s) = vmm_map_user space (base + mapped) frame (if flags AND 2 \<noteq> 0 then VMM_WRITE else 0) s
              in if r \<noteq> 0 then (mapped, pmm_free_page frame s)
                 else map_loop space base flags (mapped + PAGE_SIZE) n s)"

definition unmap_all :: "u64 \<Rightarrow> u64 \<Rightarrow> nat \<Rightarrow> 'a phys_scheme \<Rightarrow> 'a phys_scheme" where
  "unmap_all space base n s =
     fold (\<lambda>i s. snd (vmm_unmap_user space (base + word_of_nat i * PAGE_SIZE) s)) [0..<n] s"

definition handle_map :: "u64 \<Rightarrow> u64 \<Rightarrow> 'a kernel_scheme \<Rightarrow> kernel_result \<times> 'a kernel_scheme" where
  "handle_map len flags s =
     (if len = 0 \<or> flags AND NOT 3 \<noteq> 0 \<or> flags AND 1 = 0 then (result_error NARC_INVALID_ARGUMENT, s)
      else let sz = page_align len; base = page_align (task_mmap_next s)
           in if sz = 0 \<or> base < USER_MMAP_BASE \<or> sz > USER_MMAP_END - base then (result_error NARC_NO_MEMORY, s)
              else let space = vmm_space_current s;
                       (mapped, s) = map_loop space base flags 0 (unat sz div 4096) s
                   in if mapped \<noteq> sz
                      then (result_error NARC_NO_MEMORY, unmap_all space base (unat mapped div 4096) s)
                      else (result_ok base, task_set_mmap_next (base + sz) s))"

definition handle_unmap :: "u64 \<Rightarrow> u64 \<Rightarrow> 'a kernel_scheme \<Rightarrow> kernel_result \<times> 'a kernel_scheme" where
  "handle_unmap address len s =
     (if len = 0 \<or> address AND (PAGE_SIZE - 1) \<noteq> 0 then (result_error NARC_INVALID_ARGUMENT, s)
      else let sz = page_align len
           in if sz = 0 \<or> address < USER_MMAP_BASE \<or> sz > USER_MMAP_END - address
              then (result_error NARC_INVALID_ARGUMENT, s)
              else let space = vmm_space_current s; n = unat sz div 4096
                   in if list_ex (\<lambda>i. vmm_user_phys space (address + word_of_nat i * PAGE_SIZE) s = 0) [0..<n]
                      then (result_error NARC_INVALID_ARGUMENT, s)
                      else (result_ok 0, unmap_all space address n s))"

section \<open>The dispatcher\<close>

definition handle_exec :: "task_frame \<Rightarrow> u64 \<Rightarrow> u64 \<Rightarrow> u64 \<Rightarrow> 'a kernel_scheme \<Rightarrow> u32 \<times> task_frame \<times> 'a kernel_scheme" where
  "handle_exec frame path_address argv_address envp_address s =
     (case (copy_string path_address 128 s, copy_string_list argv_address s, copy_string_list envp_address s) of
        (Some path, Some arguments, Some environment) \<Rightarrow>
          (case user_exec frame path (if arguments = [] then [path] else arguments) environment s of
             (r, frame, s) \<Rightarrow> (if r = 0 then NARC_OK else NARC_NOT_FOUND, frame, s))
      | _ \<Rightarrow> (NARC_BAD_ADDRESS, frame, s))"

definition return_result :: "task_frame \<Rightarrow> kernel_result \<Rightarrow> task_frame" where
  "return_result frame r = arch_syscall_return2 frame (fst r) (ucast (snd r))"

text \<open>A handler's result put in the frame.\<close>

definition with_result :: "task_frame \<Rightarrow> kernel_result \<times> 'a machine_scheme \<Rightarrow> (task_frame \<times> 'a machine_scheme) option" where
  "with_result frame rs = Some (return_result frame (fst rs), snd rs)"

definition handle_wait :: "task_frame \<Rightarrow> u64 \<Rightarrow> u64 \<Rightarrow> u64 \<Rightarrow> 'a machine_scheme \<Rightarrow> (task_frame \<times> 'a machine_scheme) option" where
  "handle_wait frame a1 a2 a3 s =
     (if a2 \<noteq> 0 \<and> \<not> vmm_user_range_ok (vmm_space_current s) a2 4 True s
      then with_result frame (result_error NARC_BAD_ADDRESS, s)
      else case task_wait frame (to_int a1) a2 (to_int a3) s of
             None \<Rightarrow> None
           | Some (switched, v, frame, s) \<Rightarrow>
               if switched then Some (frame, s)
               else with_result frame (if v < 0 then result_error NARC_NO_CHILD else result_ok (word_of_int v), s))"

definition dispatch :: "task_frame \<Rightarrow> u64 \<Rightarrow> 'a machine_scheme \<Rightarrow> (task_frame \<times> 'a machine_scheme) option" where
  "dispatch frame num s =
     (let a1 = arch_syscall_arg frame 0; a2 = arch_syscall_arg frame 1; a3 = arch_syscall_arg frame 2
      in if num = 0x000 then with_result frame (result_ok 1, s)
         else if num = 0x001 then task_exit frame (to_int a1) s
         else if num = 0x002 then with_result frame (result_ok (word_of_int (task_pid s)), s)
         else if num = 0x003 then task_yield (return_result frame (result_ok 0)) s
         else if num = 0x004
         then (case task_fork frame s of
                 None \<Rightarrow> None
               | Some (pid, s) \<Rightarrow>
                   with_result frame (if pid < 0 then result_error NARC_TRY_AGAIN else result_ok (word_of_int pid), s))
         else if num = 0x005 then handle_wait frame a1 a2 a3 s
         else if num = 0x006
         then (case handle_exec frame a1 a2 a3 s of
                 (status, frame, s) \<Rightarrow>
                   if status \<noteq> NARC_OK then with_result frame (result_error status, s) else Some (frame, s))
         else if num = 0x100 then with_result frame (handle_open a1 a2 a3 s)
         else if num = 0x101 then with_result frame (handle_close a1 s)
         else if num = 0x102 then Option.bind (handle_read a1 a2 a3 s) (with_result frame)
         else if num = 0x103 then with_result frame (handle_write a1 a2 a3 s)
         else if num = 0x104 then with_result frame (handle_seek a1 (sint a2) a3 s)
         else if num = 0x105 then with_result frame (handle_file_info a1 a2 s)
         else if num = 0x106 then with_result frame (handle_read_dir a1 a2 s)
         else if num = 0x107 then with_result frame (handle_mkdir a1 a2 a3 s)
         else if num = 0x108 then with_result frame (handle_unlink a1 a2 False s)
         else if num = 0x109 then with_result frame (handle_unlink a1 a2 True s)
         else if num = 0x10a then Option.bind (handle_rename a1 a2 a3 (arch_syscall_arg frame 3) s) (with_result frame)
         else if num = 0x200 then with_result frame (handle_map a1 a2 s)
         else if num = 0x201 then with_result frame (handle_unmap a1 a2 s)
         else with_result frame (result_error NARC_NOT_SUPPORTED, s))"

definition syscall_dispatch :: "task_frame \<Rightarrow> 'a machine_scheme \<Rightarrow> (task_frame \<times> 'a machine_scheme) option" where
  "syscall_dispatch frame s =
     (let num = arch_syscall_number frame
      in if num AND NARC_SYSCALL_TAG_MASK \<noteq> NARC_SYSCALL_TAG
         then with_result frame (result_error NARC_NOT_SUPPORTED, s)
         else dispatch frame (num AND NARC_SYSCALL_ID_MASK) s)"

end
