(* ===== verification/Syscall_Copy.thy ===== *)
theory Syscall_Copy
  imports Syscall User_Space
begin

text \<open>
  What the copies of \<open>kernel/syscall.c\<close> between the kernel and a program do: no byte is lost or
  misplaced, and nothing outside the range is written.
\<close>

section \<open>The copies\<close>

lemma copy_in_bytes:
  assumes "\<And>i. i < n \<Longrightarrow> page_access space (src + word_of_nat i) False s \<and> vmm_user_phys space (src + word_of_nat i) s \<noteq> 0"
  shows "copy_in_loop space src n s = Some (map (\<lambda>i. mem s (user_byte space s (src + word_of_nat i))) [0..<n])"
  using assms
proof (induction n arbitrary: src rule: less_induct)
  case (less n)
  show ?case
  proof (cases "n = 0")
    case False
    define f where "f i = mem s (user_byte space s (src + word_of_nat i))" for i
    define chunk where "chunk = min (rest_of_page src) n"
    have c: "0 < chunk" "chunk \<le> n" "chunk \<le> rest_of_page src"
      using False rest_of_page_le(1) [of src] by (auto simp: chunk_def)
    have first: "page_access space src False s" "vmm_user_phys space src s \<noteq> 0"
      using less.prems [of 0] False by auto
    have shift: "src + word_of_nat chunk + word_of_nat i = src + word_of_nat (chunk + i)" for i
      by simp
    have "copy_in_loop space (src + word_of_nat chunk) (n - chunk) s = Some (map (\<lambda>i. f (chunk + i)) [0..<n - chunk])"
      unfolding f_def shift [symmetric]
      by (rule less.IH) (use less.prems [of "chunk + i" for i] c in \<open>simp_all only: shift, simp_all\<close>)
    moreover have "map (\<lambda>i. f (chunk + i)) [0..<n - chunk] = map f [chunk..<n]"
      using c(2) by (simp add: list_eq_iff_nth_eq)
    moreover have "mem_load (mem s) (phys_to_virt s (vmm_user_phys space src s)) chunk = map f [0..<chunk]"
      using user_byte_add [OF first(1)] c(3) by (simp add: mem_load_def user_byte_def f_def)
    moreover have "[0..<n] = [0..<chunk] @ [chunk..<n]"
      using c(2) upt_add_eq_append [of 0 chunk "n - chunk"] by simp
    ultimately show ?thesis
      using first(2) False unfolding f_def [symmetric]
      by (subst copy_in_loop.simps) (simp add: chunk_def rest_of_page_def Let_def)
  qed (simp add: copy_in_loop.simps)
qed

lemma range_ok_read: "vmm_user_range_ok space a len w s \<Longrightarrow> vmm_user_range_ok space a len False s"
  unfolding vmm_user_range_ok_span x86_pages.span_ok_iff using page_access_read by blast

text \<open>The bytes of a range that passes the check.\<close>

lemma range_bytes:
  assumes "vmm_user_range_ok space a (word_of_nat n) w s" "n < 18446744073709551616" "i < n"
  shows "unat a + n \<le> unat USER_LIMIT + 1" "unat (a + word_of_nat i) = unat a + i" "page_access space (a + word_of_nat i) w s"
proof -
  have "unat a + n \<le> unat USER_LIMIT + 1" and acc: "\<And>b :: u64. unat a \<le> unat b \<Longrightarrow> unat b < unat a + n \<Longrightarrow> page_access space b w s"
    using x86_pages.span_ok_iff [of space w s USER_LIMIT a "word_of_nat n", folded vmm_user_range_ok_span] assms
    by (auto simp: word_unat_eq_iff)
  moreover from this(1) show "unat (a + word_of_nat i) = unat a + i"
    using assms(3) by (intro unat_add_of_nat_u64) simp
  ultimately show "unat a + n \<le> unat USER_LIMIT + 1" "page_access space (a + word_of_nat i) w s"
    using assms(3) acc [of "a + word_of_nat i"] by simp_all
qed

lemma copy_from_user_bytes:
  assumes "user_space (current_space s) xs s" "vmm_user_range_ok (current_space s) src (word_of_nat n) False s"
    "n < 18446744073709551616"
  shows "copy_from_user src (word_of_nat n) s = Some (map (\<lambda>i. mem s (user_byte (current_space s) s (src + word_of_nat i))) [0..<n])"
proof -
  have "copy_in_loop (current_space s) src n s = Some (map (\<lambda>i. mem s (user_byte (current_space s) s (src + word_of_nat i))) [0..<n])"
    using range_bytes(3) [OF assms(2,3)] user_phys_nonzero [OF assms(1)] by (intro copy_in_bytes) blast
  then show ?thesis
    using assms(2,3) by (simp add: copy_from_user_def vmm_space_current_def)
qed

lemma copy_to_user_bytes:
  assumes "user_space (current_space s) xs s" "vmm_user_range_ok (current_space s) dst (word_of_nat (length bs)) True s"
    "length bs < 18446744073709551616"
  shows "\<exists>s'. copy_to_user dst bs s = (0, s') \<and> copied (current_space s) dst bs s s' \<and> user_space (current_space s) xs s'"
proof (cases "bs = []")
  case True
  then show ?thesis
    using assms by (simp add: copy_to_user_def vmm_space_current_def copy_out.simps)
next
  case False
  have "page_access (current_space s) (dst + word_of_nat i) False s" if "i < length bs" for i
    using range_bytes(3) [OF assms(2,3) that] by (rule page_access_read)
  moreover have "unat dst + length bs \<le> unat USER_LIMIT + 1"
    using range_bytes(1) [OF assms(2,3), of 0] False by simp
  ultimately show ?thesis
    using copy_out_bytes [OF assms(1)] assms(2) by (simp add: copy_to_user_def vmm_space_current_def)
qed

text \<open>What has been copied can be read back, as long as the page is not taken away.\<close>

lemma copied_range:
  assumes "user_space space xs s" "user_space space ys s'" "copied space dst bs s s'"
  shows "user_byte space s' = user_byte space s" "page_access space a w s' = page_access space a w s"
    "vmm_user_range_ok space a len w s' = vmm_user_range_ok space a len w s"
proof -
  have "hhdm s' = hhdm s" "pt_view s' space = pt_view s space"
    using assms(3) by (auto simp: copied_def)
  note v = user_byte_view [OF user_spaceD(1) [OF assms(1)] user_spaceD(1) [OF assms(2)] this(2,1)]
  then show "user_byte space s' = user_byte space s" "page_access space a w s' = page_access space a w s"
    by simp_all
  show "vmm_user_range_ok space a len w s' = vmm_user_range_ok space a len w s"
    by (simp add: vmm_user_range_ok_span v(2))
qed

text \<open>
  C15: \<^verbatim>\<open>copy_to_user\<close> writes to the range of the program exactly the bytes it is given, or nothing
  at all. When the range passes the check for writing it returns 0, \<^verbatim>\<open>copy_from_user\<close> then reads the
  same bytes back from there, wherever page boundaries lie, no other byte of the machine has changed,
  and so the page tables and the frames of the program are as before. Otherwise it returns -1 and
  nothing has changed.
\<close>

theorem copy_to_user_exact:
  assumes "user_space (current_space s) xs s" "length bs < 2 ^ 64" "copy_to_user dst bs s = (r, s')"
  shows "if vmm_user_range_ok (current_space s) dst (word_of_nat (length bs)) True s
     then r = 0 \<and> copy_from_user dst (word_of_nat (length bs)) s' = Some bs \<and> user_space (current_space s) xs s' \<and>
       pt_view s' (current_space s) = pt_view s (current_space s) \<and> (\<exists>m. s' = s\<lparr>mem := m\<rparr>) \<and>
       (\<forall>x. (\<forall>i. i < length bs \<longrightarrow> x \<noteq> user_byte (current_space s) s (dst + word_of_nat i)) \<longrightarrow> mem s' x = mem s x)
     else r = -1 \<and> s' = s"
proof (cases "vmm_user_range_ok (current_space s) dst (word_of_nat (length bs)) True s")
  case False
  then show ?thesis
    using assms(3) by (simp add: copy_to_user_def vmm_space_current_def)
next
  case True
  have len: "length bs < 18446744073709551616"
    using assms(2) by simp
  from copy_to_user_bytes [OF assms(1) True len] assms(3)
  have c: "r = 0" "copied (current_space s) dst bs s s'" "user_space (current_space s) xs s'"
    by auto
  have bytes: "\<forall>i. i < length bs \<longrightarrow> mem s' (user_byte (current_space s) s (dst + word_of_nat i)) = bs ! i"
    using c(2) unfolding copied_def by blast
  note same = copied_range [OF assms(1) c(3,2)]
  have cur: "current_space s' = current_space s"
    using c(2) by (auto simp: copied_def)
  have "vmm_user_range_ok (current_space s) dst (word_of_nat (length bs)) False s'"
    unfolding same using True by (rule range_ok_read)
  have "map (\<lambda>i. mem s' (user_byte (current_space s) s' (dst + word_of_nat i))) [0..<length bs] = bs"
    unfolding same(1) using bytes by (intro nth_equalityI) simp_all
  with copy_from_user_bytes [of s', unfolded cur, OF c(3) \<open>vmm_user_range_ok _ _ _ False s'\<close> len]
  have read: "copy_from_user dst (word_of_nat (length bs)) s' = Some bs"
    by (rule trans [OF _ arg_cong [of _ _ Some]])
  show ?thesis
    unfolding if_P [OF True] using c read unfolding copied_def by blast
qed

theorem copy_to_user_exact_witness:
  "fst (copy_to_user 0x400ffe [0x61, 0x62] two_pages) = 0 \<and>
   copy_from_user 0x400ffe 2 (snd (copy_to_user 0x400ffe [0x61, 0x62] two_pages)) = Some [0x61, 0x62]"
proof -
  have "current_space two_pages = 0x1000"
    by (simp add: two_pages_def wr_def Let_def)
  moreover have "vmm_user_range_ok 0x1000 0x400ffe 2 True two_pages"
    by (simp add: vmm_user_range_ok_def range_walk_Suc two_pages_access)
  ultimately show ?thesis
    using copy_to_user_exact [of two_pages "[]" "[0x61, 0x62]" "0x400ffe"] two_pages_user
    by (cases "copy_to_user 0x400ffe [0x61, 0x62] two_pages") simp
qed

end
