(* ===== verification/Syscall_Refuse.thy ===== *)
theory Syscall_Refuse
  imports Syscall Task_Pipe
begin

text \<open>
  Refused system calls: when a call on files, directories or memory reports that its arguments name
  nothing it could work on, it has changed nothing. Out-of-memory and input-output errors, which may
  come in the middle of the work, are not refusals.
\<close>

section \<open>Refusals\<close>

definition refused :: "u32 \<Rightarrow> bool" where
  "refused st \<longleftrightarrow> st \<in> {NARC_INVALID_ARGUMENT, NARC_BAD_HANDLE, NARC_NOT_FOUND, NARC_IS_DIRECTORY,
     NARC_NOT_DIRECTORY, NARC_NOT_SUPPORTED, NARC_EXISTS, NARC_NOT_EMPTY}"

definition clean :: "'s \<Rightarrow> kernel_result \<times> 's \<Rightarrow> bool" where
  "clean s rs \<longleftrightarrow> (refused (snd (fst rs)) \<longrightarrow> fst rs = result_error (snd (fst rs)) \<and> snd rs = s)"

named_theorems refuse

lemma clean_result [refuse]:
  "clean s (result_ok v, t)" "clean s (result_error st, s)" "\<not> refused st \<Longrightarrow> clean s (result_error st, t)"
  by (simp_all add: clean_def result_ok_def result_error_def refused_def)

lemma not_refused [refuse]:
  "\<not> refused NARC_IO_ERROR" "\<not> refused NARC_BAD_ADDRESS" "\<not> refused NARC_NO_MEMORY" "\<not> refused NARC_NO_SPACE"
  by (simp_all add: refused_def)

lemma clean_trans: "clean s (r, t) \<Longrightarrow> clean t (r, u) \<Longrightarrow> clean s (r, u)"
  by (auto simp: clean_def)

section \<open>The file system\<close>

text \<open>An operation of the file system that fails for anything but space has changed nothing.\<close>

lemma clean_status [refuse]: "(st \<noteq> VFS_OK \<Longrightarrow> st \<noteq> VFS_NO_SPACE \<Longrightarrow> t = s) \<Longrightarrow> clean s (status_result st, t)"
  by (cases st) (auto simp: status_result_def refuse)

lemma vfs_mkdir_clean: "vfs_mkdir path mode s = (st, t) \<Longrightarrow> st \<noteq> VFS_OK \<Longrightarrow> st \<noteq> VFS_NO_SPACE \<Longrightarrow> t = s"
  by (auto simp: vfs_mkdir_def Let_def split: sum.splits if_splits prod.splits)

lemma vfs_unlink_clean: "vfs_unlink path rmd s = (st, t) \<Longrightarrow> st \<noteq> VFS_OK \<Longrightarrow> t = s"
  by (auto simp: vfs_unlink_def Let_def split: sum.splits if_splits prod.splits)


lemma vfs_seek_clean: "vfs_seek f offset origin s = (v, g) \<Longrightarrow> v < 0 \<Longrightarrow> g = f"
  by (auto simp: vfs_seek_def Let_def split: if_splits)

section \<open>The handlers\<close>

lemma handle_mkdir_clean [refuse]: "clean s (handle_mkdir address len mode s)"
  by (auto simp: handle_mkdir_def refuse split: sum.split prod.split intro!: clean_status elim: vfs_mkdir_clean)

lemma handle_unlink_clean [refuse]: "clean s (handle_unlink address len rmd s)"
  by (auto simp: handle_unlink_def refuse split: sum.split prod.split intro!: clean_status elim: vfs_unlink_clean)


lemma handle_close_clean [refuse]: "clean s (handle_close fd s)"
  by (auto simp: handle_close_def task_fd_close_def Let_def refuse)

lemma upd_open_same: "upd_open f (\<lambda>u. u\<lparr>o_file := o_file (open_files s f)\<rparr>) s = s"
  by (simp add: upd_open_def)

lemma handle_seek_clean [refuse]: "clean s (handle_seek fd offset origin s)"
  by (auto simp: handle_seek_def Let_def refuse upd_open_same split: prod.split dest: vfs_seek_clean)

lemma handle_file_info_clean [refuse]: "clean s (handle_file_info fd address s)"
  by (auto simp: handle_file_info_def Let_def refuse split: prod.split)

lemma handle_read_dir_clean [refuse]: "clean s (handle_read_dir fd address s)"
  by (auto simp: handle_read_dir_def Let_def refuse split: prod.split option.split)

lemma handle_map_clean [refuse]: "clean s (handle_map len flags s)"
  by (auto simp: handle_map_def Let_def refuse split: prod.split)

lemma handle_unmap_clean [refuse]: "clean s (handle_unmap address len s)"
  by (auto simp: handle_unmap_def Let_def refuse split: prod.split)

text \<open>The loops of reading and writing never refuse.\<close>

lemma accepted [refuse]: "\<not> refused (snd (result_ok v))" "\<not> refused st \<Longrightarrow> \<not> refused (snd (result_error st))"
  by (simp_all add: result_ok_def result_error_def refused_def)

lemma write_chunks_accepts: "\<not> refused (snd (fst (write_chunks fd ptr dn left s)))"
proof (induction left arbitrary: ptr dn s rule: less_induct)
  case (less left)
  show ?case
  proof (cases "left = 0")
    case False
    have "left - nat wrote < left" if "\<not> nat wrote < min (4096 - unat (ptr AND (PAGE_SIZE - 1))) left" for wrote
      using page_rest [OF False, of ptr] that False by linarith
    note IH = less [OF this]
    show ?thesis
      by (subst write_chunks.simps) (use IH in \<open>simp add: Let_def refuse split: prod.split\<close>)
  qed (simp add: write_chunks.simps refuse)
qed


lemma clean_accepts: "\<not> refused (snd (fst rs)) \<Longrightarrow> clean s rs"
  by (simp add: clean_def)

lemma handle_write_clean [refuse]: "clean s (handle_write fd buffer len s)"
  by (simp add: handle_write_def refuse clean_accepts write_chunks_accepts)


section \<open>The dispatcher\<close>







end
