(* ===== verification/Task_Life.thy ===== *)
theory Task_Life
  imports Task_Sched User_Load Syscall_Copy
begin

text \<open>
  The end of a task in \<open>kernel/task.c\<close>: \<^verbatim>\<open>task_exit\<close> and \<^verbatim>\<open>task_wait\<close> meet, whichever comes first, and the
  parent gets the number and the status of the child, whose record is then freed. The first part
  shows what of the scheduler's view the operations of the heap, the file system and the page tables keep.
\<close>

section \<open>What freeing memory keeps\<close>

named_theorems keep_more

lemma push_object_more [keep_more]: "heap.more (push_object c x s) = heap.more s"
  by (simp add: push_object_def)

lemma kfree_small_more [keep_more]: "heap.more (kfree_small p s) = heap.more s"
  by (simp add: kfree_small_def push_object_more)

lemma fold_keeps: "(\<And>x s. R (f x s) = R s) \<Longrightarrow> R (fold f xs s) = R s"
  by (induction xs arbitrary: s) simp_all

lemma pmm_heap_more [keep_more]:
  "heap.more (snd (pmm_alloc_page s)) = heap.more s" "heap.more (pmm_free_page p s) = heap.more s"
  using heap_more_eq(7) [OF pmm_frame(3)] heap_more_eq(7) [OF pmm_frame(6)] by auto

lemma refill_more: "heap.more (snd (refill c s)) = heap.more s"
proof -
  have f: "heap.more (fold (\<lambda>k. push_object c (slot page c k)) xs t) = heap.more t" for page xs and t :: "'b heap_scheme"
    by (rule fold_keeps) (rule push_object_more)
  show ?thesis
    by (simp add: refill_def put_header_def Let_def split_def pmm_heap_more f)
qed

lemma small_alloc_more [keep_more]: "heap.more (snd (small_alloc c s)) = heap.more s"
  by (simp add: small_alloc_def Let_def split_def refill_more)

lemma window_free_more [keep_more]: "heap.more (window_free base pages s) = heap.more s"
  unfolding window_free_def Let_def split_def
  by (simp add: keep_more split: list.split)

lemma unmap_pages_more [keep_more]: "heap.more (unmap_pages base n s) = heap.more s"
proof -
  have u: "heap.more (snd (vmm_unmap_kernel v t)) = heap.more t" for v and t :: "'b heap_scheme"
    by (simp add: vmm_unmap_kernel_def wr_def Let_def split_def)
  show ?thesis
    unfolding unmap_pages_def by (intro fold_keeps) (simp add: Let_def split_def keep_more u)
qed

lemma kfree_more [keep_more]: "heap.more (kfree p s) = heap.more s"
  by (simp add: kfree_def Let_def keep_more)

lemma free_entries_more: "phys.more (free_entries level frame i s) = phys.more s"
proof (induction level frame i s rule: free_entries.induct)
  case (1 level frame i s)
  then show ?case
    by (subst free_entries.simps) (simp add: Let_def)
qed

lemma space_destroy_more: "phys.more (snd (vmm_space_destroy space s)) = phys.more s"
proof -
  let ?f = "\<lambda>i s. let entry = rd s (entry_at (phys_to_virt s space) (word_of_nat i))
    in if entry AND PTE_PRESENT \<noteq> 0 then free_table (entry AND ADDR_MASK) 3 s else s"
  have "phys.more (fold ?f [0..<256] s) = phys.more s"
    by (rule fold_keeps) (simp add: free_table_def free_entries_more Let_def)
  then show ?thesis
    unfolding vmm_space_destroy_def by (simp only: Let_def if_distrib [of snd] if_distrib [of phys.more] snd_conv pmm_frame if_cancel)
qed

text \<open>The fields of tasks and files.\<close>

lemma kernel_more_eq:
  assumes "vfs.more s = vfs.more t"
  shows "tasks s = tasks t" "task_list s = task_list t" "current s = current t" "next_pid s = next_pid t"
    "open_files s = open_files t" "pipes s = pipes t"
  using assms by (cases s; cases t; simp)+

lemma heap_vfs_more: "heap.more s = heap.more t \<Longrightarrow> vfs.more s = vfs.more t"
  by (cases s; cases t; simp)

lemma kfree_vfs_more [keep_more]: "vfs.more (kfree p s) = vfs.more s" "vfs.more (pmm_free_page p s) = vfs.more s"
  by (rule heap_vfs_more, rule keep_more)+

lemma upd_vnode_more [keep_more]: "vfs.more (upd_vnode a f s) = vfs.more s"
  by (simp add: upd_vnode_def)

lemma vfs_close_more [keep_more]: "vfs.more (snd (vfs_close f s)) = vfs.more s"
proof -
  have r: "vfs.more (release_pages node t) = vfs.more t" for node and t :: "'b vfs_scheme"
    unfolding release_pages_def by (rule fold_keeps) (simp add: Let_def keep_more)
  show ?thesis
    by (simp add: vfs_close_def release_node_def Let_def keep_more r)
qed

lemmas freed_fields [simp] =
  kernel_more_eq [OF kfree_vfs_more(1)] kernel_more_eq [OF kfree_vfs_more(2)] kernel_more_eq [OF vfs_close_more]
  kernel_more_eq [OF heap_vfs_more [OF heap_more_eq(7) [OF space_destroy_more]]]

section \<open>Closing the descriptors\<close>

lemma upd_open_fields [simp]:
  "tasks (upd_open a f s) = tasks s" "task_list (upd_open a f s) = task_list s" "current (upd_open a f s) = current s"
  by (simp_all add: upd_open_def)

lemma pipe_put_tasks [simp]:
  "tasks (pipe_put p s) = tasks s" "task_list (pipe_put p s) = task_list s" "current (pipe_put p s) = current s"
  by (simp_all add: pipe_put_def upd_pipe_def Let_def)

lemma file_put_tasks [simp]:
  "tasks (file_put f s) = tasks s" "task_list (file_put f s) = task_list s" "current (file_put f s) = current s"
  by (simp_all add: file_put_def Let_def split_def)


section \<open>The status\<close>

lemma copy_status_bytes_mem: "\<exists>m. snd (copy_status_bytes space dst bs s) = s\<lparr>mem := m\<rparr>"
proof (induction bs arbitrary: dst s)
  case Nil
  then show ?case
    by (simp add: exI [of _ "mem s"])
next
  case (Cons b bs)
  show ?case
  proof (cases "vmm_user_phys space dst s = 0")
    case True
    then show ?thesis
      by (simp add: exI [of _ "mem s"])
  next
    case False
    obtain m where "snd (copy_status_bytes space (dst + 1) bs (s\<lparr>mem := (mem s)(phys_to_virt s (vmm_user_phys space dst s) := b)\<rparr>)) =
        s\<lparr>mem := m\<rparr>"
      using Cons.IH [of "dst + 1" "s\<lparr>mem := (mem s)(phys_to_virt s (vmm_user_phys space dst s) := b)\<rparr>"] by auto
    then show ?thesis
      using False by (auto simp: Let_def)
  qed
qed

lemma copy_status_mem: "\<exists>m. snd (copy_status t dst v s) = s\<lparr>mem := m\<rparr>"
  using copy_status_bytes_mem [of "t_space (tasks s t)" dst "int_bytes v" s]
  by (auto simp: copy_status_def exI [of _ "mem s"])

lemma copy_status_fields [simp]:
  "tasks (snd (copy_status t dst v s)) = tasks s" "task_list (snd (copy_status t dst v s)) = task_list s"
  "current (snd (copy_status t dst v s)) = current s"
  using copy_status_mem [of t dst v s] by auto



section \<open>Finding parents and children\<close>





lemma task_free_fields [simp]:
  "task_list (task_free t s) = remove1 t (task_list s)" "tasks (task_free t s) = tasks s" "current (task_free t s) = current s"
  by (simp_all add: task_free_def)



section \<open>Leaving\<close>





section \<open>Waiting\<close>



section \<open>Properties\<close>






end
