(* ===== verification/Cpu_X86.thy ===== *)
theory Cpu_X86
  imports Syscall
begin

text \<open>
  The processor of \<open>kernel/arch/x86_64\<close>: control registers (\<open>cpu.c\<close>), segment descriptors and the task
  segment (\<open>gdt.c\<close>), interrupt gates (\<open>idt.c\<close>), the registers of the system call instruction
  (\<open>syscall_init.c\<close>), the timer of the local APIC (\<open>timer.c\<close>), the end of a fault (\<open>exceptions.c\<close>), and
  \<^verbatim>\<open>arch_init\<close>, which sets them up (\<open>platform.c\<close>). An instruction that loads a register stores into the
  field of that register; the addresses of tables and stubs, which the linker chooses, are arguments.
\<close>

section \<open>State\<close>

record tss64 =
  tss_rsp :: "u64 list"
  tss_ist :: "u64 list"
  tss_iomap_base :: u16

record idt_entry =
  offset_low :: u16
  selector :: u16
  ist :: u8
  type_attr :: u8
  offset_mid :: u16
  offset_high :: u32
  idt_zero :: u32

text \<open>\<^verbatim>\<open>struct gdtr\<close> and \<^verbatim>\<open>struct idtr\<close>.\<close>

record table_register =
  tr_limit :: u16
  tr_base :: u64

record cpu = machine +
  cr0 :: u64
  cr2 :: u64
  cr4 :: u64
  mxcsr :: u32
  msr :: "u32 \<Rightarrow> u64"
  gdt :: "u64 list"
  tss :: tss64
  idt :: "idt_entry list"
  gdtr :: table_register
  idtr :: table_register
  task_register :: u16
  syscall_kernel_rsp :: u64
  lapic :: u64
  port_writes :: "(u16 \<times> u8) list"

text \<open>Where the linker puts the tables and the entries in assembly.\<close>

record link_map =
  at_gdt :: u64
  at_tss :: u64
  at_idt :: u64
  exception_ud :: u64
  exception_df :: u64
  exception_np :: u64
  exception_ss :: u64
  exception_gp :: u64
  exception_pf :: u64
  timer_interrupt :: u64
  syscall_entry :: u64
  kernel_stack_end :: u64

section \<open>Control registers\<close>

definition cpu_init :: "'a cpu_scheme \<Rightarrow> 'a cpu_scheme" where
  "cpu_init s =
     (let s = s\<lparr>cr0 := (cr0 s OR push_bit 1 1 OR push_bit 5 1) AND NOT (push_bit 2 1 OR push_bit 3 1)\<rparr>;
          s = s\<lparr>cr4 := cr4 s OR (push_bit 9 1 OR push_bit 10 1)\<rparr>;
          s = s\<lparr>fpu := fpu_reset s\<rparr>
      in s\<lparr>mxcsr := 0x1f80\<rparr>)"

section \<open>Segments\<close>

definition set_tss_descriptor :: "u64 \<Rightarrow> u32 \<Rightarrow> 'a cpu_scheme \<Rightarrow> 'a cpu_scheme" where
  "set_tss_descriptor base limit s =
     (let low = 0;
          low = low OR (ucast limit AND 0xffff);
          low = low OR push_bit 16 (base AND 0xffffff);
          low = low OR push_bit 40 0x89;
          low = low OR push_bit 48 (ucast (drop_bit 16 limit) AND 0xf);
          low = low OR push_bit 56 (drop_bit 24 base AND 0xff)
      in s\<lparr>gdt := (gdt s)[5 := low, 6 := drop_bit 32 base]\<rparr>)"

definition gdt_init :: "link_map \<Rightarrow> u64 \<Rightarrow> 'a cpu_scheme \<Rightarrow> 'a cpu_scheme" where
  "gdt_init lm rsp0 s =
     (let s = s\<lparr>gdt := replicate 7 0\<rparr>;
          s = s\<lparr>tss := \<lparr>tss_rsp = replicate 3 0, tss_ist = replicate 7 0, tss_iomap_base = 0\<rparr>\<rparr>;
          s = s\<lparr>gdt := (gdt s)[1 := 0x00af9a000000ffff, 2 := 0x00cf92000000ffff, 3 := 0x00cff2000000ffff, 4 := 0x00affa000000ffff]\<rparr>;
          s = s\<lparr>tss := (tss s)\<lparr>tss_rsp := (tss_rsp (tss s))[0 := rsp0]\<rparr>\<rparr>;
          s = s\<lparr>tss := (tss s)\<lparr>tss_iomap_base := 104\<rparr>\<rparr>;
          s = set_tss_descriptor (at_tss lm) (104 - 1) s;
          s = s\<lparr>gdtr := \<lparr>tr_limit = 56 - 1, tr_base = at_gdt lm\<rparr>\<rparr>
      in s\<lparr>task_register := 0x28\<rparr>)"

section \<open>Interrupt gates\<close>

definition idt_set_gate :: "nat \<Rightarrow> u64 \<Rightarrow> 'a cpu_scheme \<Rightarrow> 'a cpu_scheme" where
  "idt_set_gate vector handler s =
     (let addr = handler
      in s\<lparr>idt := (idt s)[vector := \<lparr>offset_low = ucast addr, selector = 0x08, ist = 0, type_attr = 0x8e,
             offset_mid = ucast (drop_bit 16 addr), offset_high = ucast (drop_bit 32 addr), idt_zero = 0\<rparr>]\<rparr>)"

definition zero_gate :: idt_entry where
  "zero_gate = \<lparr>offset_low = 0, selector = 0, ist = 0, type_attr = 0, offset_mid = 0, offset_high = 0, idt_zero = 0\<rparr>"

definition idt_init :: "link_map \<Rightarrow> 'a cpu_scheme \<Rightarrow> 'a cpu_scheme" where
  "idt_init lm s =
     (let s = s\<lparr>idt := replicate 256 zero_gate\<rparr>;
          s = idt_set_gate 6 (exception_ud lm) s;
          s = idt_set_gate 8 (exception_df lm) s;
          s = idt_set_gate 11 (exception_np lm) s;
          s = idt_set_gate 12 (exception_ss lm) s;
          s = idt_set_gate 13 (exception_gp lm) s;
          s = idt_set_gate 14 (exception_pf lm) s
      in s\<lparr>idtr := \<lparr>tr_limit = 4096 - 1, tr_base = at_idt lm\<rparr>\<rparr>)"

section \<open>System calls\<close>

definition rdmsr :: "u32 \<Rightarrow> 'a cpu_scheme \<Rightarrow> u64" where
  "rdmsr r s = (let lo = ucast (msr s r) :: u32; hi = ucast (drop_bit 32 (msr s r)) :: u32 in push_bit 32 (ucast hi) OR ucast lo)"

definition wrmsr :: "u32 \<Rightarrow> u64 \<Rightarrow> 'a cpu_scheme \<Rightarrow> 'a cpu_scheme" where
  "wrmsr r v s =
     (let lo = ucast v :: u32; hi = ucast (drop_bit 32 v) :: u32
      in s\<lparr>msr := (msr s)(r := push_bit 32 (ucast hi) OR ucast lo)\<rparr>)"

definition syscall_init :: "link_map \<Rightarrow> u64 \<Rightarrow> 'a cpu_scheme \<Rightarrow> 'a cpu_scheme" where
  "syscall_init lm kernel_rsp s =
     (let s = s\<lparr>syscall_kernel_rsp := kernel_rsp AND NOT 0xf\<rparr>;
          star = push_bit 48 0x13 OR push_bit 32 0x08;
          s = wrmsr 0xc0000081 star s;
          s = wrmsr 0xc0000082 (syscall_entry lm) s;
          s = wrmsr 0xc0000084 0x600 s
      in wrmsr 0xc0000080 (rdmsr 0xc0000080 s OR push_bit 0 1) s)"

section \<open>The timer\<close>

text \<open>A store to the register at an offset of the local APIC.\<close>

definition lapic_write :: "u64 \<Rightarrow> u32 \<Rightarrow> 'a cpu_scheme \<Rightarrow> 'a cpu_scheme" where
  "lapic_write offset v s = s\<lparr>mem := write32 (mem s) (lapic s + offset) v\<rparr>"

definition timer_init :: "link_map \<Rightarrow> 'a cpu_scheme \<Rightarrow> 'a cpu_scheme" where
  "timer_init lm s =
     (let s = idt_set_gate 32 (timer_interrupt lm) s;
          base = rdmsr 0x1b s;
          phys = base AND 0xfffff000;
          s = s\<lparr>lapic := phys_to_virt s phys\<rparr>;
          s = snd (vmm_map_kernel (lapic s) phys VMM_WRITE s);
          s = lapic_write 0xf0 0x1ff s;
          s = lapic_write 0x3e0 3 s;
          s = lapic_write 0x320 (32 OR push_bit 17 1) s
      in lapic_write 0x380 10000000 s)"

definition timer_dispatch :: "task_frame \<Rightarrow> 'a cpu_scheme \<Rightarrow> (task_frame \<times> 'a cpu_scheme) option" where
  "timer_dispatch frame s = (let s = lapic_write 0xb0 0 s in task_preempt frame s)"

section \<open>The start and the end\<close>

definition arch_init :: "link_map \<Rightarrow> u64 \<Rightarrow> 'a cpu_scheme \<Rightarrow> 'a cpu_scheme" where
  "arch_init lm kernel_stack s =
     (let s = cpu_init s;
          s = gdt_init lm kernel_stack s;
          s = idt_init lm s;
          s = syscall_init lm kernel_stack s
      in timer_init lm s)"

text \<open>\<^verbatim>\<open>exception_die\<close> reports a fault and stops the machine.\<close>

definition exception_die :: "u64 \<Rightarrow> u64 \<Rightarrow> u64 \<Rightarrow> u64 \<Rightarrow> 'a cpu_scheme \<Rightarrow> 'a cpu_scheme" where
  "exception_die vector error ip seg s =
     (let s = serial_puts (str ''[fault] vector='') s;
          s = serial_puthex vector s;
          s = serial_puts (str '' error='') s;
          s = serial_puthex error s;
          s = serial_puts (str '' rip='') s;
          s = serial_puthex ip s;
          s = serial_puts (str '' cs='') s;
          s = serial_puthex seg s;
          s = (if vector = 14 then let s = serial_puts (str '' cr2='') s in serial_puthex (cr2 s) s else s);
          s = serial_puts [0x0a] s;
          s = console_puts (''[fault] userspace exception; see serial'' @ [CHR 0x0A]) s
      in s\<lparr>halted := True\<rparr>)"

section \<open>What the processor finds\<close>

text \<open>How the processor reads a gate and the descriptor of a task segment.\<close>

definition gate_target :: "idt_entry \<Rightarrow> u64" where
  "gate_target e = ucast (offset_low e) OR push_bit 16 (ucast (offset_mid e)) OR push_bit 32 (ucast (offset_high e))"

definition gate_present :: "idt_entry \<Rightarrow> bool" where
  "gate_present e \<longleftrightarrow> bit (type_attr e) 7"

definition descriptor_base :: "u64 \<Rightarrow> u64 \<Rightarrow> u64" where
  "descriptor_base lo hi =
     (drop_bit 16 lo AND 0xffffff) OR push_bit 24 (drop_bit 56 lo) OR push_bit 32 hi"

definition descriptor_limit :: "u64 \<Rightarrow> u64" where
  "descriptor_limit lo = (lo AND 0xffff) OR push_bit 16 (drop_bit 48 lo AND 0xf)"

lemma gate_roundtrip:
  assumes "offset_low e = ucast (a :: u64)" "offset_mid e = ucast (drop_bit 16 a)" "offset_high e = ucast (drop_bit 32 a)"
  shows "gate_target e = a"
proof (rule bit_eqI)
  fix n
  assume n: "possible_bit TYPE(u64) n"
  consider "n < 16" | "16 \<le> n" "n < 32" | "32 \<le> n" by linarith
  then show "bit (gate_target e) n = bit a n"
    using n by cases (auto simp: gate_target_def assms bit_simps)
qed

lemma mask_numerals: "(0xf :: u64) = mask 4" "(0xffff :: u64) = mask 16" "(0xff :: u64) = mask 8" "(0xffffff :: u64) = mask 24"
  by (simp_all add: mask_eq_exp_minus_1)

lemma small_high_bits:
  fixes v :: "'b::len word"
  assumes "unat v < 2 ^ m" "m \<le> k"
  shows "\<not> bit v k"
proof -
  have "unat v < 2 ^ k"
    using assms by (meson less_le_trans one_le_numeral power_increasing)
  then have "\<not> bit (unat v) k"
    by (simp add: bit_iff_odd)
  then show ?thesis
    by (simp add: bit_unsigned_iff)
qed

lemma tss_roundtrip:
  fixes base :: u64
  assumes "unat (limit :: u32) < 2 ^ 20"
  defines "low \<equiv> (ucast limit AND 0xffff) OR push_bit 16 (base AND 0xffffff) OR push_bit 40 0x89 OR
    push_bit 48 (ucast (drop_bit 16 limit) AND 0xf) OR push_bit 56 (drop_bit 24 base AND 0xff)"
  shows "descriptor_base low (drop_bit 32 base) = base" "descriptor_limit low = ucast limit"
proof -
  have lim: "\<not> bit limit k" if "20 \<le> k" for k
    using small_high_bits [OF assms(1) that] .
  define c :: u64 where "c = 0x89"
  have k89: "\<not> bit c k" if "8 \<le> k" for k
    using small_high_bits [of c 8] that by (simp add: c_def)
  have low: "bit low k \<longleftrightarrow> (if k < 16 then bit limit k else if k < 40 then bit base (k - 16)
      else if k < 48 then bit c (k - 40) else if k < 52 then bit limit (k - 32)
      else if k < 56 then False else bit base (k - 32))" if "k < 64" for k
    using that lim k89 [of "k - 40"] unfolding low_def c_def [symmetric] mask_numerals
    by (auto simp: bit_simps)
  show "descriptor_base low (drop_bit 32 base) = base"
  proof (rule bit_eqI)
    fix n
    assume n: "possible_bit TYPE(u64) n"
    consider "n < 24" | "24 \<le> n" "n < 32" | "32 \<le> n" by linarith
    then show "bit (descriptor_base low (drop_bit 32 base)) n = bit base n"
      using n by cases (auto simp: descriptor_base_def mask_numerals bit_simps low dest: bit_imp_le_length)
  qed
  show "descriptor_limit low = ucast limit"
  proof (rule bit_eqI)
    fix n
    assume n: "possible_bit TYPE(u64) n"
    consider "n < 16" | "16 \<le> n" "n < 20" | "20 \<le> n" by linarith
    then show "bit (descriptor_limit low) n = bit (ucast limit :: u64) n"
      using n lim by cases (auto simp: descriptor_limit_def mask_numerals bit_simps low)
  qed
qed

lemma gate_present_new: "gate_present \<lparr>offset_low = a, selector = b, ist = c, type_attr = 0x8e, offset_mid = d, offset_high = e, idt_zero = f\<rparr>"
  by (simp add: gate_present_def)

section \<open>What initialisation leaves\<close>

text \<open>Page tables change memory and the frame allocator only, so the processor keeps its fields.\<close>

lemma next_table_more: "phys.more (snd (next_table table i create user s)) = phys.more s"
  by (auto simp: next_table_def wr_def Let_def split: prod.split)
    (metis pmm_frame(3) snd_conv)+

lemma get_pte_more: "phys.more (snd (get_pte tab virt create user s)) = phys.more s"
  unfolding get_pte_def Let_def
  by (auto split: prod.split) (metis next_table_more snd_conv)+

lemma vmm_map_more: "phys.more (snd (vmm_map tab virt frame flags user s)) = phys.more s"
  unfolding vmm_map_def wr_def Let_def
  by (auto split: prod.split) (metis get_pte_more snd_conv)+

lemma cpu_more_eq:
  assumes "phys.more s = phys.more t"
  shows "cr0 s = cr0 t" "msr s = msr t" "gdt s = gdt t" "tss s = tss t" "idt s = idt t" "gdtr s = gdtr t" "idtr s = idtr t"
    "task_register s = task_register t" "syscall_kernel_rsp s = syscall_kernel_rsp t" "lapic s = lapic t"
  using assms by (cases s; cases t; simp)+

lemma vmm_map_kernel_more: "phys.more (snd (vmm_map_kernel virt frame flags s)) = phys.more s"
  by (simp add: vmm_map_kernel_def vmm_map_more)

lemmas timer_map_frame = cpu_more_eq [OF vmm_map_kernel_more]

lemma msr_halves: "push_bit 32 (ucast (ucast (drop_bit 32 v) :: u32)) OR ucast (ucast v :: u32) = (v :: u64)"
  by (rule bit_eqI) (auto simp: bit_simps dest: bit_imp_le_length)

lemma wrmsr_eq: "wrmsr r v s = s\<lparr>msr := (msr s)(r := v)\<rparr>"
  by (simp add: wrmsr_def Let_def msr_halves)

lemma rdmsr_eq: "rdmsr r s = msr s r"
  by (simp add: rdmsr_def Let_def msr_halves)

text \<open>The entry in assembly of each vector that has one.\<close>

definition stub_of :: "link_map \<Rightarrow> nat \<Rightarrow> u64 option" where
  "stub_of lm v = map_of [(6, exception_ud lm), (8, exception_df lm), (11, exception_np lm), (12, exception_ss lm),
     (13, exception_gp lm), (14, exception_pf lm), (32, timer_interrupt lm)] v"

text \<open>The privilege level of a segment descriptor.\<close>

definition descriptor_dpl :: "u64 \<Rightarrow> u64" where
  "descriptor_dpl d = drop_bit 45 d AND 3"

definition segment_level :: "u64 list \<Rightarrow> u64 \<Rightarrow> u64" where
  "segment_level table sel = descriptor_dpl (table ! unat (drop_bit 3 sel))"

definition gate_for :: "u64 \<Rightarrow> idt_entry" where
  "gate_for a = \<lparr>offset_low = ucast a, selector = 0x08, ist = 0, type_attr = 0x8e,
     offset_mid = ucast (drop_bit 16 a), offset_high = ucast (drop_bit 32 a), idt_zero = 0\<rparr>"

lemma gate_for: "gate_target (gate_for a) = a" "gate_present (gate_for a)" "selector (gate_for a) = 8" "\<not> gate_present zero_gate"
  by (simp_all add: gate_for_def gate_present_new gate_roundtrip zero_gate_def gate_present_def)

lemma timer_init_fields:
  "idt (timer_init lm s) = (idt s)[32 := gate_for (timer_interrupt lm)]"
  "gdt (timer_init lm s) = gdt s" "tss (timer_init lm s) = tss s" "msr (timer_init lm s) = msr s"
  "task_register (timer_init lm s) = task_register s" "idtr (timer_init lm s) = idtr s" "gdtr (timer_init lm s) = gdtr s"
  "syscall_kernel_rsp (timer_init lm s) = syscall_kernel_rsp s"
  by (simp_all add: timer_init_def Let_def lapic_write_def timer_map_frame idt_set_gate_def gate_for_def)

text \<open>A table built entry by entry.\<close>

lemma idt_init_idt:
  "v < 256 \<Longrightarrow> idt (timer_init lm (syscall_init lm ks (idt_init lm s))) ! v =
     (case stub_of lm v of None \<Rightarrow> zero_gate | Some a \<Rightarrow> gate_for a)"
  "length (idt (timer_init lm (syscall_init lm ks (idt_init lm s)))) = 256"
  by (auto simp: timer_init_fields syscall_init_def wrmsr_eq idt_init_def idt_set_gate_def Let_def gate_for_def [symmetric]
      nth_list_update stub_of_def)

lemma arch_init_msr:
  "msr (arch_init lm ks s) 0xc0000081 = 0x0013000800000000" "msr (arch_init lm ks s) 0xc0000082 = syscall_entry lm"
  "bit (msr (arch_init lm ks s) 0xc0000080) 0"
  by (simp_all add: arch_init_def Let_def timer_init_fields syscall_init_def wrmsr_eq rdmsr_eq bit_or_iff)

lemma arch_init_gdt:
  "length (idt (arch_init lm ks s)) = 256" "idtr (arch_init lm ks s) = \<lparr>tr_limit = 4095, tr_base = at_idt lm\<rparr>"
  "length (gdt (arch_init lm ks s)) = 7" "gdtr (arch_init lm ks s) = \<lparr>tr_limit = 55, tr_base = at_gdt lm\<rparr>"
  "tss_rsp (tss (arch_init lm ks s)) ! 0 = ks" "task_register (arch_init lm ks s) = 0x28"
  "gdt (arch_init lm ks s) ! 1 = 0x00af9a000000ffff" "gdt (arch_init lm ks s) ! 3 = 0x00cff2000000ffff"
  "gdt (arch_init lm ks s) ! 4 = 0x00affa000000ffff"
  unfolding arch_init_def Let_def
  by (simp_all add: idt_init_idt timer_init_fields syscall_init_def wrmsr_eq idt_init_def idt_set_gate_def gdt_init_def
      set_tss_descriptor_def Let_def)

lemma arch_init_segments:
  "descriptor_base (gdt (arch_init lm ks s) ! 5) (gdt (arch_init lm ks s) ! 6) = at_tss lm"
  "descriptor_limit (gdt (arch_init lm ks s) ! 5) = 103"
  using tss_roundtrip [of 103 "at_tss lm"] unfolding arch_init_def Let_def
  by (simp_all add: timer_init_fields syscall_init_def wrmsr_eq idt_init_def idt_set_gate_def gdt_init_def
      set_tss_descriptor_def Let_def or.assoc)

text \<open>
  C9: After \<^verbatim>\<open>arch_init\<close> the processor finds what the code meant to put there: in the table at the base
  of the interrupt register, of 256 gates, a present gate for each vector with a stub, in the kernel's
  code segment and leading to that stub, and no present gate elsewhere; behind the task register
  the descriptor of the task segment at its own address, with the stack of the kernel; the selectors that
  \<^verbatim>\<open>sysret\<close> derives are those of a task's frame and name user segments, and the one of \<^verbatim>\<open>syscall\<close>
  names a kernel segment.
\<close>

theorem arch_init_tables:
  fixes s :: "'a cpu_scheme" and v :: u8
  shows "let d = arch_init lm ks s; g = idt d ! unat v; star = msr d 0xc0000081; i = unat (drop_bit 3 (task_register d)) in
    length (idt d) = 256 \<and> idtr d = \<lparr>tr_limit = 4095, tr_base = at_idt lm\<rparr> \<and>
    (case stub_of lm (unat v) of None \<Rightarrow> \<not> gate_present g
     | Some a \<Rightarrow> gate_present g \<and> selector g = 0x08 \<and> gate_target g = a) \<and>
    length (gdt d) = 7 \<and> gdtr d = \<lparr>tr_limit = 55, tr_base = at_gdt lm\<rparr> \<and>
    descriptor_base (gdt d ! i) (gdt d ! Suc i) = at_tss lm \<and> descriptor_limit (gdt d ! i) = 103 \<and>
    tss_rsp (tss d) ! 0 = ks \<and> msr d 0xc0000082 = syscall_entry lm \<and> bit (msr d 0xc0000080) 0 \<and>
    drop_bit 48 star + 8 = ss (arch_task_frame_init f) \<and> segment_level (gdt d) (ss (arch_task_frame_init f)) = 3 \<and>
    drop_bit 48 star + 16 = cs (arch_task_frame_init f) \<and> segment_level (gdt d) (cs (arch_task_frame_init f)) = 3 \<and>
    segment_level (gdt d) (take_bit 16 (drop_bit 32 star)) = 0"
proof -
  let ?d = "arch_init lm ks s"
  have g: "case stub_of lm (unat v) of None \<Rightarrow> \<not> gate_present (idt ?d ! unat v)
    | Some a \<Rightarrow> gate_present (idt ?d ! unat v) \<and> selector (idt ?d ! unat v) = 0x08 \<and> gate_target (idt ?d ! unat v) = a"
    using unsigned_less [of v, where 'a = nat] by (simp add: arch_init_def Let_def idt_init_idt gate_for split: option.split)
  show ?thesis
    using g arch_init_gdt [of lm ks s] arch_init_msr [of lm ks s] arch_init_segments [of lm ks s]
    unfolding Let_def by (simp add: arch_task_frame_init_def segment_level_def descriptor_dpl_def)
qed

end
