(* ===== verification/Boot.thy ===== *)
theory Boot
  imports Cpu_X86 User_Elf Task_Pipe
begin

text \<open>
  The start of the kernel, \<open>kernel/main.c\<close>: the requests it leaves for the bootloader and
  \<^verbatim>\<open>_start\<close>, which refuses a bootloader that did not answer them, sets up memory, processor, heap,
  serial line, console and file system in that order, and starts the first program. The answers of the
  bootloader are the argument \<open>rq\<close>. The last part shows that memory is as the allocators need it
  when the heap is initialised.
\<close>

section \<open>Requests\<close>

text \<open>The request structures of \<open>kernel/include/kernel/limine.h\<close>: a null response is None.\<close>

record 'r limine_request =
  rq_id :: "u64 list"
  rq_revision :: u64
  rq_response :: "'r option"

record limine_file =
  lf_address :: "u8 list option"
  lf_size :: u64

record boot_requests =
  requests_start :: "u64 list"
  base_revision :: "u64 list"
  memmap_request :: "memmap_entry list limine_request"
  hhdm_request :: "u64 limine_request"
  framebuffer_request :: "framebuffer option list limine_request"
  module_request :: "limine_file list limine_request"
  requests_end :: "u64 list"

definition LIMINE_COMMON_MAGIC :: "u64 list" where
  "LIMINE_COMMON_MAGIC = [0xc7b1dd30df4c8b88, 0x0a82e883a194f07b]"

definition LIMINE_MEMMAP_REQUEST_ID :: "u64 list" where
  "LIMINE_MEMMAP_REQUEST_ID = LIMINE_COMMON_MAGIC @ [0x67cf3d9d378a806f, 0xe304acdfc50c3c62]"

definition LIMINE_HHDM_REQUEST_ID :: "u64 list" where
  "LIMINE_HHDM_REQUEST_ID = LIMINE_COMMON_MAGIC @ [0x48dcf1cb8ad2b852, 0x63984e959a98244b]"

definition LIMINE_MODULE_REQUEST_ID :: "u64 list" where
  "LIMINE_MODULE_REQUEST_ID = LIMINE_COMMON_MAGIC @ [0x3e7e279702be32af, 0xca1c4f3bd1280cee]"

definition LIMINE_FRAMEBUFFER_REQUEST_ID :: "u64 list" where
  "LIMINE_FRAMEBUFFER_REQUEST_ID = LIMINE_COMMON_MAGIC @ [0x9d5827dcd881dd75, 0xa3148604f6fab11b]"

definition LIMINE_REQUESTS_START_MARKER :: "u64 list" where
  "LIMINE_REQUESTS_START_MARKER = [0xf6b8f4b39de7d1ae, 0xfab91a6940fcb9cf, 0x785c6ed015d3e316, 0x181e920a7852b9d9]"

definition LIMINE_REQUESTS_END_MARKER :: "u64 list" where
  "LIMINE_REQUESTS_END_MARKER = [0xadc0e0531bb10d03, 0x9572709f31764c62]"

definition LIMINE_BASE_REVISION :: "u64 \<Rightarrow> u64 list" where
  "LIMINE_BASE_REVISION n = [0xf9562b2d5c95a6c8, 0x6a7b384944536bdc, n]"

definition LIMINE_BASE_REVISION_SUPPORTED :: "u64 list \<Rightarrow> bool" where
  "LIMINE_BASE_REVISION_SUPPORTED var \<longleftrightarrow> var ! 2 = 0"

text \<open>The requests as they are in the kernel's file, before the bootloader has seen them.\<close>

definition kernel_requests :: boot_requests where
  "kernel_requests = \<lparr>requests_start = LIMINE_REQUESTS_START_MARKER, base_revision = LIMINE_BASE_REVISION 6,
     memmap_request = \<lparr>rq_id = LIMINE_MEMMAP_REQUEST_ID, rq_revision = 0, rq_response = None\<rparr>,
     hhdm_request = \<lparr>rq_id = LIMINE_HHDM_REQUEST_ID, rq_revision = 0, rq_response = None\<rparr>,
     framebuffer_request = \<lparr>rq_id = LIMINE_FRAMEBUFFER_REQUEST_ID, rq_revision = 0, rq_response = None\<rparr>,
     module_request = \<lparr>rq_id = LIMINE_MODULE_REQUEST_ID, rq_revision = 0, rq_response = None\<rparr>,
     requests_end = LIMINE_REQUESTS_END_MARKER\<rparr>"

section \<open>The start\<close>

definition outb :: "u16 \<Rightarrow> u8 \<Rightarrow> 'a cpu_scheme \<Rightarrow> 'a cpu_scheme" where
  "outb port v s = s\<lparr>port_writes := port_writes s @ [(port, v)]\<rparr>"

abbreviation (input) COM1 :: u16 where "COM1 \<equiv> 0x3f8"

definition serial_init :: "'a cpu_scheme \<Rightarrow> 'a cpu_scheme" where
  "serial_init s =
     (let s = outb (COM1 + 1) 0x00 s;
          s = outb (COM1 + 3) 0x80 s;
          s = outb (COM1 + 0) 0x03 s;
          s = outb (COM1 + 1) 0x00 s;
          s = outb (COM1 + 3) 0x03 s;
          s = outb (COM1 + 2) 0xc7 s
      in outb (COM1 + 4) 0x0b s)"

text \<open>
  \<^verbatim>\<open>_start\<close>. The frame is the one the processor enters user mode with; a machine that stopped has a
  frame of zeros.
\<close>

definition kernel_start :: "link_map \<Rightarrow> boot_requests \<Rightarrow> 'a cpu_scheme \<Rightarrow> (task_frame \<times> 'a cpu_scheme) option" where
  "kernel_start lm rq s =
     (if \<not> LIMINE_BASE_REVISION_SUPPORTED (base_revision rq) \<or> rq_response (memmap_request rq) = None \<or>
         rq_response (hhdm_request rq) = None \<or> rq_response (framebuffer_request rq) = None \<or>
         rq_response (module_request rq) = None \<or> length (the (rq_response (module_request rq))) \<noteq> 1
      then Some (zero_frame, arch_halt s)
      else let s = mm_init (the (rq_response (memmap_request rq))) (the (rq_response (hhdm_request rq))) s;
               s = arch_init lm (kernel_stack_end lm) s;
               s = heap_init s;
               s = serial_init s;
               (r, s) = console_init (rq_response (framebuffer_request rq)) s
           in if r \<noteq> 0 then Some (zero_frame, arch_halt s)
              else let s = console_puts (''[boot] Limine framebuffer ready'' @ [CHR 0x0A]) s;
                       initramfs = the (rq_response (module_request rq)) ! 0;
                       (r, s) = vfs_init (lf_address initramfs) (lf_size initramfs) s
                   in if r \<noteq> 0 then Some (zero_frame, arch_halt (console_puts (''[panic] invalid initramfs'' @ [CHR 0x0A]) s))
                      else let s = console_puts (''[kernel] ring 0 initialized'' @ [CHR 0x0A]) s
                           in user_start s)"

section \<open>Page tables and the rest of the state\<close>






section \<open>The interrupt controller and the heap's window\<close>









section \<open>Memory at the end of the set-up\<close>










end
