(* ===== verification/Libc_String.thy ===== *)
theory Libc_String
  imports Narc_Prelude
begin

text \<open>
  The string functions of \<open>lib/libc/src/string\<close>. A C string is the list of its characters before the
  terminating NUL; \<open>cstring\<close> tells that none of them is NUL itself. A pointer into a string is an
  index.
\<close>

abbreviation NUL :: char where "NUL \<equiv> CHR 0x00"

definition cstring :: "string \<Rightarrow> bool" where
  "cstring s \<longleftrightarrow> NUL \<notin> set s"

text \<open>The C string at the start of a buffer.\<close>

definition cstr :: "string \<Rightarrow> string" where
  "cstr b = takeWhile (\<lambda>c. c \<noteq> NUL) b"

text \<open>\<^verbatim>\<open>strlen\<close> and \<^verbatim>\<open>strnlen\<close> on a buffer that holds a NUL somewhere.\<close>

fun strlen :: "string \<Rightarrow> nat" where
  "strlen [] = 0"
| "strlen (c # b) = (if c = NUL then 0 else Suc (strlen b))"

fun strnlen :: "string \<Rightarrow> nat \<Rightarrow> nat" where
  "strnlen b 0 = 0"
| "strnlen [] (Suc n) = 0"
| "strnlen (c # b) (Suc n) = (if c = NUL then 0 else Suc (strnlen b n))"

fun strcmp :: "string \<Rightarrow> string \<Rightarrow> int" where
  "strcmp [] [] = 0"
| "strcmp [] (d # ds) = 0 - of_char d"
| "strcmp (c # cs) [] = of_char c - 0"
| "strcmp (c # cs) (d # ds) = (if c \<noteq> NUL \<and> c = d then strcmp cs ds else of_char c - of_char d)"

text \<open>The index of the first occurrence, NUL being found at the end of the string.\<close>

fun strchr :: "string \<Rightarrow> char \<Rightarrow> nat option" where
  "strchr [] v = (if NUL = v then Some 0 else None)"
| "strchr (c # cs) v = (if c = v then Some 0 else if c = NUL then None else map_option Suc (strchr cs v))"

section \<open>Facts about strings\<close>

lemma cstring_simps [simp]:
  "cstring []" "cstring (c # s) \<longleftrightarrow> c \<noteq> NUL \<and> cstring s" "cstring (s @ t) \<longleftrightarrow> cstring s \<and> cstring t"
  "cstring (rev s) = cstring s"
  by (auto simp: cstring_def)

lemma cstring_subset: "set t \<subseteq> set s \<Longrightarrow> cstring s \<Longrightarrow> cstring t"
  by (auto simp: cstring_def)

lemma cstring_cstr [simp]: "cstring (cstr b)"
  by (auto simp: cstring_def cstr_def dest: set_takeWhileD)

lemma cstr_id [simp]: "cstring s \<Longrightarrow> cstr s = s"
  by (auto simp: cstring_def cstr_def takeWhile_eq_all_conv)

lemma strlen_cstr: "strlen b = length (cstr b)"
  by (induction b) (simp_all add: cstr_def)

lemma strlen_cstring [simp]: "cstring s \<Longrightarrow> strlen s = length s"
  by (simp add: strlen_cstr)

lemma strnlen_min: "strnlen b n = min n (strlen b)"
  by (induction b n rule: strnlen.induct) simp_all

lemma of_char_0_iff: "of_char c = (0 :: int) \<longleftrightarrow> c = NUL"
  using of_char_eq_iff [of c NUL, where 'a = int] by simp

lemma strcmp_0_iff: "cstring s \<Longrightarrow> cstring t \<Longrightarrow> strcmp s t = 0 \<longleftrightarrow> s = t"
  by (induction s t rule: strcmp.induct) (auto simp: of_char_0_iff)

lemma strcmp_antisym: "strcmp t s = - strcmp s t"
  by (induction s t rule: strcmp.induct) auto

lemma strchr_None: "cstring s \<Longrightarrow> strchr s v = None \<longleftrightarrow> v \<noteq> NUL \<and> v \<notin> set s"
  by (induction s) auto

lemma strchr_Some: "cstring s \<Longrightarrow> v \<noteq> NUL \<Longrightarrow> strchr s v = Some i \<Longrightarrow>
  i < length s \<and> s ! i = v \<and> take i s = takeWhile (\<lambda>c. c \<noteq> v) s \<and> drop i s = dropWhile (\<lambda>c. c \<noteq> v) s"
  by (induction s arbitrary: i) (auto split: if_splits)

end
