(* ===== verification/Libc_Sys.thy ===== *)
theory Libc_Sys
  imports Libc_String "HOL-Library.Monad_Syntax"
begin

text \<open>
  The system calls as a user program sees them: the wrappers of \<open>lib/libc/src\<close> (\<open>internal/result.c\<close>,
  \<open>fcntl\<close>, \<open>unistd\<close>, \<open>dirent\<close>, \<open>wait\<close>, \<open>mman\<close>, \<open>sched\<close>) around the native calls of \<open>lib/libnarc\<close>.

  The trap instruction is the border of this part of the model: a record of functions, one per
  native call, on a state \<open>'w\<close> of the rest of the machine. Each takes the values the kernel copies
  in from the caller's memory and gives those it copies out. A process is its \<^verbatim>\<open>errno\<close>, the state of
  its allocator, its memory, its streams, and that state.
\<close>

section \<open>Native calls\<close>

record narc_result =
  r_value :: int
  r_status :: u32

record narc_dir_entry =
  de_inode :: u64
  de_type :: u8
  de_name :: string

record 'w narc =
  narc_getpid :: "'w \<Rightarrow> narc_result \<times> 'w"
  narc_yield :: "'w \<Rightarrow> narc_result \<times> 'w"
  narc_fork :: "'w \<Rightarrow> narc_result \<times> 'w"
  narc_wait :: "int \<Rightarrow> u32 \<Rightarrow> 'w \<Rightarrow> narc_result \<times> int \<times> 'w"
  narc_open :: "string \<Rightarrow> u32 \<Rightarrow> 'w \<Rightarrow> narc_result \<times> 'w"
  narc_close :: "int \<Rightarrow> 'w \<Rightarrow> narc_result \<times> 'w"
  narc_read :: "int \<Rightarrow> nat \<Rightarrow> 'w \<Rightarrow> narc_result \<times> string \<times> 'w"
  narc_write :: "int \<Rightarrow> string \<Rightarrow> 'w \<Rightarrow> narc_result \<times> 'w"
  narc_read_dir :: "int \<Rightarrow> 'w \<Rightarrow> narc_result \<times> narc_dir_entry \<times> 'w"
  narc_map :: "u64 \<Rightarrow> u32 \<Rightarrow> 'w \<Rightarrow> narc_result \<times> 'w"
  narc_unmap :: "u64 \<Rightarrow> u64 \<Rightarrow> 'w \<Rightarrow> narc_result \<times> 'w"

section \<open>The process\<close>

text \<open>
  A block of the allocator is at the address of its header; the blocks of an arena are in the order of
  their \<^verbatim>\<open>next\<close> pointers, the arenas in that of theirs.
\<close>

record block =
  b_addr :: u64
  b_size :: u64
  b_free :: bool

record arena =
  a_addr :: u64
  a_mapped :: u64
  a_active :: u64
  a_blocks :: "block list"

record stream =
  st_descriptor :: int
  st_flags :: u32

record 'w process =
  errno :: int
  arenas :: "arena list"
  umem :: memory
  streams :: "nat \<Rightarrow> stream"
  world :: 'w

abbreviation (input) ENOENT :: int where "ENOENT \<equiv> 2"
abbreviation (input) EINTR :: int where "EINTR \<equiv> 4"
abbreviation (input) EIO :: int where "EIO \<equiv> 5"
abbreviation (input) EBADF :: int where "EBADF \<equiv> 9"
abbreviation (input) ECHILD :: int where "ECHILD \<equiv> 10"
abbreviation (input) ENOMEM :: int where "ENOMEM \<equiv> 12"
abbreviation (input) EINVAL :: int where "EINVAL \<equiv> 22"
abbreviation (input) EOVERFLOW :: int where "EOVERFLOW \<equiv> 75"

text \<open>The conversion of a C integer to \<^verbatim>\<open>int\<close>.\<close>

definition c_int :: "int \<Rightarrow> int" where
  "c_int v = sint (word_of_int v :: u32)"

lemma c_int_id [simp]: "- 2147483648 \<le> v \<Longrightarrow> v < 2147483648 \<Longrightarrow> c_int v = v"
  by (simp add: c_int_def sint_sbintrunc' signed_take_bit_int_eq_self)

definition status_errno :: "u32 \<Rightarrow> int" where
  "status_errno status =
     (if status = 1 then 22 else if status = 2 then 9 else if status = 3 then 2 else if status = 4 then 5
      else if status = 5 then 14 else if status = 6 then 12 else if status = 7 then 24 else if status = 8 then 25
      else if status = 9 then 21 else if status = 10 then 20 else if status = 11 then 30 else if status = 12 then 38
      else if status = 13 then 10 else if status = 14 then 11 else if status = 15 then 17 else if status = 16 then 28
      else if status = 17 then 39 else 5)"

definition libc_result :: "narc_result \<times> 'w \<Rightarrow> 'w process \<Rightarrow> int \<times> 'w process" where
  "libc_result rw p =
     (let (r, w) = rw; p = p\<lparr>world := w\<rparr>
      in if r_status r = 0 then (r_value r, p) else (-1, p\<lparr>errno := status_errno (r_status r)\<rparr>))"

section \<open>Wrappers\<close>

text \<open>The flags of \<^verbatim>\<open>fcntl.h\<close> become those of the native call.\<close>

definition libc_open :: "'w narc \<Rightarrow> string \<Rightarrow> u32 \<Rightarrow> 'w process \<Rightarrow> int \<times> 'w process" where
  "libc_open n path flags p =
     (if flags AND NOT 0x106C3 \<noteq> 0 then (-1, p\<lparr>errno := EINVAL\<rparr>)
      else let mode = flags AND 3
           in if mode \<noteq> 0 \<and> mode \<noteq> 1 \<and> mode \<noteq> 2 then (-1, p\<lparr>errno := EINVAL\<rparr>)
              else let native = (if mode = 0 then 1 else if mode = 1 then 2 else 3);
                       native = (if flags AND 0x40 \<noteq> 0 then native OR 4 else native);
                       native = (if flags AND 0x80 \<noteq> 0 then native OR 32 else native);
                       native = (if flags AND 0x200 \<noteq> 0 then native OR 16 else native);
                       native = (if flags AND 0x400 \<noteq> 0 then native OR 64 else native);
                       native = (if flags AND 0x10000 \<noteq> 0 then native OR 8 else native);
                       (r, p) = libc_result (narc_open n path native (world p)) p
                   in (c_int r, p))"

definition libc_close :: "'w narc \<Rightarrow> int \<Rightarrow> 'w process \<Rightarrow> int \<times> 'w process" where
  "libc_close n fd p = (let (r, p) = libc_result (narc_close n fd (world p)) p in (c_int r, p))"

definition libc_read :: "'w narc \<Rightarrow> int \<Rightarrow> nat \<Rightarrow> 'w process \<Rightarrow> int \<times> string \<times> 'w process" where
  "libc_read n fd len p =
     (let (r, bytes, w) = narc_read n fd len (world p); (v, p) = libc_result (r, w) p in (v, bytes, p))"

definition libc_write :: "'w narc \<Rightarrow> int \<Rightarrow> string \<Rightarrow> 'w process \<Rightarrow> int \<times> 'w process" where
  "libc_write n fd bytes p = libc_result (narc_write n fd bytes (world p)) p"

definition libc_fork :: "'w narc \<Rightarrow> 'w process \<Rightarrow> int \<times> 'w process" where
  "libc_fork n p = (let (r, p) = libc_result (narc_fork n (world p)) p in (c_int r, p))"

definition libc_getpid :: "'w narc \<Rightarrow> 'w process \<Rightarrow> int \<times> 'w process" where
  "libc_getpid n p = (let (r, p) = libc_result (narc_getpid n (world p)) p in (c_int r, p))"

definition libc_sched_yield :: "'w narc \<Rightarrow> 'w process \<Rightarrow> int \<times> 'w process" where
  "libc_sched_yield n p = (let (r, p) = libc_result (narc_yield n (world p)) p in (c_int r, p))"

text \<open>The number waited for, the exit status given and the process.\<close>

definition libc_waitpid :: "'w narc \<Rightarrow> int \<Rightarrow> u32 \<Rightarrow> 'w process \<Rightarrow> int \<times> int \<times> 'w process" where
  "libc_waitpid n pid options p =
     (if options AND NOT 1 \<noteq> 0 then (-1, 0, p\<lparr>errno := EINVAL\<rparr>)
      else let (r, status, w) = narc_wait n pid options (world p);
               (v, p) = libc_result (r, w) p
           in (c_int v, status, p))"

definition WIFEXITED :: "int \<Rightarrow> bool" where
  "WIFEXITED status \<longleftrightarrow> status AND 0x7f = 0"

definition WEXITSTATUS :: "int \<Rightarrow> int" where
  "WEXITSTATUS status = drop_bit 8 status AND 0xff"

abbreviation (input) MAP_FAILED :: u64 where "MAP_FAILED \<equiv> 0xFFFFFFFFFFFFFFFF"

definition libc_mmap ::
  "'w narc \<Rightarrow> u64 \<Rightarrow> u64 \<Rightarrow> u32 \<Rightarrow> u32 \<Rightarrow> int \<Rightarrow> int \<Rightarrow> 'w process \<Rightarrow> u64 \<times> 'w process" where
  "libc_mmap n address len protection flags fd offset p =
     (if address \<noteq> 0 \<or> len = 0 \<or> protection AND NOT 7 \<noteq> 0 \<or> protection AND 1 = 0 \<or> protection AND 4 \<noteq> 0 \<or>
         flags AND NOT 0x33 \<noteq> 0 \<or> flags AND 0x20 = 0 \<or> (flags AND 1 \<noteq> 0) = (flags AND 2 \<noteq> 0) \<or>
         flags AND 0x10 \<noteq> 0 \<or> fd \<noteq> -1 \<or> offset \<noteq> 0
      then (MAP_FAILED, p\<lparr>errno := EINVAL\<rparr>)
      else let native = (if protection AND 2 \<noteq> 0 then 3 else 1);
               (r, p) = libc_result (narc_map n len native (world p)) p
           in (if r < 0 then MAP_FAILED else word_of_int r, p))"

definition libc_munmap :: "'w narc \<Rightarrow> u64 \<Rightarrow> u64 \<Rightarrow> 'w process \<Rightarrow> int \<times> 'w process" where
  "libc_munmap n address len p =
     (let (r, p) = libc_result (narc_unmap n address len (world p)) p in (c_int r, p))"

section \<open>Facts\<close>

lemma libc_result_simps [simp]:
  "libc_result (\<lparr>r_value = v, r_status = 0\<rparr>, w) p = (v, p\<lparr>world := w\<rparr>)"
  "st \<noteq> 0 \<Longrightarrow> libc_result (\<lparr>r_value = v, r_status = st\<rparr>, w) p = (-1, p\<lparr>world := w, errno := status_errno st\<rparr>)"
  by (simp_all add: libc_result_def)

lemma libc_result_fields [simp]:
  "arenas (snd (libc_result rw p)) = arenas p" "umem (snd (libc_result rw p)) = umem p"
  "streams (snd (libc_result rw p)) = streams p" "world (snd (libc_result rw p)) = snd rw"
  by (simp_all add: libc_result_def split_def Let_def)

text \<open>The kernel's statuses never read as an interrupted call.\<close>

lemma status_errno_not_EINTR: "status_errno st \<noteq> EINTR"
  by (simp add: status_errno_def)

end
