(* ===== verification/Native_Calls.thy ===== *)
theory Native_Calls
  imports Libc_Sys Arch_Abi Syscall
begin

text \<open>
  The native calls of \<open>lib/libnarc\<close>: the trap of each architecture (\<open>arch/*/syscall.c\<close>), which puts a call
  into the registers and reads its result from them, and the wrappers (\<open>src\<close>) over it. The trap
  instruction is an argument: what the kernel makes of a frame and of the rest of the machine.
\<close>

section \<open>The trap\<close>

type_synonym ('f, 'm) trap = "'f \<Rightarrow> 'm \<Rightarrow> ('f \<times> 'm) option"
type_synonym 'm native = "u64 \<Rightarrow> u64 \<Rightarrow> u64 \<Rightarrow> u64 \<Rightarrow> u64 \<Rightarrow> u64 \<Rightarrow> u64 \<Rightarrow> 'm \<Rightarrow> (narc_result \<times> 'm) option"

definition native_result :: "u64 \<Rightarrow> u64 \<Rightarrow> narc_result" where
  "native_result v status = \<lparr>r_value = sint v, r_status = ucast status\<rparr>"

definition x86_narc_call :: "(task_frame, 'm) trap \<Rightarrow> (task_frame \<times> 'm) native" where
  "x86_narc_call trap nr a1 a2 a3 a4 a5 a6 =
     (\<lambda>(f, m). map_option (\<lambda>(f, m). (native_result (rax f) (rdx f), f, m))
        (trap (f\<lparr>rax := NARC_SYSCALL_TAG OR nr, rdx := a3, r10 := a4, r8 := a5, r9 := a6, rdi := a1, rsi := a2\<rparr>) m))"

definition rv_narc_call :: "(rv_frame, 'm) trap \<Rightarrow> (rv_frame \<times> 'm) native" where
  "rv_narc_call trap nr a1 a2 a3 a4 a5 a6 =
     (\<lambda>(f, m). map_option (\<lambda>(f, m). (native_result (rv_x f ! 10) (rv_x f ! 11), f, m))
        (trap (f\<lparr>rv_x := (rv_x f)[10 := a1, 11 := a2, 12 := a3, 13 := a4, 14 := a5, 15 := a6, 17 := NARC_SYSCALL_TAG OR nr]\<rparr>) m))"

definition arm_narc_call :: "(arm_frame, 'm) trap \<Rightarrow> (arm_frame \<times> 'm) native" where
  "arm_narc_call trap nr a1 a2 a3 a4 a5 a6 =
     (\<lambda>(f, m). map_option (\<lambda>(f, m). (native_result (arm_x f ! 0) (arm_x f ! 1), f, m))
        (trap (f\<lparr>arm_x := (arm_x f)[0 := a1, 1 := a2, 2 := a3, 3 := a4, 4 := a5, 5 := a6, 8 := NARC_SYSCALL_TAG OR nr]\<rparr>) m))"

definition narc_call3 :: "'m native \<Rightarrow> u64 \<Rightarrow> u64 \<Rightarrow> u64 \<Rightarrow> u64 \<Rightarrow> 'm \<Rightarrow> (narc_result \<times> 'm) option" where
  "narc_call3 call nr a1 a2 a3 = call nr a1 a2 a3 0 0 0"

definition narc_call4 :: "'m native \<Rightarrow> u64 \<Rightarrow> u64 \<Rightarrow> u64 \<Rightarrow> u64 \<Rightarrow> u64 \<Rightarrow> 'm \<Rightarrow> (narc_result \<times> 'm) option" where
  "narc_call4 call nr a1 a2 a3 a4 = call nr a1 a2 a3 a4 0 0"

section \<open>Wrappers\<close>


text \<open>\<^verbatim>\<open>narc_exit\<close> spins when the kernel comes back: it does not return.\<close>

definition sys_exit :: "'m native \<Rightarrow> u32 \<Rightarrow> 'm \<Rightarrow> (narc_result \<times> 'm) option" where
  "sys_exit call status m = Option.bind (narc_call3 call 0x1 (ucast status) 0 0 m) (\<lambda>_. None)"


definition sys_yield :: "'m native \<Rightarrow> 'm \<Rightarrow> (narc_result \<times> 'm) option" where
  "sys_yield call = narc_call3 call 0x3 0 0 0"

definition sys_fork :: "'m native \<Rightarrow> 'm \<Rightarrow> (narc_result \<times> 'm) option" where
  "sys_fork call = narc_call3 call 0x4 0 0 0"

definition sys_wait :: "'m native \<Rightarrow> u32 \<Rightarrow> u64 \<Rightarrow> u32 \<Rightarrow> 'm \<Rightarrow> (narc_result \<times> 'm) option" where
  "sys_wait call pid status options = narc_call3 call 0x5 (scast pid) status (ucast options)"

definition sys_exec :: "'m native \<Rightarrow> u64 \<Rightarrow> u64 \<Rightarrow> u64 \<Rightarrow> 'm \<Rightarrow> (narc_result \<times> 'm) option" where
  "sys_exec call path argv envp = narc_call3 call 0x6 path argv envp"



definition sys_read :: "'m native \<Rightarrow> u32 \<Rightarrow> u64 \<Rightarrow> u64 \<Rightarrow> 'm \<Rightarrow> (narc_result \<times> 'm) option" where
  "sys_read call fd buffer len = narc_call3 call 0x102 (ucast fd) buffer len"








definition sys_rename :: "'m native \<Rightarrow> u64 \<Rightarrow> u64 \<Rightarrow> u64 \<Rightarrow> u64 \<Rightarrow> 'm \<Rightarrow> (narc_result \<times> 'm) option" where
  "sys_rename call old old_len new new_len = narc_call4 call 0x10a old old_len new new_len"



section \<open>The two ends of a call\<close>

text \<open>
  A kernel that answers a call from its number and its arguments, as \<open>syscall_dispatch\<close> does with the
  functions of the architecture.
\<close>

type_synonym 'm service = "u64 \<Rightarrow> (nat \<Rightarrow> u64) \<Rightarrow> 'm \<Rightarrow> (u64 \<times> u32) \<times> 'm"

definition served ::
  "('f \<Rightarrow> u64) \<Rightarrow> ('f \<Rightarrow> nat \<Rightarrow> u64) \<Rightarrow> ('f \<Rightarrow> u64 \<Rightarrow> u64 \<Rightarrow> 'f) \<Rightarrow> 'm service \<Rightarrow> ('f, 'm) trap" where
  "served number arg return2 h f m = (let ((v, st), m) = h (number f) (arg f) m in Some (return2 f v (ucast st), m))"

text \<open>What the program sees of a call, and what it should see.\<close>

definition seen :: "(narc_result \<times> 'f \<times> 'm) option \<Rightarrow> (narc_result \<times> 'm) option" where
  "seen r = map_option (\<lambda>(r, f, m). (r, m)) r"

definition answered :: "'m service \<Rightarrow> u64 \<Rightarrow> u64 list \<Rightarrow> 'm \<Rightarrow> (narc_result \<times> 'm) option" where
  "answered h nr as m =
     (let ((v, st), m) = h (NARC_SYSCALL_TAG OR nr) (\<lambda>i. if i < 6 then as ! i else 0) m
      in Some (\<lparr>r_value = sint v, r_status = st\<rparr>, m))"

text \<open>
  The contract of the two ends: the kernel finds the number and the arguments where the program has put
  them, and the program finds the results where the kernel has.
\<close>

locale call_abi =
  fixes frame_ok :: "'f \<Rightarrow> bool" and number :: "'f \<Rightarrow> u64" and arg :: "'f \<Rightarrow> nat \<Rightarrow> u64"
    and return2 :: "'f \<Rightarrow> u64 \<Rightarrow> u64 \<Rightarrow> 'f" and enter :: "'f \<Rightarrow> u64 \<Rightarrow> u64 list \<Rightarrow> 'f"
    and result :: "'f \<Rightarrow> u64" and status :: "'f \<Rightarrow> u64"
  assumes entered: "frame_ok f \<Longrightarrow> length as = 6 \<Longrightarrow> frame_ok (enter f n as) \<and> number (enter f n as) = n \<and>
      (\<forall>i. arg (enter f n as) i = (if i < 6 then as ! i else 0))"
    and returned: "frame_ok f \<Longrightarrow> result (return2 f v st) = v \<and> status (return2 f v st) = st"
begin

lemma call_answered:
  assumes "frame_ok f" "length as = 6"
  shows "seen (map_option (\<lambda>(f, m). (native_result (result f) (status f), f, m))
      (served number arg return2 h (enter f (NARC_SYSCALL_TAG OR nr) as) m)) = answered h nr as m"
proof -
  note e = entered [OF assms]
  then have "arg (enter f (NARC_SYSCALL_TAG OR nr) as) = (\<lambda>i. if i < 6 then as ! i else 0)"
    by auto
  then show ?thesis
    using e returned [of "enter f (NARC_SYSCALL_TAG OR nr) as"]
    by (simp add: seen_def answered_def served_def native_result_def Let_def split_def ucast_up_ucast_id is_up)
qed

end

lemma six: "length as = 6 \<Longrightarrow> \<exists>a b c d e f. as = [a, b, c, d, e, f]"
  by (auto simp: numeral_eq_Suc length_Suc_conv)

lemma nth_six: "(if i < 6 then [a, b, c, d, e, f] ! i else z) =
    (if i = 0 then a else if i = 1 then b else if i = 2 then c else if i = 3 then d else if i = 4 then e else if i = 5 then f else z)"
  by (auto simp: nth_Cons split: nat.split)

interpretation x86_call: call_abi "\<lambda>_. True" arch_syscall_number arch_syscall_arg arch_syscall_return2
    "\<lambda>f n as. f\<lparr>rax := n, rdx := as ! 2, r10 := as ! 3, r8 := as ! 4, r9 := as ! 5, rdi := as ! 0, rsi := as ! 1\<rparr>" rax rdx
  by unfold_locales (auto dest!: six simp: arch_syscall_number_def arch_syscall_arg_def arch_syscall_return2_def)

interpretation rv_call: call_abi "\<lambda>f. length (rv_x f) = 32" rv_syscall_number rv_syscall_arg rv_syscall_return2
    "\<lambda>f n as. f\<lparr>rv_x := (rv_x f)[10 := as ! 0, 11 := as ! 1, 12 := as ! 2, 13 := as ! 3, 14 := as ! 4, 15 := as ! 5, 17 := n]\<rparr>"
    "\<lambda>f. rv_x f ! 10" "\<lambda>f. rv_x f ! 11"
proof
  fix f :: rv_frame and as :: "u64 list" and n
  assume f: "length (rv_x f) = 32" "length as = 6"
  let ?f = "f\<lparr>rv_x := (rv_x f)[10 := as ! 0, 11 := as ! 1, 12 := as ! 2, 13 := as ! 3, 14 := as ! 4, 15 := as ! 5, 17 := n]\<rparr>"
  have "rv_syscall_arg ?f i = (if i < 6 then as ! i else 0)" for i
    using six [OF f(2)] f(1) by (auto simp: rv_syscall_arg_def nth_list_update nth_Cons split: nat.split)
  then show "length (rv_x ?f) = 32 \<and> rv_syscall_number ?f = n \<and> (\<forall>i. rv_syscall_arg ?f i = (if i < 6 then as ! i else 0))"
    using f(1) by (simp add: rv_syscall_number_def)
qed (simp add: rv_syscall_return2_def)

interpretation arm_call: call_abi "\<lambda>f. length (arm_x f) = 31" arm_syscall_number arm_syscall_arg arm_syscall_return2
    "\<lambda>f n as. f\<lparr>arm_x := (arm_x f)[0 := as ! 0, 1 := as ! 1, 2 := as ! 2, 3 := as ! 3, 4 := as ! 4, 5 := as ! 5, 8 := n]\<rparr>"
    "\<lambda>f. arm_x f ! 0" "\<lambda>f. arm_x f ! 1"
proof
  fix f :: arm_frame and as :: "u64 list" and n
  assume f: "length (arm_x f) = 31" "length as = 6"
  let ?f = "f\<lparr>arm_x := (arm_x f)[0 := as ! 0, 1 := as ! 1, 2 := as ! 2, 3 := as ! 3, 4 := as ! 4, 5 := as ! 5, 8 := n]\<rparr>"
  have "arm_syscall_arg ?f i = (if i < 6 then as ! i else 0)" for i
    using six [OF f(2)] f(1) by (auto simp: arm_syscall_arg_def nth_list_update nth_Cons split: nat.split)
  then show "length (arm_x ?f) = 31 \<and> arm_syscall_number ?f = n \<and> (\<forall>i. arm_syscall_arg ?f i = (if i < 6 then as ! i else 0))"
    using f(1) by (simp add: arm_syscall_number_def)
qed (simp add: arm_syscall_return2_def)

text \<open>
  C10: A native call means the same on every architecture. Whatever the kernel answers from the number and
  the six arguments of a call, the program that makes the call gets as its result, on x86-64, on RISC-V and
  on AArch64: the stubs put each argument where the kernel of that architecture looks for it, and read
  value and status where it leaves them.
\<close>

theorem native_call_any_arch:
  assumes "length (rv_x r) = 32" "length (arm_x a) = 31"
  shows "seen (x86_narc_call (served arch_syscall_number arch_syscall_arg arch_syscall_return2 h) nr a1 a2 a3 a4 a5 a6 (f, m)) =
      answered h nr [a1, a2, a3, a4, a5, a6] m \<and>
    seen (rv_narc_call (served rv_syscall_number rv_syscall_arg rv_syscall_return2 h) nr a1 a2 a3 a4 a5 a6 (r, m)) =
      answered h nr [a1, a2, a3, a4, a5, a6] m \<and>
    seen (arm_narc_call (served arm_syscall_number arm_syscall_arg arm_syscall_return2 h) nr a1 a2 a3 a4 a5 a6 (a, m)) =
      answered h nr [a1, a2, a3, a4, a5, a6] m"
  using x86_call.call_answered [where as = "[a1, a2, a3, a4, a5, a6]" and h = h and f = f and nr = nr and m = m]
    rv_call.call_answered [where as = "[a1, a2, a3, a4, a5, a6]" and h = h and f = r and nr = nr and m = m]
    arm_call.call_answered [where as = "[a1, a2, a3, a4, a5, a6]" and h = h and f = a and nr = nr and m = m] assms
  by (simp_all add: x86_narc_call_def rv_narc_call_def arm_narc_call_def numeral_2_eq_2)

text \<open>A service that gives back its third argument, and as status the low word of the call number.\<close>

definition echo :: "unit service" where
  "echo nr arg m = ((arg 2, ucast nr), m)"

lemma echo_answered: "answered echo 0x103 [1, 2, 7, 4, 5, 6] () = Some (\<lparr>r_value = 7, r_status = 0x103\<rparr>, ())"
  by (simp add: answered_def echo_def)

theorem native_call_any_arch_witness:
  "seen (rv_narc_call (served rv_syscall_number rv_syscall_arg rv_syscall_return2 echo) 0x103 1 2 7 4 5 6
      (rv_task_frame_init \<lparr>rv_x = [], rv_pc = 0, rv_status = 0\<rparr>, ())) = Some (\<lparr>r_value = 7, r_status = 0x103\<rparr>, ())"
  using native_call_any_arch [where r = "rv_task_frame_init \<lparr>rv_x = [], rv_pc = 0, rv_status = 0\<rparr>"
      and a = "arm_task_frame_init \<lparr>arm_x = [], arm_sp = 0, arm_pc = 0, arm_pstate = 0\<rparr>" and h = echo and nr = "0x103"
      and ?a1.0 = 1 and ?a2.0 = 2 and ?a3.0 = 7 and ?a4.0 = 4 and ?a5.0 = 5 and ?a6.0 = 6 and m = "()"]
  by (simp add: echo_answered rv_task_frame_init_def arm_task_frame_init_def)

section \<open>From a wrapper to its handler\<close>





end
