(* ===== verification/Libc_Memory.thy ===== *)
theory Libc_Memory
  imports Libc_String
begin

text \<open>
  The functions of \<open>lib/libc/src/string\<close> that read and write memory: byte loops over an index, the
  strings that \<^verbatim>\<open>strcpy\<close> and \<^verbatim>\<open>strncpy\<close> store, and what the copies do when their areas overlap.
\<close>

section \<open>The loops\<close>

text \<open>One assignment \<^verbatim>\<open>out[i] = in[i]\<close>, and the loops up and down.\<close>

definition copy_byte :: "u64 \<Rightarrow> u64 \<Rightarrow> nat \<Rightarrow> memory \<Rightarrow> memory" where
  "copy_byte dst src i m = m(dst + word_of_nat i := m (src + word_of_nat i))"

definition libc_memcpy :: "memory \<Rightarrow> u64 \<Rightarrow> u64 \<Rightarrow> nat \<Rightarrow> memory" where
  "libc_memcpy m dst src len = fold (copy_byte dst src) [0..<len] m"

definition libc_memmove :: "memory \<Rightarrow> u64 \<Rightarrow> u64 \<Rightarrow> nat \<Rightarrow> memory" where
  "libc_memmove m dst src len =
     (if dst < src then fold (copy_byte dst src) [0..<len] m
      else if dst > src then fold (copy_byte dst src) (rev [0..<len]) m
      else m)"

definition libc_memset :: "memory \<Rightarrow> u64 \<Rightarrow> u32 \<Rightarrow> nat \<Rightarrow> memory" where
  "libc_memset m dst v len = fold (\<lambda>i m. m(dst + word_of_nat i := ucast v)) [0..<len] m"

text \<open>The loop of \<^verbatim>\<open>memcmp\<close> from \<open>i\<close> on.\<close>

function memcmp_from :: "memory \<Rightarrow> u64 \<Rightarrow> u64 \<Rightarrow> nat \<Rightarrow> nat \<Rightarrow> int" where
  "memcmp_from m a b i len =
     (if i < len
      then if m (a + word_of_nat i) \<noteq> m (b + word_of_nat i)
           then if m (a + word_of_nat i) < m (b + word_of_nat i) then -1 else 1
           else memcmp_from m a b (Suc i) len
      else 0)"
  by pat_completeness auto
termination
  by (relation "measure (\<lambda>(m, a, b, i, len). len - i)") auto

declare memcmp_from.simps [simp del]

definition libc_memcmp :: "memory \<Rightarrow> u64 \<Rightarrow> u64 \<Rightarrow> nat \<Rightarrow> int" where
  "libc_memcmp m a b len = memcmp_from m a b 0 len"

text \<open>The characters stored at the destination, of a source that holds a NUL somewhere.\<close>

fun strcpy :: "string \<Rightarrow> string" where
  "strcpy [] = [NUL]"
| "strcpy (c # b) = (if c = NUL then [c] else c # strcpy b)"

fun strncpy :: "string \<Rightarrow> nat \<Rightarrow> string" where
  "strncpy b 0 = []"
| "strncpy [] (Suc n) = replicate (Suc n) NUL"
| "strncpy (c # b) (Suc n) = (if c = NUL then replicate (Suc n) NUL else c # strncpy b n)"

section \<open>Strings\<close>

lemma strcpy_cstr: "strcpy b = cstr b @ [NUL]"
  by (induction b) (simp_all add: cstr_def)

lemma strncpy_cstr: "strncpy b n = take n (cstr b) @ replicate (n - length (cstr b)) NUL"
  by (induction b n rule: strncpy.induct) (simp_all add: cstr_def)

lemma length_strncpy [simp]: "length (strncpy b n) = n"
  by (simp add: strncpy_cstr)

section \<open>Copies\<close>

text \<open>Which byte a copy of a set of bytes leaves at an address, when no store hits a byte still to be read.\<close>

lemma copy_byte_apply:
  "copy_byte dst src i m b = (if b = dst + word_of_nat i then m (src + word_of_nat i) else m b)"
  by (simp add: copy_byte_def)

lemma fold_copy:
  assumes "distinct is" "\<And>i j. i \<in> set is \<Longrightarrow> j \<in> set is \<Longrightarrow> dst + word_of_nat i = dst + word_of_nat j \<Longrightarrow> i = j"
    and "\<And>xs ys i. is = xs @ i # ys \<Longrightarrow> (\<And>j. j \<in> set xs \<Longrightarrow> src + word_of_nat i \<noteq> dst + word_of_nat j)"
  shows "fold (copy_byte dst src) is m b =
    (if \<exists>i \<in> set is. b = dst + word_of_nat i then m (src + (b - dst)) else m b)"
  using assms
proof (induction "is" arbitrary: m b rule: rev_induct)
  case (snoc k "is")
  have IH: "fold (copy_byte dst src) is m c =
      (if \<exists>i \<in> set is. c = dst + word_of_nat i then m (src + (c - dst)) else m c)" for c
  proof (rule snoc.IH)
    show "distinct is"
      using snoc.prems(1) by simp
    show "i = j" if "i \<in> set is" "j \<in> set is" "dst + word_of_nat i = dst + word_of_nat j" for i j
      using snoc.prems(2) [of i j] that by simp
    show "src + word_of_nat i \<noteq> dst + word_of_nat j" if "is = xs @ i # ys" "j \<in> set xs" for xs ys i j
      using snoc.prems(3) [of xs i "ys @ [k]" j] that by simp
  qed
  have "\<And>j. j \<in> set is \<Longrightarrow> src + word_of_nat k \<noteq> dst + word_of_nat j"
    using snoc.prems(3) [of "is" k "[]"] by simp
  then have src: "fold (copy_byte dst src) is m (src + word_of_nat k) = m (src + word_of_nat k)"
    by (auto simp: IH)
  have step: "fold (copy_byte dst src) (is @ [k]) m b = (if b = dst + word_of_nat k
      then fold (copy_byte dst src) is m (src + word_of_nat k) else fold (copy_byte dst src) is m b)"
    by (subst copy_byte_apply [symmetric]) simp
  show ?case
    unfolding step using src IH [of b] by simp
qed simp

lemma offset_of_nat:
  fixes a :: u64
  assumes "unat a + n \<le> 18446744073709551616"
  shows "i < n \<Longrightarrow> unat (a + word_of_nat i) = unat a + i"
    "i < n \<Longrightarrow> j < n \<Longrightarrow> a + word_of_nat i = a + word_of_nat j \<Longrightarrow> i = j"
proof -
  show u: "unat (a + word_of_nat i) = unat a + i" if "i < n" for i
    using assms that by (intro unat_add_of_nat_u64) simp
  show "i = j" if "i < n" "j < n" "a + word_of_nat i = a + word_of_nat j"
    using arg_cong [OF that(3), of unat] by (simp only: u [OF that(1)] u [OF that(2)] add_left_cancel)
qed

lemma in_area:
  fixes dst :: u64
  assumes "len < 18446744073709551616"
  shows "(\<exists>i<len. b = dst + word_of_nat i) \<longleftrightarrow> unat (b - dst) < len"
proof
  assume "unat (b - dst) < len"
  then show "\<exists>i<len. b = dst + word_of_nat i"
    by (intro exI [of _ "unat (b - dst)"]) (simp only: of_nat_unat, simp)
next
  assume "\<exists>i<len. b = dst + word_of_nat i"
  then obtain i where i: "i < len" "b = dst + word_of_nat i"
    by blast
  then have "unat (b - dst) = i"
    using assms by (simp only: add_diff_cancel_left') simp
  then show "unat (b - dst) < len"
    using i(1) by simp
qed

text \<open>
  \<^verbatim>\<open>memmove\<close> copies, whatever the overlap of its two areas: afterwards the destination holds the
  bytes that the source held before, and every other byte of memory is as it was. The two areas must not
  wrap around the end of the address space; nothing is asked of how they lie to each other.
\<close>

theorem memmove_copies:
  assumes "unat dst + len \<le> 2 ^ 64" "unat src + len \<le> 2 ^ 64" "len < 2 ^ 64"
  shows "libc_memmove m dst src len b = (if unat (b - dst) < len then m (src + (b - dst)) else m b)"
proof -
  have ranges: "unat dst + len \<le> 18446744073709551616" "unat src + len \<le> 18446744073709551616" "len < 18446744073709551616"
    using assms by simp_all
  note u = offset_of_nat(1) [OF ranges(1)] offset_of_nat(1) [OF ranges(2)]
  have area: "(\<exists>i \<in> set [0..<len]. b = dst + word_of_nat i) \<longleftrightarrow> unat (b - dst) < len"
    using in_area [OF ranges(3), of b dst] by auto
  consider "dst < src" | "dst > src" | "dst = src"
    by (meson linorder_cases)
  then show ?thesis
  proof cases
    case 1
    have "fold (copy_byte dst src) [0..<len] m b =
        (if \<exists>i \<in> set [0..<len]. b = dst + word_of_nat i then m (src + (b - dst)) else m b)"
    proof (rule fold_copy)
      fix xs ys i j assume split: "[0..<len] = xs @ i # ys" and j: "j \<in> set xs"
      then have "sorted_wrt (<) (xs @ i # ys)" "i \<in> set [0..<len]"
        using sorted_wrt_upt [of 0 len] by (simp_all only: split) simp
      then have "j < i" "i < len"
        using j by (simp_all add: sorted_wrt_append)
      then show "src + word_of_nat i \<noteq> dst + word_of_nat j"
        using u [of i] u [of j] 1 by (auto simp: word_less_nat_alt dest!: arg_cong [where f = unat])
    qed (use offset_of_nat(2) [OF ranges(1)] in auto)
    then show ?thesis
      using 1 area by (simp add: libc_memmove_def)
  next
    case 2
    have "fold (copy_byte dst src) (rev [0..<len]) m b =
        (if \<exists>i \<in> set (rev [0..<len]). b = dst + word_of_nat i then m (src + (b - dst)) else m b)"
    proof (rule fold_copy)
      fix xs ys i j assume split: "rev [0..<len] = xs @ i # ys" and j: "j \<in> set xs"
      then have "[0..<len] = rev ys @ i # rev xs"
        by (metis append_assoc append_Cons append_Nil rev.simps(2) rev_append rev_rev_ident)
      then have "sorted_wrt (<) (rev ys @ i # rev xs)" "set (rev ys @ i # rev xs) = set [0..<len]"
        using sorted_wrt_upt [of 0 len] by simp_all
      then have "i < j" "j < len"
        using j by (auto simp: sorted_wrt_append)
      then show "src + word_of_nat i \<noteq> dst + word_of_nat j"
        using u [of i] u [of j] 2 by (auto simp: word_less_nat_alt dest!: arg_cong [where f = unat])
    qed (use offset_of_nat(2) [OF ranges(1)] in auto)
    moreover have "\<not> dst < src"
      using 2 by simp
    ultimately show ?thesis
      using 2 area by (simp add: libc_memmove_def)
  next
    case 3
    then show ?thesis
      by (simp add: libc_memmove_def)
  qed
qed

theorem memmove_copies_witness:
  "libc_memmove (\<lambda>a. ucast a) 0x1002 0x1000 8 0x1005 = 0x03 \<and> libc_memmove (\<lambda>a. ucast a) 0x1000 0x1002 8 0x1005 = 0x07"
  using memmove_copies [of "0x1002" 8 "0x1000" "\<lambda>a. ucast a" "0x1005"] memmove_copies [of "0x1000" 8 "0x1002" "\<lambda>a. ucast a" "0x1005"]
  by simp

end
