(* ===== verification/Libc_Alloc.thy ===== *)
theory Libc_Alloc
  imports Libc_Sys Object_Allocator
begin

text \<open>
  The allocator of the C library, \<open>lib/libc/src/stdlib\<close>. An arena is a region from \<^verbatim>\<open>mmap\<close> with a header
  of 32 bytes, cut into blocks with headers of 48 bytes; the blocks and arenas are records in the
  order of their \<^verbatim>\<open>next\<close> pointers, and a \<^verbatim>\<open>previous\<close> pointer is the element before. A block stays
  where it was made, so an update finds it by its address.
\<close>

section \<open>Blocks\<close>

abbreviation (input) block_bytes :: u64 where "block_bytes \<equiv> 48"
abbreviation (input) arena_bytes :: u64 where "arena_bytes \<equiv> 32"
abbreviation (input) ARENA_SIZE :: u64 where "ARENA_SIZE \<equiv> 65536"
abbreviation (input) SIZE_MAX :: u64 where "SIZE_MAX \<equiv> 0xFFFFFFFFFFFFFFFF"

definition libc_align_up :: "u64 \<Rightarrow> u64 \<Rightarrow> u64" where
  "libc_align_up v alignment = (v + alignment - 1) AND NOT (alignment - 1)"

definition arena_header_size :: u64 where
  "arena_header_size = libc_align_up arena_bytes 16"

definition first_block :: "arena \<Rightarrow> u64" where
  "first_block a = a_addr a + arena_header_size"

text \<open>What becomes of a block and those behind it.\<close>

definition split_block :: "u64 \<Rightarrow> block \<Rightarrow> block list \<Rightarrow> block list" where
  "split_block sz b bs =
     (let remaining = b_size b - sz
      in if remaining < block_bytes + 16 then b # bs
         else let split = \<lparr>b_addr = b_addr b + block_bytes + sz, b_size = remaining - block_bytes, b_free = True\<rparr>;
                  b = b\<lparr>b_size := sz\<rparr>
              in case bs of
                   [] \<Rightarrow> [b, split]
                 | nx # rest \<Rightarrow>
                     if b_free nx then b # split\<lparr>b_size := b_size split + (block_bytes + b_size nx)\<rparr> # rest
                     else b # split # nx # rest)"

definition merge_next :: "block \<Rightarrow> block list \<Rightarrow> block list" where
  "merge_next b bs =
     (case bs of
        [] \<Rightarrow> [b]
      | nx # rest \<Rightarrow> if \<not> b_free nx then b # nx # rest else b\<lparr>b_size := b_size b + (block_bytes + b_size nx)\<rparr> # rest)"

fun upd_from :: "u64 \<Rightarrow> (block \<Rightarrow> block list \<Rightarrow> block list) \<Rightarrow> block list \<Rightarrow> block list" where
  "upd_from addr f [] = []"
| "upd_from addr f (b # bs) = (if b_addr b = addr then f b bs else b # upd_from addr f bs)"

definition has_block :: "u64 \<Rightarrow> arena \<Rightarrow> bool" where
  "has_block addr a \<longleftrightarrow> list_ex (\<lambda>b. b_addr b = addr) (a_blocks a)"

text \<open>An update of the arena of a block, of the block with those behind it, and of its flag.\<close>

definition in_arena :: "u64 \<Rightarrow> (arena \<Rightarrow> arena) \<Rightarrow> 'w process \<Rightarrow> 'w process" where
  "in_arena addr f p = p\<lparr>arenas := map (\<lambda>a. if has_block addr a then f a else a) (arenas p)\<rparr>"

definition in_block :: "u64 \<Rightarrow> (block \<Rightarrow> block list \<Rightarrow> block list) \<Rightarrow> 'w process \<Rightarrow> 'w process" where
  "in_block addr f = in_arena addr (\<lambda>a. a\<lparr>a_blocks := upd_from addr f (a_blocks a)\<rparr>)"

definition set_free :: "u64 \<Rightarrow> bool \<Rightarrow> 'w process \<Rightarrow> 'w process" where
  "set_free addr v = in_block addr (\<lambda>b bs. b\<lparr>b_free := v\<rparr> # bs)"

section \<open>The allocator\<close>

definition create_arena :: "'w narc \<Rightarrow> u64 \<Rightarrow> 'w process \<Rightarrow> arena option \<times> 'w process" where
  "create_arena n sz p =
     (let overhead = arena_header_size + block_bytes
      in if sz > SIZE_MAX - overhead - (4096 - 1) then (None, p)
         else let required = libc_align_up (sz + overhead) 4096;
                  mapped = (if required > ARENA_SIZE then required else ARENA_SIZE);
                  (address, p) = libc_mmap n 0 mapped 3 0x22 (-1) 0 p
              in if address = MAP_FAILED then (None, p)
                 else let block = \<lparr>b_addr = address + arena_header_size, b_size = mapped - overhead, b_free = True\<rparr>;
                          a = \<lparr>a_addr = address, a_mapped = mapped, a_active = 0, a_blocks = [block]\<rparr>
                      in (Some a, p\<lparr>arenas := a # arenas p\<rparr>))"

definition find_block :: "u64 \<Rightarrow> 'w process \<Rightarrow> u64 option" where
  "find_block sz p = map_option b_addr
     (List.find (\<lambda>b. b_free b \<and> b_size b \<ge> sz) (concat (map a_blocks (arenas p))))"

definition allocator_allocate :: "'w narc \<Rightarrow> u64 \<Rightarrow> 'w process \<Rightarrow> u64 \<times> 'w process" where
  "allocator_allocate n sz p =
     (let sz = (if sz = 0 then 1 else sz)
      in if sz > SIZE_MAX - (16 - 1) then (0, p\<lparr>errno := ENOMEM\<rparr>)
         else let sz = libc_align_up sz 16;
                  (block, p) = (case find_block sz p of
                                  Some b \<Rightarrow> (Some b, p)
                                | None \<Rightarrow> (case create_arena n sz p of
                                             (None, p) \<Rightarrow> (None, p\<lparr>errno := ENOMEM\<rparr>)
                                           | (Some a, p) \<Rightarrow> (Some (first_block a), p)))
              in case block of
                   None \<Rightarrow> (0, p)
                 | Some b \<Rightarrow>
                     let p = in_block b (split_block sz) p;
                         p = set_free b False p;
                         p = in_arena b (\<lambda>a. a\<lparr>a_active := a_active a + 1\<rparr>) p
                     in (b + block_bytes, p))"

fun block_before :: "u64 \<Rightarrow> block list \<Rightarrow> block option" where
  "block_before addr (b # c # bs) = (if b_addr c = addr then Some b else block_before addr (c # bs))"
| "block_before addr bs = None"

definition find_arena :: "u64 \<Rightarrow> 'w process \<Rightarrow> arena option" where
  "find_arena addr p = List.find (has_block addr) (arenas p)"

definition find_at :: "u64 \<Rightarrow> 'w process \<Rightarrow> block option" where
  "find_at addr p = List.find (\<lambda>b. b_addr b = addr) (concat (map a_blocks (arenas p)))"

text \<open>A pointer that is not of the allocator, where the behaviour of the code is undefined, changes nothing.\<close>

definition allocator_release :: "'w narc \<Rightarrow> u64 \<Rightarrow> 'w process \<Rightarrow> 'w process" where
  "allocator_release n pointer p =
     (if pointer = 0 then p
      else let b = pointer - block_bytes
           in case find_arena b p of
                None \<Rightarrow> p
              | Some a \<Rightarrow>
                  let p = set_free b True p;
                      p = in_arena b (\<lambda>a. if a_active a \<noteq> 0 then a\<lparr>a_active := a_active a - 1\<rparr> else a) p;
                      p = in_block b merge_next p;
                      p = (case block_before b (a_blocks a) of
                             None \<Rightarrow> p
                           | Some before \<Rightarrow> if b_free before then in_block (b_addr before) merge_next p else p)
                  in if (if a_active a \<noteq> 0 then a_active a - 1 else 0) \<noteq> 0 \<or> length (arenas p) = 1 then p
                     else snd (libc_munmap n (a_addr a) (a_mapped a)
                            (p\<lparr>arenas := filter (\<lambda>c. a_addr c \<noteq> a_addr a) (arenas p)\<rparr>)))"

definition allocator_size :: "u64 \<Rightarrow> 'w process \<Rightarrow> u64" where
  "allocator_size pointer p = (case find_at (pointer - block_bytes) p of Some b \<Rightarrow> b_size b | None \<Rightarrow> 0)"

definition allocator_resize :: "u64 \<Rightarrow> u64 \<Rightarrow> 'w process \<Rightarrow> int \<times> 'w process" where
  "allocator_resize pointer sz p =
     (if sz > SIZE_MAX - (16 - 1) then (-1, p)
      else let sz = libc_align_up sz 16; b = pointer - block_bytes; old = allocator_size pointer p
           in if old \<ge> sz then (0, in_block b (split_block sz) p)
              else case concat (map (\<lambda>a. tl (dropWhile (\<lambda>c. b_addr c \<noteq> b) (a_blocks a))) (arenas p)) of
                     [] \<Rightarrow> (-1, p)
                   | nx # _ \<Rightarrow>
                       if \<not> b_free nx \<or> old + block_bytes + b_size nx < sz then (-1, p)
                       else (0, in_block b (split_block sz) (in_block b merge_next p)))"

definition libc_malloc :: "'w narc \<Rightarrow> u64 \<Rightarrow> 'w process \<Rightarrow> u64 \<times> 'w process" where
  "libc_malloc = allocator_allocate"

definition libc_free :: "'w narc \<Rightarrow> u64 \<Rightarrow> 'w process \<Rightarrow> 'w process" where
  "libc_free = allocator_release"

definition libc_calloc :: "'w narc \<Rightarrow> u64 \<Rightarrow> u64 \<Rightarrow> 'w process \<Rightarrow> u64 \<times> 'w process" where
  "libc_calloc n count sz p =
     (if sz \<noteq> 0 \<and> count > SIZE_MAX div sz then (0, p\<lparr>errno := ENOMEM\<rparr>)
      else let total = count * sz; (pointer, p) = libc_malloc n total p
           in (pointer, if pointer \<noteq> 0 then p\<lparr>umem := memset (umem p) pointer 0 (unat total)\<rparr> else p))"

definition libc_realloc :: "'w narc \<Rightarrow> u64 \<Rightarrow> u64 \<Rightarrow> 'w process \<Rightarrow> u64 \<times> 'w process" where
  "libc_realloc n pointer sz p =
     (if pointer = 0 then libc_malloc n sz p
      else if sz = 0 then (0, libc_free n pointer p)
      else let old = allocator_size pointer p; (r, p) = allocator_resize pointer sz p
           in if r = 0 then (pointer, p)
              else let (replacement, p) = libc_malloc n sz p
                   in if replacement = 0 then (0, p)
                      else (replacement, libc_free n pointer (p\<lparr>umem := memcpy (umem p) replacement pointer (unat old)\<rparr>)))"

end
