(* ===== verification/Libc_Heap.thy ===== *)
theory Libc_Heap
  imports Libc_Alloc
begin

text \<open>
  Correctness of the C library's allocator: the blocks of every arena tile it, no two free ones touch,
  and with a kernel that maps fresh memory the allocator provides the interface
  \<open>object_allocator\<close>, as the kernel heap does.
\<close>

section \<open>Tilings\<close>

fun tiles :: "nat \<Rightarrow> block list \<Rightarrow> nat \<Rightarrow> bool" where
  "tiles lo [] hi \<longleftrightarrow> lo = hi"
| "tiles lo (b # bs) hi \<longleftrightarrow> unat (b_addr b) = lo \<and> 16 dvd unat (b_size b) \<and> tiles (lo + 48 + unat (b_size b)) bs hi"

fun coalesced :: "block list \<Rightarrow> bool" where
  "coalesced (b # c # bs) \<longleftrightarrow> \<not> (b_free b \<and> b_free c) \<and> coalesced (c # bs)"
| "coalesced bs \<longleftrightarrow> True"

definition used_of :: "block list \<Rightarrow> block set" where
  "used_of bs = {b \<in> set bs. \<not> b_free b}"

definition active_of :: "block list \<Rightarrow> nat" where
  "active_of bs = length (filter (\<lambda>b. \<not> b_free b) bs)"

lemma used_of_simps [simp]:
  "used_of [] = {}" "used_of (b # bs) = (if b_free b then used_of bs else insert b (used_of bs))"
  "used_of (xs @ ys) = used_of xs \<union> used_of ys"
  by (auto simp: used_of_def)

lemma active_of_simps [simp]:
  "active_of [] = 0" "active_of (b # bs) = (if b_free b then 0 else 1) + active_of bs"
  "active_of (xs @ ys) = active_of xs + active_of ys"
  by (auto simp: active_of_def)

lemma tiles_le: "tiles lo bs hi \<Longrightarrow> lo \<le> hi"
  by (induction bs arbitrary: lo) fastforce+

lemma tiles_append: "tiles lo (xs @ ys) hi \<longleftrightarrow> (\<exists>m. tiles lo xs m \<and> tiles m ys hi)"
  by (induction xs arbitrary: lo) auto

lemma tiles_block:
  assumes "tiles lo bs hi" "b \<in> set bs"
  shows "lo \<le> unat (b_addr b)" "unat (b_addr b) + 48 + unat (b_size b) \<le> hi" "16 dvd unat (b_size b)"
  using assms by (induction bs arbitrary: lo) (fastforce dest: tiles_le)+

lemma tiles_aligned: "tiles lo bs hi \<Longrightarrow> b \<in> set bs \<Longrightarrow> 16 dvd lo \<Longrightarrow> 16 dvd unat (b_addr b)"
  by (induction bs arbitrary: lo) auto

lemma tiles_apart:
  assumes "tiles lo bs hi" "b \<in> set bs" "c \<in> set bs" "b \<noteq> c"
  shows "unat (b_addr b) + 48 + unat (b_size b) \<le> unat (b_addr c) \<or> unat (b_addr c) + 48 + unat (b_size c) \<le> unat (b_addr b)"
  using assms
proof (induction bs arbitrary: lo)
  case (Cons d bs)
  note t = tiles_block(1) [of "lo + 48 + unat (b_size d)" bs hi]
  then show ?case
    using Cons by auto
qed simp

lemma tiles_front:
  assumes "tiles lo (xs @ b # ys) hi"
  shows "b_addr b \<notin> b_addr ` set xs"
proof
  assume "b_addr b \<in> b_addr ` set xs"
  then obtain c where c: "c \<in> set xs" "b_addr c = b_addr b"
    by auto
  obtain m where m: "tiles lo xs m" "tiles m (b # ys) hi"
    using assms by (auto simp only: tiles_append)
  show False
    using tiles_block(2) [OF m(1) c(1)] m(2) c(2) by simp
qed

lemma upd_from_at: "addr \<notin> b_addr ` set xs \<Longrightarrow> b_addr b = addr \<Longrightarrow> upd_from addr f (xs @ b # ys) = xs @ f b ys"
  by (induction xs) auto

lemma coalesced_append:
  "coalesced (xs @ ys) \<longleftrightarrow> coalesced xs \<and> coalesced ys \<and> (xs \<noteq> [] \<longrightarrow> ys \<noteq> [] \<longrightarrow> \<not> (b_free (last xs) \<and> b_free (hd ys)))"
  by (induction xs rule: coalesced.induct; cases ys) auto

section \<open>Splitting and merging\<close>

lemma unat_end:
  assumes "tiles lo (b # bs) hi" "hi < 18446744073709551616" "k \<le> 48 + unat (b_size b)"
  shows "unat (b_addr b + word_of_nat k) = lo + k"
  using assms tiles_le [of "lo + 48 + unat (b_size b)" bs hi] by (subst unat_add_of_nat_u64) simp_all

lemma unat_sum_less:
  fixes a b :: u64
  shows "unat a + unat b < 18446744073709551616 \<Longrightarrow> unat (a + b) = unat a + unat b"
  using unat_add_of_nat_u64 [of a "unat b"] by simp

lemma merge_next_tiles:
  assumes "tiles lo (b # bs) hi" "hi < 18446744073709551616"
  shows "tiles lo (merge_next b bs) hi" "active_of (merge_next b bs) = active_of (b # bs)"
    "b_free b \<Longrightarrow> used_of (merge_next b bs) = used_of (b # bs)"
    "coalesced bs \<Longrightarrow> coalesced (merge_next b bs)"
    "merge_next b bs \<noteq> [] \<and> b_free (hd (merge_next b bs)) = b_free b \<and> b_addr (hd (merge_next b bs)) = b_addr b"
proof -
  have "tiles lo (merge_next b bs) hi \<and> active_of (merge_next b bs) = active_of (b # bs) \<and>
     (b_free b \<longrightarrow> used_of (merge_next b bs) = used_of (b # bs)) \<and>
     (coalesced bs \<longrightarrow> coalesced (merge_next b bs)) \<and>
     merge_next b bs \<noteq> [] \<and> b_free (hd (merge_next b bs)) = b_free b \<and> b_addr (hd (merge_next b bs)) = b_addr b"
  proof (cases bs)
    case (Cons c cs)
    have "unat (48 + b_size c) = 48 + unat (b_size c)" "unat (b_size b + (48 + b_size c)) = unat (b_size b) + (48 + unat (b_size c))"
      using assms Cons tiles_le [of "lo + 48 + unat (b_size b) + 48 + unat (b_size c)" cs hi]
      by (simp_all add: unat_sum_less)
    moreover have "coalesced (c # cs) \<Longrightarrow> b_free c \<Longrightarrow> coalesced (b\<lparr>b_size := b_size b + (48 + b_size c)\<rparr> # cs)"
      by (cases cs) simp_all
    ultimately show ?thesis
      using assms Cons by (auto simp: merge_next_def add_ac)
  qed (use assms in \<open>simp add: merge_next_def\<close>)
  then show "tiles lo (merge_next b bs) hi" "active_of (merge_next b bs) = active_of (b # bs)"
    "b_free b \<Longrightarrow> used_of (merge_next b bs) = used_of (b # bs)"
    "coalesced bs \<Longrightarrow> coalesced (merge_next b bs)"
    "merge_next b bs \<noteq> [] \<and> b_free (hd (merge_next b bs)) = b_free b \<and> b_addr (hd (merge_next b bs)) = b_addr b"
    by blast+
qed

lemma split_block_tiles:
  assumes "tiles lo (b # bs) hi" "hi < 18446744073709551616" "sz \<le> b_size b" "16 dvd unat sz" "coalesced bs"
  obtains b' r where "split_block sz b bs = b' # r" "tiles lo (b' # r) hi" "b_addr b' = b_addr b" "b_free b' = b_free b"
    "sz \<le> b_size b'" "used_of r = used_of bs" "active_of r = active_of bs" "coalesced r"
proof (cases "b_size b - sz < 64")
  case True
  then show thesis
    using assms by (intro that [of b bs]) (simp_all add: split_block_def)
next
  case False
  define sp where "sp = \<lparr>b_addr = b_addr b + 48 + sz, b_size = b_size b - sz - 48, b_free = True\<rparr>"
  have hi: "lo + 48 + unat (b_size b) \<le> hi"
    using assms(1) tiles_le [of "lo + 48 + unat (b_size b)" bs hi] by simp
  have r: "unat (b_size b - sz) = unat (b_size b) - unat sz" "64 \<le> unat (b_size b - sz)"
    using assms(3) False by (simp_all add: unat_sub word_less_nat_alt)
  then have sz: "unat (b_size b - sz - 48) = unat (b_size b) - unat sz - 48"
    by (subst unat_sub) (simp_all add: word_le_nat_alt)
  have "unat (b_addr b + word_of_nat (48 + unat sz)) = lo + (48 + unat sz)"
    using assms(1-3) by (intro unat_end [of lo b bs hi]) (simp_all add: word_le_nat_alt)
  then have ad: "unat (b_addr b + 48 + sz) = lo + 48 + unat sz"
    by (simp add: add_ac)
  have dv: "16 dvd unat (b_size b) - unat sz - 48"
    using assms(1,4) by (intro dvd_diff_nat) simp_all
  show thesis
  proof (cases bs)
    case Nil
    then have "split_block sz b bs = [b\<lparr>b_size := sz\<rparr>, sp]"
      using False by (simp add: split_block_def sp_def Let_def)
    then show thesis
      using assms(1,4) Nil ad sz dv r by (intro that [of "b\<lparr>b_size := sz\<rparr>" "[sp]"]) (simp_all add: sp_def)
  next
    case (Cons c cs)
    show thesis
    proof (cases "b_free c")
      case True
      define sq where "sq = sp\<lparr>b_size := b_size sp + (48 + b_size c)\<rparr>"
      have e: "split_block sz b bs = b\<lparr>b_size := sz\<rparr> # sq # cs"
        using False True Cons by (simp add: split_block_def sp_def sq_def Let_def)
      have c: "unat (b_addr c) = lo + 48 + unat (b_size b)" "16 dvd unat (b_size c)" "tiles (lo + 48 + unat (b_size b) + 48 + unat (b_size c)) cs hi"
        using assms(1) Cons by simp_all
      then have "lo + 48 + unat (b_size b) + 48 + unat (b_size c) \<le> hi"
        using tiles_le by blast
      moreover have 1: "unat (48 + b_size c) = 48 + unat (b_size c)"
        using calculation assms(2) by (subst unat_sum_less) simp_all
      moreover have "unat (b_size b - sz - 48 + (48 + b_size c)) = unat (b_size b - sz - 48) + unat (48 + b_size c)"
        using calculation assms(2) sz 1 by (intro unat_sum_less) linarith
      ultimately have "unat (b_size sq) = unat (b_size b) - unat sz + unat (b_size c)"
        unfolding sq_def sp_def block.select_convs block.update_convs using r sz by linarith
      moreover have "16 dvd unat (b_size b) - unat sz + unat (b_size c)"
        using assms(1,4) c(2) by simp
      ultimately have "tiles lo (b\<lparr>b_size := sz\<rparr> # sq # cs) hi"
        using assms(1,4) ad r c(3) by (simp add: sq_def sp_def) (simp add: add_ac)
      moreover have "coalesced (sq # cs)"
        using assms(5) Cons True by (cases cs) (simp_all add: sq_def)
      ultimately show thesis
        using e Cons True by (intro that [of "b\<lparr>b_size := sz\<rparr>" "sq # cs"]) (simp_all add: sq_def sp_def)
    next
      case f: False
      have "split_block sz b bs = b\<lparr>b_size := sz\<rparr> # sp # bs"
        using False f Cons by (simp add: split_block_def sp_def Let_def)
      moreover have "tiles lo (b\<lparr>b_size := sz\<rparr> # sp # bs) hi"
        using assms(1,4) ad sz dv r by (simp add: sp_def add_ac)
      ultimately show thesis
        using assms(5) Cons f by (intro that [of "b\<lparr>b_size := sz\<rparr>" "sp # bs"]) (simp_all add: sp_def)
    qed
  qed
qed


section \<open>Arenas\<close>

definition extent :: "arena \<Rightarrow> nat set" where
  "extent a = {unat (a_addr a)..<unat (a_addr a) + unat (a_mapped a)}"

definition arena_wf :: "arena \<Rightarrow> bool" where
  "arena_wf a \<longleftrightarrow> 0 < unat (a_addr a) \<and> 16 dvd unat (a_addr a) \<and> unat (a_addr a) + unat (a_mapped a) < 18446744073709551616 \<and>
     tiles (unat (a_addr a) + 32) (a_blocks a) (unat (a_addr a) + unat (a_mapped a)) \<and> a_blocks a \<noteq> []"

definition arena_ok :: "arena \<Rightarrow> bool" where
  "arena_ok a \<longleftrightarrow> arena_wf a \<and> coalesced (a_blocks a) \<and> unat (a_active a) = active_of (a_blocks a)"

definition arenas_wf :: "arena list \<Rightarrow> bool" where
  "arenas_wf as \<longleftrightarrow> (\<forall>a \<in> set as. arena_wf a) \<and> sorted_wrt (\<lambda>a b. extent a \<inter> extent b = {}) as"

definition used :: "arena list \<Rightarrow> block set" where
  "used as = (\<Union>a \<in> set as. used_of (a_blocks a))"

lemma arena_blockD:
  assumes "arena_wf a" "b \<in> set (a_blocks a)"
  shows "unat (a_addr a) + 32 \<le> unat (b_addr b)" "16 dvd unat (b_addr b)"
    "unat (b_addr b) + 48 + unat (b_size b) \<le> unat (a_addr a) + unat (a_mapped a)"
    "{unat (b_addr b)..<unat (b_addr b) + 48 + unat (b_size b)} \<subseteq> extent a"
proof -
  note t = tiles_block [of "unat (a_addr a) + 32" "a_blocks a" "unat (a_addr a) + unat (a_mapped a)" b]
  show "unat (a_addr a) + 32 \<le> unat (b_addr b)" "unat (b_addr b) + 48 + unat (b_size b) \<le> unat (a_addr a) + unat (a_mapped a)"
    using t assms by (auto simp: arena_wf_def)
  then show "{unat (b_addr b)..<unat (b_addr b) + 48 + unat (b_size b)} \<subseteq> extent a"
    by (auto simp: extent_def)
  show "16 dvd unat (b_addr b)"
    using assms tiles_aligned [of "unat (a_addr a) + 32" "a_blocks a" "unat (a_addr a) + unat (a_mapped a)" b]
    by (auto simp: arena_wf_def)
qed

text \<open>An arena among others, and the blocks of other arenas.\<close>

lemma other_arena:
  assumes "arenas_wf (xs @ a # ys)" "b \<in> set (a_blocks a)" "c \<in> set xs \<union> set ys"
  shows "\<not> has_block (b_addr b) c"
proof
  assume "has_block (b_addr b) c"
  then obtain d where d: "d \<in> set (a_blocks c)" "b_addr d = b_addr b"
    by (auto simp: has_block_def list_ex_iff)
  have "arena_wf a" "arena_wf c" "extent a \<inter> extent c = {}"
    using assms(1,3) by (auto simp: arenas_wf_def sorted_wrt_append)
  moreover have "unat (b_addr b) \<in> extent a" "unat (b_addr b) \<in> extent c"
    using arena_blockD(4) [OF \<open>arena_wf a\<close> assms(2)] arena_blockD(4) [OF \<open>arena_wf c\<close> d(1)] d(2) by auto
  ultimately show False
    by blast
qed

lemma in_arena_at:
  assumes "arenas p = xs @ a # ys" "arenas_wf (arenas p)" "b \<in> set (a_blocks a)" "b_addr b = addr"
  shows "in_arena addr f p = p\<lparr>arenas := xs @ f a # ys\<rparr>"
proof -
  have "has_block addr a"
    using assms(3,4) by (auto simp: has_block_def list_ex_iff)
  moreover have "map (\<lambda>a. if has_block addr a then f a else a) zs = zs" if "set zs \<subseteq> set xs \<union> set ys" for zs
    using that other_arena [of xs a ys b] assms by (intro map_idI) auto
  ultimately show ?thesis
    using assms(1) by (simp add: in_arena_def)
qed

text \<open>The effect of an update at a block, anywhere in the process.\<close>

lemma in_block_at:
  assumes "arenas p = xs @ a # ys" "arenas_wf (arenas p)" "a_blocks a = us @ b # vs" "b_addr b = addr"
  shows "in_block addr f p = p\<lparr>arenas := xs @ a\<lparr>a_blocks := us @ f b vs\<rparr> # ys\<rparr>"
proof -
  have "arena_wf a"
    using assms(1,2) by (simp add: arenas_wf_def)
  then have "upd_from addr f (a_blocks a) = us @ f b vs"
    using assms(3,4) by (auto simp: arena_wf_def dest!: tiles_front intro!: upd_from_at)
  then show ?thesis
    using assms by (simp add: in_block_def in_arena_at [OF assms(1,2), of b])
qed

text \<open>Replacing the blocks of an arena from one on keeps everything in order.\<close>

lemma arenas_wf_replace:
  assumes "arenas_wf (xs @ a # ys)" "arena_wf c" "extent c = extent a"
  shows "arenas_wf (xs @ c # ys)"
  using assms by (auto simp: arenas_wf_def sorted_wrt_append)

lemma tiles_replace:
  assumes "tiles lo (us @ b # vs) hi" "\<And>m. tiles m (b # vs) hi \<Longrightarrow> tiles m ws hi"
  shows "tiles lo (us @ ws) hi"
  using assms by (auto simp only: tiles_append)


section \<open>Rounding\<close>

lemma unat_and_not_mask:
  fixes x :: u64
  shows "unat (x AND NOT (mask k)) = unat x - unat x mod 2 ^ k"
proof -
  have "(x AND NOT (mask k)) + (x AND mask k) = x"
    by (subst disjunctive_add) (auto simp: bit_simps intro!: bit_eqI)
  then have "x AND NOT (mask k) = x - (x AND mask k)"
    by (metis add_diff_cancel_right')
  moreover have u: "unat (x AND mask k) = unat x mod 2 ^ k"
    using unsigned_take_bit_eq [of k x, where 'a = nat] by (simp only: take_bit_eq_mask [symmetric] take_bit_eq_mod [of k "unat x"])
  ultimately show ?thesis
    by (simp add: unat_sub word_le_nat_alt)
qed

text \<open>Rounding up to a power of two, away from the end of the address space.\<close>

lemma libc_align_up_mask:
  assumes "unat v + unat (mask k :: u64) < 18446744073709551616"
  shows "unat (libc_align_up v (mask k + 1)) = unat v + unat (mask k :: u64) - (unat v + unat (mask k :: u64)) mod 2 ^ k"
  using assms by (simp add: libc_align_up_def unat_and_not_mask unat_sum_less add.assoc)

lemma libc_align_up_bounds:
  assumes "unat v + unat (mask k :: u64) < 18446744073709551616" "unat (mask k :: u64) = 2 ^ k - 1"
  shows "unat v \<le> unat (libc_align_up v (mask k + 1))" "2 ^ k dvd unat (libc_align_up v (mask k + 1))"
    "unat (libc_align_up v (mask k + 1)) \<le> unat v + unat (mask k :: u64)"
proof -
  have "(unat v + unat (mask k :: u64)) mod 2 ^ k < 2 ^ k"
    by simp
  then have "(unat v + unat (mask k :: u64)) mod 2 ^ k \<le> unat (mask k :: u64)"
    unfolding assms(2) by linarith
  then show "unat v \<le> unat (libc_align_up v (mask k + 1))" "unat (libc_align_up v (mask k + 1)) \<le> unat v + unat (mask k :: u64)"
    unfolding libc_align_up_mask [OF assms(1)] by linarith+
  show "2 ^ k dvd unat (libc_align_up v (mask k + 1))"
    unfolding libc_align_up_mask [OF assms(1)] by (rule dvd_minus_mod)
qed

lemma align_16:
  assumes "unat v + 15 < 18446744073709551616"
  shows "unat v \<le> unat (libc_align_up v 16)" "16 dvd unat (libc_align_up v 16)" "unat (libc_align_up v 16) \<le> unat v + 15"
  using libc_align_up_bounds [of v 4] assms by (simp_all add: mask_eq_exp_minus_1)

lemma align_4096:
  assumes "unat v + 4095 < 18446744073709551616"
  shows "unat v \<le> unat (libc_align_up v 4096)" "4096 dvd unat (libc_align_up v 4096)"
  using libc_align_up_bounds [of v 12] assms by (simp_all add: mask_eq_exp_minus_1)

section \<open>New arenas\<close>

text \<open>
  What the allocator relies on: the kernel maps page-aligned memory in the lower half of the address
  space that is not in use (\<open>own w\<close>), and unmapping gives back at most what it is told to.
\<close>

definition maps_fresh :: "('w \<Rightarrow> nat set) \<Rightarrow> 'w narc \<Rightarrow> bool" where
  "maps_fresh own n \<longleftrightarrow>
     (\<forall>len fl w r w'. narc_map n len fl w = (r, w') \<longrightarrow>
        (if r_status r = 0
         then 0 < r_value r \<and> r_value r + uint len \<le> 9223372036854775807 \<and> 4096 dvd r_value r \<and>
           {nat (r_value r)..<nat (r_value r) + unat len} \<inter> own w = {} \<and>
           own w \<union> {nat (r_value r)..<nat (r_value r) + unat len} \<subseteq> own w'
         else own w \<subseteq> own w')) \<and>
     (\<forall>addr len w. own w - {unat addr..<unat addr + unat len} \<subseteq> own (snd (narc_unmap n addr len w)))"

lemma libc_mmap_anonymous:
  assumes "maps_fresh own n" "len \<noteq> 0" "libc_mmap n 0 len 3 0x22 (-1) 0 p = (v, q)"
  shows "arenas q = arenas p \<and> umem q = umem p \<and>
    (if v = MAP_FAILED then own (world p) \<subseteq> own (world q)
     else 0 < unat v \<and> unat v + unat len < 18446744073709551616 \<and> 4096 dvd unat v \<and>
       {unat v..<unat v + unat len} \<inter> own (world p) = {} \<and> own (world p) \<union> {unat v..<unat v + unat len} \<subseteq> own (world q))"
proof -
  obtain r w where m: "narc_map n len 3 (world p) = (r, w)"
    by fastforce
  have e: "libc_mmap n 0 len 3 0x22 (-1) 0 p =
      (let (r, p) = libc_result (r, w) p in (if r < 0 then MAP_FAILED else word_of_int r, p))"
    using assms(2) m by (simp add: libc_mmap_def)
  note F = assms(1) [unfolded maps_fresh_def, THEN conjunct1, rule_format, OF m]
  show ?thesis
  proof (cases "r_status r = 0")
    case False
    then have "(v, q) = (MAP_FAILED, p\<lparr>world := w, errno := status_errno (r_status r)\<rparr>)"
      using assms(3) e by (simp add: libc_result_def)
    then show ?thesis
      using F False by simp
  next
    case True
    then have f: "0 < r_value r" "r_value r + uint len \<le> 9223372036854775807" "4096 dvd r_value r"
      "{nat (r_value r)..<nat (r_value r) + unat len} \<inter> own (world p) = {}"
      "own (world p) \<union> {nat (r_value r)..<nat (r_value r) + unat len} \<subseteq> own w"
      using F by simp_all
    have "(v, q) = (word_of_int (r_value r), p\<lparr>world := w\<rparr>)"
      using f(1) True assms(3) e by (simp add: libc_result_def)
    then have v: "v = word_of_int (r_value r)" "q = p\<lparr>world := w\<rparr>"
      by simp_all
    have b: "0 \<le> r_value r" "r_value r < 18446744073709551616"
      using f(1,2) uint_ge_0 [of len] by linarith+
    have "uint v = r_value r mod 2 ^ 64"
      unfolding v(1) by (simp add: uint_word_of_int)
    then have uv: "uint v = r_value r"
      using b by simp
    then have u: "unat v = nat (r_value r)"
      by (simp only: unat_eq_nat_uint)
    have "nat (r_value r) + unat len < 18446744073709551616"
      using f(1,2) b(1) uint_ge_0 [of len] unfolding unat_eq_nat_uint by linarith
    moreover have "v \<noteq> MAP_FAILED"
      using uv f(1,2) uint_ge_0 [of len] by force
    moreover have "4096 dvd nat (r_value r)"
      using f(3) b(1) by (auto simp: dvd_def nat_mult_distrib)
    ultimately show ?thesis
      using f u v by simp
  qed
qed


section \<open>The allocator's operations\<close>

definition proc_ok :: "('w \<Rightarrow> nat set) \<Rightarrow> 'w narc \<Rightarrow> 'w process \<Rightarrow> bool" where
  "proc_ok own n p \<longleftrightarrow> maps_fresh own n \<and> arenas_wf (arenas p) \<and> (\<forall>a \<in> set (arenas p). arena_ok a) \<and>
     (\<forall>a \<in> set (arenas p). extent a \<subseteq> own (world p))"

lemma proc_ok_replace:
  assumes "proc_ok own n p" "arenas p = xs @ a # ys" "arena_ok c" "a_addr c = a_addr a" "a_mapped c = a_mapped a"
    "arenas q = xs @ c # ys" "world q = world p"
  shows "proc_ok own n q"
proof -
  have "extent c = extent a"
    by (simp add: extent_def assms(4,5))
  then show ?thesis
    using assms arenas_wf_replace [of xs a ys c] by (auto simp: proc_ok_def arena_ok_def)
qed

lemma arena_header_32: "arena_header_size = 32"
  by (simp add: arena_header_size_def libc_align_up_def)

lemma create_arena_ok:
  assumes "proc_ok own n p" "create_arena n sz p = (r, q)"
  shows "proc_ok own n q" "umem q = umem p"
    "r = None \<Longrightarrow> arenas q = arenas p"
    "r = Some a \<Longrightarrow> arenas q = a # arenas p \<and>
       (\<exists>b. a_blocks a = [b] \<and> b_free b \<and> b_addr b = first_block a \<and> sz \<le> b_size b)"
proof -
  define mp where "mp = (let q = libc_align_up (sz + 80) 4096 in if q > ARENA_SIZE then q else ARENA_SIZE)"
  obtain v p1 where m: "libc_mmap n 0 mp 3 0x22 (-1) 0 p = (v, p1)"
    by fastforce
  have none: "proc_ok own n q \<and> umem q = umem p \<and> r = None \<and> arenas q = arenas p"
    if "r = None" "q = p \<or> q = p1 \<and> v = MAP_FAILED"
  proof -
    have "mp \<noteq> 0"
      by (auto simp: mp_def Let_def)
    from libc_mmap_anonymous [of own, OF _ this m] show ?thesis
      using that assms(1) unfolding proc_ok_def by (elim disjE) (simp, metis order_trans)
  qed
  have "proc_ok own n q \<and> umem q = umem p \<and> (r = None \<longrightarrow> arenas q = arenas p) \<and>
      (r = Some a \<longrightarrow> arenas q = a # arenas p \<and> (\<exists>b. a_blocks a = [b] \<and> b_free b \<and> b_addr b = first_block a \<and> sz \<le> b_size b))"
  proof (cases "sz > SIZE_MAX - 80 - 4095 \<or> v = MAP_FAILED")
    case True
    then have "r = None \<and> (q = p \<or> q = p1 \<and> v = MAP_FAILED)"
      using assms(2) m by (auto simp: create_arena_def arena_header_32 Let_def mp_def split: if_splits)
    then show ?thesis
      using none by auto
  next
    case False
    define b where "b = \<lparr>b_addr = v + 32, b_size = mp - 80, b_free = True\<rparr>"
    define c where "c = \<lparr>a_addr = v, a_mapped = mp, a_active = 0, a_blocks = [b]\<rparr>"
    have r: "r = Some c" "q = p1\<lparr>arenas := c # arenas p1\<rparr>"
      using assms(2) m False by (simp_all add: create_arena_def arena_header_32 Let_def b_def c_def mp_def split: if_splits)
    have sz: "unat sz + 80 + 4095 < 18446744073709551616"
      using False by (simp add: word_le_nat_alt word_less_nat_alt)
    then have s80: "unat (sz + 80) = unat sz + 80"
      by (subst unat_sum_less) simp_all
    then have q: "unat sz + 80 \<le> unat (libc_align_up (sz + 80) 4096)" "4096 dvd unat (libc_align_up (sz + 80) 4096)"
      using align_4096 [of "sz + 80"] sz by simp_all
    have M: "unat sz + 80 \<le> unat mp" "4096 dvd unat mp" "mp \<noteq> 0"
      using q by (auto simp: mp_def Let_def word_less_nat_alt)
    have f: "arenas p1 = arenas p" "umem p1 = umem p" "0 < unat v" "unat v + unat mp < 18446744073709551616" "4096 dvd unat v"
      "{unat v..<unat v + unat mp} \<inter> own (world p) = {}" "own (world p) \<union> {unat v..<unat v + unat mp} \<subseteq> own (world p1)"
      using libc_mmap_anonymous [of own, OF _ M(3) m] assms(1) False by (simp_all add: proc_ok_def)
    have d: "16 dvd unat v" "16 dvd unat mp - 80"
      using f(5) M(1,2) by (auto intro!: dvd_diff_nat elim: dvd_trans [rotated])
    have u: "unat (v + 32) = unat v + 32" "unat (mp - 80) = unat mp - 80"
      using f(4) M(1) unat_sum_less [of v 32] unat_sub [of 80 mp] by (simp_all add: word_le_nat_alt)
    have "arena_ok c"
      using u d f M(1) by (simp add: arena_ok_def arena_wf_def c_def b_def)
    moreover have "extent c = {unat v..<unat v + unat mp}"
      by (simp add: extent_def c_def)
    moreover have "extent c \<inter> extent a = {}" if "a \<in> set (arenas p)" for a
      using that assms(1) f(6) calculation(2) unfolding proc_ok_def by blast
    moreover have "\<forall>a \<in> set (arenas p). extent a \<subseteq> own (world p1)" "extent c \<subseteq> own (world p1)"
      using assms(1) f(7) calculation(2) unfolding proc_ok_def by (metis Un_subset_iff order_trans)+
    ultimately have "proc_ok own n q"
      using assms(1) f(1) r(2) unfolding proc_ok_def arena_ok_def arenas_wf_def by auto
    moreover have "sz \<le> b_size b"
      unfolding b_def block.select_convs word_le_nat_alt u(2) using M(1) by linarith
    ultimately show ?thesis
      using r f by (auto simp: c_def b_def first_block_def arena_header_32)
  qed
  then show "proc_ok own n q" "umem q = umem p" "r = None \<Longrightarrow> arenas q = arenas p"
    "r = Some a \<Longrightarrow> arenas q = a # arenas p \<and>
       (\<exists>b. a_blocks a = [b] \<and> b_free b \<and> b_addr b = first_block a \<and> sz \<le> b_size b)"
    by blast+
qed

lemma tiles_length: "tiles lo bs hi \<Longrightarrow> lo + 48 * length bs \<le> hi"
  by (induction bs arbitrary: lo) fastforce+

lemma active_less:
  assumes "arena_wf a"
  shows "active_of (a_blocks a) + 1 < 18446744073709551616"
proof -
  have "active_of (a_blocks a) \<le> length (a_blocks a)"
    by (simp add: active_of_def)
  then show ?thesis
    using assms tiles_length [of "unat (a_addr a) + 32" "a_blocks a"] by (fastforce simp: arena_wf_def)
qed

lemma take_block:
  assumes "proc_ok own n p" "arenas p = xs @ a # ys" "a_blocks a = us @ b # vs" "b_free b" "sz \<le> b_size b" "16 dvd unat sz"
  defines "q \<equiv> in_arena (b_addr b) (\<lambda>a. a\<lparr>a_active := a_active a + 1\<rparr>) (set_free (b_addr b) False (in_block (b_addr b) (split_block sz) p))"
  shows "proc_ok own n q" "umem q = umem p"
    "\<exists>c. used (arenas q) = insert c (used (arenas p)) \<and> b_addr c = b_addr b \<and> sz \<le> b_size c \<and> \<not> b_free c"
proof -
  have wf: "arenas_wf (xs @ a # ys)" "arena_ok a" "arena_wf a"
    using assms(1,2) by (simp_all add: proc_ok_def arena_ok_def)
  define lo hi where "lo = unat (a_addr a) + 32" and "hi = unat (a_addr a) + unat (a_mapped a)"
  have hi: "hi < 18446744073709551616" "tiles lo (us @ b # vs) hi" "coalesced (us @ b # vs)"
    using wf(2) assms(3) by (simp_all add: arena_ok_def arena_wf_def lo_def hi_def)
  obtain m where m: "tiles lo us m" "tiles m (b # vs) hi"
    using hi(2) by (auto simp only: tiles_append)
  have cv: "coalesced vs"
    using hi(3) by (cases vs) (simp_all add: coalesced_append)
  obtain b' r where s: "split_block sz b vs = b' # r" "tiles m (b' # r) hi" "b_addr b' = b_addr b" "b_free b' = b_free b"
    "sz \<le> b_size b'" "used_of r = used_of vs" "active_of r = active_of vs" "coalesced r"
    using split_block_tiles [OF m(2) hi(1) assms(5,6) cv] by blast
  define c where "c = b'\<lparr>b_free := False\<rparr>"
  define a1 where "a1 = a\<lparr>a_blocks := us @ b' # r\<rparr>"
  define a2 where "a2 = a\<lparr>a_blocks := us @ c # r\<rparr>"
  define a3 where "a3 = a2\<lparr>a_active := a_active a2 + 1\<rparr>"
  have t: "tiles lo (us @ b' # r) hi" "tiles lo (us @ c # r) hi"
    using m(1) s(2) by (auto simp: tiles_append c_def)
  have w: "arena_wf a1" "arena_wf a2" "extent a1 = extent a" "extent a2 = extent a"
    using wf(3) t by (simp_all add: arena_wf_def a1_def a2_def extent_def lo_def hi_def)
  note ws = arenas_wf_replace [OF wf(1) w(1,3)] arenas_wf_replace [OF wf(1) w(2,4)]
  have 1: "in_block (b_addr b) (split_block sz) p = p\<lparr>arenas := xs @ a1 # ys\<rparr>"
    using in_block_at [OF assms(2) _ assms(3) refl] wf(1) assms(2) s(1) by (simp add: a1_def)
  have 2: "set_free (b_addr b) False (p\<lparr>arenas := xs @ a1 # ys\<rparr>) = p\<lparr>arenas := xs @ a2 # ys\<rparr>"
    unfolding set_free_def using in_block_at [of "p\<lparr>arenas := xs @ a1 # ys\<rparr>" xs a1 ys us b' r "b_addr b"] ws(1) s(3)
    by (simp add: a1_def a2_def c_def)
  have 3: "q = p\<lparr>arenas := xs @ a3 # ys\<rparr>"
    unfolding q_def 1 2
    using in_arena_at [of "p\<lparr>arenas := xs @ a2 # ys\<rparr>" xs a2 ys c "b_addr b"] ws(2) s(3)
    by (simp add: a2_def a3_def c_def)
  have "coalesced (c # r)"
    using s(8) by (cases r) (simp_all add: c_def)
  then have co: "coalesced (us @ c # r)"
    using hi(3) by (simp add: coalesced_append c_def)
  have "unat (a_active a + 1) = active_of (us @ c # r)"
    using active_less [OF wf(3)] wf(2) assms(3,4) s(7) by (simp add: unat_sum_less arena_ok_def c_def)
  then have "arena_ok a3"
    using w(2) co by (simp add: arena_ok_def arena_wf_def a2_def a3_def)
  then show "proc_ok own n q"
    using proc_ok_replace [OF assms(1,2), of a3 q] by (simp add: 3 a3_def a2_def)
  show "umem q = umem p"
    by (simp add: 3)
  have "used (arenas q) = insert c (used (arenas p))"
    using assms(3,4) s(6) by (auto simp: 3 assms(2) used_def a3_def a2_def c_def)
  then show "\<exists>c. used (arenas q) = insert c (used (arenas p)) \<and> b_addr c = b_addr b \<and> sz \<le> b_size c \<and> \<not> b_free c"
    using s(3,5) by (auto simp: c_def)
qed


lemma ivl_disjointD:
  fixes a :: nat
  assumes "{a..<b} \<inter> {c..<d} = {}" "a < b" "c < d"
  shows "b \<le> c \<or> d \<le> a"
proof (rule ccontr)
  assume "\<not> ?thesis"
  then have "max a c \<in> {a..<b} \<inter> {c..<d}"
    using assms(2,3) by simp
  then show False
    using assms(1) by blast
qed

lemma proc_ok_errno [simp]: "proc_ok own n (p\<lparr>errno := e\<rparr>) = proc_ok own n p"
  by (simp add: proc_ok_def)

text \<open>Two blocks are the same or have no byte in common, headers included.\<close>

lemma blocks_apart:
  assumes "arenas_wf as" "a \<in> set as" "b \<in> set (a_blocks a)" "c \<in> set as" "d \<in> set (a_blocks c)" "b \<noteq> d"
  shows "unat (b_addr b) + 48 + unat (b_size b) \<le> unat (b_addr d) \<or> unat (b_addr d) + 48 + unat (b_size d) \<le> unat (b_addr b)"
proof (cases "a = c")
  case True
  then show ?thesis
    using assms tiles_apart [of "unat (a_addr a) + 32" "a_blocks a" "unat (a_addr a) + unat (a_mapped a)" b d]
    by (simp add: arenas_wf_def arena_wf_def)
next
  case False
  have w: "arena_wf a" "arena_wf c"
    using assms(1,2,4) by (simp_all add: arenas_wf_def)
  obtain xs ys where "as = xs @ a # ys"
    using assms(2) by (meson split_list)
  then have "extent a \<inter> extent c = {}"
    using assms(1,4) False by (auto simp: arenas_wf_def sorted_wrt_append)
  then have "{unat (b_addr b)..<unat (b_addr b) + 48 + unat (b_size b)} \<inter> {unat (b_addr d)..<unat (b_addr d) + 48 + unat (b_size d)} = {}"
    using arena_blockD(4) [OF w(1) assms(3)] arena_blockD(4) [OF w(2) assms(5)] by blast
  then show ?thesis
    by (intro ivl_disjointD) simp_all
qed

lemma used_block: "b \<in> used as \<Longrightarrow> \<exists>a \<in> set as. b \<in> set (a_blocks a) \<and> \<not> b_free b"
  by (auto simp: used_def used_of_def)

lemma unat_payload:
  assumes "arenas_wf as" "a \<in> set as" "b \<in> set (a_blocks a)" "k \<le> unat (b_size b)"
  shows "unat (b_addr b + 48 + word_of_nat k) = unat (b_addr b) + 48 + k" "b_addr b + 48 \<noteq> 0" "16 dvd unat (b_addr b + 48)"
proof -
  have w: "arena_wf a"
    using assms(1,2) by (simp add: arenas_wf_def)
  then have l: "unat (b_addr b) + 48 + unat (b_size b) < 18446744073709551616"
    using arena_blockD(3) [OF w assms(3)] by (simp add: arena_wf_def)
  have s: "unat (b_addr b + word_of_nat (48 + j)) = unat (b_addr b) + (48 + j)" if "j \<le> unat (b_size b)" for j
    using l that by (intro unat_add_of_nat_u64) linarith
  show "unat (b_addr b + 48 + word_of_nat k) = unat (b_addr b) + 48 + k"
    using s [OF assms(4)] by (simp add: add_ac)
  have z: "unat (b_addr b + 48) = unat (b_addr b) + 48"
    using s [of 0] by simp
  then show "b_addr b + 48 \<noteq> 0"
    by (metis add_is_0 unat_0 zero_neq_numeral)
  show "16 dvd unat (b_addr b + 48)"
    using z arena_blockD(2) [OF w assms(3)] by simp
qed

lemma find_Some_set: "List.find P xs = Some x \<Longrightarrow> x \<in> set xs \<and> P x"
  by (auto simp: find_Some_iff)

lemma allocate_ok:
  assumes "proc_ok own n p" "allocator_allocate n sz p = (v, q)"
  shows "proc_ok own n q" "umem q = umem p"
    "v = 0 \<Longrightarrow> used (arenas q) = used (arenas p)"
    "v \<noteq> 0 \<Longrightarrow> \<exists>c. used (arenas q) = insert c (used (arenas p)) \<and> (\<forall>d \<in> used (arenas p). b_addr d \<noteq> b_addr c) \<and>
       v = b_addr c + 48 \<and> sz \<le> b_size c \<and> \<not> b_free c"
proof -
  let ?sz = "if sz = 0 then 1 else sz"
  have "proc_ok own n q \<and> umem q = umem p \<and> (v = 0 \<longrightarrow> used (arenas q) = used (arenas p)) \<and>
    (v \<noteq> 0 \<longrightarrow> (\<exists>c. used (arenas q) = insert c (used (arenas p)) \<and> (\<forall>d \<in> used (arenas p). b_addr d \<noteq> b_addr c) \<and>
       v = b_addr c + 48 \<and> sz \<le> b_size c \<and> \<not> b_free c))"
  proof (cases "?sz > SIZE_MAX - 15")
    case True
    then show ?thesis
      using assms by (auto simp: allocator_allocate_def Let_def split: if_splits)
  next
    case False
    define z where "z = libc_align_up ?sz 16"
    have "unat ?sz + 15 < 18446744073709551616"
      using False by (simp add: word_le_nat_alt word_less_nat_alt split: if_splits)
    then have z: "unat sz \<le> unat z" "16 dvd unat z"
      using align_16 [of ?sz] by (auto simp: z_def split: if_splits)
    define found where "found = (case find_block z p of
        Some b \<Rightarrow> (Some b, p)
      | None \<Rightarrow> (case create_arena n z p of
                   (None, p) \<Rightarrow> (None, p\<lparr>errno := ENOMEM\<rparr>)
                 | (Some a, p) \<Rightarrow> (Some (first_block a), p)))"
    obtain r p1 where f: "found = (r, p1)"
      by fastforce
    have vq: "(v, q) = (case r of None \<Rightarrow> (0, p1)
        | Some b \<Rightarrow> (b + 48, in_arena b (\<lambda>a. a\<lparr>a_active := a_active a + 1\<rparr>) (set_free b False (in_block b (split_block z) p1))))"
      using assms(2) False f unfolding allocator_allocate_def Let_def z_def [symmetric] found_def [symmetric] by simp
    have "proc_ok own n p1 \<and> umem p1 = umem p \<and> used (arenas p1) = used (arenas p) \<and>
      (\<forall>bl. r = Some bl \<longrightarrow> (\<exists>a b. a \<in> set (arenas p1) \<and> b \<in> set (a_blocks a) \<and> b_free b \<and> z \<le> b_size b \<and> b_addr b = bl))"
    proof (cases "find_block z p")
      case (Some bl)
      then obtain b where "List.find (\<lambda>b. b_free b \<and> z \<le> b_size b) (concat (map a_blocks (arenas p))) = Some b" "bl = b_addr b"
        by (auto simp: find_block_def)
      then show ?thesis
        using find_Some_set [of _ _ b] Some f assms(1) by (fastforce simp: found_def)
    next
      case None
      obtain ra p2 where c: "create_arena n z p = (ra, p2)"
        by fastforce
      note ca = create_arena_ok [OF assms(1) c]
      show ?thesis
      proof (cases ra)
        case None
        then show ?thesis
          using ca(1-3) c f \<open>find_block z p = None\<close> by (auto simp: found_def)
      next
        case (Some a)
        then show ?thesis
          using ca(1,2) ca(4) [OF Some] c f None by (auto simp: found_def used_def)
      qed
    qed
    then have p1: "proc_ok own n p1 \<and> umem p1 = umem p \<and> used (arenas p1) = used (arenas p)"
      "\<And>bl. r = Some bl \<Longrightarrow> \<exists>a b. a \<in> set (arenas p1) \<and> b \<in> set (a_blocks a) \<and> b_free b \<and> z \<le> b_size b \<and> b_addr b = bl"
      by blast+
    show ?thesis
    proof (cases r)
      case None
      then show ?thesis
        using vq p1(1) by simp
    next
      case (Some bl)
      then obtain a b where b: "a \<in> set (arenas p1)" "b \<in> set (a_blocks a)" "b_free b" "z \<le> b_size b" "b_addr b = bl"
        using p1(2) by blast
      obtain xs ys us vs where sp: "arenas p1 = xs @ a # ys" "a_blocks a = us @ b # vs"
        using b(1,2) by (meson split_list)
      have q: "v = bl + 48" "q = in_arena bl (\<lambda>a. a\<lparr>a_active := a_active a + 1\<rparr>) (set_free bl False (in_block bl (split_block z) p1))"
        using vq Some by simp_all
      note t = take_block [OF conjunct1 [OF p1(1)] sp b(3,4) z(2), unfolded b(5), folded q(2)]
      have wf: "arenas_wf (arenas p1)"
        using p1(1) by (simp add: proc_ok_def)
      have "b_addr d \<noteq> bl" if d: "d \<in> used (arenas p)" for d
      proof -
        obtain e where e: "e \<in> set (arenas p1)" "d \<in> set (a_blocks e)" "\<not> b_free d"
          using used_block [of d "arenas p1"] d p1(1) by auto
        then show ?thesis
          using blocks_apart [OF wf b(1,2) e(1,2)] b(3,5) by force
      qed
      moreover have "bl + 48 \<noteq> 0"
        using unat_payload(2) [OF wf b(1,2) order_refl] b(5) by simp
      moreover have "sz \<le> b_size c" if "z \<le> b_size c" for c
        using z(1) that by (simp add: word_le_nat_alt)
      ultimately show ?thesis
        using t p1(1) q(1) by fastforce
    qed
  qed
  then show "proc_ok own n q" "umem q = umem p" "v = 0 \<Longrightarrow> used (arenas q) = used (arenas p)"
    "v \<noteq> 0 \<Longrightarrow> \<exists>c. used (arenas q) = insert c (used (arenas p)) \<and> (\<forall>d \<in> used (arenas p). b_addr d \<noteq> b_addr c) \<and>
       v = b_addr c + 48 \<and> sz \<le> b_size c \<and> \<not> b_free c"
    by blast+
qed


text \<open>The blocks of an arena after one of them is released.\<close>

definition released :: "block list \<Rightarrow> block \<Rightarrow> block list \<Rightarrow> block list" where
  "released us b vs =
     (let m = merge_next (b\<lparr>b_free := True\<rparr>) vs
      in if us \<noteq> [] \<and> b_free (last us) then butlast us @ merge_next (last us) m else us @ m)"

lemma released_ok:
  assumes "tiles lo (us @ b # vs) hi" "hi < 18446744073709551616" "coalesced (us @ b # vs)" "\<not> b_free b"
  shows "tiles lo (released us b vs) hi" "coalesced (released us b vs)"
    "active_of (released us b vs) + 1 = active_of (us @ b # vs)"
    "used_of (released us b vs) = used_of (us @ b # vs) - {b}" "released us b vs \<noteq> []"
proof -
  define b' where "b' = b\<lparr>b_free := True\<rparr>"
  obtain m where m: "tiles lo us m" "tiles m (b # vs) hi"
    using assms(1) by (auto simp only: tiles_append)
  have tb: "tiles m (b' # vs) hi" "b_free b'"
    using m(2) by (simp_all add: b'_def)
  have cv: "coalesced vs" and cu: "coalesced us"
    using assms(3) by (cases vs; simp add: coalesced_append)+
  note M = merge_next_tiles [OF tb(1) assms(2)]
  have "b \<notin> set us"
    using tiles_front [OF assms(1)] by blast
  moreover have "b \<notin> set vs"
    using tiles_block(1) [of "m + 48 + unat (b_size b)" vs hi b] m(2) by auto
  ultimately have u: "used_of (us @ b' # vs) = used_of (us @ b # vs) - {b}"
    using assms(4) tb(2) by (auto simp: used_of_def)
  have ac: "active_of (us @ b' # vs) + 1 = active_of (us @ b # vs)"
    using assms(4) by (simp add: b'_def)
  have "tiles lo (released us b vs) hi \<and> coalesced (released us b vs) \<and>
    active_of (released us b vs) = active_of (us @ b' # vs) \<and>
    used_of (released us b vs) = used_of (us @ b' # vs) \<and> released us b vs \<noteq> []"
  proof (cases "us \<noteq> [] \<and> b_free (last us)")
    case False
    then have "released us b vs = us @ merge_next b' vs"
      unfolding released_def b'_def Let_def by presburger
    then show ?thesis
      using False M(1-5) m(1) tb(2) cu cv by (auto simp: tiles_append coalesced_append)
  next
    case True
    define d us0 where "d = last us" and "us0 = butlast us"
    have us: "us = us0 @ [d]" "b_free d"
      using True by (simp_all add: d_def us0_def)
    obtain m0 where m0: "tiles lo us0 m0" "tiles m0 [d] m"
      using m(1) unfolding us(1) tiles_append by blast
    then have "tiles m0 (d # merge_next b' vs) hi"
      using M(1) by simp
    note D = merge_next_tiles [OF this assms(2)]
    have "released us b vs = us0 @ merge_next d (merge_next b' vs)"
      using us unfolding released_def b'_def Let_def by simp
    moreover have "coalesced (us0 @ merge_next d (merge_next b' vs))"
      using D(4,5) M(4) cv cu by (auto simp: us(1) coalesced_append)
    ultimately show ?thesis
      using D M m0(1) tb(2) us(2) by (auto simp: us(1) tiles_append)
  qed
  then show "tiles lo (released us b vs) hi" "coalesced (released us b vs)"
    "active_of (released us b vs) + 1 = active_of (us @ b # vs)"
    "used_of (released us b vs) = used_of (us @ b # vs) - {b}" "released us b vs \<noteq> []"
    using u ac by simp_all
qed

lemma block_before_at:
  assumes "tiles lo (us @ b # vs) hi"
  shows "block_before (b_addr b) (us @ b # vs) = (if us = [] then None else Some (last us))"
proof -
  have "block_before x (us @ b # vs) = (if us = [] then block_before x (b # vs) else Some (last us))"
    if "x \<notin> b_addr ` set us" "b_addr b = x" for x
    using that by (induction us rule: induct_list012) auto
  moreover have "block_before (b_addr b) (b # vs) = None"
  proof -
    obtain m where "tiles m (b # vs) hi"
      using assms by (auto simp only: tiles_append)
    then have "b_addr b \<notin> b_addr ` set vs"
      using tiles_block(1) [of "m + 48 + unat (b_size b)" vs hi] by fastforce
    then have "block_before (b_addr b) (c # vs) = None" for c
      by (induction vs arbitrary: c) auto
    then show ?thesis .
  qed
  ultimately show ?thesis
    using tiles_front [OF assms] by simp
qed

lemma arena_of_block:
  assumes "arenas p = xs @ a # ys" "arenas_wf (arenas p)" "b \<in> set (a_blocks a)"
  shows "find_arena (b_addr b) p = Some a" "filter (\<lambda>c. a_addr c \<noteq> a_addr a) (arenas p) = xs @ ys"
proof -
  have "\<not> has_block (b_addr b) c" if "c \<in> set xs" for c
    using other_arena [of xs a ys b c] assms that by simp
  moreover have "has_block (b_addr b) a"
    using assms(3) by (auto simp: has_block_def list_ex_iff)
  ultimately show "find_arena (b_addr b) p = Some a"
    unfolding find_arena_def assms(1) by (induction xs) auto
  have "a_addr c \<noteq> a_addr a" if "c \<in> set xs \<union> set ys" for c
  proof -
    have w: "arena_wf c" "arena_wf a" "extent c \<inter> extent a = {}"
      using assms(1,2) that by (auto simp: arenas_wf_def sorted_wrt_append)
    have "unat (a_addr e) \<in> extent e" if "arena_wf e" for e
    proof -
      have "unat (a_addr e) + 32 \<le> unat (a_addr e) + unat (a_mapped e)"
        using that tiles_le [of "unat (a_addr e) + 32"] unfolding arena_wf_def by blast
      then show ?thesis
        by (simp add: extent_def)
    qed
    then show ?thesis
      using w by (metis disjoint_iff)
  qed
  then show "filter (\<lambda>c. a_addr c \<noteq> a_addr a) (arenas p) = xs @ ys"
    unfolding assms(1) by (simp add: filter_id_conv)
qed


lemma release_ok:
  assumes "proc_ok own n p" "b \<in> used (arenas p)"
  defines "q \<equiv> allocator_release n (b_addr b + 48) p"
  shows "proc_ok own n q" "umem q = umem p" "used (arenas q) = used (arenas p) - {b}"
proof -
  obtain a where a: "a \<in> set (arenas p)" "b \<in> set (a_blocks a)" "\<not> b_free b"
    using used_block [OF assms(2)] by blast
  obtain xs ys us vs where sp: "arenas p = xs @ a # ys" "a_blocks a = us @ b # vs"
    using a(1,2) by (meson split_list)
  have wf: "arenas_wf (arenas p)" "arenas_wf (xs @ a # ys)" "arena_ok a" "arena_wf a"
    using assms(1) sp(1) by (simp_all add: proc_ok_def arena_ok_def)
  define lo hi where "lo = unat (a_addr a) + 32" and "hi = unat (a_addr a) + unat (a_mapped a)"
  have hi: "hi < 18446744073709551616" "tiles lo (us @ b # vs) hi" "coalesced (us @ b # vs)"
    using wf(3) sp(2) by (simp_all add: arena_ok_def arena_wf_def lo_def hi_def)
  note R = released_ok [OF hi(2,1,3) a(3)]
  define b' where "b' = b\<lparr>b_free := True\<rparr>"
  define act where "act = (if a_active a \<noteq> 0 then a_active a - 1 else 0)"
  define at where "at = (\<lambda>bs. a\<lparr>a_active := act, a_blocks := bs\<rparr>)"
  have wfr: "arenas_wf (xs @ c # ys)" if "c = at bs \<or> c = a\<lparr>a_blocks := bs\<rparr>" "tiles lo bs hi" "bs \<noteq> []" for c bs
  proof -
    have "arena_wf c" "extent c = extent a"
      using that wf(4) by (auto simp: at_def arena_wf_def extent_def lo_def hi_def)
    then show ?thesis
      using arenas_wf_replace [OF wf(2)] by blast
  qed
  obtain m where m: "tiles lo us m" "tiles m (b # vs) hi"
    using hi(2) by (auto simp only: tiles_append)
  have t1: "tiles lo (us @ b' # vs) hi" and tb: "tiles m (b' # vs) hi"
    using m by (auto simp: tiles_append b'_def)
  note M = merge_next_tiles [OF tb hi(1)]
  have t2: "tiles lo (us @ merge_next b' vs) hi"
    using m(1) M(1) by (auto simp: tiles_append)
  have 1: "set_free (b_addr b) True p = p\<lparr>arenas := xs @ a\<lparr>a_blocks := us @ b' # vs\<rparr> # ys\<rparr>"
    unfolding set_free_def using in_block_at [OF sp(1) wf(1) sp(2) refl] by (simp add: b'_def)
  have 2: "in_arena (b_addr b) (\<lambda>a. if a_active a \<noteq> 0 then a\<lparr>a_active := a_active a - 1\<rparr> else a)
      (p\<lparr>arenas := xs @ a\<lparr>a_blocks := us @ b' # vs\<rparr> # ys\<rparr>) = p\<lparr>arenas := xs @ at (us @ b' # vs) # ys\<rparr>"
    using in_arena_at [of "p\<lparr>arenas := xs @ a\<lparr>a_blocks := us @ b' # vs\<rparr> # ys\<rparr>" xs "a\<lparr>a_blocks := us @ b' # vs\<rparr>" ys b' "b_addr b"]
      wfr [OF disjI2 [OF refl] t1] by (simp add: b'_def at_def act_def)
  have 3: "in_block (b_addr b) merge_next (p\<lparr>arenas := xs @ at (us @ b' # vs) # ys\<rparr>) =
      p\<lparr>arenas := xs @ at (us @ merge_next b' vs) # ys\<rparr>"
    using in_block_at [of "p\<lparr>arenas := xs @ at (us @ b' # vs) # ys\<rparr>" xs "at (us @ b' # vs)" ys us b' vs "b_addr b"]
      wfr [OF disjI1 [OF refl] t1] by (simp add: b'_def at_def)
  have 4: "(case block_before (b_addr b) (a_blocks a) of
        None \<Rightarrow> p\<lparr>arenas := xs @ at (us @ merge_next b' vs) # ys\<rparr>
      | Some before \<Rightarrow> if b_free before then in_block (b_addr before) merge_next (p\<lparr>arenas := xs @ at (us @ merge_next b' vs) # ys\<rparr>)
          else p\<lparr>arenas := xs @ at (us @ merge_next b' vs) # ys\<rparr>) = p\<lparr>arenas := xs @ at (released us b vs) # ys\<rparr>"
  proof (cases "us \<noteq> [] \<and> b_free (last us)")
    case False
    then show ?thesis
      unfolding sp(2) block_before_at [OF hi(2)] released_def b'_def Let_def by auto
  next
    case True
    then have us: "us = butlast us @ [last us]"
      by simp
    then have "in_block (b_addr (last us)) merge_next (p\<lparr>arenas := xs @ at (us @ merge_next b' vs) # ys\<rparr>) =
        p\<lparr>arenas := xs @ at (butlast us @ merge_next (last us) (merge_next b' vs)) # ys\<rparr>"
      using in_block_at [of "p\<lparr>arenas := xs @ at (us @ merge_next b' vs) # ys\<rparr>" xs "at (us @ merge_next b' vs)" ys "butlast us"
          "last us" "merge_next b' vs" "b_addr (last us)" merge_next]
        wfr [OF disjI1 [OF refl] t2] M(5) by (simp add: at_def)
    then show ?thesis
      using True unfolding sp(2) block_before_at [OF hi(2)] released_def b'_def Let_def by simp
  qed
  define p4 where "p4 = p\<lparr>arenas := xs @ at (released us b vs) # ys\<rparr>"
  have "b_addr b + 48 \<noteq> 0"
    using unat_payload(2) [OF wf(1) a(1,2) order_refl] .
  then have q: "q = (if act \<noteq> 0 \<or> length (arenas p4) = 1 then p4
      else snd (libc_munmap n (a_addr a) (a_mapped a) (p4\<lparr>arenas := filter (\<lambda>c. a_addr c \<noteq> a_addr a) (arenas p4)\<rparr>)))"
    unfolding q_def allocator_release_def Let_def add_diff_cancel_right' arena_of_block(1) [OF sp(1) wf(1) a(2)] option.case
      1 2 3 4 p4_def [symmetric] act_def [symmetric] by (rule if_not_P)
  have ac: "unat (a_active a) = active_of (released us b vs) + 1"
    using wf(3) R(3) sp(2) by (simp add: arena_ok_def)
  then have "a_active a \<noteq> 0"
    by auto
  then have act: "unat act = active_of (released us b vs)"
    using ac by (simp add: act_def unat_minus_one)
  have ok: "arena_ok (at (released us b vs))"
    using wf(4) R(1,2,5) act by (simp add: arena_ok_def arena_wf_def at_def lo_def hi_def)
  have p4: "proc_ok own n p4" "umem p4 = umem p"
    using proc_ok_replace [OF assms(1) sp(1) ok, of p4] by (simp_all add: at_def p4_def)
  have fr: "b \<notin> used_of (a_blocks c)" if "c \<in> set xs \<union> set ys" for c
    using other_arena [OF wf(2) a(2) that] by (auto simp: has_block_def list_ex_iff used_of_def)
  have u4: "used (arenas p4) = used (arenas p) - {b}"
    using R(4) fr by (auto simp: p4_def sp used_def at_def)
  have "proc_ok own n q \<and> umem q = umem p \<and> used (arenas q) = used (arenas p) - {b}"
  proof (cases "act \<noteq> 0 \<or> length (arenas p4) = 1")
    case True
    then show ?thesis
      using q p4 u4 by simp
  next
    case False
    define e where "e = at (released us b vs)"
    have e: "a_addr a = a_addr e" "extent e = extent a" "used_of (a_blocks e) = {}" "released us b vs \<noteq> []"
      using R(5) False act by (auto simp: e_def at_def extent_def active_of_def used_of_def filter_empty_conv)
    have fl: "filter (\<lambda>c. a_addr c \<noteq> a_addr a) (arenas p4) = xs @ ys"
    proof -
      have "hd (released us b vs) \<in> set (a_blocks e)"
        using e(4) by (simp add: e_def at_def)
      then show ?thesis
        using arena_of_block(2) [of p4 xs e ys] p4(1) e(1) by (simp add: p4_def e_def proc_ok_def)
    qed
    obtain r w where um: "narc_unmap n (a_addr a) (a_mapped a) (world p) = (r, w)"
      by fastforce
    have q2: "arenas q = xs @ ys" "umem q = umem p" "world q = w"
      using q um unfolding if_not_P [OF False] fl by (simp_all add: libc_munmap_def split_def p4_def Let_def)
    have "own (world p) - extent a \<subseteq> own w"
      using assms(1) um unfolding proc_ok_def maps_fresh_def extent_def by (metis snd_conv)
    moreover have "extent c \<inter> extent a = {}" if "c \<in> set xs \<union> set ys" for c
      using wf(2) that by (auto simp: arenas_wf_def sorted_wrt_append)
    ultimately have "\<forall>c \<in> set (xs @ ys). extent c \<subseteq> own w"
      using assms(1) sp(1) unfolding proc_ok_def by (auto simp: disjoint_iff subset_iff)
    moreover have "arenas_wf (xs @ ys)"
      using wf(2) by (auto simp: arenas_wf_def sorted_wrt_append)
    ultimately have "proc_ok own n q"
      using assms(1) sp(1) q2 by (auto simp: proc_ok_def)
    moreover have "used (arenas q) = used (arenas p4)"
      using e(3) q2(1) by (simp add: used_def p4_def e_def Un_commute)
    ultimately show ?thesis
      using q2(2) u4 by simp
  qed
  then show "proc_ok own n q" "umem q = umem p" "used (arenas q) = used (arenas p) - {b}"
    by blast+
qed


section \<open>The allocator provides the interface\<close>

text \<open>\<open>L\<close> gives the objects in use with their sizes.\<close>

definition libc_ok :: "('w \<Rightarrow> nat set) \<Rightarrow> 'w narc \<Rightarrow> 'w process \<Rightarrow> (u64 \<Rightarrow> nat option) \<Rightarrow> bool" where
  "libc_ok own n p L \<longleftrightarrow> proc_ok own n p \<and>
     (\<forall>v c. L v = Some c \<longleftrightarrow> (\<exists>b \<in> used (arenas p). v = b_addr b + 48 \<and> c = unat (b_size b)))"

lemma libc_okD:
  assumes "libc_ok own n p L" "L v = Some c"
  obtains a b where "a \<in> set (arenas p)" "b \<in> set (a_blocks a)" "b \<in> used (arenas p)" "v = b_addr b + 48" "c = unat (b_size b)"
    "arenas_wf (arenas p)"
  using assms used_block unfolding libc_ok_def proc_ok_def by metis

lemma libc_apart:
  assumes "libc_ok own n p L" "L v = Some c" "L w = Some d" "v \<noteq> w" "i < c" "j < d"
  shows "v + word_of_nat i \<noteq> w + word_of_nat j"
proof
  assume eq: "v + word_of_nat i = w + word_of_nat j"
  obtain a b where b: "a \<in> set (arenas p)" "b \<in> set (a_blocks a)" "v = b_addr b + 48" "c = unat (b_size b)" "arenas_wf (arenas p)"
    using libc_okD [OF assms(1,2)] by metis
  obtain e f where f: "e \<in> set (arenas p)" "f \<in> set (a_blocks e)" "w = b_addr f + 48" "d = unat (b_size f)"
    using libc_okD [OF assms(1,3)] by metis
  have "unat (v + word_of_nat i) = unat (b_addr b) + 48 + i" "unat (w + word_of_nat j) = unat (b_addr f) + 48 + j"
    using unat_payload(1) [OF b(5,1,2)] unat_payload(1) [OF b(5) f(1,2)] b(3,4) f(3,4) assms(5,6) by simp_all
  moreover have "b \<noteq> f"
    using b(3) f(3) assms(4) by blast
  ultimately show False
    using blocks_apart [OF b(5,1,2) f(1,2)] eq b(4) f(4) assms(5,6) by fastforce
qed

lemma libc_malloc_ok:
  assumes "libc_ok own n p L" "libc_malloc n sz p = (v, q)"
  shows "umem q = umem p" "v = 0 \<Longrightarrow> libc_ok own n q L"
    "v \<noteq> 0 \<Longrightarrow> L v = None \<and> (\<exists>c. unat sz \<le> c \<and> libc_ok own n q (L(v \<mapsto> c)))"
proof -
  have p: "proc_ok own n p" and L: "\<And>v c. L v = Some c \<longleftrightarrow> (\<exists>b \<in> used (arenas p). v = b_addr b + 48 \<and> c = unat (b_size b))"
    using assms(1) by (auto simp: libc_ok_def)
  note A = allocate_ok [OF p assms(2) [unfolded libc_malloc_def]]
  show "umem q = umem p" "v = 0 \<Longrightarrow> libc_ok own n q L"
    using A(1-3) L by (simp_all add: libc_ok_def)
  assume "v \<noteq> 0"
  then obtain c where c: "used (arenas q) = insert c (used (arenas p))" "\<forall>d \<in> used (arenas p). b_addr d \<noteq> b_addr c"
    "v = b_addr c + 48" "sz \<le> b_size c"
    using A(4) by blast
  have "L v = None"
    using c(2,3) L [of v] by (cases "L v") auto
  moreover have "libc_ok own n q (L(v \<mapsto> unat (b_size c)))"
    using A(1) L c(1-3) by (auto simp: libc_ok_def)
  ultimately show "L v = None \<and> (\<exists>c. unat sz \<le> c \<and> libc_ok own n q (L(v \<mapsto> c)))"
    using c(4) by (auto simp: word_le_nat_alt)
qed

lemma libc_free_ok:
  assumes "libc_ok own n p L" "L v = Some c"
  shows "libc_ok own n (libc_free n v p) (L(v := None))" "umem (libc_free n v p) = umem p"
proof -
  have p: "proc_ok own n p" and L: "\<And>v c. L v = Some c \<longleftrightarrow> (\<exists>b \<in> used (arenas p). v = b_addr b + 48 \<and> c = unat (b_size b))"
    using assms(1) by (auto simp: libc_ok_def)
  obtain b where b: "b \<in> used (arenas p)" "v = b_addr b + 48"
    using L assms(2) by blast
  note R = release_ok [OF p b(1), folded b(2), folded libc_free_def]
  show "umem (libc_free n v p) = umem p"
    by (rule R(2))
  have "d = b" if d: "d \<in> used (arenas p)" "b_addr d = b_addr b" for d
  proof -
    obtain a where a: "a \<in> set (arenas p)" "b \<in> set (a_blocks a)"
      using used_block [OF b(1)] by blast
    obtain e where e: "e \<in> set (arenas p)" "d \<in> set (a_blocks e)"
      using used_block [OF d(1)] by blast
    have "arenas_wf (arenas p)"
      using p by (simp add: proc_ok_def)
    from blocks_apart [OF this a e] show ?thesis
      unfolding d(2) by (cases "b = d") simp_all
  qed
  then have "(L(v := None)) u = Some e \<longleftrightarrow> (\<exists>d \<in> used (arenas p) - {b}. u = b_addr d + 48 \<and> e = unat (b_size d))" for u e
    using L [of u e] b by (cases "u = v") auto
  then show "libc_ok own n (libc_free n v p) (L(v := None))"
    using R(1,3) by (simp add: libc_ok_def)
qed

interpretation libc: object_allocator "libc_malloc n" "libc_free n" "libc_ok own n" "\<lambda>c. c" umem SIZE_MAX for own n
proof
  fix p q :: "'a process" and L v w c d i j and sz :: u64
  show "libc_ok own n p L \<Longrightarrow> L v = Some c \<Longrightarrow> v \<noteq> 0"
    using unat_payload(2) by (metis libc_okD order_refl)
  show "libc_ok own n p L \<Longrightarrow> L v = Some c \<Longrightarrow> L w = Some d \<Longrightarrow> v \<noteq> w \<Longrightarrow> i < c \<Longrightarrow> j < d \<Longrightarrow>
      v + word_of_nat i \<noteq> w + word_of_nat j"
    by (rule libc_apart)
qed (use libc_malloc_ok libc_free_ok in fastforce)+


section \<open>Resizing\<close>

lemma block_unique:
  assumes "arenas_wf as" "a \<in> set as" "b \<in> set (a_blocks a)" "c \<in> set as" "d \<in> set (a_blocks c)" "b_addr d = b_addr b"
  shows "d = b"
  using blocks_apart [OF assms(1-5)] unfolding assms(6) by (cases "b = d") simp_all

lemma allocator_size_block:
  assumes "arenas_wf (arenas p)" "a \<in> set (arenas p)" "b \<in> set (a_blocks a)"
  shows "allocator_size (b_addr b + 48) p = b_size b"
proof -
  have "List.find (\<lambda>c. b_addr c = b_addr b) (concat (map a_blocks (arenas p))) \<noteq> None"
    using assms(2,3) by (auto simp: find_None_iff)
  then obtain d where d: "List.find (\<lambda>c. b_addr c = b_addr b) (concat (map a_blocks (arenas p))) = Some d"
    by blast
  then have "d = b"
    using find_Some_set [OF d] block_unique [OF assms] by auto
  then show ?thesis
    using d by (simp add: allocator_size_def find_at_def)
qed

lemma drop_others: "\<forall>c \<in> set bs. b_addr c \<noteq> x \<Longrightarrow> tl (dropWhile (\<lambda>c. b_addr c \<noteq> x) bs) = []"
  by (induction bs) auto

lemma blocks_behind:
  assumes "arenas p = xs @ a # ys" "arenas_wf (arenas p)" "a_blocks a = us @ b # vs"
  shows "concat (map (\<lambda>a. tl (dropWhile (\<lambda>c. b_addr c \<noteq> b_addr b) (a_blocks a))) (arenas p)) = vs"
proof -
  have "tl (dropWhile (\<lambda>c. b_addr c \<noteq> b_addr b) (a_blocks c)) = []" if "c \<in> set xs \<union> set ys" for c
    using other_arena [of xs a ys b c] assms that by (intro drop_others) (auto simp: has_block_def list_ex_iff)
  then have o: "concat (map (\<lambda>a. tl (dropWhile (\<lambda>c. b_addr c \<noteq> b_addr b) (a_blocks a))) zs) = []" if "set zs \<subseteq> set xs \<union> set ys" for zs
    using that by (induction zs) auto
  have "arena_wf a"
    using assms(1,2) by (simp add: arenas_wf_def)
  then have "b_addr b \<notin> b_addr ` set us"
    using tiles_front assms(3) by (fastforce simp: arena_wf_def)
  then have "dropWhile (\<lambda>c. b_addr c \<noteq> b_addr b) (a_blocks a) = b # vs"
    unfolding assms(3) by (induction us) auto
  moreover have "concat (map (\<lambda>a. tl (dropWhile (\<lambda>c. b_addr c \<noteq> b_addr b) (a_blocks a))) xs) = []"
    "concat (map (\<lambda>a. tl (dropWhile (\<lambda>c. b_addr c \<noteq> b_addr b) (a_blocks a))) ys) = []"
    by (rule o; blast)+
  ultimately show ?thesis
    by (simp only: assms(1) map_append concat_append list.map concat.simps list.sel append_Nil append_Nil2)
qed

text \<open>Putting a block in use of another size in the place of one keeps everything else.\<close>

lemma replace_block:
  assumes "proc_ok own n p" "arenas p = xs @ a # ys" "a_blocks a = us @ b # vs" "\<not> b_free b"
    "q = p\<lparr>arenas := xs @ a\<lparr>a_blocks := us @ c # r\<rparr> # ys\<rparr>" "\<not> b_free c" "coalesced r" "used_of r = used_of vs"
    "active_of r = active_of vs" "\<And>m. tiles m (b # vs) (unat (a_addr a) + unat (a_mapped a)) \<Longrightarrow> tiles m (c # r) (unat (a_addr a) + unat (a_mapped a))"
  shows "proc_ok own n q \<and> umem q = umem p \<and> used (arenas q) = insert c (used (arenas p) - {b})"
proof -
  have wf: "arena_ok a" "arenas_wf (xs @ a # ys)"
    using assms(1,2) by (simp_all add: proc_ok_def)
  have t: "tiles (unat (a_addr a) + 32) (us @ b # vs) (unat (a_addr a) + unat (a_mapped a))"
    using wf(1) assms(3) by (simp add: arena_ok_def arena_wf_def)
  then have "tiles (unat (a_addr a) + 32) (us @ c # r) (unat (a_addr a) + unat (a_mapped a))"
    using assms(10) by (rule tiles_replace)
  moreover have "coalesced (c # r)"
    using assms(6,7) by (cases r) simp_all
  ultimately have "arena_ok (a\<lparr>a_blocks := us @ c # r\<rparr>)"
    using wf(1) assms(3,4,6,9) by (simp add: arena_ok_def arena_wf_def coalesced_append)
  then have "proc_ok own n q"
    using proc_ok_replace [OF assms(1,2), of _ q] assms(5) by simp
  moreover have "used (arenas q) = insert c (used (arenas p) - {b})"
  proof -
    have "b \<notin> set us"
      using tiles_front [OF t] by blast
    moreover obtain m where "tiles m (b # vs) (unat (a_addr a) + unat (a_mapped a))"
      using t by (auto simp only: tiles_append)
    then have "b \<notin> set vs"
      using tiles_block(1) [of _ vs _ b] by fastforce
    moreover have "b \<notin> used_of (a_blocks e)" if "e \<in> set xs \<union> set ys" for e
      using other_arena [OF wf(2) _ that, of b] assms(3) by (auto simp: has_block_def list_ex_iff used_of_def)
    ultimately have "used (xs @ ys) \<union> used_of us \<union> used_of vs = used (arenas p) - {b}"
      using assms(2,3,4) by (auto simp: used_def used_of_def)
    then show ?thesis
      using assms(5,6,8) by (auto simp: used_def)
  qed
  ultimately show ?thesis
    using assms(5) by simp
qed

lemma resize_ok:
  assumes "proc_ok own n p" "b \<in> used (arenas p)" "allocator_resize (b_addr b + 48) sz p = (r, q)"
  shows "if r = 0 then proc_ok own n q \<and> umem q = umem p \<and>
      (\<exists>c. used (arenas q) = insert c (used (arenas p) - {b}) \<and> b_addr c = b_addr b \<and> sz \<le> b_size c)
    else q = p \<and> (sz \<le> 0xFFFFFFFFFFFFFFF0 \<longrightarrow> b_size b < libc_align_up sz 16)"
proof (cases "sz > SIZE_MAX - 15")
  case True
  then show ?thesis
    using assms(3) by (auto simp: allocator_resize_def)
next
  case False
  define z where "z = libc_align_up sz 16"
  have "unat sz + 15 < 18446744073709551616"
    using False by (simp add: word_le_nat_alt word_less_nat_alt)
  then have z: "sz \<le> z" "16 dvd unat z"
    using align_16 [of sz] by (simp_all add: z_def word_le_nat_alt)
  obtain a where a: "a \<in> set (arenas p)" "b \<in> set (a_blocks a)" "\<not> b_free b"
    using used_block [OF assms(2)] by blast
  obtain xs ys us vs where sp: "arenas p = xs @ a # ys" "a_blocks a = us @ b # vs"
    using a(1,2) by (meson split_list)
  have wf: "arenas_wf (arenas p)" "arena_ok a"
    using assms(1) sp(1) by (simp_all add: proc_ok_def)
  let ?hi = "unat (a_addr a) + unat (a_mapped a)"
  have hi: "?hi < 18446744073709551616" "tiles (unat (a_addr a) + 32) (us @ b # vs) ?hi" "coalesced vs"
    using wf(2) sp(2) by (cases vs; simp add: arena_ok_def arena_wf_def coalesced_append)+
  obtain m where m: "tiles m (b # vs) ?hi" "tiles (unat (a_addr a) + 32) us m"
    using hi(2) by (auto simp only: tiles_append)
  have R: "(r, q) = (if b_size b \<ge> z then (0, in_block (b_addr b) (split_block z) p)
      else case vs of [] \<Rightarrow> (-1, p)
        | nx # _ \<Rightarrow> if \<not> b_free nx \<or> b_size b + 48 + b_size nx < z then (-1, p)
                    else (0, in_block (b_addr b) (split_block z) (in_block (b_addr b) merge_next p)))"
    using assms(3) False unfolding allocator_resize_def Let_def z_def [symmetric] add_diff_cancel_right'
      allocator_size_block [OF wf(1) a(1,2)] blocks_behind [OF sp(1) wf(1) sp(2)] by simp
  have fin: ?thesis if e: "r = 0" "q = p\<lparr>arenas := xs @ a\<lparr>a_blocks := us @ split_block z d ds\<rparr> # ys\<rparr>"
    and d: "tiles m (d # ds) ?hi" "z \<le> b_size d" "coalesced ds" "b_addr d = b_addr b" "\<not> b_free d"
      "used_of ds = used_of vs" "active_of ds = active_of vs" for d ds
  proof -
    obtain c u where c: "split_block z d ds = c # u" "tiles m (c # u) ?hi" "b_addr c = b_addr d" "b_free c = b_free d"
      "z \<le> b_size c" "used_of u = used_of ds" "active_of u = active_of ds" "coalesced u"
      using split_block_tiles [OF d(1) hi(1) d(2) z(2) d(3)] by blast
    have "tiles m' (c # u) ?hi" if "tiles m' (b # vs) ?hi" for m'
      using that c(2) m(1) by simp
    then have "proc_ok own n q \<and> umem q = umem p \<and> used (arenas q) = insert c (used (arenas p) - {b})"
      using replace_block [OF assms(1) sp a(3), of q c u] e(2) c d by simp
    moreover have "sz \<le> b_size c"
      using z(1) c(5) by simp
    ultimately show ?thesis
      using c(3) d(4) e(1) by auto
  qed
  consider "z \<le> b_size b" | "b_size b < z" "vs = [] \<or> \<not> b_free (hd vs) \<or> b_size b + 48 + b_size (hd vs) < z"
    | nx ws where "b_size b < z" "vs = nx # ws" "b_free nx" "z \<le> b_size b + 48 + b_size nx"
    by (cases vs) (metis linorder_not_le list.sel(1))+
  then show ?thesis
  proof cases
    case 1
    then show ?thesis
      using R in_block_at [OF sp(1) wf(1) sp(2) refl, of "split_block z"] m(1) hi(3) a(3) by (intro fin [of b vs]) simp_all
  next
    case 2
    then have "\<not> z \<le> b_size b"
      by simp
    then have "(r, q) = (-1, p)"
      using R 2(2) by (cases vs) auto
    then show ?thesis
      using 2(1) by (simp add: z_def)
  next
    case 3
    define d where "d = b\<lparr>b_size := b_size b + (48 + b_size nx)\<rparr>"
    have mg: "merge_next b vs = d # ws"
      using 3 by (simp add: merge_next_def d_def)
    note M = merge_next_tiles [OF m(1) hi(1), unfolded mg]
    have "arenas_wf (xs @ a\<lparr>a_blocks := us @ d # ws\<rparr> # ys)"
    proof (rule arenas_wf_replace [of xs a ys])
      have "tiles (unat (a_addr a) + 32) (us @ d # ws) ?hi"
        using M(1) m(2) unfolding tiles_append by blast
      then show "arena_wf (a\<lparr>a_blocks := us @ d # ws\<rparr>)"
        using wf(2) by (simp add: arena_ok_def arena_wf_def)
    qed (use wf(1) sp(1) in \<open>simp_all add: extent_def\<close>)
    moreover have "in_block (b_addr b) merge_next p = p\<lparr>arenas := xs @ a\<lparr>a_blocks := us @ d # ws\<rparr> # ys\<rparr>"
      using in_block_at [OF sp(1) wf(1) sp(2) refl, of merge_next] by (simp add: mg)
    ultimately have q: "in_block (b_addr b) (split_block z) (in_block (b_addr b) merge_next p) =
        p\<lparr>arenas := xs @ a\<lparr>a_blocks := us @ split_block z d ws\<rparr> # ys\<rparr>"
      using in_block_at [of "p\<lparr>arenas := xs @ a\<lparr>a_blocks := us @ d # ws\<rparr> # ys\<rparr>" xs "a\<lparr>a_blocks := us @ d # ws\<rparr>" ys us d ws "b_addr b" "split_block z"]
      by (simp add: d_def)
    have "\<not> z \<le> b_size b" "\<not> (\<not> b_free nx \<or> b_size b + 48 + b_size nx < z)"
      using 3(1,3,4) by simp_all
    then have "(r, q) = (0, p\<lparr>arenas := xs @ a\<lparr>a_blocks := us @ split_block z d ws\<rparr> # ys\<rparr>)"
      using R unfolding 3(2) list.case if_False q by (simp only: if_False)
    then have rq: "r = 0" "q = p\<lparr>arenas := xs @ a\<lparr>a_blocks := us @ split_block z d ws\<rparr> # ys\<rparr>"
      by simp_all
    have "z \<le> b_size d"
      using 3(4) by (simp add: d_def add.assoc)
    moreover have "coalesced ws"
      using hi(3) 3(2) by (cases ws) simp_all
    moreover have "b_addr d = b_addr b" "\<not> b_free d" "used_of ws = used_of vs" "active_of ws = active_of vs"
      using a(3) 3(2,3) by (simp_all add: d_def)
    ultimately show ?thesis
      by (intro fin [OF rq M(1)])
  qed
qed

end
