(* ===== verification/Libc_Malloc.thy ===== *)
theory Libc_Malloc
  imports Libc_Heap
begin

text \<open>
  What programs get from \<^verbatim>\<open>malloc\<close>, \<^verbatim>\<open>free\<close> and \<^verbatim>\<open>realloc\<close> of the C library, over a kernel that maps
  fresh memory (\<open>maps_fresh\<close>).
\<close>

section \<open>Runs of a program on its heap\<close>

text \<open>
  A program that starts without arenas, allocates, frees and writes to its objects: \<open>L\<close> are its
  objects with their sizes.
\<close>

inductive libc_run :: "'w narc \<Rightarrow> 'w process \<Rightarrow> 'w process \<Rightarrow> (u64 \<Rightarrow> nat option) \<Rightarrow> bool" for n p0 where
  start: "libc_run n p0 p0 Map.empty"
| malloc: "libc_run n p0 p L \<Longrightarrow> libc_malloc n sz p = (v, q) \<Longrightarrow> v \<noteq> 0 \<Longrightarrow>
    libc_run n p0 q (L(v \<mapsto> unat (allocator_size v q)))"
| fail: "libc_run n p0 p L \<Longrightarrow> libc_malloc n sz p = (0, q) \<Longrightarrow> libc_run n p0 q L"
| free: "libc_run n p0 p L \<Longrightarrow> L v = Some c \<Longrightarrow> libc_run n p0 (libc_free n v p) (L(v := None))"
| store: "libc_run n p0 p L \<Longrightarrow> L v = Some c \<Longrightarrow> i < c \<Longrightarrow>
    libc_run n p0 (p\<lparr>umem := (umem p)(v + word_of_nat i := x)\<rparr>) L"

lemma libc_ok_size:
  assumes "libc_ok own n p L" "L v = Some c"
  shows "unat (allocator_size v p) = c" "16 dvd unat v"
proof -
  obtain a b where b: "a \<in> set (arenas p)" "b \<in> set (a_blocks a)" "v = b_addr b + 48" "c = unat (b_size b)" "arenas_wf (arenas p)"
    using libc_okD [OF assms] by metis
  show "unat (allocator_size v p) = c"
    using allocator_size_block [OF b(5,1,2)] b(3,4) by simp
  show "16 dvd unat v"
    using unat_payload(3) [OF b(5,1,2) order_refl] b(3) by simp
qed

lemma libc_run_ok:
  assumes "libc_run n p0 p L" "arenas p0 = []" "maps_fresh own n"
  shows "libc_ok own n p L"
  using assms(1)
proof (induction rule: libc_run.induct)
  case start
  then show ?case
    using assms(2,3) by (simp add: libc_ok_def proc_ok_def arenas_wf_def used_def)
next
  case (malloc p L sz v q)
  then obtain c where c: "libc_ok own n q (L(v \<mapsto> c))"
    using libc_malloc_ok(3) by blast
  then have "unat (allocator_size v q) = c"
    using libc_ok_size(1) [OF c, of v c] by simp
  then show ?case
    using c by (simp only:)
next
  case (store p L v c i x)
  then show ?case
    by (simp add: libc_ok_def proc_ok_def)
qed (use libc_malloc_ok(2) libc_free_ok(1) in blast)+

section \<open>Properties\<close>




lemma memcpy_other: "(\<And>i. i < k \<Longrightarrow> x \<noteq> d + word_of_nat i) \<Longrightarrow> memcpy m d s k x = m x"
proof (induction k arbitrary: m d s)
  case (Suc k)
  have "x \<noteq> d + 1 + word_of_nat i" if "i < k" for i
    using Suc.prems [of "Suc i"] that by (simp add: add_ac)
  moreover have "x \<noteq> d"
    using Suc.prems [of 0] by simp
  ultimately show ?case
    using Suc.IH by simp
qed simp

lemma memcpy_at:
  assumes "i < k" "k \<le> 18446744073709551616" "\<And>i j. i < k \<Longrightarrow> j < k \<Longrightarrow> d + word_of_nat i \<noteq> s + word_of_nat j"
  shows "memcpy m d s k (d + word_of_nat i) = m (s + word_of_nat i)"
  using assms
proof (induction k arbitrary: m d s i)
  case (Suc k)
  have n: "d + 1 + word_of_nat i \<noteq> s + 1 + word_of_nat j" if "i < k" "j < k" for i j
    using Suc.prems(3) [of "Suc i" "Suc j"] that by (simp add: add_ac)
  show ?case
  proof (cases i)
    case 0
    have "d \<noteq> d + 1 + word_of_nat j" if "j < k" for j
    proof
      assume "d = d + 1 + word_of_nat j"
      then have "(word_of_nat (Suc j) :: u64) = 0"
        by (simp add: add_ac)
      moreover have "unat (word_of_nat (Suc j) :: u64) = Suc j"
        using that Suc.prems(2) by (intro unat_word_of_nat_u64) simp
      ultimately show False
        by simp
    qed
    then show ?thesis
      using 0 by (simp add: memcpy_other)
  next
    case (Suc i')
    have "memcpy (m(d := m s)) (d + 1) (s + 1) k (d + 1 + word_of_nat i') = (m(d := m s)) (s + 1 + word_of_nat i')"
      using Suc Suc.prems(1,2) n by (intro Suc.IH) simp_all
    moreover have "d \<noteq> s + 1 + word_of_nat i'"
      using Suc.prems(3) [of 0 i] Suc Suc.prems(1) by (simp add: add_ac)
    ultimately show ?thesis
      using Suc by (simp add: add_ac)
  qed
qed simp

text \<open>
  C31: \<^verbatim>\<open>realloc\<close> moves an object without losing its bytes: what it returns has at least the new size
  and begins with the bytes of the old object, which is in use no longer unless it stayed in its
  place; when it fails the old object is kept. Every other object keeps its bytes.
\<close>

theorem libc_realloc_keeps:
  assumes "libc_ok own n p L" "L v = Some c" "sz \<noteq> 0" "libc_realloc n v sz p = (w, q)"
  shows "if w = 0 then libc_ok own n q L \<and> umem q = umem p
    else (\<exists>d \<ge> unat sz. libc_ok own n q ((L(v := None))(w \<mapsto> d))) \<and>
      (\<forall>i < min c (unat sz). umem q (w + word_of_nat i) = umem p (v + word_of_nat i)) \<and>
      (\<forall>u e j. L u = Some e \<and> u \<noteq> v \<and> j < e \<longrightarrow> umem q (u + word_of_nat j) = umem p (u + word_of_nat j))"
proof -
  obtain a b where b: "a \<in> set (arenas p)" "b \<in> set (a_blocks a)" "b \<in> used (arenas p)" "v = b_addr b + 48"
    "c = unat (b_size b)" "arenas_wf (arenas p)"
    using libc_okD [OF assms(1,2)] by metis
  have p: "proc_ok own n p" and L: "\<And>v c. L v = Some c \<longleftrightarrow> (\<exists>b \<in> used (arenas p). v = b_addr b + 48 \<and> c = unat (b_size b))"
    using assms(1) by (auto simp: libc_ok_def)
  have v: "v \<noteq> 0"
    using libc.nonnull [OF assms(1,2)] .
  obtain r p1 where r: "allocator_resize v sz p = (r, p1)"
    by fastforce
  note R = resize_ok [OF p b(3) r [unfolded b(4)]]
  show ?thesis
  proof (cases "r = 0")
    case True
    then have wq: "w = v" "q = p1"
      using assms(3,4) v r by (simp_all add: libc_realloc_def Let_def)
    obtain d where d: "proc_ok own n q" "umem q = umem p" "used (arenas q) = insert d (used (arenas p) - {b})"
      "b_addr d = b_addr b" "sz \<le> b_size d"
      using R True wq(2) by auto
    have un: "f = b" if "f \<in> used (arenas p)" "b_addr f = b_addr b" for f
      using used_block [OF that(1)] block_unique [OF b(6,1,2)] that(2) by blast
    have "((L(v := None))(w \<mapsto> unat (b_size d))) u = Some e \<longleftrightarrow>
        (\<exists>f \<in> used (arenas q). u = b_addr f + 48 \<and> e = unat (b_size f))" for u e
    proof (cases "u = v")
      case True
      then have "f \<in> used (arenas q) \<and> u = b_addr f + 48 \<longleftrightarrow> f = d" for f
        using un [of f] b(4) d(3,4) by auto
      then have "(\<exists>f \<in> used (arenas q). u = b_addr f + 48 \<and> e = unat (b_size f)) \<longleftrightarrow> e = unat (b_size d)"
        by metis
      then show ?thesis
        using True wq(1) by auto
    next
      case False
      then have "f \<in> used (arenas q) \<and> u = b_addr f + 48 \<longleftrightarrow> f \<in> used (arenas p) \<and> u = b_addr f + 48" for f
        using b(4) d(3,4) by auto
      then show ?thesis
        using L [of u e] False wq(1) by (auto simp: Bex_def)
    qed
    then have "libc_ok own n q ((L(v := None))(w \<mapsto> unat (b_size d)))"
      using d(1) by (simp add: libc_ok_def)
    then show ?thesis
      using v wq d(2,5) by (auto simp: word_le_nat_alt)
  next
    case False
    then have p1: "p1 = p" "sz \<le> 0xFFFFFFFFFFFFFFF0 \<longrightarrow> b_size b < libc_align_up sz 16"
      using R by auto
    obtain x p2 where m: "libc_malloc n sz p = (x, p2)"
      by fastforce
    have wq: "(w, q) = (if x = 0 then (0, p2) else (x, libc_free n v (p2\<lparr>umem := memcpy (umem p2) x v c\<rparr>)))"
      using assms(3,4) v r False m p1(1) b(4,5) allocator_size_block [OF b(6,1,2)]
      by (auto simp: libc_realloc_def Let_def)
    note M = libc_malloc_ok [OF assms(1) m]
    show ?thesis
    proof (cases "x = 0")
      case True
      then show ?thesis
        using wq M(1,2) by simp
    next
      case x: False
      obtain d where d: "L x = None" "unat sz \<le> d" "libc_ok own n p2 (L(x \<mapsto> d))"
        using M(3) x by blast
      define p3 where "p3 = p2\<lparr>umem := memcpy (umem p2) x v c\<rparr>"
      have q: "w = x" "q = libc_free n v p3"
        using wq x by (simp_all add: p3_def)
      have ok3: "libc_ok own n p3 (L(x \<mapsto> d))"
        using d(3) by (simp add: libc_ok_def proc_ok_def p3_def)
      have Lv: "(L(x \<mapsto> d)) v = Some c"
        using assms(2) d(1) by auto
      note F = libc_free_ok [OF ok3 Lv, folded q(2)]
      have "(L(x \<mapsto> d))(v := None) = (L(v := None))(x \<mapsto> d)"
        using assms(2) d(1) by (intro fun_upd_twist) auto
      then have okq: "libc_ok own n q ((L(v := None))(w \<mapsto> d))"
        using F(1) q(1) by (simp only:)
      have um: "umem q = memcpy (umem p) x v c"
        using F(2) M(1) by (simp add: p3_def)
      have sz: "sz \<le> 0xFFFFFFFFFFFFFFF0"
        using m x by (auto simp: libc_malloc_def allocator_allocate_def not_less split: if_splits)
      then have "unat sz + 15 < 18446744073709551616"
        by (simp add: word_le_nat_alt)
      note A = align_16 [OF this]
      have "16 dvd unat (b_size b)"
        using b(1,2,6) tiles_block(3) [of "unat (a_addr a) + 32" "a_blocks a" _ b] by (auto simp: arenas_wf_def arena_wf_def)
      moreover have "c < unat (libc_align_up sz 16)"
        using p1(2) sz b(5) by (simp add: word_less_nat_alt)
      ultimately have cs: "c < unat sz"
        using A b(5) by (auto simp: dvd_def)
      have ap: "x + word_of_nat i \<noteq> u + word_of_nat j" if "L u = Some e" "i < c" "j < e" for u e i j
        using libc.apart [OF d(3), of x d u e i j] that d(1,2) cs by (cases "x = u") auto
      have "umem q (x + word_of_nat i) = umem p (v + word_of_nat i)" if "i < c" for i
        unfolding um using that ap [OF assms(2)] unat_u64_less [of "b_size b"] b(5) by (intro memcpy_at) simp_all
      moreover have "umem q (u + word_of_nat j) = umem p (u + word_of_nat j)" if "L u = Some e" "j < e" for u e j
        unfolding um using ap [OF that(1) _ that(2)] by (intro memcpy_other) metis
      ultimately show ?thesis
        using x q(1) okq d(2) by auto
    qed
  qed
qed


section \<open>A kernel that maps fresh memory\<close>

text \<open>Pages one after the other, the state being how many are given out; no other call succeeds.\<close>

definition refused :: narc_result where
  "refused = \<lparr>r_value = -1, r_status = 12\<rparr>"

definition example_narc :: "nat narc" where
  "example_narc = \<lparr>
     narc_getpid = \<lambda>w. (refused, w), narc_yield = \<lambda>w. (refused, w), narc_fork = \<lambda>w. (refused, w),
     narc_wait = \<lambda>_ _ w. (refused, 0, w), narc_open = \<lambda>_ _ w. (refused, w), narc_close = \<lambda>_ w. (refused, w),
     narc_read = \<lambda>_ _ w. (refused, [], w), narc_write = \<lambda>_ _ w. (refused, w),
     narc_read_dir = \<lambda>_ w. (refused, \<lparr>de_inode = 0, de_type = 0, de_name = []\<rparr>, w),
     narc_map = \<lambda>len _ w. let k = (unat len + 4095) div 4096
        in if 4096 * (w + 1) + unat len < 2 ^ 62 then (\<lparr>r_value = int (4096 * (w + 1)), r_status = 0\<rparr>, w + k) else (refused, w),
     narc_unmap = \<lambda>_ _ w. (\<lparr>r_value = 0, r_status = 0\<rparr>, w)\<rparr>"

definition example_own :: "nat \<Rightarrow> nat set" where
  "example_own w = {..<4096 * (w + 1)}"

lemma example_fresh: "maps_fresh example_own example_narc"
proof -
  have "unat len \<le> 4096 * ((unat len + 4095) div 4096)" for len :: u64
    by simp
  then have "4096 * (w + 1) + unat len \<le> 4096 * (w + (unat len + 4095) div 4096 + 1)" for len :: u64 and w
    by (simp add: algebra_simps)
  moreover have "4096 * int w + uint len \<le> 9223372036854771711" if "4096 * w + unat len < 4611686018427383808" for w and len :: u64
    using that unfolding unat_eq_nat_uint by linarith
  ultimately show ?thesis
    unfolding maps_fresh_def by (auto simp: example_narc_def example_own_def refused_def Let_def)
qed

definition example_process :: "nat process" where
  "example_process = \<lparr>errno = 0, arenas = [], umem = (\<lambda>_. 0), streams = (\<lambda>_. \<lparr>st_descriptor = 2, st_flags = 2\<rparr>), world = 0\<rparr>"

text \<open>The first object is behind the two headers of a new arena.\<close>

definition example_arena :: "u64 \<Rightarrow> block list \<Rightarrow> arena" where
  "example_arena k bs = \<lparr>a_addr = 0x1000, a_mapped = 0x10000, a_active = k, a_blocks = bs\<rparr>"

lemma example_malloc:
  "libc_malloc example_narc 100 example_process = (0x1050, example_process\<lparr>world := 16, arenas :=
     [example_arena 1 [\<lparr>b_addr = 0x1020, b_size = 112, b_free = False\<rparr>, \<lparr>b_addr = 0x10C0, b_size = 65296, b_free = True\<rparr>]]\<rparr>)"
proof -
  have c: "create_arena example_narc 112 example_process = (Some (example_arena 0 [\<lparr>b_addr = 0x1020, b_size = 65456, b_free = True\<rparr>]),
      example_process\<lparr>world := 16, arenas := [example_arena 0 [\<lparr>b_addr = 0x1020, b_size = 65456, b_free = True\<rparr>]]\<rparr>)"
    by (simp add: create_arena_def arena_header_32 libc_align_up_def libc_mmap_def example_narc_def example_process_def
        example_arena_def Let_def)
  have "find_block 112 example_process = None"
    by (simp add: find_block_def example_process_def)
  then show ?thesis
    by (simp add: libc_malloc_def allocator_allocate_def libc_align_up_def c in_block_def in_arena_def set_free_def
        has_block_def first_block_def arena_header_32 split_block_def example_arena_def Let_def)
qed

definition example_after :: "nat process" where
  "example_after = snd (libc_malloc example_narc 100 example_process)"

lemma example_run: "libc_run example_narc example_process example_after [0x1050 \<mapsto> 112]"
proof -
  have m: "libc_malloc example_narc 100 example_process = (0x1050, example_after)"
    by (simp only: example_after_def example_malloc snd_conv)
  have s: "unat (allocator_size 0x1050 example_after) = 112"
    by (simp add: example_after_def example_malloc allocator_size_def find_at_def example_arena_def)
  have "libc_run example_narc example_process example_process Map.empty"
    by (rule libc_run.start)
  from libc_run.malloc [OF this m] show ?thesis
    unfolding s by simp
qed

lemma example_after_ok: "libc_ok example_own example_narc example_after [0x1050 \<mapsto> 112]"
  by (rule libc_run_ok [OF example_run _ example_fresh]) (simp add: example_process_def)




theorem libc_realloc_keeps_witness:
  "\<exists>w q. libc_realloc example_narc 0x1050 5000 example_after = (w, q) \<and> (w = 0 \<or> umem q (w + 3) = umem example_after 0x1053)"
proof -
  obtain w q where r: "libc_realloc example_narc 0x1050 5000 example_after = (w, q)"
    by fastforce
  have "[0x1050 \<mapsto> 112] (0x1050 :: u64) = Some (112 :: nat)" "(5000 :: u64) \<noteq> 0"
    by simp_all
  note R = libc_realloc_keeps [OF example_after_ok this r]
  have "umem q (w + 3) = umem example_after 0x1053" if "w \<noteq> 0"
  proof -
    have "\<forall>i < min 112 (unat (5000 :: u64)). umem q (w + word_of_nat i) = umem example_after (0x1050 + word_of_nat i)"
      using R that by simp
    from this [rule_format, of 3] show ?thesis
      by simp
  qed
  then show ?thesis
    using r by blast
qed

end
