(* ===== verification/Libc_Stdio.thy ===== *)
theory Libc_Stdio
  imports Libc_Sys
begin

text \<open>
  Output streams and formatted output of the C library, \<open>lib/libc/src/stdio\<close>. A \<^verbatim>\<open>FILE\<close> pointer is the
  index of its stream, None the null pointer. The variable arguments are a list: what a register
  holds for a number or a pointer, the string for \<^verbatim>\<open>%s\<close>. Writing goes on for as long as the
  kernel says that it was interrupted, hence the options.
\<close>

section \<open>Streams\<close>

abbreviation (input) INT_MAX :: nat where "INT_MAX \<equiv> 2147483647"
abbreviation (input) FILE_READ :: u32 where "FILE_READ \<equiv> 1"
abbreviation (input) FILE_EOF :: u32 where "FILE_EOF \<equiv> 4"
abbreviation (input) FILE_WRITE :: u32 where "FILE_WRITE \<equiv> 2"
abbreviation (input) FILE_ERROR :: u32 where "FILE_ERROR \<equiv> 8"

definition set_flags :: "nat \<Rightarrow> (u32 \<Rightarrow> u32) \<Rightarrow> 'w process \<Rightarrow> 'w process" where
  "set_flags st f p = p\<lparr>streams := (streams p)(st := (streams p st)\<lparr>st_flags := f (st_flags (streams p st))\<rparr>)\<rparr>"

text \<open>The loop of \<^verbatim>\<open>fwrite\<close>: how much of the bytes was written.\<close>

partial_function (option) write_rest :: "'w narc \<Rightarrow> nat \<Rightarrow> string \<Rightarrow> nat \<Rightarrow> 'w process \<Rightarrow> (nat \<times> 'w process) option" where
  "write_rest n st bytes written p =
     (if written < length bytes
      then case libc_write n (st_descriptor (streams p st)) (drop written bytes) p of
             (result, p) \<Rightarrow>
               if result < 0 \<and> errno p = EINTR then write_rest n st bytes written p
               else if result \<le> 0 then Some (written, set_flags st (\<lambda>f. f OR FILE_ERROR) p)
               else write_rest n st bytes (written + nat result) p
      else Some (written, p))"

definition libc_fwrite :: "'w narc \<Rightarrow> string \<Rightarrow> nat \<Rightarrow> nat \<Rightarrow> nat option \<Rightarrow> 'w process \<Rightarrow> (nat \<times> 'w process) option" where
  "libc_fwrite n bytes sz count stream p =
     (case stream of
        None \<Rightarrow> Some (0, p\<lparr>errno := EBADF\<rparr>)
      | Some st \<Rightarrow>
          if st_flags (streams p st) AND FILE_WRITE = 0
          then Some (0, set_flags st (\<lambda>f. f OR FILE_ERROR) (p\<lparr>errno := EBADF\<rparr>))
          else if sz = 0 \<or> count = 0 then Some (0, p)
          else if count > 18446744073709551615 div sz
          then Some (0, set_flags st (\<lambda>f. f OR FILE_ERROR) (p\<lparr>errno := EOVERFLOW\<rparr>))
          else do { (written, p) \<leftarrow> write_rest n st (take (sz * count) bytes) 0 p; Some (written div sz, p) })"

section \<open>Formatted output\<close>

datatype length_kind = LENGTH_INT | LENGTH_LONG | LENGTH_LONG_LONG | LENGTH_SIZE
datatype vararg = Number u64 | Text "string option"

text \<open>The result of the function, the running total and the process.\<close>

definition emit :: "'w narc \<Rightarrow> nat option \<Rightarrow> string \<Rightarrow> nat \<Rightarrow> 'w process \<Rightarrow> (int \<times> nat \<times> 'w process) option" where
  "emit n stream data tot p =
     (if length data > INT_MAX - tot then Some (-1, tot, p\<lparr>errno := EOVERFLOW\<rparr>)
      else do {
        (written, p) \<leftarrow> libc_fwrite n data 1 (length data) stream p;
        if written \<noteq> length data then Some (-1, tot, p) else Some (0, tot + length data, p)
      })"

fun emit_times :: "'w narc \<Rightarrow> nat option \<Rightarrow> char \<Rightarrow> nat \<Rightarrow> nat \<Rightarrow> 'w process \<Rightarrow> (int \<times> nat \<times> 'w process) option" where
  "emit_times n stream c 0 tot p = Some (0, tot, p)"
| "emit_times n stream c (Suc k) tot p = do {
     (r, tot, p) \<leftarrow> emit n stream [c] tot p;
     if r \<noteq> 0 then Some (-1, tot, p) else emit_times n stream c k tot p
   }"

fun emit_each :: "'w narc \<Rightarrow> nat option \<Rightarrow> string \<Rightarrow> nat \<Rightarrow> 'w process \<Rightarrow> (int \<times> nat \<times> 'w process) option" where
  "emit_each n stream [] tot p = Some (0, tot, p)"
| "emit_each n stream (c # cs) tot p = do {
     (r, tot, p) \<leftarrow> emit n stream [c] tot p;
     if r \<noteq> 0 then Some (-1, tot, p) else emit_each n stream cs tot p
   }"

text \<open>
  The digits of a number, least significant first, as they are put into the buffer. The bases are
  8, 10 and 16; below 2, where the code would not end, the definition stops.
\<close>

definition digit_char :: "bool \<Rightarrow> u64 \<Rightarrow> char" where
  "digit_char uppercase d = (if uppercase then ''0123456789ABCDEF'' else ''0123456789abcdef'') ! unat d"

lemma word_div_less:
  fixes v b :: u64
  assumes "v div b \<noteq> 0" "\<not> b < 2"
  shows "unat (v div b) < unat v"
proof -
  have "2 \<le> unat b"
    using assms(2) by (simp add: word_less_nat_alt)
  moreover have "v \<noteq> 0"
    using assms(1) by auto
  then have "0 < unat v"
    by (simp add: unat_gt_0)
  ultimately show ?thesis
    by (simp add: unat_div)
qed

function number_digits :: "bool \<Rightarrow> u64 \<Rightarrow> u64 \<Rightarrow> string" where
  "number_digits uppercase base v =
     digit_char uppercase (v mod base) # (if v div base = 0 \<or> base < 2 then [] else number_digits uppercase base (v div base))"
  by pat_completeness auto

termination number_digits
  by (relation "measure (\<lambda>(_, _, v). unat v)") (auto simp: word_div_less)

declare number_digits.simps [simp del]

definition emit_number :: "'w narc \<Rightarrow> nat option \<Rightarrow> u64 \<Rightarrow> u64 \<Rightarrow> bool \<Rightarrow> bool \<Rightarrow> bool \<Rightarrow> int \<Rightarrow> bool \<Rightarrow>
    nat \<Rightarrow> 'w process \<Rightarrow> (int \<times> nat \<times> 'w process) option" where
  "emit_number n stream v base uppercase negative prefix width zero_pad tot p =
     (let buffer = number_digits uppercase base v;
          marker = (if negative then 1 else if prefix then 2 else 0);
          padding = nat (width - (int (length buffer) + marker))
      in do {
        (r, tot, p) \<leftarrow> (if \<not> zero_pad then emit_times n stream (CHR '' '') padding tot p else Some (0, tot, p));
        if r \<noteq> 0 then Some (-1, tot, p) else do {
        (r, tot, p) \<leftarrow> (if negative then emit n stream ''-'' tot p else Some (0, tot, p));
        if r \<noteq> 0 then Some (-1, tot, p) else do {
        (r, tot, p) \<leftarrow> (if prefix then emit n stream (if uppercase then ''0X'' else ''0x'') tot p else Some (0, tot, p));
        if r \<noteq> 0 then Some (-1, tot, p) else do {
        (r, tot, p) \<leftarrow> (if zero_pad then emit_times n stream (CHR ''0'') padding tot p else Some (0, tot, p));
        if r \<noteq> 0 then Some (-1, tot, p) else emit_each n stream (rev buffer) tot p }}}})"

definition next_arg :: "vararg list \<Rightarrow> vararg \<times> vararg list" where
  "next_arg as = (case as of [] \<Rightarrow> (Number 0, []) | a # as \<Rightarrow> (a, as))"

definition number_of :: "vararg \<Rightarrow> u64" where
  "number_of a = (case a of Number v \<Rightarrow> v | Text _ \<Rightarrow> 0)"

definition unsigned_argument :: "length_kind \<Rightarrow> vararg \<Rightarrow> u64" where
  "unsigned_argument kind a = (if kind \<noteq> LENGTH_INT then number_of a else ucast (ucast (number_of a) :: u32))"

definition signed_argument :: "length_kind \<Rightarrow> vararg \<Rightarrow> int" where
  "signed_argument kind a = (if kind \<noteq> LENGTH_INT then sint (number_of a) else sint (ucast (number_of a) :: u32))"

text \<open>The width after a percent sign, which sticks at its maximum.\<close>

fun parse_width :: "int \<Rightarrow> string \<Rightarrow> int \<times> string" where
  "parse_width width [] = (width, [])"
| "parse_width width (c # s) =
     (if (48 :: nat) \<le> of_char c \<and> of_char c \<le> (57 :: nat)
      then let d = int (of_char c) - 48
           in parse_width (if width \<le> (int INT_MAX - d) div 10 then width * 10 + d else int INT_MAX) s
      else (width, c # s))"

definition parse_length :: "string \<Rightarrow> length_kind \<times> string" where
  "parse_length s =
     (case s of
        c # s' \<Rightarrow>
          if c = CHR ''l'' then (case s' of d # s'' \<Rightarrow> if d = CHR ''l'' then (LENGTH_LONG_LONG, s'') else (LENGTH_LONG, s')
                                 | [] \<Rightarrow> (LENGTH_LONG, s'))
          else if c = CHR ''z'' then (LENGTH_SIZE, s') else (LENGTH_INT, s)
      | [] \<Rightarrow> (LENGTH_INT, s))"

text \<open>One conversion: the specifier is None at the end of the format.\<close>

definition convert :: "'w narc \<Rightarrow> nat option \<Rightarrow> bool \<Rightarrow> int \<Rightarrow> length_kind \<Rightarrow> char option \<Rightarrow> vararg list \<Rightarrow>
    nat \<Rightarrow> 'w process \<Rightarrow> (int \<times> vararg list \<times> nat \<times> 'w process) option" where
  "convert n stream zero_pad width kind specifier as tot p =
     (let (a, as') = next_arg as;
          keep = map_option (\<lambda>(r, tot, p). (r, as', tot, p))
      in case specifier of
           None \<Rightarrow> Some (-1, as, tot, p\<lparr>errno := EINVAL\<rparr>)
         | Some c \<Rightarrow>
             if c = CHR ''%'' then map_option (\<lambda>(r, tot, p). (r, as, tot, p)) (emit n stream ''%'' tot p)
             else if c = CHR ''c'' then keep (emit n stream [char_of (unat (number_of a))] tot p)
             else if c = CHR ''s''
             then keep (emit n stream (case a of Text (Some s) \<Rightarrow> cstr s | _ \<Rightarrow> ''(null)'') tot p)
             else if c = CHR ''d'' \<or> c = CHR ''i''
             then let v = signed_argument kind a;
                      magnitude = (if v < 0 then word_of_int (- (v + 1)) + 1 else word_of_int v)
                  in keep (emit_number n stream magnitude 10 False (v < 0) False width zero_pad tot p)
             else if c = CHR ''u'' \<or> c = CHR ''o'' \<or> c = CHR ''x'' \<or> c = CHR ''X''
             then let base = (if c = CHR ''o'' then 8 else if c = CHR ''u'' then 10 else 16)
                  in keep (emit_number n stream (unsigned_argument kind a) base (c = CHR ''X'') False False width zero_pad tot p)
             else if c = CHR ''p''
             then keep (emit_number n stream (number_of a) 16 False False True width zero_pad tot p)
             else Some (-1, as, tot, p\<lparr>errno := EINVAL\<rparr>))"

definition skip_zero :: "string \<Rightarrow> bool \<times> string" where
  "skip_zero s = (case s of c # s' \<Rightarrow> if c = CHR ''0'' then (True, s') else (False, s) | [] \<Rightarrow> (False, s))"

lemma skip_zero_le: "skip_zero s = (z, t) \<Longrightarrow> length t \<le> length s"
  by (auto simp: skip_zero_def split: list.splits if_splits)

lemma parse_width_le: "parse_width w s = (v, t) \<Longrightarrow> length t \<le> length s"
  by (induction w s rule: parse_width.induct) (fastforce simp: Let_def split: if_splits)+

lemma parse_length_le: "parse_length s = (k, t) \<Longrightarrow> length t \<le> length s"
  by (auto simp: parse_length_def split: list.splits if_splits)

text \<open>What stands behind a percent sign, and the format behind it.\<close>

definition directive :: "string \<Rightarrow> bool \<times> int \<times> length_kind \<times> char option \<times> string" where
  "directive s =
     (let (zero_pad, s) = skip_zero s; (width, s) = parse_width 0 s; (kind, s) = parse_length s
      in (zero_pad, width, kind, case s of [] \<Rightarrow> None | c # _ \<Rightarrow> Some c, tl s))"

lemma directive_le: "directive s = (z, w, k, c, t) \<Longrightarrow> length t \<le> length s"
  by (force simp: directive_def split: prod.splits dest: skip_zero_le parse_width_le parse_length_le)

lemma directive_shorter:
  assumes "directive (tl (dropWhile P s)) = (z, w, k, c, t)" "s \<noteq> []"
  shows "length t < length s"
proof -
  have "length t \<le> length (dropWhile P s) - 1"
    using directive_le [OF assms(1)] by simp
  also have "\<dots> \<le> length s - 1"
    using length_dropWhile_le [of P s] by simp
  also have "\<dots> < length s"
    using assms(2) by simp
  finally show ?thesis .
qed

function format_from :: "'w narc \<Rightarrow> nat option \<Rightarrow> string \<Rightarrow> vararg list \<Rightarrow> nat \<Rightarrow> 'w process \<Rightarrow> (int \<times> 'w process) option" where
  "format_from n stream format as tot p =
     (if format = [] then Some (int tot, p)
      else let plain = takeWhile (\<lambda>c. c \<noteq> CHR ''%'') format; rest = dropWhile (\<lambda>c. c \<noteq> CHR ''%'') format
           in do {
             (r, tot, p) \<leftarrow> (if plain \<noteq> [] then emit n stream plain tot p else Some (0, tot, p));
             if r \<noteq> 0 then Some (-1, p)
             else if rest = [] then Some (int tot, p)
             else case directive (tl rest) of
               (zero_pad, width, kind, specifier, rest) \<Rightarrow> do {
                  (r, as, tot, p) \<leftarrow> convert n stream zero_pad width kind specifier as tot p;
                  if r \<noteq> 0 then Some (-1, p) else format_from n stream rest as tot p
               }
           })"
  by pat_completeness auto

termination
  by (relation "measure (\<lambda>(_, _, format, _). length format)") (auto dest!: directive_shorter [OF sym])

declare format_from.simps [simp del]

definition libc_fprintf :: "'w narc \<Rightarrow> nat option \<Rightarrow> string \<Rightarrow> vararg list \<Rightarrow> 'w process \<Rightarrow> (int \<times> 'w process) option" where
  "libc_fprintf n stream format as p = format_from n stream format as 0 p"

definition libc_printf :: "'w narc \<Rightarrow> string \<Rightarrow> vararg list \<Rightarrow> 'w process \<Rightarrow> (int \<times> 'w process) option" where
  "libc_printf n format as p = format_from n (Some 1) format as 0 p"

section \<open>Characters and strings\<close>

text \<open>The standard streams are the indices 0, 1 and 2. \<^verbatim>\<open>EOF\<close> is -1.\<close>

definition standard_streams :: "nat \<Rightarrow> stream" where
  "standard_streams i =
     (if i = 0 then \<lparr>st_descriptor = 0, st_flags = FILE_READ\<rparr>
      else if i = 1 then \<lparr>st_descriptor = 1, st_flags = FILE_WRITE\<rparr>
      else \<lparr>st_descriptor = 2, st_flags = FILE_WRITE\<rparr>)"

definition libc_fputc :: "'w narc \<Rightarrow> int \<Rightarrow> nat option \<Rightarrow> 'w process \<Rightarrow> (int \<times> 'w process) option" where
  "libc_fputc n character stream p =
     (let byte = word_of_int character :: u8 in do {
        (written, p) \<leftarrow> libc_fwrite n [char_of (unat byte)] 1 1 stream p;
        Some (if written = 1 then uint byte else -1, p)
      })"

definition libc_fputs :: "'w narc \<Rightarrow> string \<Rightarrow> nat option \<Rightarrow> 'w process \<Rightarrow> (int \<times> 'w process) option" where
  "libc_fputs n s stream p =
     (let len = strlen s in do {
        (written, p) \<leftarrow> libc_fwrite n s 1 len stream p;
        Some (if written = len then 0 else -1, p)
      })"

definition libc_puts :: "'w narc \<Rightarrow> string \<Rightarrow> 'w process \<Rightarrow> (int \<times> 'w process) option" where
  "libc_puts n s p = do {
     (r, p) \<leftarrow> libc_fputs n s (Some 1) p;
     if r = -1 then Some (-1, p)
     else do { (r, p) \<leftarrow> libc_fputc n 10 (Some 1) p; Some (if r = -1 then -1 else 0, p) }
   }"

definition libc_ferror :: "nat option \<Rightarrow> 'w process \<Rightarrow> bool" where
  "libc_ferror stream p = (case stream of None \<Rightarrow> False | Some st \<Rightarrow> st_flags (streams p st) AND FILE_ERROR \<noteq> 0)"

definition libc_feof :: "nat option \<Rightarrow> 'w process \<Rightarrow> bool" where
  "libc_feof stream p = (case stream of None \<Rightarrow> False | Some st \<Rightarrow> st_flags (streams p st) AND FILE_EOF \<noteq> 0)"

definition libc_clearerr :: "nat option \<Rightarrow> 'w process \<Rightarrow> 'w process" where
  "libc_clearerr stream p = (case stream of None \<Rightarrow> p | Some st \<Rightarrow> set_flags st (\<lambda>f. f AND NOT (FILE_EOF OR FILE_ERROR)) p)"

definition libc_fileno :: "nat option \<Rightarrow> 'w process \<Rightarrow> int \<times> 'w process" where
  "libc_fileno stream p =
     (case stream of None \<Rightarrow> (-1, p\<lparr>errno := EBADF\<rparr>) | Some st \<Rightarrow> (st_descriptor (streams p st), p))"

end
