(* ===== verification/Pablo_Text.thy ===== *)
theory Pablo_Text
  imports Libc_String
begin

text \<open>
  The text helpers of the service supervisor, \<open>userland/pablo/src/text.c\<close>: trimming, bounded copies,
  suffix tests and unsigned numbers. A destination buffer is its capacity and the string it holds.
\<close>

section \<open>Operations\<close>

definition is_space :: "char \<Rightarrow> bool" where
  "is_space c \<longleftrightarrow> c = CHR '' '' \<or> c = CHR 0x09 \<or> c = CHR 0x0D \<or> c = CHR 0x0A"

text \<open>The spaces at the front are stepped over, those at the end overwritten one by one.\<close>

fun trim_end :: "string \<Rightarrow> nat \<Rightarrow> string" where
  "trim_end s 0 = take 0 s"
| "trim_end s (Suc n) = (if is_space (s ! n) then trim_end s n else take (Suc n) s)"

definition pablo_trim :: "string \<Rightarrow> string" where
  "pablo_trim text = (let text = dropWhile is_space text in trim_end text (strlen text))"

text \<open>The new content of the destination, which is kept when the source does not fit.\<close>

definition pablo_copy :: "string \<Rightarrow> nat \<Rightarrow> string \<Rightarrow> int \<times> string" where
  "pablo_copy destination capacity source =
     (if strlen source \<ge> capacity then (-1, destination) else (0, take (strlen source) source))"

definition pablo_has_suffix :: "string \<Rightarrow> string \<Rightarrow> bool" where
  "pablo_has_suffix text suffix =
     (if strlen suffix > strlen text then False else strcmp (drop (strlen text - strlen suffix) text) suffix = 0)"

text \<open>The digits one by one; None where the code returns -1.\<close>

fun parse_digits :: "string \<Rightarrow> u32 \<Rightarrow> u32 option" where
  "parse_digits [] result = Some result"
| "parse_digits (c # text) result =
     (if of_char c < (48 :: nat) \<or> of_char c > (57 :: nat) then None
      else let digit = word_of_nat (of_char c - 48)
           in if result > (0xFFFFFFFF - digit) div 10 then None
              else parse_digits text (result * 10 + digit))"

definition pablo_parse_unsigned :: "string \<Rightarrow> u32 option" where
  "pablo_parse_unsigned text = (if text = [] then None else parse_digits text 0)"

section \<open>Trimming\<close>

lemma trim_end_take: "n \<le> length s \<Longrightarrow> trim_end s n = rev (dropWhile is_space (rev (take n s)))"
  by (induction n) (auto simp: take_Suc_conv_app_nth)

lemma pablo_trim_eq:
  assumes "cstring s"
  shows "pablo_trim s = rev (dropWhile is_space (rev (dropWhile is_space s)))"
proof -
  have "cstring (dropWhile is_space s)"
    using assms by (rule cstring_subset [rotated]) (auto dest: set_dropWhileD)
  then show ?thesis
    by (simp add: pablo_trim_def trim_end_take)
qed

lemma set_pablo_trim: "cstring s \<Longrightarrow> set (pablo_trim s) \<subseteq> set s"
  by (auto simp: pablo_trim_eq dest!: set_dropWhileD)

lemma cstring_trim [simp]: "cstring s \<Longrightarrow> cstring (pablo_trim s)"
  using set_pablo_trim cstring_subset by blast

lemma pablo_trim_split:
  assumes "cstring s"
  obtains l r where "s = l @ pablo_trim s @ r" "\<forall>c \<in> set l \<union> set r. is_space c"
proof -
  let ?m = "dropWhile is_space s"
  have "?m = rev (takeWhile is_space (rev ?m) @ dropWhile is_space (rev ?m))"
    by simp
  then have "?m = pablo_trim s @ rev (takeWhile is_space (rev ?m))"
    unfolding rev_append pablo_trim_eq [OF assms] .
  then have "s = takeWhile is_space s @ pablo_trim s @ rev (takeWhile is_space (rev ?m))"
    by (metis takeWhile_dropWhile_id)
  then show thesis
    by (rule that) (auto dest!: set_takeWhileD)
qed

lemma pablo_trim_ends:
  assumes "cstring s" "pablo_trim s \<noteq> []"
  shows "\<not> is_space (hd (pablo_trim s))" "\<not> is_space (last (pablo_trim s))"
proof -
  let ?m = "dropWhile is_space s" and ?k = "dropWhile is_space (rev (dropWhile is_space s))"
  have k: "?k \<noteq> []"
    using assms by (simp add: pablo_trim_eq)
  then show "\<not> is_space (last (pablo_trim s))"
    using hd_dropWhile [OF k] by (simp add: pablo_trim_eq [OF assms(1)] last_rev)
  have m: "?m \<noteq> []"
    using k by (metis dropWhile.simps(1) rev.simps(1))
  have "pablo_trim s @ rev (takeWhile is_space (rev ?m)) = ?m"
    by (metis pablo_trim_eq [OF assms(1)] rev_append rev_rev_ident takeWhile_dropWhile_id)
  then have "hd (pablo_trim s) = hd ?m"
    using assms(2) by (metis hd_append2)
  then show "\<not> is_space (hd (pablo_trim s))"
    using hd_dropWhile [OF m] by simp
qed

section \<open>Numbers\<close>

definition digit :: "char \<Rightarrow> bool" where
  "digit c \<longleftrightarrow> 48 \<le> (of_char c :: nat) \<and> of_char c \<le> (57 :: nat)"

text \<open>The number a string of digits stands for in base ten.\<close>

definition decimal_from :: "nat \<Rightarrow> string \<Rightarrow> nat" where
  "decimal_from n s = foldl (\<lambda>v c. 10 * v + (of_char c - 48)) n s"

abbreviation decimal :: "string \<Rightarrow> nat" where
  "decimal \<equiv> decimal_from 0"

lemma decimal_from_simps [simp]:
  "decimal_from n [] = n" "decimal_from n (c # s) = decimal_from (10 * n + (of_char c - 48)) s"
  "decimal_from n (s @ t) = decimal_from (decimal_from n s) t"
  by (simp_all add: decimal_from_def)

lemma decimal_from_ge: "n \<le> decimal_from n s"
proof (induction s arbitrary: n)
  case (Cons c s)
  have "n \<le> 10 * n + (of_char c - 48)"
    by simp
  also have "\<dots> \<le> decimal_from n (c # s)"
    using Cons.IH by simp
  finally show ?case .
qed simp

lemma digit_fits:
  fixes r :: u32
  assumes "d < 10"
  shows "\<not> r > (0xFFFFFFFF - word_of_nat d) div 10 \<longleftrightarrow> 10 * unat r + d < 4294967296"
    and "10 * unat r + d < 4294967296 \<Longrightarrow> unat (r * 10 + word_of_nat d) = 10 * unat r + d"
proof -
  let ?d = "word_of_nat d :: u32"
  have d: "unat ?d = d"
    using assms by (simp add: unat_of_nat take_bit_eq_mod)
  have M: "unat (0xFFFFFFFF :: u32) = 4294967295"
    by simp
  have "?d \<le> 0xFFFFFFFF"
    using assms d by (simp only: word_le_nat_alt M)
  then have "unat (0xFFFFFFFF - ?d) = 4294967295 - d"
    by (simp only: unat_sub M d)
  then have "unat ((0xFFFFFFFF - ?d) div 10) = (4294967295 - d) div 10"
    by (simp add: unat_div)
  then have "(0xFFFFFFFF - ?d) div 10 < r \<longleftrightarrow> 4294967295 - d < unat r * 10"
    by (simp only: word_less_nat_alt div_less_iff_less_mult zero_less_numeral)
  then show "\<not> r > (0xFFFFFFFF - word_of_nat d) div 10 \<longleftrightarrow> 10 * unat r + d < 4294967296"
    using assms by linarith
  assume "10 * unat r + d < 4294967296"
  then show "unat (r * 10 + word_of_nat d) = 10 * unat r + d"
    using d by (simp add: unat_word_ariths mult.commute)
qed

lemma parse_digits_iff:
  "parse_digits s r = Some v \<longleftrightarrow>
     (\<forall>c \<in> set s. digit c) \<and> decimal_from (unat r) s < 4294967296 \<and>
     unat v = decimal_from (unat r) s"
proof (induction s arbitrary: r)
  case Nil
  then show ?case
    using unsigned_less [of r, where 'a = nat] by (auto simp: word_unat_eq_iff)
next
  case (Cons c s)
  show ?case
  proof (cases "digit c")
    case False
    then show ?thesis
      by (auto simp: digit_def)
  next
    case True
    then have d: "of_char c - 48 < (10 :: nat)" and nd: "\<not> (of_char c < (48 :: nat) \<or> of_char c > (57 :: nat))"
      by (auto simp: digit_def)
    show ?thesis
    proof (cases "10 * unat r + (of_char c - 48) < 4294967296")
      case True
      then show ?thesis
        using digit_fits [OF d, of r] Cons.IH \<open>digit c\<close> nd by (simp add: Let_def)
    next
      case False
      then have "\<not> decimal_from (10 * unat r + (of_char c - 48)) s < 4294967296"
        using decimal_from_ge [of "10 * unat r + (of_char c - 48)" s] by linarith
      then show ?thesis
        using digit_fits(1) [OF d, of r] False nd by (simp add: Let_def)
    qed
  qed
qed

section \<open>Properties\<close>

text \<open>
  C32: a number is read exactly when the text is a non-empty string of decimal digits whose value fits
  in 32 bits, and the result is that value; the overflow test neither refuses a number that fits nor
  lets one wrap.
\<close>

theorem pablo_parse_unsigned_iff:
  "pablo_parse_unsigned s = Some v \<longleftrightarrow>
     s \<noteq> [] \<and> list_all digit s \<and> decimal s \<le> 4294967295 \<and> unat v = decimal s"
  by (auto simp: pablo_parse_unsigned_def parse_digits_iff list_all_iff)

end
