(* ===== verification/Libc_Format.thy ===== *)
theory Libc_Format
  imports Libc_Stdio Pablo_Text
begin

text \<open>
  What formatted output writes. A pure function gives the text of a format and its arguments; the
  library, which goes through \<^verbatim>\<open>fwrite\<close> and a kernel that may take any part of what it is given at a
  time, is shown to write exactly that. The numbers it writes are read back by the supervisor's
  parser.
\<close>

section \<open>Numerals\<close>

function numeral_in :: "bool \<Rightarrow> nat \<Rightarrow> nat \<Rightarrow> string" where
  "numeral_in uppercase b k =
     (if k < b \<or> b < 2 then [digit_char uppercase (word_of_nat (k mod b))]
      else numeral_in uppercase b (k div b) @ [digit_char uppercase (word_of_nat (k mod b))])"
  by pat_completeness auto
termination
  by (relation "measure (\<lambda>(_, _, k). k)") auto

declare numeral_in.simps [simp del]

lemma number_digits_numeral:
  "2 \<le> unat b \<Longrightarrow> rev (number_digits u b v) = numeral_in u (unat b) (unat v)"
proof (induction u b v rule: number_digits.induct)
  case (1 u b v)
  have d: "word_of_nat (unat v mod unat b) = v mod b"
    by (simp flip: unat_mod)
  have small: "v div b = 0 \<longleftrightarrow> unat v < unat b"
    using 1(2) by (metis unat_div div_eq_0_iff not_numeral_le_zero unat_eq_zero)
  have base: "\<not> b < 2"
    using 1(2) by (simp add: word_less_nat_alt)
  have base': "\<not> unat b < 2"
    using 1(2) by simp
  show ?case
  proof (cases "v div b = 0")
    case True
    then show ?thesis
      using small d by (simp add: number_digits.simps [of u b v] numeral_in.simps [of u "unat b" "unat v"])
  next
    case False
    then have "rev (number_digits u b (v div b)) = numeral_in u (unat b) (unat v div unat b)"
      using 1(1)[OF _ 1(2)] base by (simp add: unat_div)
    then show ?thesis
      using False small d base base'
      by (simp add: number_digits.simps [of u b v] numeral_in.simps [of u "unat b" "unat v"])
  qed
qed

lemma digit_char_decimal:
  assumes "k < 10"
  shows "(of_char (digit_char False (word_of_nat k)) :: nat) = 48 + k"
proof -
  have "unat (word_of_nat k :: u64) = k"
    using assms by (simp add: unat_of_nat)
  moreover have "\<forall>i < 10. of_char (''0123456789abcdef'' ! i) = 48 + (i :: nat)"
    by (simp add: All_less_Suc numeral_eq_Suc)
  ultimately show ?thesis
    using assms by (simp add: digit_char_def)
qed

lemma numeral_in_decimal:
  "list_all digit (numeral_in False 10 k) \<and> numeral_in False 10 k \<noteq> [] \<and> decimal (numeral_in False 10 k) = k"
proof (induction "False" "10 :: nat" k rule: numeral_in.induct)
  case (1 k)
  have "(of_char (digit_char False (word_of_nat (k mod 10))) :: nat) = 48 + k mod 10"
    by (rule digit_char_decimal) simp
  then show ?case
    using 1 by (cases "k < 10") (simp_all add: numeral_in.simps [of False 10 k] digit_def)
qed

lemma numeral_length: "k < 10 ^ Suc d \<Longrightarrow> length (numeral_in u 10 k) \<le> Suc d"
proof (induction d arbitrary: k)
  case 0
  then show ?case
    by (simp add: numeral_in.simps)
next
  case (Suc d)
  then have "k div 10 < 10 ^ Suc d"
    by (simp add: div_less_iff_less_mult mult.commute)
  then show ?case
    using Suc.IH by (cases "k < 10") (simp_all add: numeral_in.simps [of u 10 k])
qed

lemma unat_widened: "unat (ucast (ucast (ucast (v :: u32) :: u64) :: u32) :: u64) = unat v"
proof -
  have "ucast (ucast v :: u64) = v"
    by (simp add: word_unat_eq_iff unsigned_ucast_eq take_bit_word_eq_self)
  then show ?thesis
    using unsigned_less [of v, where 'a = nat] by (simp add: unsigned_ucast_eq take_bit_nat_eq_self_iff)
qed

section \<open>The text of a format\<close>

definition padded :: "bool \<Rightarrow> int \<Rightarrow> string \<Rightarrow> string \<Rightarrow> string" where
  "padded zero_pad width marker digits =
     (let k = nat (width - int (length marker + length digits))
      in if zero_pad then marker @ replicate k (CHR ''0'') @ digits else replicate k (CHR '' '') @ marker @ digits)"

definition conversion :: "bool \<Rightarrow> int \<Rightarrow> length_kind \<Rightarrow> char option \<Rightarrow> vararg list \<Rightarrow> (string \<times> vararg list) option" where
  "conversion zero_pad width kind specifier as =
     (let (a, as') = next_arg as
      in case specifier of
           None \<Rightarrow> None
         | Some c \<Rightarrow>
             if c = CHR ''%'' then Some (''%'', as)
             else if c = CHR ''c'' then Some ([char_of (unat (number_of a))], as')
             else if c = CHR ''s'' then Some (case a of Text (Some s) \<Rightarrow> cstr s | _ \<Rightarrow> ''(null)'', as')
             else if c \<in> {CHR ''d'', CHR ''i''}
             then let v = signed_argument kind a
                  in Some (padded zero_pad width (if v < 0 then ''-'' else []) (numeral_in False 10 (nat \<bar>v\<bar>)), as')
             else if c \<in> {CHR ''u'', CHR ''o'', CHR ''x'', CHR ''X''}
             then Some (padded zero_pad width []
                    (numeral_in (c = CHR ''X'') (if c = CHR ''o'' then 8 else if c = CHR ''u'' then 10 else 16)
                       (unat (unsigned_argument kind a))), as')
             else if c = CHR ''p'' then Some (padded zero_pad width ''0x'' (numeral_in False 16 (unat (number_of a))), as')
             else None)"

text \<open>The text, and whether the format is valid.\<close>

function rendered :: "string \<Rightarrow> vararg list \<Rightarrow> string \<times> bool" where
  "rendered format as =
     (if format = [] then ([], True)
      else let plain = takeWhile (\<lambda>c. c \<noteq> CHR ''%'') format; rest = dropWhile (\<lambda>c. c \<noteq> CHR ''%'') format
           in if rest = [] then (plain, True)
              else case directive (tl rest) of
                (zero_pad, width, kind, specifier, rest) \<Rightarrow>
                  (case conversion zero_pad width kind specifier as of
                     None \<Rightarrow> (plain, False)
                   | Some (text, as) \<Rightarrow> let (more, ok) = rendered rest as in (plain @ text @ more, ok)))"
  by pat_completeness auto
termination
  by (relation "measure (\<lambda>(format, _). length format)") (auto dest!: directive_shorter [OF sym])

declare rendered.simps [simp del]

section \<open>Writing it\<close>

text \<open>
  A descriptor on which every write of some bytes succeeds, though it may take only the first of them;
  \<open>sent\<close> is what has been written to it.
\<close>

definition accepts :: "'w narc \<Rightarrow> int \<Rightarrow> ('w \<Rightarrow> string) \<Rightarrow> bool" where
  "accepts n fd sent \<longleftrightarrow>
     (\<forall>bytes w. bytes \<noteq> [] \<longrightarrow>
        (case narc_write n fd bytes w of
           (r, w') \<Rightarrow> r_status r = 0 \<and> 0 < r_value r \<and> r_value r \<le> int (length bytes) \<and>
                      sent w' = sent w @ take (nat (r_value r)) bytes))"

definition writable :: "nat \<Rightarrow> int \<Rightarrow> 'w process \<Rightarrow> bool" where
  "writable st fd p \<longleftrightarrow> st_descriptor (streams p st) = fd \<and> st_flags (streams p st) AND FILE_WRITE \<noteq> 0"

text \<open>From \<open>p\<close> to \<open>q\<close> the bytes were written and the streams stay as they are.\<close>

definition wrote :: "('w \<Rightarrow> string) \<Rightarrow> string \<Rightarrow> 'w process \<Rightarrow> 'w process \<Rightarrow> bool" where
  "wrote sent bytes p q \<longleftrightarrow> sent (world q) = sent (world p) @ bytes \<and> streams q = streams p"

lemma wrote_nil [simp]: "wrote sent [] p p"
  by (simp add: wrote_def)

lemma wrote_errno [simp]: "wrote sent [] p (p\<lparr>errno := e\<rparr>)"
  by (simp add: wrote_def)

lemma wrote_trans [trans]: "wrote sent a p q \<Longrightarrow> wrote sent b q r \<Longrightarrow> wrote sent (a @ b) p r"
  by (simp add: wrote_def)

lemma writable_wrote: "writable st fd p \<Longrightarrow> wrote sent a p q \<Longrightarrow> writable st fd q"
  by (simp add: writable_def wrote_def)

lemma write_rest_ok:
  assumes "accepts n fd sent" "st_descriptor (streams p st) = fd" "k \<le> length bytes"
  shows "\<exists>q. write_rest n st bytes k p = Some (length bytes, q) \<and> wrote sent (drop k bytes) p q"
  using assms(2, 3)
proof (induction "length bytes - k" arbitrary: k p rule: less_induct)
  case less
  show ?case
  proof (cases "k < length bytes")
    case False
    then show ?thesis
      using less by (simp add: write_rest.simps)
  next
    case True
    obtain r w where rw: "narc_write n fd (drop k bytes) (world p) = (r, w)"
      by (cases "narc_write n fd (drop k bytes) (world p)")
    have ok: "r_status r = 0" "0 < r_value r" "r_value r \<le> int (length bytes) - int k"
        "sent w = sent (world p) @ take (nat (r_value r)) (drop k bytes)"
      using assms(1) [unfolded accepts_def, rule_format, of "drop k bytes" "world p"] True rw by simp_all
    let ?p = "p\<lparr>world := w\<rparr>" and ?k = "k + nat (r_value r)"
    have step: "write_rest n st bytes k p = write_rest n st bytes ?k ?p"
      using True rw ok less(2) by (subst write_rest.simps) (simp add: libc_write_def libc_result_def)
    have "\<exists>q. write_rest n st bytes ?k ?p = Some (length bytes, q) \<and> wrote sent (drop ?k bytes) ?p q"
      using less True ok by (intro less.hyps) auto
    then obtain q where q: "write_rest n st bytes ?k ?p = Some (length bytes, q)" "wrote sent (drop ?k bytes) ?p q"
      by blast
    have "drop k bytes = take (nat (r_value r)) (drop k bytes) @ drop ?k bytes"
      by (metis add.commute append_take_drop_id drop_drop)
    then have "wrote sent (drop k bytes) p q"
      using q(2) ok(4) by (simp add: wrote_def)
    then show ?thesis
      using q(1) step by simp
  qed
qed

lemma fwrite_ok:
  assumes "accepts n fd sent" "writable st fd p" "length bytes < 18446744073709551616"
  shows "\<exists>q. libc_fwrite n bytes 1 (length bytes) (Some st) p = Some (length bytes, q) \<and> wrote sent bytes p q"
  using assms write_rest_ok [of n fd sent p st 0 bytes]
  by (auto simp: libc_fwrite_def writable_def)

text \<open>
  A part of the formatting that writes \<open>t\<close> and succeeds, as long as the total stays within \<^verbatim>\<open>INT_MAX\<close>.
\<close>

definition prints ::
  "('w \<Rightarrow> string) \<Rightarrow> nat \<Rightarrow> int \<Rightarrow> string \<Rightarrow> (nat \<Rightarrow> 'w process \<Rightarrow> (int \<times> nat \<times> 'w process) option) \<Rightarrow> bool" where
  "prints sent st fd t f \<longleftrightarrow>
     (\<forall>tot p. writable st fd p \<and> tot + length t \<le> INT_MAX \<longrightarrow>
        (\<exists>q. f tot p = Some (0, tot + length t, q) \<and> wrote sent t p q))"

lemma printsE:
  assumes "prints sent st fd t f" "writable st fd p" "tot + length t \<le> INT_MAX"
  obtains q where "f tot p = Some (0, tot + length t, q)" "wrote sent t p q"
  using assms unfolding prints_def by blast

lemma prints_nil: "prints sent st fd [] (\<lambda>tot p. Some (0, tot, p))"
  by (simp add: prints_def)

text \<open>The sequence of two parts, as the code composes them.\<close>

lemma prints_seq:
  fixes sent :: "'w \<Rightarrow> string"
  assumes "prints sent st fd a f" "prints sent st fd b g"
  shows "prints sent st fd (a @ b) (\<lambda>tot p. do { (r, tot, p) \<leftarrow> f tot p; if r \<noteq> 0 then Some (-1, tot, p) else g tot p })"
  unfolding prints_def
proof (intro allI impI, elim conjE)
  fix tot and p :: "'w process"
  assume w: "writable st fd p" and l: "tot + length (a @ b) \<le> INT_MAX"
  obtain q where q: "f tot p = Some (0, tot + length a, q)" "wrote sent a p q"
    using printsE [OF assms(1) w, of tot] l by auto
  obtain q' where "g (tot + length a) q = Some (0, tot + length a + length b, q')" "wrote sent b q q'"
    using printsE [OF assms(2) writable_wrote [OF w q(2)], of "tot + length a"] l by (auto simp: add.assoc)
  then show "\<exists>q. (do { (r, tot, p) \<leftarrow> f tot p; if r \<noteq> 0 then Some (-1, tot, p) else g tot p }) =
      Some (0, tot + length (a @ b), q) \<and> wrote sent (a @ b) p q"
    using q by (auto simp: add.assoc intro: wrote_trans)
qed

lemma prints_if:
  "(b \<Longrightarrow> prints sent st fd s f) \<Longrightarrow> prints sent st fd (if b then s else []) (\<lambda>tot p. if b then f tot p else Some (0, tot, p))"
  by (simp add: prints_nil)

lemma prints_emit:
  fixes sent :: "'w \<Rightarrow> string"
  assumes "accepts n fd sent"
  shows "prints sent st fd data (emit n (Some st) data)"
  unfolding prints_def
proof (intro allI impI, elim conjE)
  fix tot and p :: "'w process"
  assume "writable st fd p" "tot + length data \<le> INT_MAX"
  then show "\<exists>q. emit n (Some st) data tot p = Some (0, tot + length data, q) \<and> wrote sent data p q"
    using fwrite_ok [OF assms, of st p data] by (auto simp: emit_def)
qed

lemma prints_each:
  assumes "accepts n fd sent"
  shows "prints sent st fd cs (emit_each n (Some st) cs)"
proof (induction cs)
  case Nil
  then show ?case
    by (simp add: prints_def)
next
  case (Cons c cs)
  show ?case
    using prints_seq [OF prints_emit [OF assms, of st "[c]"] Cons] by (simp add: prints_def)
qed

lemma emit_times_each: "emit_times n stream c k tot p = emit_each n stream (replicate k c) tot p"
  by (induction k arbitrary: tot p) (simp_all cong: if_cong)

lemma prints_number:
  assumes "accepts n fd sent" "2 \<le> unat b" "negative \<Longrightarrow> \<not> pre"
  shows "prints sent st fd
      (padded z width (if negative then ''-'' else if pre then if u then ''0X'' else ''0x'' else []) (numeral_in u (unat b) (unat v)))
      (emit_number n (Some st) v b u negative pre width z)"
proof -
  define d where "d = numeral_in u (unat b) (unat v)"
  define k where "k = nat (width - (int (length d) + (if negative then 1 else if pre then 2 else 0)))"
  have digits: "rev (number_digits u b v) = d" "length (number_digits u b v) = length d"
    using number_digits_numeral [OF assms(2), of u v] length_rev [of "number_digits u b v"] by (auto simp: d_def)
  have shape: "padded z width (if negative then ''-'' else if pre then if u then ''0X'' else ''0x'' else []) d =
      (if \<not> z then replicate k (CHR '' '') else []) @ (if negative then ''-'' else []) @
      (if pre then if u then ''0X'' else ''0x'' else []) @ (if z then replicate k (CHR ''0'') else []) @ d"
    using assms(3) by (auto simp: padded_def Let_def k_def ac_simps)
  show ?thesis
    unfolding d_def [symmetric] shape emit_number_def [abs_def] Let_def digits emit_times_each k_def [symmetric]
    by (intro prints_seq prints_if prints_each prints_emit assms(1))
qed

lemma signed_magnitude:
  assumes "- (2 ^ 63) \<le> v" "v < 2 ^ 63"
  shows "unat (if v < 0 then word_of_int (- (v + 1)) + 1 else word_of_int v :: u64) = nat \<bar>v\<bar>"
proof -
  have "(if v < 0 then word_of_int (- (v + 1)) + 1 else word_of_int v :: u64) = word_of_int \<bar>v\<bar>"
    by simp
  moreover have "\<bar>v\<bar> < 2 ^ 64"
    using assms by simp
  ultimately show ?thesis
    by (simp only: unat_eq_nat_uint uint_word_of_int) simp
qed

lemma signed_argument_bounds: "- (2 ^ 63) \<le> signed_argument k a" "signed_argument k a < 2 ^ 63"
proof -
  have "- (2 ^ 63) \<le> sint w \<and> sint w < 2 ^ 63" for w :: u64
    using sint_greater_eq [of w] sint_less [of w] by simp
  moreover have "- (2 ^ 63) \<le> sint w \<and> sint w < 2 ^ 63" for w :: u32
    using sint_greater_eq [of w] sint_less [of w] by simp
  ultimately show "- (2 ^ 63) \<le> signed_argument k a" "signed_argument k a < 2 ^ 63"
    by (auto simp: signed_argument_def)
qed

lemma convert_signed:
  fixes sent :: "'w \<Rightarrow> string"
  assumes "accepts n fd sent"
  shows "prints sent st fd (padded z width (if signed_argument k a < 0 then ''-'' else []) (numeral_in False 10 (nat \<bar>signed_argument k a\<bar>)))
    (emit_number n (Some st) (if signed_argument k a < 0 then word_of_int (- (signed_argument k a + 1)) + 1
        else word_of_int (signed_argument k a)) 10 False (signed_argument k a < 0) False width z)"
  using prints_number [OF assms, of 10 "signed_argument k a < 0" False st z width False
      "if signed_argument k a < 0 then word_of_int (- (signed_argument k a + 1)) + 1 else word_of_int (signed_argument k a)"]
  unfolding signed_magnitude [OF signed_argument_bounds] by (simp only: if_False unat_numeral) simp

text \<open>A valid conversion writes its text, another one nothing.\<close>

lemma convert_ok:
  fixes sent :: "'w \<Rightarrow> string"
  assumes "accepts n fd sent" "conversion z width k specifier as = Some (t, as')"
    and "writable st fd p" "tot + length t \<le> INT_MAX"
  shows "\<exists>q. convert n (Some st) z width k specifier as tot p = Some (0, as', tot + length t, q) \<and> wrote sent t p q"
proof -
  obtain a rest where n: "next_arg as = (a, rest)"
    by fastforce
  have run: "\<exists>q. map_option (\<lambda>(r, tot, p). (r, x, tot, p)) (f tot p) = Some (0, x, tot + length t, q) \<and> wrote sent t p q"
    if "prints sent st fd u f" "t = u" for f x u
    using printsE [of sent st fd t f p tot] that assms(3, 4) by fastforce
  obtain c where c: "specifier = Some c"
    using assms(2) by (cases specifier) (simp_all add: conversion_def n)
  consider "c = CHR ''%''" | "c = CHR ''c''" | "c = CHR ''s''" | "c = CHR ''d'' \<or> c = CHR ''i''" |
      "c = CHR ''u'' \<or> c = CHR ''o'' \<or> c = CHR ''x'' \<or> c = CHR ''X''" | "c = CHR ''p''"
    using assms(2) by (auto simp: conversion_def n c split: if_splits)
  then show ?thesis
  proof cases
    case 4
    then have "t = padded z width (if signed_argument k a < 0 then ''-'' else []) (numeral_in False 10 (nat \<bar>signed_argument k a\<bar>))"
        and "as' = rest"
        and "convert n (Some st) z width k specifier as tot p = map_option (\<lambda>(r, tot, p). (r, rest, tot, p))
          (emit_number n (Some st) (if signed_argument k a < 0 then word_of_int (- (signed_argument k a + 1)) + 1
             else word_of_int (signed_argument k a)) 10 False (signed_argument k a < 0) False width z tot p)"
      using assms(2) by (auto simp only: conversion_def convert_def n c Let_def prod.case option.case insert_iff empty_iff
          option.inject prod.inject simp_thms if_True if_False char.inject)
    then show ?thesis
      using run [OF convert_signed [OF assms(1)]] by simp
  next
    case 5
    define b :: u64 where "b = (if c = CHR ''o'' then 8 else if c = CHR ''u'' then 10 else 16)"
    have "t = padded z width [] (numeral_in (c = CHR ''X'') (unat b) (unat (unsigned_argument k a)))" "as' = rest"
        "convert n (Some st) z width k specifier as tot p = map_option (\<lambda>(r, tot, p). (r, rest, tot, p))
          (emit_number n (Some st) (unsigned_argument k a) b (c = CHR ''X'') False False width z tot p)"
      using 5 assms(2) by (auto simp: b_def conversion_def convert_def n c)
    moreover have "2 \<le> unat b"
      by (simp add: b_def)
    ultimately show ?thesis
      using run [OF prints_number [OF assms(1), of b False False st z width "c = CHR ''X''" "unsigned_argument k a"], of rest]
      by simp
  next
    case 6
    show ?thesis
      using 6 assms(2) run [OF prints_number [OF assms(1), of 16 False True st z width False "number_of a"], of rest]
      by (simp add: conversion_def convert_def n c del: map_option_eq_Some)
  next
    case 1
    then show ?thesis
      using assms(2) run [OF prints_emit [OF assms(1), of st "''%''"], of as]
      by (simp add: conversion_def convert_def n c del: map_option_eq_Some)
  next
    case 2
    then show ?thesis
      using assms(2) run [OF prints_emit [OF assms(1), of st "[char_of (unat (number_of a))]"], of rest]
      by (simp add: conversion_def convert_def n c del: map_option_eq_Some)
  next
    case 3
    then show ?thesis
      using assms(2) run [OF prints_emit [OF assms(1), of st t], of rest]
      by (simp add: conversion_def convert_def n c del: map_option_eq_Some)
  qed
qed

lemma convert_invalid:
  assumes "conversion z width k specifier as = None"
  shows "convert n stream z width k specifier as tot p = Some (-1, as, tot, p\<lparr>errno := EINVAL\<rparr>)"
  using assms by (auto simp: convert_def conversion_def Let_def split: prod.splits option.splits if_splits)

lemma format_from_ok:
  fixes sent :: "'w \<Rightarrow> string"
  assumes "accepts n fd sent"
  shows "writable st fd p \<Longrightarrow> rendered format as = (t, ok) \<Longrightarrow> tot + length t \<le> INT_MAX \<Longrightarrow>
    \<exists>q. format_from n (Some st) format as tot p = Some (if ok then int (tot + length t) else -1, q) \<and> wrote sent t p q"
proof (induction format as arbitrary: tot p t ok rule: rendered.induct)
  case (1 format as)
  define plain where "plain = takeWhile (\<lambda>c. c \<noteq> CHR ''%'') format"
  define rest where "rest = dropWhile (\<lambda>c. c \<noteq> CHR ''%'') format"
  show ?case
  proof (cases "format = []")
    case True
    then show ?thesis
      using 1 by (auto simp: rendered.simps [of "[]" as] format_from.simps [of n "Some st" "[]" as tot p])
  next
    case False
    note unfold = rendered.simps [of format as] format_from.simps [of n "Some st" format as tot p]
      False plain_def [symmetric] rest_def [symmetric]
    have head: "prints sent st fd plain (\<lambda>tot p. if plain \<noteq> [] then emit n (Some st) plain tot p else Some (0, tot, p))"
      by (cases "plain = []") (simp_all add: prints_nil prints_emit [OF assms])
    have "length plain \<le> length t"
      using 1(3) by (auto simp: unfold Let_def split: if_splits prod.splits option.splits)
    then obtain q where q: "(if plain \<noteq> [] then emit n (Some st) plain tot p else Some (0, tot, p)) = Some (0, tot + length plain, q)"
        "wrote sent plain p q"
      using printsE [OF head 1(2), of tot] 1(4) by auto
    have w: "writable st fd q"
      using writable_wrote [OF 1(2) q(2)] .
    show ?thesis
    proof (cases "rest = []")
      case True
      then show ?thesis
        using 1(3) q by (auto simp: unfold)
    next
      case more: False
      obtain z width k c r where d: "directive (tl rest) = (z, width, k, c, r)"
        by (cases "directive (tl rest)")
      show ?thesis
      proof (cases "conversion z width k c as")
        case None
        then show ?thesis
          using 1(3) q more d None by (auto simp: unfold wrote_def convert_invalid [OF None])
      next
        case (Some ts)
        obtain u as' where ts: "ts = (u, as')"
          by fastforce
        obtain v ok' where v: "rendered r as' = (v, ok')"
          by fastforce
        have t: "t = plain @ u @ v" "ok' = ok"
          using 1(3) more d Some ts v by (auto simp: unfold)
        obtain q' where q': "convert n (Some st) z width k c as (tot + length plain) q = Some (0, as', tot + length plain + length u, q')"
            "wrote sent u q q'"
          using convert_ok [OF assms Some [unfolded ts] w, of "tot + length plain"] 1(4) t by auto
        have "\<exists>q''. format_from n (Some st) r as' (tot + length plain + length u) q' =
            Some (if ok then int (tot + length plain + length u + length v) else -1, q'') \<and> wrote sent v q' q''"
          using more d Some ts v t 1(4) writable_wrote [OF w q'(2)]
          by (intro 1(1) [OF False plain_def rest_def more d [symmetric] refl refl refl Some [unfolded ts] refl])
            (auto simp: rest_def)
        then show ?thesis
          using q q' more d t by (auto simp: unfold add.assoc wrote_def)
      qed
    qed
  qed
qed

section \<open>An example\<close>

text \<open>A kernel that takes one byte at a time; what it was given is the state.\<close>

definition tape_refuses :: "string \<Rightarrow> narc_result \<times> string" where
  "tape_refuses w = (\<lparr>r_value = 0, r_status = 12\<rparr>, w)"

definition tape_narc :: "string narc" where
  "tape_narc = \<lparr>
     narc_getpid = tape_refuses, narc_yield = tape_refuses, narc_fork = tape_refuses,
     narc_wait = \<lambda>_ _ w. (\<lparr>r_value = 0, r_status = 12\<rparr>, 0, w), narc_open = \<lambda>_ _. tape_refuses, narc_close = \<lambda>_. tape_refuses,
     narc_read = \<lambda>_ _ w. (\<lparr>r_value = 0, r_status = 12\<rparr>, [], w),
     narc_write = \<lambda>_ bytes w. (\<lparr>r_value = 1, r_status = 0\<rparr>, w @ take 1 bytes),
     narc_read_dir = \<lambda>_ w. (\<lparr>r_value = 0, r_status = 12\<rparr>, \<lparr>de_inode = 0, de_type = 0, de_name = []\<rparr>, w),
     narc_map = \<lambda>_ _. tape_refuses, narc_unmap = \<lambda>_ _. tape_refuses\<rparr>"

definition tape_process :: "string process" where
  "tape_process = \<lparr>errno = 0, arenas = [], umem = (\<lambda>_. 0),
     streams = (\<lambda>_. \<lparr>st_descriptor = 2, st_flags = FILE_WRITE\<rparr>), world = ''>''\<rparr>"

lemma tape_accepts: "accepts tape_narc fd id"
  by (simp add: accepts_def tape_narc_def Suc_le_eq flip: length_greater_0_conv)

lemma tape_writable: "writable st 2 tape_process"
  by (simp add: writable_def tape_process_def)





text \<open>
  C35: a number written with the conversion \<^verbatim>\<open>%u\<close> is read back by the parser of the supervisor as the
  same number.
\<close>

theorem fprintf_parse_roundtrip:
  assumes "accepts n fd sent" "writable st fd p"
  shows "\<exists>s q. libc_fprintf n (Some st) ''%u'' [Number (ucast v)] p = Some (int (length s), q) \<and>
    sent (world q) = sent (world p) @ s \<and> pablo_parse_unsigned s = Some v"
proof -
  let ?s = "numeral_in False 10 (unat v)"
  have d: "directive ''u'' = (False, 0, LENGTH_INT, Some (CHR ''u''), [])"
    by (simp add: directive_def skip_zero_def parse_length_def)
  have c: "conversion False 0 LENGTH_INT (Some (CHR ''u'')) [Number (ucast v)] = Some (?s, [])"
    by (simp add: conversion_def next_arg_def padded_def unsigned_argument_def number_of_def Let_def unat_widened)
  have "rendered ''%u'' [Number (ucast v)] = (?s, True)"
    by (subst rendered.simps) (simp add: d c rendered.simps [of "[]"])
  moreover have "length ?s \<le> INT_MAX"
    using numeral_length [of "unat v" 9 False] unsigned_less [of v, where 'a = nat] by simp
  ultimately obtain q where "libc_fprintf n (Some st) ''%u'' [Number (ucast v)] p = Some (int (length ?s), q)"
      "sent (world q) = sent (world p) @ ?s"
    using format_from_ok [OF assms, of "''%u''" _ ?s True 0] by (auto simp: libc_fprintf_def wrote_def)
  moreover have "pablo_parse_unsigned ?s = Some v"
    using numeral_in_decimal [of "unat v"] unsigned_less [of v, where 'a = nat]
    by (auto simp: pablo_parse_unsigned_def parse_digits_iff list_all_iff)
  ultimately show ?thesis
    by blast
qed

theorem fprintf_parse_roundtrip_witness:
  "\<exists>s q. libc_fprintf tape_narc (Some 1) ''%u'' [Number (ucast (4294967295 :: u32))] tape_process = Some (int (length s), q) \<and>
    world q = ''>'' @ s \<and> pablo_parse_unsigned s = Some 4294967295"
  using fprintf_parse_roundtrip [OF tape_accepts tape_writable, of 1 4294967295] by (simp add: tape_process_def)

end
