(* ===== verification/Libc_Frame.thy ===== *)
theory Libc_Frame
  imports Libc_Stdio
begin

text \<open>
  What formatted output keeps: anything of the state of the machine that the native call for writing
  does not change.
\<close>

definition write_keeps :: "'w narc \<Rightarrow> ('w \<Rightarrow> 'a) \<Rightarrow> bool" where
  "write_keeps n R \<longleftrightarrow> (\<forall>fd bytes w. R (snd (narc_write n fd bytes w)) = R w)"

text \<open>An operation after which the state of the machine reads the same.\<close>

definition keeps :: "('w \<Rightarrow> 'a) \<Rightarrow> 'w process \<Rightarrow> ('b \<Rightarrow> 'w process) \<Rightarrow> 'b option \<Rightarrow> bool" where
  "keeps R p pr m \<longleftrightarrow> (\<forall>x. m = Some x \<longrightarrow> R (world (pr x)) = R (world p))"

lemma keeps_None [simp]: "keeps R p pr None"
  by (simp add: keeps_def)

lemma keeps_Some [simp]: "keeps R p pr (Some x) \<longleftrightarrow> R (world (pr x)) = R (world p)"
  by (simp add: keeps_def)

lemma keeps_bind:
  assumes "keeps R p pr m" "\<And>x. m = Some x \<Longrightarrow> R (world (pr x)) = R (world p) \<Longrightarrow> keeps R (pr x) pr' (f x)"
  shows "keeps R p pr' (m \<bind> f)"
  using assms by (cases m) (auto simp: keeps_def)

lemma keeps_map: "keeps R p (pr' \<circ> f) m \<Longrightarrow> keeps R p pr' (map_option f m)"
  by (auto simp: keeps_def)

lemma keeps_if: "(b \<Longrightarrow> keeps R p pr m) \<Longrightarrow> (\<not> b \<Longrightarrow> keeps R p pr m') \<Longrightarrow> keeps R p pr (if b then m else m')"
  by simp

lemma keeps_seq:
  assumes "keeps R p (\<lambda>x. snd (snd x)) m" "\<And>tot q. keeps R q (\<lambda>x. snd (snd x)) (f tot q)"
  shows "keeps R p (\<lambda>x. snd (snd x)) (do { (r, tot, q) \<leftarrow> m; if r \<noteq> 0 then Some (-1, tot, q) else f tot q })"
  using assms by (cases m) (fastforce simp: keeps_def split: if_splits)+

lemma set_flags_world [simp]: "world (set_flags st f p) = world p"
  by (simp add: set_flags_def)

lemma libc_write_keeps: "write_keeps n R \<Longrightarrow> libc_write n fd bytes p = (r, q) \<Longrightarrow> R (world q) = R (world p)"
  by (auto simp: libc_write_def write_keeps_def libc_result_def split_def Let_def split: if_splits)

lemma write_rest_keeps:
  assumes "write_keeps n R" "write_rest n st bytes k p = Some (j, q)"
  shows "R (world q) = R (world p)"
proof -
  have "write_keeps n R \<longrightarrow> R (world (snd r)) = R (world p)" if "write_rest n st bytes k p = Some r" for r
  proof (rule write_rest.raw_induct [OF _ that], goal_cases)
    case (1 f n st bytes k p r)
    show ?case
    proof
      assume n: "write_keeps n R"
      obtain v q where w: "libc_write n (st_descriptor (streams p st)) (drop k bytes) p = (v, q)"
        by fastforce
      then have q: "R (world q) = R (world p)"
        using libc_write_keeps [OF n] by blast
      show "R (world (snd r)) = R (world p)"
        using 1(2) n q 1(1) [of n st bytes k q r] 1(1) [of n st bytes "k + nat v" q r]
        by (auto simp: w split: if_splits)
    qed
  qed
  then show ?thesis
    using assms by fastforce
qed

lemma fwrite_keeps:
  assumes "write_keeps n R"
  shows "keeps R p snd (libc_fwrite n bytes sz count stream p)"
  using write_rest_keeps [OF assms]
  by (auto simp: libc_fwrite_def keeps_def bind_eq_Some_conv split: option.splits if_splits)

lemma emit_keeps:
  assumes "write_keeps n R"
  shows "keeps R p (\<lambda>x. snd (snd x)) (emit n stream data tot p)"
  using fwrite_keeps [OF assms, of p data 1 "length data" stream]
  by (auto simp: emit_def keeps_def bind_eq_Some_conv split: if_splits)

lemma emit_each_keeps:
  assumes "write_keeps n R"
  shows "keeps R p (\<lambda>x. snd (snd x)) (emit_each n stream cs tot p)"
proof (induction cs arbitrary: tot p)
  case (Cons c cs)
  show ?case
    unfolding emit_each.simps by (rule keeps_seq [OF emit_keeps [OF assms] Cons.IH])
qed simp

lemma emit_times_keeps:
  assumes "write_keeps n R"
  shows "keeps R p (\<lambda>x. snd (snd x)) (emit_times n stream c k tot p)"
proof (induction k arbitrary: tot p)
  case (Suc k)
  show ?case
    unfolding emit_times.simps by (rule keeps_seq [OF emit_keeps [OF assms] Suc.IH])
qed simp

lemma emit_number_keeps:
  assumes "write_keeps n R"
  shows "keeps R p (\<lambda>x. snd (snd x)) (emit_number n stream v b u negative prefix width z tot p)"
  unfolding emit_number_def Let_def
  by (intro keeps_seq keeps_if emit_keeps [OF assms] emit_each_keeps [OF assms] emit_times_keeps [OF assms]) simp_all

lemma convert_keeps:
  assumes "write_keeps n R"
  shows "keeps R p (\<lambda>x. snd (snd (snd x))) (convert n stream z width k specifier as tot p)"
proof -
  have run: "keeps R p (\<lambda>x. snd (snd (snd x))) (map_option (\<lambda>(r, tot, p). (r, as', tot, p)) m)"
    if "keeps R p (\<lambda>x. snd (snd x)) m" for m :: "(int \<times> nat \<times> 'a process) option" and as' :: "vararg list"
    using that by (auto simp: keeps_def)
  show ?thesis
    unfolding convert_def Let_def
    by (cases "next_arg as"; cases specifier)
      (simp_all add: run emit_keeps [OF assms] emit_number_keeps [OF assms])
qed

lemma format_from_keeps:
  assumes "write_keeps n R"
  shows "keeps R p snd (format_from n stream format as tot p)"
proof (induction "length format" arbitrary: format as tot p rule: less_induct)
  case less
  define plain where "plain = takeWhile (\<lambda>c. c \<noteq> CHR ''%'') format"
  define rest where "rest = dropWhile (\<lambda>c. c \<noteq> CHR ''%'') format"
  show ?case
  proof (cases "format = []")
    case False
    obtain z width k c r where d: "directive (tl rest) = (z, width, k, c, r)"
      by (cases "directive (tl rest)")
    have shorter: "length r < length format"
      using directive_shorter [OF d [unfolded rest_def] False] .
    have tail: "keeps R q snd (do { (r', as, tot, p) \<leftarrow> convert n stream z width k c as tot q;
        if r' \<noteq> 0 then Some (-1, p) else format_from n stream r as tot p })" for as tot q
      by (rule keeps_bind [OF convert_keeps [OF assms]]) (auto simp: less [OF shorter] split: prod.split)
    have head: "keeps R p (\<lambda>x. snd (snd x)) (if plain \<noteq> [] then emit n stream plain tot p else Some (0, tot, p))"
      by (intro keeps_if emit_keeps [OF assms]) simp_all
    show ?thesis
      unfolding format_from.simps [of n stream format as tot p] Let_def plain_def [symmetric] rest_def [symmetric] d prod.case
        if_not_P [OF False]
      by (rule keeps_bind [OF head]) (auto simp: tail split: prod.split)
  qed (simp add: format_from.simps [of n stream "[]" as tot p])
qed

lemma libc_fprintf_keeps:
  assumes "write_keeps n R" "libc_fprintf n stream format as p = Some (r, q)"
  shows "R (world q) = R (world p)"
  using format_from_keeps [OF assms(1), of p stream format as 0] assms(2) by (simp add: libc_fprintf_def)

end
