(* ===== verification/Libc_Files.thy ===== *)
theory Libc_Files
  imports Libc_Stdio Libc_Memory
begin

text \<open>
  The rest of the wrappers of \<open>lib/libc/src\<close>: files and directories (\<open>stat\<close>, \<open>unistd\<close>, \<open>stdio/rename.c\<close>), the
  end of a process, and its start (\<open>crt/crt1.c\<close>). The native calls they use are functions as in
  \<open>Libc_Sys\<close>.
\<close>

record abi_file_info =
  fi_inode :: u64
  fi_size :: u64
  fi_mode :: u32
  fi_type :: u8

record 'w narc_files =
  narc_seek :: "int \<Rightarrow> int \<Rightarrow> u32 \<Rightarrow> 'w \<Rightarrow> narc_result \<times> 'w"
  narc_file_info :: "int \<Rightarrow> 'w \<Rightarrow> narc_result \<times> abi_file_info \<times> 'w"
  narc_mkdir :: "string \<Rightarrow> u32 \<Rightarrow> 'w \<Rightarrow> narc_result \<times> 'w"
  narc_unlink :: "string \<Rightarrow> 'w \<Rightarrow> narc_result \<times> 'w"
  narc_rmdir :: "string \<Rightarrow> 'w \<Rightarrow> narc_result \<times> 'w"
  narc_rename :: "string \<Rightarrow> string \<Rightarrow> 'w \<Rightarrow> narc_result \<times> 'w"
  narc_exec :: "string \<Rightarrow> string list \<Rightarrow> string list \<Rightarrow> 'w \<Rightarrow> narc_result \<times> 'w"
  narc_exit :: "int \<Rightarrow> 'w \<Rightarrow> 'w"

abbreviation (input) EFAULT :: int where "EFAULT \<equiv> 14"

section \<open>Files\<close>

definition libc_lseek :: "'w narc_files \<Rightarrow> int \<Rightarrow> int \<Rightarrow> int \<Rightarrow> 'w process \<Rightarrow> int \<times> 'w process" where
  "libc_lseek n fd offset origin p =
     (if origin < 0 \<or> origin > 2 then (-1, p\<lparr>errno := EINVAL\<rparr>)
      else libc_result (narc_seek n fd offset (word_of_int origin) (world p)) p)"

text \<open>\<^verbatim>\<open>struct stat\<close>; the fields that are never set are 0.\<close>

record file_stat =
  st_ino :: u64
  st_nlink :: u64
  st_mode :: u32
  st_size :: int
  st_blksize :: int
  st_blocks :: int

text \<open>\<^verbatim>\<open>fstat\<close> with a buffer, or with the null pointer: the result and what it stores, if anything.\<close>

definition libc_fstat :: "'w narc_files \<Rightarrow> int \<Rightarrow> bool \<Rightarrow> 'w process \<Rightarrow> int \<times> file_stat option \<times> 'w process" where
  "libc_fstat n fd buffer p =
     (if \<not> buffer then (-1, None, p\<lparr>errno := EFAULT\<rparr>)
      else let (r, info, w) = narc_file_info n fd (world p);
               (result, p) = libc_result (r, w) p
           in if result < 0 then (-1, None, p)
              else (0, Some \<lparr>st_ino = fi_inode info, st_nlink = 1, st_mode = fi_mode info, st_size = sint (fi_size info),
                      st_blksize = 4096, st_blocks = sint ((fi_size info + 511) div 512)\<rparr>, p))"

definition libc_stat :: "'w narc \<Rightarrow> 'w narc_files \<Rightarrow> string \<Rightarrow> bool \<Rightarrow> 'w process \<Rightarrow> int \<times> file_stat option \<times> 'w process" where
  "libc_stat n nf path buffer p =
     (let (fd, p) = libc_open n path 0 p
      in if fd < 0 then (-1, None, p)
         else let (result, st, p) = libc_fstat nf fd buffer p;
                  (_, p) = libc_close n fd p
              in (result, st, p))"

definition libc_mkdir :: "'w narc_files \<Rightarrow> string \<Rightarrow> u32 \<Rightarrow> 'w process \<Rightarrow> int \<times> 'w process" where
  "libc_mkdir n path mode p = (let (r, p) = libc_result (narc_mkdir n path mode (world p)) p in (c_int r, p))"

definition libc_unlink :: "'w narc_files \<Rightarrow> string \<Rightarrow> 'w process \<Rightarrow> int \<times> 'w process" where
  "libc_unlink n path p = (let (r, p) = libc_result (narc_unlink n path (world p)) p in (c_int r, p))"

definition libc_rmdir :: "'w narc_files \<Rightarrow> string \<Rightarrow> 'w process \<Rightarrow> int \<times> 'w process" where
  "libc_rmdir n path p = (let (r, p) = libc_result (narc_rmdir n path (world p)) p in (c_int r, p))"

definition libc_rename :: "'w narc_files \<Rightarrow> string \<Rightarrow> string \<Rightarrow> 'w process \<Rightarrow> int \<times> 'w process" where
  "libc_rename n old_path new_path p =
     (let (r, p) = libc_result (narc_rename n old_path new_path (world p)) p in (c_int r, p))"

section \<open>Processes\<close>

definition libc_wait :: "'w narc \<Rightarrow> 'w process \<Rightarrow> int \<times> int \<times> 'w process" where
  "libc_wait n p = libc_waitpid n (-1) 0 p"

text \<open>\<^verbatim>\<open>execve\<close> comes back to its caller only when it fails; \<open>environ\<close> is the variable of that name.\<close>

definition libc_execve :: "'w narc_files \<Rightarrow> string \<Rightarrow> string list \<Rightarrow> string list \<Rightarrow> 'w process \<Rightarrow> int \<times> 'w process" where
  "libc_execve n path argv envp p = (let (r, p) = libc_result (narc_exec n path argv envp (world p)) p in (c_int r, p))"

definition libc_execv :: "'w narc_files \<Rightarrow> string list \<Rightarrow> string \<Rightarrow> string list \<Rightarrow> 'w process \<Rightarrow> int \<times> 'w process" where
  "libc_execv n environ path argv p = libc_execve n path argv environ p"

text \<open>The end of a process leaves the rest of the machine.\<close>

definition libc__exit :: "'w narc_files \<Rightarrow> int \<Rightarrow> 'w process \<Rightarrow> 'w" where
  "libc__exit n status p = narc_exit n status (world p)"

definition libc_exit :: "'w narc_files \<Rightarrow> int \<Rightarrow> 'w process \<Rightarrow> 'w" where
  "libc_exit n status p = libc__exit n status p"

definition libc_abort :: "'w narc_files \<Rightarrow> 'w process \<Rightarrow> 'w" where
  "libc_abort n p = libc__exit n 134 p"

text \<open>
  \<^verbatim>\<open>__libc_start\<close>: the program's \<^verbatim>\<open>main\<close>, which gets \<^verbatim>\<open>environ\<close> besides its arguments, may not end.
\<close>

definition libc_start ::
  "'w narc_files \<Rightarrow> (string list \<Rightarrow> int \<Rightarrow> string list \<Rightarrow> string list \<Rightarrow> 'w process \<Rightarrow> (int \<times> 'w process) option) \<Rightarrow>
   int \<Rightarrow> string list \<Rightarrow> string list \<Rightarrow> 'w process \<Rightarrow> 'w option" where
  "libc_start n main argc argv envp p =
     (let environ = envp
      in map_option (\<lambda>(status, p). libc_exit n status p) (main environ argc argv envp p))"

section \<open>Streams\<close>

definition libc_fflush :: "nat option \<Rightarrow> 'w process \<Rightarrow> int \<times> 'w process" where
  "libc_fflush stream p = (0, p)"

definition libc_putchar :: "'w narc \<Rightarrow> int \<Rightarrow> 'w process \<Rightarrow> (int \<times> 'w process) option" where
  "libc_putchar n character p = libc_fputc n character (Some 1) p"

definition libc_vfprintf :: "'w narc \<Rightarrow> nat option \<Rightarrow> string \<Rightarrow> vararg list \<Rightarrow> 'w process \<Rightarrow> (int \<times> 'w process) option" where
  "libc_vfprintf n stream format arguments p = format_from n stream format arguments 0 p"

definition libc_vprintf :: "'w narc \<Rightarrow> string \<Rightarrow> vararg list \<Rightarrow> 'w process \<Rightarrow> (int \<times> 'w process) option" where
  "libc_vprintf n format arguments p = libc_vfprintf n (Some 1) format arguments p"

section \<open>Facts\<close>

text \<open>A look at a path by name leaves no descriptor behind: it closes what it has opened, and nothing when it could not.\<close>

lemma libc_stat_closes:
  assumes "libc_open n path 0 p = (fd, q)"
  shows "libc_stat n nf path buffer p = (if fd < 0 then (-1, None, q)
    else case libc_fstat nf fd buffer q of (r, st, t) \<Rightarrow> (r, st, snd (libc_close n fd t)))"
  using assms by (simp add: libc_stat_def Let_def split_def)

text \<open>The number of blocks covers the size.\<close>

lemma blocks_cover: "fi_size info < 2 ^ 63 \<Longrightarrow> unat ((fi_size info + 511) div 512) * 512 \<ge> unat (fi_size info)"
  by (simp add: unat_div unat_word_ariths word_less_nat_alt)

end
