(* ===== verification/Pablo_Service.thy ===== *)
theory Pablo_Service
  imports Pablo_Text
begin

text \<open>
  The services of the supervisor and the check of their dependency graph,
  \<open>userland/pablo/src/service.c\<close>. A configuration holds the list of its services, whose length is the
  C \<^verbatim>\<open>service_count\<close>; a pointer to a service is its index. The character arrays of a service are the
  strings they hold, its arguments a list of the length \<^verbatim>\<open>argument_count\<close>.
\<close>

section \<open>Services\<close>

datatype pablo_policy = PABLO_ONCE | PABLO_RESPAWN
datatype pablo_service_state = PABLO_STOPPED | PABLO_RUNNING | PABLO_BACKOFF | PABLO_COMPLETE | PABLO_FAILED

record pablo_service =
  s_name :: string
  s_path :: string
  s_after :: string
  s_arguments :: "string list"
  s_policy :: pablo_policy
  s_state :: pablo_service_state
  s_pid :: int
  s_restart_count :: u32
  s_ready_tick :: u64
  s_exit_status :: int

record pablo_config =
  services :: "pablo_service list"
  restart_limit :: u32
  restart_delay :: u32

abbreviation (input) PABLO_SERVICE_MAX :: nat where "PABLO_SERVICE_MAX \<equiv> 16"

definition pablo_service_find :: "pablo_config \<Rightarrow> string \<Rightarrow> nat option" where
  "pablo_service_find config name =
     List.find (\<lambda>i. strcmp (s_name (services config ! i)) name = 0) [0..<length (services config)]"

definition service_index :: "pablo_config \<Rightarrow> string \<Rightarrow> int" where
  "service_index config name =
     (case List.find (\<lambda>i. strcmp (s_name (services config ! i)) name = 0) [0..<length (services config)] of
        Some i \<Rightarrow> int i
      | None \<Rightarrow> -1)"

text \<open>
  The depth first walk: 1 marks a service on the way, 2 a finished one. Past the end of the array of
  marks, where the code never comes, the walk stops.
\<close>

function visit_dependency :: "pablo_config \<Rightarrow> nat \<Rightarrow> u8 list \<Rightarrow> int \<times> u8 list" where
  "visit_dependency config index states =
     (if length states \<le> index then (-1, states)
      else if states ! index = 1 then (-1, states)
      else if states ! index = 2 then (0, states)
      else let states = states[index := 1]; service = services config ! index
           in if s_after service \<noteq> []
              then let dependency = service_index config (s_after service)
                   in if dependency < 0 then (-1, states)
                      else let (r, states) = visit_dependency config (nat dependency) states
                           in if r \<noteq> 0 then (-1, states) else (0, states[index := 2])
              else (0, states[index := 2]))"
  by pat_completeness auto

lemma unmarked_less:
  assumes "i < length xs" "P (xs ! i)" "\<not> P y"
  shows "length (filter P (xs[i := y])) < length (filter P xs)"
proof -
  have "xs = take i xs @ xs ! i # drop (Suc i) xs"
    using assms(1) by (rule id_take_nth_drop)
  then have "length (filter P xs) = length (filter P (take i xs @ xs ! i # drop (Suc i) xs))"
    by simp
  then show ?thesis
    using assms by (simp add: upd_conv_take_nth_drop)
qed

termination visit_dependency
proof (relation "measure (\<lambda>(_, _, states). length (filter (\<lambda>x. x \<noteq> 1 \<and> x \<noteq> 2) states))", goal_cases)
  case 1
  then show ?case
    by simp
next
  case (2 config index states)
  then show ?case
    by (auto intro!: unmarked_less)
qed

declare visit_dependency.simps [simp del]

definition service_ok :: "pablo_config \<Rightarrow> nat \<Rightarrow> bool" where
  "service_ok config i \<longleftrightarrow>
     (let service = services config ! i; count = length (services config)
      in s_name service \<noteq> [] \<and> (case s_path service of c # _ \<Rightarrow> c = CHR ''/'' | [] \<Rightarrow> False) \<and>
         list_all (\<lambda>j. strcmp (s_name service) (s_name (services config ! j)) \<noteq> 0) [i + 1..<count] \<and>
         (s_after service = [] \<or>
            strcmp (s_after service) (s_name service) \<noteq> 0 \<and> pablo_service_find config (s_after service) \<noteq> None))"

fun visit_all :: "pablo_config \<Rightarrow> nat list \<Rightarrow> u8 list \<Rightarrow> int" where
  "visit_all config [] states = 0"
| "visit_all config (i # is) states =
     (let (r, states) = visit_dependency config i states
      in if r \<noteq> 0 then -1 else visit_all config is states)"

definition pablo_service_validate :: "pablo_config \<Rightarrow> int" where
  "pablo_service_validate config =
     (if \<not> list_all (service_ok config) [0..<length (services config)] then -1
      else visit_all config [0..<length (services config)] (replicate PABLO_SERVICE_MAX 0))"

section \<open>The dependency graph\<close>

text \<open>The strings of the services are C strings.\<close>

definition names_ok :: "pablo_config \<Rightarrow> bool" where
  "names_ok c \<longleftrightarrow> (\<forall>s \<in> set (services c). cstring (s_name s) \<and> cstring (s_after s))"

text \<open>A service depends on the one its \<^verbatim>\<open>after\<close> names.\<close>

definition depends :: "pablo_config \<Rightarrow> (string \<times> string) set" where
  "depends c = {(s_name s, s_after s) | s. s \<in> set (services c) \<and> s_after s \<noteq> []}"

definition edge :: "pablo_config \<Rightarrow> (nat \<times> nat) set" where
  "edge c = {(i, j). i < length (services c) \<and> s_after (services c ! i) \<noteq> [] \<and>
     j < length (services c) \<and> s_name (services c ! j) = s_after (services c ! i)}"

definition resolved :: "pablo_config \<Rightarrow> bool" where
  "resolved c \<longleftrightarrow> (\<forall>s \<in> set (services c). s_after s \<noteq> [] \<longrightarrow> s_after s \<in> s_name ` set (services c))"

lemma find_upt: "List.find P [0..<n] = Some i \<longleftrightarrow> i < n \<and> P i \<and> (\<forall>j < i. \<not> P j)"
proof -
  have "(\<forall>j < k. \<not> P ([0..<n] ! j)) = (\<forall>j < k. \<not> P j)" if "k < n" for k
    using that by simp
  then show ?thesis
    unfolding find_Some_iff by (metis add_0 diff_zero length_upt nth_upt)
qed

lemma find_service:
  assumes "names_ok c" "cstring name"
  shows "pablo_service_find c name = Some i \<longleftrightarrow>
      i < length (services c) \<and> s_name (services c ! i) = name \<and> (\<forall>j < i. s_name (services c ! j) \<noteq> name)"
    and "pablo_service_find c name = None \<longleftrightarrow> name \<notin> s_name ` set (services c)"
proof -
  have eq: "strcmp (s_name (services c ! j)) name = 0 \<longleftrightarrow> s_name (services c ! j) = name" if "j < length (services c)" for j
    using that assms by (intro strcmp_0_iff) (auto simp: names_ok_def)
  show "pablo_service_find c name = Some i \<longleftrightarrow>
      i < length (services c) \<and> s_name (services c ! i) = name \<and> (\<forall>j < i. s_name (services c ! j) \<noteq> name)"
    using eq by (auto simp: pablo_service_find_def find_upt)
  show "pablo_service_find c name = None \<longleftrightarrow> name \<notin> s_name ` set (services c)"
    using eq by (force simp: pablo_service_find_def find_None_iff set_conv_nth)
qed

lemma service_index_find:
  "service_index c name = (case pablo_service_find c name of Some i \<Rightarrow> int i | None \<Rightarrow> -1)"
  by (simp add: service_index_def pablo_service_find_def)

lemma edge_unique:
  assumes "distinct (map s_name (services c))" "(i, j) \<in> edge c" "(i, k) \<in> edge c"
  shows "j = k"
  using assms by (auto simp: edge_def distinct_conv_nth) metis

text \<open>Where the dependency of a service is, when there is one.\<close>

lemma dependency_edge:
  assumes "names_ok c" "resolved c" "i < length (services c)" "s_after (services c ! i) \<noteq> []"
  obtains j where "service_index c (s_after (services c ! i)) = int j" "(i, j) \<in> edge c"
proof -
  have s: "services c ! i \<in> set (services c)"
    using assms(3) by simp
  then have cs: "cstring (s_after (services c ! i))"
    using assms(1) by (simp add: names_ok_def)
  have "s_after (services c ! i) \<in> s_name ` set (services c)"
    using s assms(2,4) by (simp add: resolved_def)
  then obtain j where j: "pablo_service_find c (s_after (services c ! i)) = Some j"
    using find_service(2) [OF assms(1) cs] by (cases "pablo_service_find c (s_after (services c ! i))") auto
  then show thesis
    using find_service(1) [OF assms(1) cs, of j] assms(3,4)
    by (intro that [of j]) (auto simp: service_index_find edge_def)
qed

section \<open>The walk finds the cycles\<close>

text \<open>No cycle can be reached from a finished service, and each one on the way reaches \<open>i\<close>.\<close>

definition safe :: "pablo_config \<Rightarrow> nat \<Rightarrow> bool" where
  "safe c i \<longleftrightarrow> (\<forall>k. (i, k) \<in> (edge c)\<^sup>* \<longrightarrow> (k, k) \<notin> (edge c)\<^sup>+)"

definition marks_ok :: "pablo_config \<Rightarrow> u8 list \<Rightarrow> bool" where
  "marks_ok c st \<longleftrightarrow> length (services c) \<le> length st \<and> (\<forall>i < length st. st ! i = 2 \<longrightarrow> safe c i)"

lemma safe_step:
  assumes "distinct (map s_name (services c))" "\<And>j. (i, j) \<in> edge c \<Longrightarrow> safe c j"
  shows "safe c i"
proof -
  have "(i, i) \<notin> (edge c)\<^sup>+"
  proof
    assume "(i, i) \<in> (edge c)\<^sup>+"
    moreover from this obtain j where "(i, j) \<in> edge c" "(j, i) \<in> (edge c)\<^sup>*"
      by (meson tranclD)
    ultimately show False
      using assms(2) by (auto simp: safe_def)
  qed
  moreover have "(k, k) \<notin> (edge c)\<^sup>+" if "(i, k) \<in> (edge c)\<^sup>*" "i \<noteq> k" for k
    using that assms(2) by (metis converse_rtranclE safe_def)
  ultimately show ?thesis
    unfolding safe_def by metis
qed

lemma marks_finish:
  assumes "i < length st" "st ! i \<noteq> 1" "st ! i \<noteq> 2" "safe c i" "marks_ok c st2" "length st2 = length st"
    and "\<forall>j < length st. (st2 ! j = 1) = (st[i := 1] ! j = 1) \<and> (st[i := 1] ! j = 2 \<longrightarrow> st2 ! j = 2)"
  shows "marks_ok c (st2[i := 2]) \<and> st2[i := 2] ! i = 2 \<and> length (st2[i := 2]) = length st \<and>
    (\<forall>j < length st. (st2[i := 2] ! j = 1) = (st ! j = 1) \<and> (st ! j = 2 \<longrightarrow> st2[i := 2] ! j = 2))"
proof -
  have "marks_ok c (st2[i := 2])"
    using assms(1,4-6) by (auto simp: marks_ok_def nth_list_update)
  moreover have "(st2[i := 2] ! j = 1) = (st ! j = 1) \<and> (st ! j = 2 \<longrightarrow> st2[i := 2] ! j = 2)" if "j < length st" for j
    using that assms(1-3,6,7) by (cases "j = i") simp_all
  ultimately show ?thesis
    using assms(1,6) by simp
qed

lemma visit_spec:
  assumes "names_ok c" "resolved c" "distinct (map s_name (services c))"
    and "visit_dependency c i st = (r, st')" "i < length (services c)" "marks_ok c st"
    and "\<And>j. j < length st \<Longrightarrow> st ! j = 1 \<Longrightarrow> (j, i) \<in> (edge c)\<^sup>+"
  shows "if r = 0 then marks_ok c st' \<and> st' ! i = 2 \<and> length st' = length st \<and>
      (\<forall>j < length st. (st' ! j = 1) = (st ! j = 1) \<and> (st ! j = 2 \<longrightarrow> st' ! j = 2))
    else \<not> acyclic (edge c)"
  using assms
proof (induction c i st arbitrary: r st' rule: visit_dependency.induct)
  case (1 c i st)
  note ok = "1.prems"(1-3)
  have i: "i < length st"
    using "1.prems"(5,6) by (simp add: marks_ok_def)
  note v = "1.prems"(4) [unfolded visit_dependency.simps [of c i st]]
  consider "st ! i = 1" | "st ! i = 2" | "st ! i \<noteq> 1" "st ! i \<noteq> 2"
    by blast
  then show ?case
  proof cases
    case 1
    then have "r \<noteq> 0" "(i, i) \<in> (edge c)\<^sup>+"
      using v i "1.prems"(7) by auto
    then show ?thesis
      by (auto simp: acyclic_def)
  next
    case 2
    then show ?thesis
      using v i "1.prems"(6) by auto
  next
    case new: 3
    define st1 where "st1 = st[i := 1]"
    have at1: "st1 ! j = (if j = i then 1 else st ! j)" for j
      using i by (simp add: st1_def)
    then have m1: "marks_ok c st1"
      using "1.prems"(6) by (simp add: marks_ok_def) (simp add: st1_def)
    show ?thesis
    proof (cases "s_after (services c ! i) = []")
      case True
      then have "safe c i"
        using safe_step [OF ok(3), of i] by (simp add: edge_def)
      then have "marks_ok c (st1[i := 2]) \<and> st1[i := 2] ! i = 2 \<and> length (st1[i := 2]) = length st \<and>
          (\<forall>j < length st. (st1[i := 2] ! j = 1) = (st ! j = 1) \<and> (st ! j = 2 \<longrightarrow> st1[i := 2] ! j = 2))"
        by (intro marks_finish [OF i new _ m1]) (simp_all add: st1_def)
      moreover have "(r, st') = (0, st1[i := 2])"
        using True v i new by (simp add: st1_def Let_def)
      ultimately show ?thesis
        by simp
    next
      case False
      then obtain d where d: "service_index c (s_after (services c ! i)) = int d" "(i, d) \<in> edge c"
        using dependency_edge [OF ok(1,2) "1.prems"(5)] by blast
      obtain r2 st2 where r2: "visit_dependency c d st1 = (r2, st2)"
        by fastforce
      have eq: "(r, st') = (if r2 \<noteq> 0 then (-1, st2) else (0, st2[i := 2]))"
        using v i new False d(1) r2 by (simp add: st1_def Let_def)
      have grey: "(j, d) \<in> (edge c)\<^sup>+" if "j < length st1" "st1 ! j = 1" for j
      proof (cases "j = i")
        case False
        then show ?thesis
          using that "1.prems"(7) [of j] d(2) by (auto simp: st1_def intro: trancl_into_trancl)
      qed (use d(2) in blast)
      have dn: "d < length (services c)"
        using d(2) by (simp add: edge_def)
      note IH = "1.IH" [OF _ _ _ refl refl False refl _ ok, unfolded d(1) nat_int]
      have ih: "if r2 = 0 then marks_ok c st2 \<and> st2 ! d = 2 \<and> length st2 = length st1 \<and>
          (\<forall>j < length st1. (st2 ! j = 1) = (st1 ! j = 1) \<and> (st1 ! j = 2 \<longrightarrow> st2 ! j = 2))
        else \<not> acyclic (edge c)"
        unfolding st1_def
      proof (rule IH)
        show "\<not> length st \<le> i" "st ! i \<noteq> 1" "st ! i \<noteq> 2"
          using i new by simp_all
      qed (use r2 grey dn m1 in \<open>simp_all add: st1_def\<close>)
      show ?thesis
      proof (cases "r2 = 0")
        case True
        then have m2: "marks_ok c st2" "st2 ! d = 2" "length st2 = length st1"
          "\<forall>j < length st1. (st2 ! j = 1) = (st1 ! j = 1) \<and> (st1 ! j = 2 \<longrightarrow> st2 ! j = 2)"
          using ih by simp_all
        have "d < length st2"
          using m2(1) dn by (simp add: marks_ok_def)
        then have "safe c d"
          using m2(1,2) by (simp add: marks_ok_def)
        then have "safe c i"
          using edge_unique [OF ok(3) d(2)] by (metis safe_step [OF ok(3)])
        then show ?thesis
          using marks_finish [OF i new _ m2(1)] m2(3,4) eq True by (simp add: st1_def)
      qed (use ih eq in auto)
    qed
  qed
qed


lemma visit_all_spec:
  assumes "names_ok c" "resolved c" "distinct (map s_name (services c))" "marks_ok c st"
    "\<forall>j < length st. st ! j \<noteq> 1" "set is \<subseteq> {..<length (services c)}"
  shows "if visit_all c is st = 0 then \<forall>i \<in> set is. safe c i else \<not> acyclic (edge c)"
  using assms(4-)
proof (induction "is" arbitrary: st)
  case (Cons i "is")
  obtain r st' where r: "visit_dependency c i st = (r, st')"
    by fastforce
  have "i < length (services c)"
    using Cons.prems(3) by simp
  note v = visit_spec [OF assms(1-3) r this Cons.prems(1)]
  show ?case
  proof (cases "r = 0")
    case True
    then have st': "marks_ok c st'" "st' ! i = 2" "\<forall>j < length st'. st' ! j \<noteq> 1" "length st' = length st"
      using v Cons.prems(2) by auto
    then have "safe c i"
      using \<open>i < length (services c)\<close> by (auto simp: marks_ok_def)
    then show ?thesis
      using Cons.IH [OF st'(1,3)] Cons.prems(3) True r by (auto split: if_splits)
  next
    case False
    then show ?thesis
      using v Cons.prems(2) r by simp
  qed
qed simp

text \<open>Cycles of services and cycles of names.\<close>

lemma edge_depends: "(i, j) \<in> (edge c)\<^sup>+ \<Longrightarrow> (s_name (services c ! i), s_name (services c ! j)) \<in> (depends c)\<^sup>+"
proof (induction rule: trancl_induct)
  case (base j)
  then show ?case
    by (force simp: edge_def depends_def)
next
  case (step j k)
  then have "(s_name (services c ! j), s_name (services c ! k)) \<in> depends c"
    by (force simp: edge_def depends_def)
  then show ?case
    using step.IH by (rule trancl_into_trancl [rotated])
qed

lemma depends_edge:
  assumes "resolved c" "distinct (map s_name (services c))" "(x, y) \<in> (depends c)\<^sup>+"
  shows "\<exists>i j. (i, j) \<in> (edge c)\<^sup>+ \<and> x = s_name (services c ! i) \<and> y = s_name (services c ! j)"
  using assms(3)
proof (induction rule: trancl_induct)
  case (base y)
  then obtain i where "i < length (services c)" "x = s_name (services c ! i)" "y = s_after (services c ! i)"
    "s_after (services c ! i) \<noteq> []"
    by (auto simp: depends_def in_set_conv_nth)
  then show ?case
    using assms(1) by (fastforce simp: resolved_def edge_def in_set_conv_nth)
next
  case (step y z)
  then obtain i j where ij: "(i, j) \<in> (edge c)\<^sup>+" "x = s_name (services c ! i)" "y = s_name (services c ! j)"
    by blast
  obtain k where k: "k < length (services c)" "y = s_name (services c ! k)" "z = s_after (services c ! k)"
    "s_after (services c ! k) \<noteq> []"
    using step.hyps(2) by (auto simp: depends_def in_set_conv_nth)
  have "j < length (services c)"
    using ij(1) by (rule tranclE) (auto simp: edge_def)
  then have "k = j"
    using assms(2) k(1,2) ij(3) by (simp add: distinct_conv_nth) metis
  obtain l where l: "l < length (services c)" "z = s_name (services c ! l)"
    using assms(1) k by (fastforce simp: resolved_def in_set_conv_nth)
  then have "(j, l) \<in> edge c"
    using k l \<open>k = j\<close> by (simp add: edge_def)
  then show ?case
    using ij l(2) by (blast intro: trancl_into_trancl)
qed

lemma acyclic_edge:
  assumes "resolved c" "distinct (map s_name (services c))"
  shows "acyclic (edge c) \<longleftrightarrow> acyclic (depends c)"
proof
  assume a: "acyclic (edge c)"
  show "acyclic (depends c)"
  proof (rule acyclicI, intro allI notI)
    fix x
    assume "(x, x) \<in> (depends c)\<^sup>+"
    then obtain i j where ij: "(i, j) \<in> (edge c)\<^sup>+" "s_name (services c ! i) = s_name (services c ! j)"
      using depends_edge [OF assms] by metis
    have "i < length (services c)" "j < length (services c)"
      using ij(1) by (auto simp: edge_def elim: tranclE converse_tranclE)
    then have "i = j"
      using assms(2) ij(2) by (simp add: distinct_conv_nth) metis
    then show False
      using a ij(1) by (simp add: acyclic_def)
  qed
next
  assume "acyclic (depends c)"
  then show "acyclic (edge c)"
    unfolding acyclic_def using edge_depends by blast
qed

lemma acyclic_safe: "\<forall>i < length (services c). safe c i \<Longrightarrow> acyclic (edge c)"
proof (rule acyclicI, intro allI notI)
  fix i
  assume s: "\<forall>i < length (services c). safe c i" and c: "(i, i) \<in> (edge c)\<^sup>+"
  then have "i < length (services c)"
    by (auto simp: edge_def elim: converse_tranclE)
  then show False
    using s c by (auto simp: safe_def)
qed

section \<open>Properties\<close>

text \<open>A configuration whose services can be started one after the other.\<close>

definition startable :: "pablo_config \<Rightarrow> bool" where
  "startable c \<longleftrightarrow> (\<forall>s \<in> set (services c). s_name s \<noteq> [] \<and> s_path s \<noteq> [] \<and> hd (s_path s) = CHR ''/'') \<and>
     distinct (map s_name (services c)) \<and> resolved c \<and> acyclic (depends c)"

lemma distinct_pairs: "distinct xs \<longleftrightarrow> (\<forall>i < length xs. \<forall>j. i < j \<and> j < length xs \<longrightarrow> xs ! i \<noteq> xs ! j)"
  by (auto simp: distinct_conv_nth) (metis linorder_neqE_nat)

lemma service_ok_iff:
  assumes "names_ok c" "i < length (services c)"
  shows "service_ok c i \<longleftrightarrow>
    (let s = services c ! i
     in s_name s \<noteq> [] \<and> s_path s \<noteq> [] \<and> hd (s_path s) = CHR ''/'' \<and>
        (\<forall>j. i < j \<and> j < length (services c) \<longrightarrow> s_name s \<noteq> s_name (services c ! j)) \<and>
        (s_after s \<noteq> [] \<longrightarrow> s_after s \<noteq> s_name s \<and> s_after s \<in> s_name ` set (services c)))"
proof -
  have c: "cstring (s_name (services c ! j))" "cstring (s_after (services c ! j))" if "j < length (services c)" for j
    using that assms(1) by (simp_all add: names_ok_def)
  have 1: "list_all (\<lambda>j. strcmp (s_name (services c ! i)) (s_name (services c ! j)) \<noteq> 0) [i + 1..<length (services c)] \<longleftrightarrow>
      (\<forall>j. i < j \<and> j < length (services c) \<longrightarrow> s_name (services c ! i) \<noteq> s_name (services c ! j))"
    using strcmp_0_iff [OF c(1) [OF assms(2)] c(1)] by (simp add: list_all_iff) (auto simp: Suc_le_eq)
  have 2: "pablo_service_find c (s_after (services c ! i)) \<noteq> None \<longleftrightarrow> s_after (services c ! i) \<in> s_name ` set (services c)"
    using find_service(2) [OF assms(1) c(2) [OF assms(2)]] by simp
  have 3: "(case s_path (services c ! i) of d # _ \<Rightarrow> d = CHR ''/'' | [] \<Rightarrow> False) \<longleftrightarrow>
      s_path (services c ! i) \<noteq> [] \<and> hd (s_path (services c ! i)) = CHR ''/''"
    by (simp split: list.split)
  have 4: "strcmp (s_after (services c ! i)) (s_name (services c ! i)) \<noteq> 0 \<longleftrightarrow> s_after (services c ! i) \<noteq> s_name (services c ! i)"
    using strcmp_0_iff [OF c(2) [OF assms(2)] c(1) [OF assms(2)]] by simp
  show ?thesis
    unfolding service_ok_def Let_def 1 2 3 4 by argo
qed

lemma service_ok_all:
  assumes "names_ok c"
  shows "list_all (service_ok c) [0..<length (services c)] \<longleftrightarrow>
    (\<forall>s \<in> set (services c). s_name s \<noteq> [] \<and> s_path s \<noteq> [] \<and> hd (s_path s) = CHR ''/'') \<and>
    distinct (map s_name (services c)) \<and> resolved c \<and> (\<forall>s \<in> set (services c). s_after s \<noteq> [] \<longrightarrow> s_after s \<noteq> s_name s)"
  by (auto simp: list_all_iff service_ok_iff [OF assms] Let_def distinct_pairs resolved_def all_set_conv_all_nth)

lemma validate_startable:
  assumes "names_ok c" "length (services c) \<le> 16"
  shows "pablo_service_validate c = 0 \<longleftrightarrow> startable c"
proof (cases "list_all (service_ok c) [0..<length (services c)]")
  case False
  have "s_after s \<noteq> s_name s" if "acyclic (depends c)" "s \<in> set (services c)" "s_after s \<noteq> []" for s
    using that by (auto simp: acyclic_def depends_def)
  then show ?thesis
    using False by (auto simp: pablo_service_validate_def startable_def service_ok_all [OF assms(1)])
next
  case True
  then have d: "resolved c" "distinct (map s_name (services c))"
    by (simp_all add: service_ok_all [OF assms(1)])
  have "marks_ok c (replicate 16 0)"
    using assms(2) by (simp add: marks_ok_def)
  then have "if visit_all c [0..<length (services c)] (replicate 16 0) = 0
      then \<forall>i \<in> set [0..<length (services c)]. safe c i else \<not> acyclic (edge c)"
    by (rule visit_all_spec [OF assms(1) d]) auto
  then have "visit_all c [0..<length (services c)] (replicate 16 0) = 0 \<longleftrightarrow> acyclic (edge c)"
    using acyclic_safe [of c] by (auto simp: safe_def acyclic_def split: if_splits)
  then show ?thesis
    using True d by (simp add: pablo_service_validate_def startable_def service_ok_all [OF assms(1)] acyclic_edge)
qed

text \<open>
  C33: a configuration is accepted exactly when its services can be started one after the other: every
  service has a name of its own and an absolute path, every dependency names a service, and no
  service depends on itself, directly or through others.
\<close>

theorem pablo_service_validate_iff:
  assumes "names_ok c" "length (services c) \<le> 16"
  shows "pablo_service_validate c = 0 \<longleftrightarrow> startable c"
  using assms by (rule validate_startable)

text \<open>Three services in a chain, and two that wait for each other.\<close>

definition example_service :: "string \<Rightarrow> string \<Rightarrow> pablo_service" where
  "example_service name after = \<lparr>s_name = name, s_path = ''/bin/x'', s_after = after, s_arguments = [],
     s_policy = PABLO_ONCE, s_state = PABLO_STOPPED, s_pid = 0, s_restart_count = 0, s_ready_tick = 0, s_exit_status = 0\<rparr>"

definition example_chain :: pablo_config where
  "example_chain = \<lparr>services = [example_service ''c'' ''b'', example_service ''b'' ''a'', example_service ''a'' []],
     restart_limit = 5, restart_delay = 64\<rparr>"

definition example_loop :: pablo_config where
  "example_loop = \<lparr>services = [example_service ''c'' ''b'', example_service ''b'' ''c''], restart_limit = 5, restart_delay = 64\<rparr>"

theorem pablo_service_validate_iff_witness: "startable example_chain \<and> \<not> startable example_loop"
proof -
  have "names_ok example_chain" "length (services example_chain) \<le> 16" "names_ok example_loop" "length (services example_loop) \<le> 16"
    by (simp_all add: names_ok_def example_chain_def example_loop_def example_service_def)
  moreover have "pablo_service_validate example_chain = 0" "pablo_service_validate example_loop \<noteq> 0"
    by code_simp+
  ultimately show ?thesis
    using pablo_service_validate_iff by blast
qed

end
