(* ===== verification/Pablo_Log.thy ===== *)
theory Pablo_Log
  imports Libc_Stdio
begin

text \<open>
  What the supervisor logs, \<open>userland/pablo/src/log.c\<close>: formatted output on \<^verbatim>\<open>stderr\<close>, the stream 2.
\<close>

datatype pablo_log_level = PABLO_LOG_INFO | PABLO_LOG_WARN | PABLO_LOG_ERROR

definition level_name :: "pablo_log_level \<Rightarrow> string" where
  "level_name level = (if level = PABLO_LOG_WARN then ''warn'' else if level = PABLO_LOG_ERROR then ''error'' else ''info'')"

definition pablo_log :: "'w narc \<Rightarrow> pablo_log_level \<Rightarrow> string \<Rightarrow> 'w process \<Rightarrow> 'w process option" where
  "pablo_log n level message p =
     map_option snd (libc_fprintf n (Some 2) (''[pablo] %s: %s'' @ [CHR 0x0A])
       [Text (Some (level_name level)), Text (Some message)] p)"

definition pablo_log_service :: "'w narc \<Rightarrow> pablo_log_level \<Rightarrow> string \<Rightarrow> string \<Rightarrow> 'w process \<Rightarrow> 'w process option" where
  "pablo_log_service n level service message p =
     map_option snd (libc_fprintf n (Some 2) (''[pablo] %s: %s: %s'' @ [CHR 0x0A])
       [Text (Some (level_name level)), Text (Some service), Text (Some message)] p)"

definition pablo_log_status :: "'w narc \<Rightarrow> pablo_log_level \<Rightarrow> string \<Rightarrow> string \<Rightarrow> int \<Rightarrow> 'w process \<Rightarrow> 'w process option" where
  "pablo_log_status n level service message status p =
     map_option snd (libc_fprintf n (Some 2) (''[pablo] %s: %s: %s (%d)'' @ [CHR 0x0A])
       [Text (Some (level_name level)), Text (Some service), Text (Some message), Number (word_of_int status)] p)"

end
