(* ===== verification/Pablo_Config.thy ===== *)
theory Pablo_Config
  imports Pablo_Service Pablo_Log Libc_Alloc
begin

text \<open>
  Reading the configuration of the supervisor: \<open>userland/pablo/src/io.c\<close> and \<open>config.c\<close>, with the
  directory streams of \<open>lib/libc/src/dirent\<close>.

  A file is read into a buffer; what the parser sees of it is the C string at its start. The lines
  are cut out of the buffer one by one, so a cursor is the string that is left. Loops that go on for
  as long as the kernel tells them to give an option, None when they never end.
\<close>

section \<open>Files\<close>

abbreviation (input) O_RDONLY :: u32 where "O_RDONLY \<equiv> 0"
abbreviation (input) PABLO_NAME_MAX :: nat where "PABLO_NAME_MAX \<equiv> 32"
abbreviation (input) PABLO_SERVICE_FILE_MAX :: nat where "PABLO_SERVICE_FILE_MAX \<equiv> 40"
abbreviation (input) PABLO_PATH_MAX :: nat where "PABLO_PATH_MAX \<equiv> 128"
abbreviation (input) PABLO_ARG_MAX :: nat where "PABLO_ARG_MAX \<equiv> 8"
abbreviation (input) PABLO_ARG_LENGTH :: nat where "PABLO_ARG_LENGTH \<equiv> 64"
abbreviation (input) PABLO_FILE_MAX :: nat where "PABLO_FILE_MAX \<equiv> 4096"

text \<open>The loop of \<^verbatim>\<open>pablo_read_file\<close>; the flag is False when it fails.\<close>

partial_function (option) read_rest :: "'w narc \<Rightarrow> int \<Rightarrow> nat \<Rightarrow> string \<Rightarrow> 'w process \<Rightarrow> (bool \<times> string \<times> 'w process) option" where
  "read_rest n fd capacity buffer p =
     (if length buffer + 1 < capacity
      then case libc_read n fd (capacity - length buffer - 1) p of
             (count, bytes, p) \<Rightarrow>
               if count < 0 \<and> errno p = EINTR then read_rest n fd capacity buffer p
               else if count < 0 then Some (False, buffer, snd (libc_close n fd p))
               else if count = 0 then Some (True, buffer, p)
               else read_rest n fd capacity (buffer @ take (nat count) bytes) p
      else Some (True, buffer, p))"

definition pablo_read_file :: "'w narc \<Rightarrow> string \<Rightarrow> nat \<Rightarrow> 'w process \<Rightarrow> (int \<times> string \<times> 'w process) option" where
  "pablo_read_file n path capacity p =
     (if capacity = 0 then Some (-1, [], p\<lparr>errno := EINVAL\<rparr>)
      else case libc_open n path O_RDONLY p of
             (fd, p) \<Rightarrow>
               if fd < 0 then Some (-1, [], p)
               else do {
                 (ok, buffer, p) \<leftarrow> read_rest n fd capacity [] p;
                 if \<not> ok then Some (-1, [], p)
                 else let (overflow, extra, p) = libc_read n fd 1 p;
                          (closed, p) = libc_close n fd p
                      in if overflow > 0 then Some (-1, [], p\<lparr>errno := EOVERFLOW\<rparr>)
                         else if overflow < 0 \<or> closed \<noteq> 0 then Some (-1, [], p)
                         else Some (0, buffer, p)
               })"

section \<open>Directories\<close>

text \<open>An open directory is its descriptor and the address of its stream.\<close>

definition libc_opendir :: "'w narc \<Rightarrow> string \<Rightarrow> 'w process \<Rightarrow> (int \<times> u64) option \<times> 'w process" where
  "libc_opendir n path p =
     (let (fd, p) = libc_open n path 0x10000 p
      in if fd < 0 then (None, p)
         else let (directory, p) = libc_malloc n 88 p
              in if directory = 0 then (None, snd (libc_close n fd p)) else (Some (fd, directory), p))"

text \<open>The name of the next entry.\<close>

definition libc_readdir :: "'w narc \<Rightarrow> int \<times> u64 \<Rightarrow> 'w process \<Rightarrow> string option \<times> 'w process" where
  "libc_readdir n directory p =
     (let (r, source, w) = narc_read_dir n (fst directory) (world p);
          (result, p) = libc_result (r, w) p
      in if result \<le> 0 then (None, p) else (Some (cstr (de_name source)), p))"

definition libc_closedir :: "'w narc \<Rightarrow> int \<times> u64 \<Rightarrow> 'w process \<Rightarrow> int \<times> 'w process" where
  "libc_closedir n directory p =
     (let (result, p) = libc_close n (fst directory) p in (result, libc_free n (snd directory) p))"

section \<open>Lines\<close>

definition split_setting :: "string \<Rightarrow> (string \<times> string) option" where
  "split_setting line =
     (case strchr line (CHR ''='') of
        None \<Rightarrow> None
      | Some i \<Rightarrow> let key = pablo_trim (take i line); v = pablo_trim (drop (i + 1) line)
                  in if key \<noteq> [] \<and> v \<noteq> [] then Some (key, v) else None)"

text \<open>The next line and the cursor behind it.\<close>

definition next_line :: "string \<Rightarrow> (string \<times> string) option" where
  "next_line cursor =
     (if strlen cursor = 0 then None
      else case strchr cursor (CHR 0x0A) of
             Some i \<Rightarrow> Some (take i cursor, drop (i + 1) cursor)
           | None \<Rightarrow> Some (cursor, drop (strlen cursor) cursor))"

definition skipped :: "string \<Rightarrow> bool" where
  "skipped line \<longleftrightarrow> (case line of [] \<Rightarrow> True | c # _ \<Rightarrow> c = CHR ''#'')"

text \<open>The loop over the lines of a buffer that both loaders have, with what they do with a line.\<close>

lemma next_line_shorter: "next_line cursor = Some (line, rest) \<Longrightarrow> length rest < length cursor"
  by (cases cursor) (auto simp: next_line_def split: option.splits if_splits)

function each_line :: "(string \<Rightarrow> 'c \<Rightarrow> int \<times> 'c) \<Rightarrow> string \<Rightarrow> 'c \<Rightarrow> int \<times> 'c" where
  "each_line f cursor c =
     (case next_line cursor of
        None \<Rightarrow> (0, c)
      | Some (line, cursor) \<Rightarrow>
          let line = pablo_trim line
          in if skipped line then each_line f cursor c
             else let (r, c) = f line c in if r \<noteq> 0 then (-1, c) else each_line f cursor c)"
  by pat_completeness auto
termination
  by (relation "measure (\<lambda>(_, cursor, _). length cursor)") (auto dest: next_line_shorter)

declare each_line.simps [simp del]

section \<open>Settings\<close>

definition settings_line :: "string \<Rightarrow> pablo_config \<Rightarrow> int \<times> pablo_config" where
  "settings_line line config =
     (case split_setting line of
        None \<Rightarrow> (-1, config)
      | Some (key, v) \<Rightarrow>
          (case pablo_parse_unsigned v of
             None \<Rightarrow> (-1, config)
           | Some number \<Rightarrow>
               if strcmp key ''restart_limit'' = 0 then (0, config\<lparr>restart_limit := number\<rparr>)
               else if strcmp key ''restart_delay'' = 0 then (0, config\<lparr>restart_delay := number\<rparr>)
               else (-1, config)))"

definition load_settings :: "'w narc \<Rightarrow> pablo_config \<Rightarrow> string \<Rightarrow> 'w process \<Rightarrow> (int \<times> pablo_config \<times> 'w process) option" where
  "load_settings n config path p = do {
     (r, buffer, p) \<leftarrow> pablo_read_file n path PABLO_FILE_MAX p;
     if r \<noteq> 0 then Some (if errno p = ENOENT then 0 else -1, config, p)
     else let (r, config) = each_line settings_line (cstr buffer) config in Some (r, config, p)
   }"

section \<open>Services\<close>

definition service_name :: "string \<Rightarrow> string option" where
  "service_name filename =
     (let suffix = ''.service''
      in if \<not> pablo_has_suffix filename suffix then None
         else let len = strlen filename - length suffix
              in if len = 0 \<or> len \<ge> PABLO_NAME_MAX then None else Some (take len filename))"

definition parse_service_line :: "string \<Rightarrow> pablo_service \<Rightarrow> int \<times> pablo_service" where
  "parse_service_line line service =
     (case split_setting line of
        None \<Rightarrow> (-1, service)
      | Some (key, v) \<Rightarrow>
          if strcmp key ''exec'' = 0
          then let (r, text) = pablo_copy (s_path service) PABLO_PATH_MAX v in (r, service\<lparr>s_path := text\<rparr>)
          else if strcmp key ''after'' = 0
          then let (r, text) = pablo_copy (s_after service) PABLO_NAME_MAX v in (r, service\<lparr>s_after := text\<rparr>)
          else if strcmp key ''policy'' = 0
          then if strcmp v ''once'' = 0 then (0, service\<lparr>s_policy := PABLO_ONCE\<rparr>)
               else if strcmp v ''respawn'' = 0 then (0, service\<lparr>s_policy := PABLO_RESPAWN\<rparr>)
               else (-1, service)
          else if strcmp key ''arg'' = 0
          then if length (s_arguments service) \<ge> PABLO_ARG_MAX then (-1, service)
               else let (r, text) = pablo_copy [] PABLO_ARG_LENGTH v
                    in (r, service\<lparr>s_arguments := s_arguments service @ [text]\<rparr>)
          else (-1, service))"

definition empty_service :: pablo_service where
  "empty_service = \<lparr>s_name = [], s_path = [], s_after = [], s_arguments = [], s_policy = PABLO_ONCE,
     s_state = PABLO_STOPPED, s_pid = 0, s_restart_count = 0, s_ready_tick = 0, s_exit_status = 0\<rparr>"

definition load_service :: "'w narc \<Rightarrow> string \<Rightarrow> string \<Rightarrow> 'w process \<Rightarrow> (int \<times> pablo_service \<times> 'w process) option" where
  "load_service n directory filename p =
     (case service_name filename of
        None \<Rightarrow> Some (-1, empty_service, p)
      | Some name \<Rightarrow>
          let service = empty_service\<lparr>s_name := name\<rparr>
          in if strlen directory + strlen filename + 2 > PABLO_PATH_MAX then Some (-1, service, p)
             else do {
               (r, buffer, p) \<leftarrow> pablo_read_file n (directory @ ''/'' @ filename) PABLO_FILE_MAX p;
               if r \<noteq> 0 then Some (-1, service, p)
               else let (r, service) = each_line parse_service_line (cstr buffer) service
                    in if r \<noteq> 0 then Some (-1, service, p)
                       else Some (if s_path service \<noteq> [] then 0 else -1, service, p)
             })"

text \<open>
  The insertion sort of the names: \<open>sift\<close> moves the greater ones up from a position and puts the
  current one there.
\<close>

fun sift :: "string list \<Rightarrow> string \<Rightarrow> nat \<Rightarrow> string list" where
  "sift names current 0 = names[0 := current]"
| "sift names current (Suc position) =
     (if strcmp (names ! position) current > 0
      then sift (names[Suc position := names ! position]) current position
      else names[Suc position := current])"

definition sort_names :: "string list \<Rightarrow> string list" where
  "sort_names names = fold (\<lambda>i names. sift names (names ! i) i) [1..<length names] names"

text \<open>The names of the entries of the directory; the flag is False when there are too many or one is too long.\<close>

partial_function (option) entry_names :: "'w narc \<Rightarrow> int \<times> u64 \<Rightarrow> string list \<Rightarrow> 'w process \<Rightarrow> (bool \<times> string list \<times> 'w process) option" where
  "entry_names n stream names p =
     (case libc_readdir n stream p of
        (None, p) \<Rightarrow> Some (True, names, p)
      | (Some entry, p) \<Rightarrow>
          if (entry \<noteq> [] \<and> hd entry = CHR ''.'') \<or> \<not> pablo_has_suffix entry ''.service''
          then entry_names n stream names p
          else if length names \<ge> PABLO_SERVICE_MAX \<or> fst (pablo_copy [] PABLO_SERVICE_FILE_MAX entry) \<noteq> 0
          then Some (False, names, snd (libc_closedir n stream p))
          else entry_names n stream (names @ [snd (pablo_copy [] PABLO_SERVICE_FILE_MAX entry)]) p)"

fun load_each :: "'w narc \<Rightarrow> string \<Rightarrow> string list \<Rightarrow> pablo_config \<Rightarrow> 'w process \<Rightarrow> (int \<times> pablo_config \<times> 'w process) option" where
  "load_each n directory [] config p = Some (0, config, p)"
| "load_each n directory (name # names) config p = do {
     (r, service, p) \<leftarrow> load_service n directory name p;
     if r \<noteq> 0 then Some (-1, config, p)
     else load_each n directory names (config\<lparr>services := services config @ [service]\<rparr>) p
   }"

definition load_services :: "'w narc \<Rightarrow> pablo_config \<Rightarrow> string \<Rightarrow> 'w process \<Rightarrow> (int \<times> pablo_config \<times> 'w process) option" where
  "load_services n config directory p =
     (case libc_opendir n directory p of
        (None, p) \<Rightarrow> Some (if errno p = ENOENT then 0 else -1, config, p)
      | (Some stream, p) \<Rightarrow> do {
          (ok, names, p) \<leftarrow> entry_names n stream [] p;
          if \<not> ok then Some (-1, config, p)
          else let (closed, p) = libc_closedir n stream p
               in if closed \<noteq> 0 then Some (-1, config, p)
                  else load_each n directory (sort_names names) config p
        })"

section \<open>The configuration\<close>

definition pablo_config_defaults :: pablo_config where
  "pablo_config_defaults = \<lparr>services = [], restart_limit = 5, restart_delay = 64\<rparr>"

definition pablo_config_load :: "'w narc \<Rightarrow> string \<Rightarrow> string \<Rightarrow> 'w process \<Rightarrow> (int \<times> pablo_config \<times> 'w process) option" where
  "pablo_config_load n settings_path services_path p = do {
     (r, config, p) \<leftarrow> load_settings n pablo_config_defaults settings_path p;
     if r \<noteq> 0 then do { p \<leftarrow> pablo_log_service n PABLO_LOG_ERROR settings_path ''invalid config'' p; Some (-1, config, p) }
     else do {
       (r, config, p) \<leftarrow> load_services n config services_path p;
       if r \<noteq> 0 then do { p \<leftarrow> pablo_log_service n PABLO_LOG_ERROR services_path ''invalid service'' p; Some (-1, config, p) }
       else Some (pablo_service_validate config, config, p)
     }
   }"

end
