(* ===== verification/Pablo_Sort.thy ===== *)
theory Pablo_Sort
  imports Pablo_Config "HOL-Library.Multiset" "HOL-Library.List_Lexorder" "HOL-Library.Char_ord"
begin

text \<open>
  The order in which services start: the insertion sort of the file names in
  \<open>userland/pablo/src/config.c\<close> is the sort by the lexicographic order of strings.
\<close>

lemma of_char_less_iff: "of_char c < (of_char d :: int) \<longleftrightarrow> c < d"
  by (metis less_char_def of_nat_less_iff of_nat_of_char)

lemma of_char_ge_0: "0 \<le> (of_char c :: int)"
  by (metis of_nat_0_le_iff of_nat_of_char)

lemma of_char_pos: "c \<noteq> NUL \<Longrightarrow> 0 < (of_char c :: int)"
  using of_char_ge_0 [of c] by (simp add: order_less_le of_char_0_iff [symmetric])

lemma strcmp_less_iff: "cstring s \<Longrightarrow> cstring t \<Longrightarrow> strcmp s t < 0 \<longleftrightarrow> s < t"
  by (induction s t rule: strcmp.induct) (auto simp: of_char_less_iff of_char_pos leD [OF of_char_ge_0])

lemma strcmp_greater_iff: "cstring s \<Longrightarrow> cstring t \<Longrightarrow> 0 < strcmp s t \<longleftrightarrow> t < s"
  using strcmp_less_iff [of t s] strcmp_antisym [of t s] by simp

text \<open>Where an element goes among the names in front of it.\<close>

definition place :: "string \<Rightarrow> string list \<Rightarrow> string list" where
  "place c xs = rev (dropWhile (\<lambda>x. c < x) (rev xs)) @ c # rev (takeWhile (\<lambda>x. c < x) (rev xs))"

lemma mset_place [simp]: "mset (place c xs) = add_mset c (mset xs)"
proof -
  have "mset (rev (dropWhile (\<lambda>x. c < x) (rev xs))) + mset (rev (takeWhile (\<lambda>x. c < x) (rev xs))) = mset xs"
    by (metis mset_append mset_rev takeWhile_dropWhile_id union_commute)
  then show ?thesis
    by (simp add: place_def)
qed

lemma sorted_place:
  assumes "sorted xs"
  shows "sorted (place c xs)"
proof -
  let ?l = "rev (dropWhile (\<lambda>x. c < x) (rev xs))" and ?r = "rev (takeWhile (\<lambda>x. c < x) (rev xs))"
  have xs: "xs = ?l @ ?r"
    by (metis rev_append rev_rev_ident takeWhile_dropWhile_id)
  then have s: "sorted ?l" "sorted ?r"
    using assms sorted_append by metis+
  have r: "\<forall>x \<in> set ?r. c < x"
    by (auto dest: set_takeWhileD)
  have l: "\<forall>x \<in> set ?l. x \<le> c"
  proof (cases "?l = []")
    case True
    show ?thesis
      unfolding True by simp
  next
    case False
    then have nl: "\<not> c < last ?l"
      using hd_dropWhile [of "\<lambda>x. c < x" "rev xs"] by (simp add: last_rev)
    have "sorted (butlast ?l @ [last ?l])"
      using s(1) False by (simp only: append_butlast_last_id not_False_eq_True)
    then have "\<forall>x \<in> set (butlast ?l). x \<le> last ?l"
      by (simp only: sorted_append list.set_intros) simp
    then show ?thesis
      using nl False by (metis append_butlast_last_id leI order_trans rotate1.simps(2) set_ConsD set_rotate1)
  qed
  show ?thesis
    unfolding place_def sorted_append using s r l by fastforce
qed

lemma sift_place:
  assumes "\<forall>x \<in> set names. cstring x" "cstring c" "pos < length names"
  shows "sift names c pos = place c (take pos names) @ drop (Suc pos) names"
  using assms
proof (induction names c pos rule: sift.induct)
  case (1 names c)
  then show ?case
    by (cases names) (simp_all add: place_def)
next
  case (2 names c pos)
  have n: "cstring (names ! pos)" "take (Suc pos) names = take pos names @ [names ! pos]"
    using 2(2,4) by (simp_all add: take_Suc_conv_app_nth)
  show ?case
  proof (cases "strcmp (names ! pos) c > 0")
    case True
    let ?names = "names[Suc pos := names ! pos]"
    have "\<forall>x \<in> set ?names. cstring x"
      using 2(2) n(1) by (auto dest: set_update_subset_insert [THEN subsetD])
    then have "sift ?names c pos = place c (take pos ?names) @ drop (Suc pos) ?names"
      using 2(1) [OF True] 2(3,4) by simp
    moreover have "drop (Suc pos) ?names = names ! pos # drop (Suc (Suc pos)) names"
      using 2(4) by (metis Cons_nth_drop_Suc drop_update_cancel length_list_update lessI nth_list_update_eq)
    moreover have "c < names ! pos"
      using True strcmp_greater_iff [OF n(1) 2(3)] by simp
    ultimately show ?thesis
      using True n(2) by (simp add: place_def)
  next
    case False
    then have "\<not> c < names ! pos"
      using strcmp_greater_iff [OF n(1) 2(3)] by simp
    moreover have "names[Suc pos := c] = take (Suc pos) names @ c # drop (Suc (Suc pos)) names"
      using 2(4) by (simp add: upd_conv_take_nth_drop)
    ultimately show ?thesis
      using False n(2) by (simp add: place_def)
  qed
qed

lemma sort_names_prefix:
  assumes "\<forall>x \<in> set names. cstring x" "k \<le> length names" "0 < k"
  shows "let r = fold (\<lambda>i names. sift names (names ! i) i) [1..<k] names
    in sorted (take k r) \<and> mset r = mset names \<and> drop k r = drop k names"
  using assms(2, 3)
proof (induction k)
  case 0
  then show ?case
    by simp
next
  case (Suc k)
  show ?case
  proof (cases "k = 0")
    case True
    then show ?thesis
      by (cases names) simp_all
  next
    case False
    define r where "r = fold (\<lambda>i names. sift names (names ! i) i) [1..<k] names"
    have r: "sorted (take k r)" "mset r = mset names" "drop k r = drop k names"
      using Suc False by (simp_all add: r_def Let_def)
    have len: "length r = length names" and cs: "\<forall>x \<in> set r. cstring x"
      using r(2) assms(1) by (metis size_mset, metis set_mset_mset)
    then have k: "k < length r" "cstring (r ! k)"
      using Suc.prems by simp_all
    have step: "sift r (r ! k) k = place (r ! k) (take k r) @ drop (Suc k) r"
      using sift_place [OF cs k(2,1)] .
    have l: "length (place (r ! k) (take k r)) = Suc k"
      using k(1) arg_cong [OF mset_place [of "r ! k" "take k r"], of size] by (simp del: mset_place)
    have "mset (sift r (r ! k) k) = mset (take k r @ r ! k # drop (Suc k) r)"
      by (simp add: step)
    also have "\<dots> = mset names"
      using k(1) r(2) by (simp add: id_take_nth_drop [symmetric])
    finally have "mset (sift r (r ! k) k) = mset names" .
    moreover have "drop (Suc k) (sift r (r ! k) k) = drop (Suc k) names"
      using l r(3) by (simp add: step) (metis drop_drop plus_1_eq_Suc)
    moreover have "sorted (take (Suc k) (sift r (r ! k) k))"
      using l sorted_place [OF r(1)] by (simp add: step)
    moreover have "fold (\<lambda>i names. sift names (names ! i) i) [1..<Suc k] names = sift r (r ! k) k"
      using False by (simp add: r_def)
    ultimately show ?thesis
      by (simp add: Let_def)
  qed
qed

lemma sort_names_sorted:
  assumes "\<forall>x \<in> set names. cstring x"
  shows "sort_names names = sort names"
proof (cases "names = []")
  case False
  then have "sorted (take (length names) (sort_names names))" "mset (sort_names names) = mset names"
    using sort_names_prefix [OF assms order_refl] by (auto simp: sort_names_def Let_def)
  moreover from this(2) have "length (sort_names names) = length names"
    by (rule mset_eq_length)
  ultimately have "sorted (sort_names names)" "mset (sort_names names) = mset names"
    by simp_all
  then show ?thesis
    by (simp add: properties_for_sort)
qed (simp add: sort_names_def)

text \<open>
  The insertion sort of the file names gives the list sorted in the lexicographic order of the
  characters, the order that \<^verbatim>\<open>strcmp\<close> decides.
\<close>

theorem sort_names_sort:
  assumes "\<forall>x \<in> set names. cstring x"
  shows "sort_names names = sort names"
  using assms by (rule sort_names_sorted)

theorem sort_names_sort_witness:
  "sort_names [''net'', ''log'', ''login''] = [''log'', ''login'', ''net'']"
  using sort_names_sort [of "[''net'', ''log'', ''login'']"] by simp

end
