(* ===== verification/Pablo_Load.thy ===== *)
theory Pablo_Load
  imports Pablo_Sort
begin

text \<open>
  What a configuration that loads is like: the strings fit the buffers of the C structures, and the
  services can be started.
\<close>

section \<open>Strings\<close>

definition fits :: "nat \<Rightarrow> string \<Rightarrow> bool" where
  "fits capacity s \<longleftrightarrow> cstring s \<and> length s < capacity"

text \<open>A service as the loader builds it.\<close>

definition service_fits :: "pablo_service \<Rightarrow> bool" where
  "service_fits s \<longleftrightarrow> fits PABLO_NAME_MAX (s_name s) \<and> fits PABLO_PATH_MAX (s_path s) \<and> fits PABLO_NAME_MAX (s_after s) \<and>
     length (s_arguments s) \<le> PABLO_ARG_MAX \<and> (\<forall>a \<in> set (s_arguments s). fits PABLO_ARG_LENGTH a)"

definition unstarted :: "pablo_service \<Rightarrow> bool" where
  "unstarted s \<longleftrightarrow> s_state s = PABLO_STOPPED \<and> s_pid s = 0 \<and> s_restart_count s = 0 \<and> s_ready_tick s = 0"

lemma pablo_copy_fits: "fits m t \<Longrightarrow> cstring s \<Longrightarrow> pablo_copy t m s = (r, u) \<Longrightarrow> fits m u"
  by (auto simp: pablo_copy_def fits_def split: if_splits)

lemma cstring_take: "cstring s \<Longrightarrow> cstring (take i s)"
  by (erule cstring_subset [rotated]) (rule set_take_subset)

lemma cstring_drop: "cstring s \<Longrightarrow> cstring (drop i s)"
  by (erule cstring_subset [rotated]) (rule set_drop_subset)

lemmas cstring_parts = cstring_take cstring_drop cstring_trim

lemma split_setting_cstring:
  "split_setting line = Some (k, v) \<Longrightarrow> cstring line \<Longrightarrow> cstring k \<and> cstring v"
  by (auto simp: split_setting_def Let_def cstring_parts split: option.splits if_splits)

lemma next_line_cstring:
  "next_line cursor = Some (line, rest) \<Longrightarrow> cstring cursor \<Longrightarrow> cstring line \<and> cstring rest"
  by (auto simp: next_line_def cstring_parts split: option.splits if_splits)

text \<open>What one line keeps, all of them keep.\<close>

lemma each_line_keeps:
  assumes step: "\<And>line c. cstring line \<Longrightarrow> P c \<Longrightarrow> P (snd (f line c))"
  shows "cstring cursor \<Longrightarrow> P c \<Longrightarrow> P (snd (each_line f cursor c))"
proof (induction "length cursor" arbitrary: cursor c rule: less_induct)
  case less
  show ?case
  proof (cases "next_line cursor")
    case None
    then show ?thesis
      using less by (simp add: each_line.simps [of f cursor c])
  next
    case (Some lr)
    obtain line rest where lr: "lr = (line, rest)"
      by fastforce
    have cs: "cstring (pablo_trim line)" "cstring rest" "length rest < length cursor"
      using next_line_cstring [OF Some [unfolded lr]] next_line_shorter [OF Some [unfolded lr]] less(2) by auto
    obtain r d where f: "f (pablo_trim line) c = (r, d)"
      by fastforce
    have d: "P d"
      using step [OF cs(1) less(3)] f by simp
    have "each_line f cursor c = (if skipped (pablo_trim line) then each_line f rest c
        else if r \<noteq> 0 then (-1, d) else each_line f rest d)"
      by (subst each_line.simps) (simp add: Some lr f Let_def)
    then show ?thesis
      using d less(1) [OF cs(3,2) less(3)] less(1) [OF cs(3,2) d] by simp
  qed
qed

section \<open>Services\<close>

lemma parse_service_line_keeps:
  assumes "cstring line" "service_fits s \<and> unstarted s \<and> s_name s = nm"
  shows "(let s' = snd (parse_service_line line s) in service_fits s' \<and> unstarted s' \<and> s_name s' = nm)"
proof (cases "split_setting line")
  case None
  then show ?thesis
    using assms by (simp add: parse_service_line_def)
next
  case (Some kv)
  obtain k v where kv: "kv = (k, v)"
    by fastforce
  have "cstring v"
    using split_setting_cstring [OF Some [unfolded kv] assms(1)] by simp
  then show ?thesis
    using assms(2) Some
    by (auto simp: parse_service_line_def kv service_fits_def unstarted_def Let_def fits_def pablo_copy_def split: prod.splits)
qed

lemma suffix_split:
  assumes "pablo_has_suffix t u" "cstring t" "cstring u"
  shows "take (length t - length u) t @ u = t" "length u \<le> length t"
proof -
  have l: "length u \<le> length t" and "strcmp (drop (length t - length u) t) u = 0"
    using assms by (auto simp: pablo_has_suffix_def split: if_splits)
  then have "drop (length t - length u) t = u"
    using assms by (simp add: strcmp_0_iff cstring_parts)
  then show "take (length t - length u) t @ u = t" "length u \<le> length t"
    using l append_take_drop_id [of "length t - length u" t] by auto
qed

lemma service_name_split:
  assumes "service_name filename = Some name" "cstring filename"
  shows "filename = name @ ''.service'' \<and> fits PABLO_NAME_MAX name \<and> name \<noteq> []"
proof -
  have "pablo_has_suffix filename ''.service''"
    using assms(1) by (simp add: service_name_def Let_def split: if_splits)
  then show ?thesis
    using assms suffix_split [of filename "''.service''"]
    by (auto simp: service_name_def Let_def fits_def cstring_parts min_def split: if_splits)
qed

lemma load_service_fits:
  assumes "load_service n directory name p = Some (0, s, q)" "cstring name"
  shows "service_fits s \<and> unstarted s \<and> name = s_name s @ ''.service''"
proof -
  obtain nm where nm: "service_name name = Some nm"
    using assms(1) by (auto simp: load_service_def split: option.splits)
  have name: "name = nm @ ''.service''" "fits PABLO_NAME_MAX nm"
    using service_name_split [OF nm assms(2)] by auto
  let ?s = "empty_service\<lparr>s_name := nm\<rparr>"
  let ?ok = "\<lambda>s. service_fits s \<and> unstarted s \<and> s_name s = nm"
  obtain buffer where "each_line parse_service_line (cstr buffer) ?s = (0, s)"
    using assms(1) by (auto simp: load_service_def nm Let_def bind_eq_Some_conv split: if_splits prod.splits)
  moreover have "?ok (snd (each_line parse_service_line (cstr buffer) ?s))"
  proof (rule each_line_keeps)
    show "?ok (snd (parse_service_line line c))" if "cstring line" "?ok c" for line c
      using parse_service_line_keeps [OF that] by (simp add: Let_def)
    show "?ok ?s"
      using name(2) by (simp add: empty_service_def service_fits_def unstarted_def fits_def)
  qed simp
  ultimately show ?thesis
    using name(1) by simp
qed

section \<open>Directories\<close>

lemma entry_names_fit:
  assumes "entry_names n stream names p = Some (ok, names', q)"
    and "length names \<le> PABLO_SERVICE_MAX" "\<forall>x \<in> set names. cstring x"
  shows "length names' \<le> PABLO_SERVICE_MAX \<and> (\<forall>x \<in> set names'. cstring x)"
proof -
  have "length names \<le> PABLO_SERVICE_MAX \<and> (\<forall>x \<in> set names. cstring x) \<longrightarrow>
      length (fst (snd r)) \<le> PABLO_SERVICE_MAX \<and> (\<forall>x \<in> set (fst (snd r)). cstring x)"
    if "entry_names n stream names p = Some r" for r
  proof (rule entry_names.raw_induct [OF _ that], goal_cases)
    case (1 f n stream names p r)
    obtain e p' where e: "libc_readdir n stream p = (e, p')"
      by fastforce
    show ?case
    proof (cases e)
      case None
      then show ?thesis
        using 1(2) e by auto
    next
      case (Some entry)
      have c: "cstring entry"
        using e Some by (auto simp: libc_readdir_def Let_def split: prod.splits if_splits)
      define skip where "skip \<longleftrightarrow> (entry \<noteq> [] \<and> hd entry = CHR ''.'') \<or> \<not> pablo_has_suffix entry ''.service''"
      define full where "full \<longleftrightarrow> length names \<ge> PABLO_SERVICE_MAX \<or> fst (pablo_copy [] PABLO_SERVICE_FILE_MAX entry) \<noteq> 0"
      have run: "(if skip then f n stream names p'
          else if full then Some (False, names, snd (libc_closedir n stream p'))
          else f n stream (names @ [snd (pablo_copy [] PABLO_SERVICE_FILE_MAX entry)]) p') = Some r"
        using 1(2) by (simp only: e Some prod.case option.case skip_def full_def)
      have copy: "cstring (snd (pablo_copy [] PABLO_SERVICE_FILE_MAX entry))"
        using c by (simp add: pablo_copy_def cstring_parts)
      show ?thesis
      proof (cases "skip \<or> full")
        case True
        then show ?thesis
          using run 1(1) [of n stream names p' r] by (auto split: if_splits)
      next
        case False
        then have "length names < PABLO_SERVICE_MAX" "f n stream (names @ [snd (pablo_copy [] PABLO_SERVICE_FILE_MAX entry)]) p' = Some r"
          using run by (auto simp: full_def split: if_splits)
        then show ?thesis
          using 1(1) copy by fastforce
      qed
    qed
  qed
  then show ?thesis
    using assms by fastforce
qed

lemma load_each_fits:
  assumes "load_each n directory names c p = Some (0, d, q)" "\<forall>x \<in> set names. cstring x"
  shows "\<exists>ss. services d = services c @ ss \<and> map (\<lambda>s. s_name s @ ''.service'') ss = names \<and>
    (\<forall>s \<in> set ss. service_fits s \<and> unstarted s)"
  using assms
proof (induction names arbitrary: c p)
  case Nil
  then show ?case
    by simp
next
  case (Cons name names)
  obtain s r where s: "load_service n directory name p = Some (0, s, r)"
      "load_each n directory names (c\<lparr>services := services c @ [s]\<rparr>) r = Some (0, d, q)"
    using Cons.prems(1) by (auto simp: bind_eq_Some_conv split: if_splits)
  obtain ss where ss: "services d = services c @ s # ss" "map (\<lambda>s. s_name s @ ''.service'') ss = names"
      "\<forall>s \<in> set ss. service_fits s \<and> unstarted s"
    using Cons.IH [OF s(2)] Cons.prems(2) by auto
  then show ?case
    using load_service_fits [OF s(1)] Cons.prems(2) by (intro exI [of _ "s # ss"]) auto
qed

lemma settings_line_services: "services (snd (settings_line line c)) = services c"
  by (simp add: settings_line_def split: option.split prod.split)

lemma load_settings_services:
  assumes "load_settings n c path p = Some (r, d, q)" "services c = []"
  shows "services d = []"
proof -
  have "services e = []" if "each_line settings_line (cstr buffer) c = (k, e)" for buffer k e
    using each_line_keeps [of "\<lambda>c. services c = []" settings_line "cstr buffer" c] that assms(2)
    by (simp add: settings_line_services)
  then show ?thesis
    using assms by (auto simp: load_settings_def bind_eq_Some_conv split: if_splits prod.splits)
qed

text \<open>The services are those of the sorted names, each as it was read.\<close>

lemma load_services_fit:
  assumes "load_services n c directory p = Some (0, d, q)" "services c = []"
  shows "length (services d) \<le> PABLO_SERVICE_MAX \<and> (\<forall>s \<in> set (services d). service_fits s \<and> unstarted s) \<and>
    sorted (map (\<lambda>s. s_name s @ ''.service'') (services d))"
proof (cases "libc_opendir n directory p")
  case (Pair st r)
  show ?thesis
  proof (cases st)
    case None
    then show ?thesis
      using assms Pair by (auto simp: load_services_def split: if_splits)
  next
    case (Some stream)
    obtain names t u where names: "entry_names n stream [] r = Some (True, names, t)"
        "load_each n directory (sort_names names) c u = Some (0, d, q)"
      using assms(1) Pair Some by (auto simp: load_services_def bind_eq_Some_conv split: if_splits prod.splits)
    have fit: "length names \<le> PABLO_SERVICE_MAX" "\<forall>x \<in> set names. cstring x"
      using entry_names_fit [OF names(1)] by auto
    have "sort_names names = sort names"
      using sort_names_sorted [OF fit(2)] .
    then have s: "load_each n directory (sort names) c u = Some (0, d, q)"
      using names(2) by simp
    obtain ss where ss: "services d = ss" "map (\<lambda>s. s_name s @ ''.service'') ss = sort names"
        "\<forall>s \<in> set ss. service_fits s \<and> unstarted s"
      using load_each_fits [OF s] fit(2) assms(2) by auto
    have "length ss = length names"
      using arg_cong [OF ss(2), of length] by simp
    then show ?thesis
      using ss fit(1) by simp
  qed
qed

section \<open>An example\<close>

text \<open>A kernel that answers from a script: what is read, and the entries of the directory.\<close>

definition answer :: "int \<Rightarrow> narc_result" where
  "answer v = \<lparr>r_value = v, r_status = 0\<rparr>"

definition script_narc :: "string list narc" where
  "script_narc = \<lparr>
     narc_getpid = \<lambda>w. (answer 1, w), narc_yield = \<lambda>w. (answer 0, w), narc_fork = \<lambda>w. (answer 2, w),
     narc_wait = \<lambda>_ _ w. (answer 0, 0, w), narc_open = \<lambda>_ _ w. (answer 3, w), narc_close = \<lambda>_ w. (answer 0, w),
     narc_read = \<lambda>_ _ w. (answer (int (length (hd w))), hd w, tl w),
     narc_write = \<lambda>_ bytes w. (answer (int (length bytes)), w),
     narc_read_dir = \<lambda>_ w. (answer (if hd w = [] then 0 else 1), \<lparr>de_inode = 0, de_type = 0, de_name = hd w\<rparr>, tl w),
     narc_map = \<lambda>_ _ w. (answer 4096, w), narc_unmap = \<lambda>_ _ w. (answer 0, w)\<rparr>"

definition script_process :: "string list process" where
  "script_process = \<lparr>errno = 0, arenas = [], umem = (\<lambda>_. 0), streams = standard_streams,
     world = [''restart_limit = 3'' @ [CHR 0x0A], [], [], ''web.service'', ''.'', ''log.service'', [],
       ''exec = /bin/log'' @ [CHR 0x0A], [], [], ''exec=/bin/web'' @ [CHR 0x0A] @ ''after = log'', [], []]\<rparr>"

lemma script_open: "libc_open script_narc path 0 p = (3, p)" "libc_open script_narc path 0x10000 p = (3, p)"
  by (simp_all add: libc_open_def script_narc_def answer_def Let_def)

lemma script_close: "libc_close script_narc fd p = (0, p)"
  by (simp add: libc_close_def script_narc_def answer_def)

lemma script_read: "libc_read script_narc fd len p = (int (length (hd (world p))), hd (world p), p\<lparr>world := tl (world p)\<rparr>)"
  by (simp add: libc_read_def script_narc_def answer_def Let_def)

lemma script_file:
  assumes "world p = [c, [], []] @ w" "c \<noteq> []" "length c < 4095"
  shows "pablo_read_file script_narc path 4096 p = Some (0, c, p\<lparr>world := w\<rparr>)"
proof -
  have 2: "read_rest script_narc 3 4096 c (p\<lparr>world := [[], []] @ w\<rparr>) = Some (True, c, p\<lparr>world := [] # w\<rparr>)"
    using assms(3) by (subst read_rest.simps) (simp add: script_read)
  have "read_rest script_narc 3 4096 [] p = Some (True, c, p\<lparr>world := [] # w\<rparr>)"
    using assms 2 by (subst read_rest.simps) (simp add: script_read)
  then show ?thesis
    by (simp add: pablo_read_file_def script_open script_close script_read)
qed

lemma script_malloc:
  assumes "arenas p = []"
  shows "\<exists>q. libc_malloc script_narc 88 p = (0x1050, q) \<and> world q = world p \<and> length (arenas q) = 1"
  using assms
  by (simp add: libc_malloc_def allocator_allocate_def create_arena_def arena_header_size_def libc_align_up_def libc_mmap_def
      find_block_def script_narc_def answer_def in_block_def in_arena_def set_free_def has_block_def first_block_def
      split_block_def Let_def)

lemma in_arena_frame [simp]:
  "world (in_arena a f p) = world p" "length (arenas (in_arena a f p)) = length (arenas p)"
  by (simp_all add: in_arena_def)

lemma script_free: "length (arenas p) = 1 \<Longrightarrow> world (libc_free n a p) = world p"
proof -
  assume l: "length (arenas p) = 1"
  have frame: "world (in_block b f q) = world q" "length (arenas (in_block b f q)) = length (arenas q)"
      "world (set_free b v q) = world q" "length (arenas (set_free b v q)) = length (arenas q)" for b f v and q :: "'a process"
    by (simp_all add: in_block_def set_free_def)
  show ?thesis
    unfolding libc_free_def allocator_release_def Let_def
    by (cases "find_arena (a - 48) p"; cases "block_before (a - 48) (a_blocks (the (find_arena (a - 48) p)))")
      (simp_all only: option.case option.sel if_cancel, simp_all add: frame l)
qed

lemma script_readdir:
  "libc_readdir script_narc stream p = (if hd (world p) = [] then None else Some (cstr (hd (world p))), p\<lparr>world := tl (world p)\<rparr>)"
  by (simp add: libc_readdir_def script_narc_def answer_def)

lemma script_entries:
  assumes "world p = [''web.service'', ''.'', ''log.service'', []] @ w"
  shows "entry_names script_narc stream [] p = Some (True, [''web.service'', ''log.service''], p\<lparr>world := w\<rparr>)"
proof -
  have c: "cstr ''web.service'' = ''web.service''" "cstr ''log.service'' = ''log.service''" "cstr ''.'' = ''.''"
    by (simp_all add: cstr_def)
  have h: "pablo_has_suffix ''web.service'' ''.service''" "pablo_has_suffix ''log.service'' ''.service''"
    by (simp_all add: pablo_has_suffix_def)
  have 4: "entry_names script_narc stream names (p\<lparr>world := [] # w\<rparr>) = Some (True, names, p\<lparr>world := w\<rparr>)" for names
    by (subst entry_names.simps) (simp add: script_readdir)
  have 3: "entry_names script_narc stream [''web.service''] (p\<lparr>world := [''log.service'', []] @ w\<rparr>) =
      Some (True, [''web.service'', ''log.service''], p\<lparr>world := w\<rparr>)"
    by (subst entry_names.simps) (simp add: script_readdir c h pablo_copy_def 4)
  have 2: "entry_names script_narc stream [''web.service''] (p\<lparr>world := [''.'', ''log.service'', []] @ w\<rparr>) =
      Some (True, [''web.service'', ''log.service''], p\<lparr>world := w\<rparr>)"
    using 3 by (subst entry_names.simps) (simp add: script_readdir c)
  show ?thesis
    using assms 2 by (subst entry_names.simps) (simp add: script_readdir c h pablo_copy_def)
qed

definition example_log :: pablo_service where
  "example_log = empty_service\<lparr>s_name := ''log'', s_path := ''/bin/log''\<rparr>"

definition example_web :: pablo_service where
  "example_web = empty_service\<lparr>s_name := ''web'', s_path := ''/bin/web'', s_after := ''log''\<rparr>"

definition example_loaded :: pablo_config where
  "example_loaded = \<lparr>services = [example_log, example_web], restart_limit = 3, restart_delay = 64\<rparr>"

lemma script_service:
  assumes "world p = [c, [], []] @ w" "c \<noteq> []" "length c < 4095" "service_name file_name = Some nm" "strlen file_name < 50"
    and "each_line parse_service_line c (empty_service\<lparr>s_name := nm\<rparr>) = (0, s)" "s_path s \<noteq> []" "cstring c"
  shows "load_service script_narc ''/etc/pablo/services'' file_name p = Some (0, s, p\<lparr>world := w\<rparr>)"
  using assms by (simp add: load_service_def Let_def script_file)

lemma script_load:
  "\<exists>q. pablo_config_load script_narc ''/etc/pablo.conf'' ''/etc/pablo/services'' script_process = Some (0, example_loaded, q)"
proof -
  let ?settings = "''restart_limit = 3'' @ [CHR 0x0A]" and ?log = "''exec = /bin/log'' @ [CHR 0x0A]"
    and ?web = "''exec=/bin/web'' @ [CHR 0x0A] @ ''after = log''"
  let ?dir = "[''web.service'', ''.'', ''log.service'', []] @ [?log, [], [], ?web, [], []]"
  have parse: "each_line settings_line ?settings pablo_config_defaults = (0, pablo_config_defaults\<lparr>restart_limit := 3\<rparr>)"
      "each_line parse_service_line ?log (empty_service\<lparr>s_name := ''log''\<rparr>) = (0, example_log)"
      "each_line parse_service_line ?web (empty_service\<lparr>s_name := ''web''\<rparr>) = (0, example_web)"
      "sort_names [''web.service'', ''log.service''] = [''log.service'', ''web.service'']"
      "service_name ''log.service'' = Some ''log''" "service_name ''web.service'' = Some ''web''"
      "pablo_service_validate example_loaded = 0"
    by code_simp+
  have "world script_process = [?settings, [], []] @ ?dir"
    by (simp add: script_process_def)
  then have 1: "load_settings script_narc pablo_config_defaults ''/etc/pablo.conf'' script_process =
      Some (0, pablo_config_defaults\<lparr>restart_limit := 3\<rparr>, script_process\<lparr>world := ?dir\<rparr>)"
    by (simp add: load_settings_def script_file parse del: append.simps)
  obtain q where q: "libc_malloc script_narc 88 (script_process\<lparr>world := ?dir\<rparr>) = (0x1050, q)" "world q = ?dir" "length (arenas q) = 1"
    using script_malloc [of "script_process\<lparr>world := ?dir\<rparr>"] by (auto simp: script_process_def)
  define r where "r = libc_free script_narc 0x1050 (q\<lparr>world := [?log, [], [], ?web, [], []]\<rparr>)"
  have r: "world r = [?log, [], [], ?web, [], []]"
    unfolding r_def by (subst script_free) (simp_all add: q(3))
  have log: "load_service script_narc ''/etc/pablo/services'' ''log.service'' r = Some (0, example_log, r\<lparr>world := [?web, [], []]\<rparr>)"
    by (rule script_service [OF _ _ _ parse(5) _ parse(2)]) (simp_all add: r example_log_def)
  have web: "load_service script_narc ''/etc/pablo/services'' ''web.service'' (r\<lparr>world := [?web, [], []]\<rparr>) =
      Some (0, example_web, r\<lparr>world := []\<rparr>)"
    using script_service [OF _ _ _ parse(6) _ parse(3), of "r\<lparr>world := [?web, [], []]\<rparr>" "[]"] by (simp add: example_web_def)
  have "load_services script_narc (pablo_config_defaults\<lparr>restart_limit := 3\<rparr>) ''/etc/pablo/services'' (script_process\<lparr>world := ?dir\<rparr>) =
      Some (0, example_loaded, r\<lparr>world := []\<rparr>)"
    using log web q r_def
    by (simp add: load_services_def libc_opendir_def script_open script_entries libc_closedir_def script_close parse
        example_loaded_def pablo_config_defaults_def del: append.simps)
  then show ?thesis
    by (simp add: pablo_config_load_def 1 parse)
qed

section \<open>Property\<close>

text \<open>
  C36: a configuration that loads has at most sixteen services, in the order of their file names; every
  string fits the buffer it is in; no service has been started; and the services can be started one
  after the other.
\<close>

theorem pablo_config_load_ok:
  assumes "pablo_config_load n settings_path services_path p = Some (0, c, q)"
  shows "length (services c) \<le> PABLO_SERVICE_MAX \<and> (\<forall>s \<in> set (services c). service_fits s \<and> unstarted s) \<and>
    sorted (map (\<lambda>s. s_name s @ ''.service'') (services c)) \<and> startable c"
proof -
  obtain d r where "load_settings n pablo_config_defaults settings_path p = Some (0, d, r)"
      and c: "load_services n d services_path r = Some (0, c, q)" "pablo_service_validate c = 0"
    using assms by (auto simp: pablo_config_load_def bind_eq_Some_conv split: if_splits prod.splits)
  then have "services d = []"
    by (auto dest!: load_settings_services simp: pablo_config_defaults_def)
  note fit = load_services_fit [OF c(1) this]
  then have "names_ok c"
    by (auto simp: names_ok_def service_fits_def fits_def)
  then show ?thesis
    using fit c(2) validate_startable by blast
qed

theorem pablo_config_load_ok_witness:
  "\<exists>q. pablo_config_load script_narc ''/etc/pablo.conf'' ''/etc/pablo/services'' script_process = Some (0, example_loaded, q) \<and>
     startable example_loaded \<and> service_fits example_web"
proof -
  obtain q where q: "pablo_config_load script_narc ''/etc/pablo.conf'' ''/etc/pablo/services'' script_process = Some (0, example_loaded, q)"
    using script_load by blast
  have "example_web \<in> set (services example_loaded)"
    by (simp add: example_loaded_def)
  then show ?thesis
    using pablo_config_load_ok [OF q] q by blast
qed

end
