(* ===== verification/Pablo_Supervisor.thy ===== *)
theory Pablo_Supervisor
  imports Pablo_Service Pablo_Log
begin

text \<open>
  The service supervisor, \<open>userland/pablo/src/supervisor.c\<close>. The configuration it has a pointer to is
  a field of its state; a pointer to a service is its index. None stands for what does not come back
  to the caller: a write that is interrupted for ever, or the use of a null pointer. After a fork the
  code runs on in the parent or becomes another program in the child.
\<close>

section \<open>State\<close>

record supervisor =
  sup_config :: pablo_config
  sup_tick :: u64
  sup_reported :: bool

text \<open>The path, the arguments and the environment of the program that a child becomes.\<close>

datatype 'w turn = Parent supervisor "'w process" | Child string "string list" "string list"

definition child_environment :: "string list" where
  "child_environment = [''PATH=/bin:/sbin'', ''HOME=/'']"

abbreviation service_at :: "supervisor \<Rightarrow> nat \<Rightarrow> pablo_service" where
  "service_at sv i \<equiv> services (sup_config sv) ! i"

definition set_service :: "nat \<Rightarrow> (pablo_service \<Rightarrow> pablo_service) \<Rightarrow> supervisor \<Rightarrow> supervisor" where
  "set_service i f sv =
     (let c = sup_config sv in sv\<lparr>sup_config := c\<lparr>services := (services c)[i := f (services c ! i)]\<rparr>\<rparr>)"

section \<open>Starting\<close>

definition dependency_ready :: "'w narc \<Rightarrow> nat \<Rightarrow> supervisor \<Rightarrow> 'w process \<Rightarrow> (bool \<times> supervisor \<times> 'w process) option" where
  "dependency_ready n i sv p =
     (let service = service_at sv i
      in if s_after service = [] then Some (True, sv, p)
         else do {
           dependency \<leftarrow> pablo_service_find (sup_config sv) (s_after service);
           if s_state (service_at sv dependency) = PABLO_FAILED
           then do {
             p \<leftarrow> pablo_log_service n PABLO_LOG_ERROR (s_name service) ''dependency failed'' p;
             Some (False, set_service i (\<lambda>s. s\<lparr>s_state := PABLO_FAILED\<rparr>) sv, p)
           }
           else Some (s_state (service_at sv dependency) = PABLO_RUNNING \<or>
                      s_state (service_at sv dependency) = PABLO_COMPLETE, sv, p)
         })"

definition spawn_service :: "'w narc \<Rightarrow> nat \<Rightarrow> supervisor \<Rightarrow> 'w process \<Rightarrow> 'w turn option" where
  "spawn_service n i sv p =
     (let service = service_at sv i; arguments = s_path service # s_arguments service; (pid, p) = libc_fork n p
      in if pid < 0
         then do {
           p \<leftarrow> pablo_log_service n PABLO_LOG_ERROR (s_name service) ''fork failed'' p;
           Some (Parent (set_service i (\<lambda>s. s\<lparr>s_state := PABLO_BACKOFF\<rparr>) sv) p)
         }
         else if pid = 0 then Some (Child (s_path service) arguments child_environment)
         else do {
           p \<leftarrow> pablo_log_service n PABLO_LOG_INFO (s_name service) ''started'' p;
           Some (Parent (set_service i (\<lambda>s. s\<lparr>s_pid := pid, s_state := PABLO_RUNNING\<rparr>) sv) p)
         })"

text \<open>One service of \<^verbatim>\<open>start_ready\<close>, and all of them.\<close>

definition start_one :: "'w narc \<Rightarrow> nat \<Rightarrow> supervisor \<Rightarrow> 'w process \<Rightarrow> 'w turn option" where
  "start_one n i sv p =
     (let service = service_at sv i
      in if s_state service \<noteq> PABLO_STOPPED \<and> s_state service \<noteq> PABLO_BACKOFF then Some (Parent sv p)
         else if s_state service = PABLO_BACKOFF \<and> s_ready_tick service > sup_tick sv then Some (Parent sv p)
         else do {
           (ready, sv, p) \<leftarrow> dependency_ready n i sv p;
           if \<not> ready then Some (Parent sv p)
           else do {
             r \<leftarrow> spawn_service n i sv p;
             Some (case r of
               Child path arguments environment \<Rightarrow> Child path arguments environment
             | Parent sv p \<Rightarrow>
                 if s_state (service_at sv i) = PABLO_BACKOFF
                 then Parent (set_service i (\<lambda>s. s\<lparr>s_ready_tick := sup_tick sv + ucast (restart_delay (sup_config sv))\<rparr>) sv) p
                 else Parent sv p)
           }
         })"

fun start_each :: "'w narc \<Rightarrow> nat list \<Rightarrow> supervisor \<Rightarrow> 'w process \<Rightarrow> 'w turn option" where
  "start_each n [] sv p = Some (Parent sv p)"
| "start_each n (i # is) sv p = do {
     r \<leftarrow> start_one n i sv p;
     case r of Child path arguments environment \<Rightarrow> Some r | Parent sv p \<Rightarrow> start_each n is sv p
   }"

definition start_ready :: "'w narc \<Rightarrow> supervisor \<Rightarrow> 'w process \<Rightarrow> 'w turn option" where
  "start_ready n sv p = start_each n [0..<length (services (sup_config sv))] sv p"

section \<open>Reaping\<close>

definition service_by_pid :: "pablo_config \<Rightarrow> int \<Rightarrow> nat option" where
  "service_by_pid config pid =
     List.find (\<lambda>i. s_state (services config ! i) = PABLO_RUNNING \<and> s_pid (services config ! i) = pid)
       [0..<length (services config)]"

definition record_exit :: "'w narc \<Rightarrow> int \<Rightarrow> int \<Rightarrow> supervisor \<Rightarrow> 'w process \<Rightarrow> (supervisor \<times> 'w process) option" where
  "record_exit n pid status sv p =
     (case service_by_pid (sup_config sv) pid of
        None \<Rightarrow> do { p \<leftarrow> pablo_log_status n PABLO_LOG_WARN ''orphan'' ''reaped'' pid p; Some (sv, p) }
      | Some i \<Rightarrow>
          let sv = set_service i (\<lambda>s. s\<lparr>s_pid := 0, s_exit_status := if WIFEXITED status then WEXITSTATUS status else 128\<rparr>) sv;
              service = service_at sv i
          in if s_policy service = PABLO_ONCE
             then let failed = (s_exit_status service \<noteq> 0);
                      sv = set_service i (\<lambda>s. s\<lparr>s_state := if failed then PABLO_FAILED else PABLO_COMPLETE\<rparr>) sv
                  in do {
                    p \<leftarrow> pablo_log_status n (if failed then PABLO_LOG_ERROR else PABLO_LOG_INFO) (s_name service) ''exited''
                           (s_exit_status service) p;
                    Some (sv, p)
                  }
             else if s_restart_count service \<ge> restart_limit (sup_config sv)
             then do {
               p \<leftarrow> pablo_log_service n PABLO_LOG_ERROR (s_name service) ''restart limit reached'' p;
               Some (set_service i (\<lambda>s. s\<lparr>s_state := PABLO_FAILED\<rparr>) sv, p)
             }
             else do {
               p \<leftarrow> pablo_log_status n PABLO_LOG_WARN (s_name service) ''stopped'' (s_exit_status service) p;
               Some (set_service i (\<lambda>s. s\<lparr>s_restart_count := s_restart_count s + 1,
                   s_ready_tick := sup_tick sv + ucast (restart_delay (sup_config sv)), s_state := PABLO_BACKOFF\<rparr>) sv, p)
             })"

partial_function (option) reap_children :: "'w narc \<Rightarrow> supervisor \<Rightarrow> 'w process \<Rightarrow> (supervisor \<times> 'w process) option" where
  "reap_children n sv p =
     (case libc_waitpid n (-1) 1 p of
        (pid, status, p) \<Rightarrow>
          if pid > 0 then do { (sv, p) \<leftarrow> record_exit n pid status sv p; reap_children n sv p }
          else do {
            p \<leftarrow> (if pid < 0 \<and> errno p \<noteq> ECHILD then pablo_log n PABLO_LOG_ERROR ''waitpid failed'' p else Some p);
            Some (sv, p)
          })"

section \<open>The loop\<close>

definition terminal :: "pablo_config \<Rightarrow> bool" where
  "terminal config \<longleftrightarrow>
     list_all (\<lambda>s. s_state s \<noteq> PABLO_RUNNING \<and> s_state s \<noteq> PABLO_STOPPED \<and> s_state s \<noteq> PABLO_BACKOFF) (services config)"

definition pablo_supervisor_init :: "pablo_config \<Rightarrow> supervisor" where
  "pablo_supervisor_init config = \<lparr>sup_config = config, sup_tick = 0, sup_reported = False\<rparr>"

text \<open>The body of the loop of \<^verbatim>\<open>pablo_supervisor_run\<close>, and some turns of it.\<close>

definition supervisor_turn :: "'w narc \<Rightarrow> supervisor \<Rightarrow> 'w process \<Rightarrow> 'w turn option" where
  "supervisor_turn n sv p = do {
     (sv, p) \<leftarrow> reap_children n sv p;
     r \<leftarrow> start_ready n sv p;
     case r of
       Child path arguments environment \<Rightarrow> Some r
     | Parent sv p \<Rightarrow> do {
         (sv, p) \<leftarrow> (if \<not> sup_reported sv \<and> terminal (sup_config sv)
                     then do { p \<leftarrow> pablo_log n PABLO_LOG_INFO ''service graph settled'' p; Some (sv\<lparr>sup_reported := True\<rparr>, p) }
                     else Some (sv, p));
         Some (Parent (sv\<lparr>sup_tick := sup_tick sv + 1\<rparr>) (snd (libc_sched_yield n p)))
       }
   }"

fun pablo_supervisor_run :: "nat \<Rightarrow> 'w narc \<Rightarrow> supervisor \<Rightarrow> 'w process \<Rightarrow> 'w turn option" where
  "pablo_supervisor_run 0 n sv p = Some (Parent sv p)"
| "pablo_supervisor_run (Suc k) n sv p = do {
     r \<leftarrow> supervisor_turn n sv p;
     case r of Child path arguments environment \<Rightarrow> Some r | Parent sv p \<Rightarrow> pablo_supervisor_run k n sv p
   }"

end
