(* ===== verification/Pablo_Turns.thy ===== *)
theory Pablo_Turns
  imports Pablo_Supervisor Pablo_Load Libc_Format Libc_Frame
begin

text \<open>
  What the supervisor does, as a step relation on configurations, and its properties: in which order
  services start, which states are final, and how often a service is started.
\<close>

section \<open>The steps\<close>

definition upd_service :: "pablo_config \<Rightarrow> nat \<Rightarrow> (pablo_service \<Rightarrow> pablo_service) \<Rightarrow> pablo_config" where
  "upd_service c i f = c\<lparr>services := (services c)[i := f (services c ! i)]\<rparr>"

definition waiting :: "pablo_service \<Rightarrow> bool" where
  "waiting s \<longleftrightarrow> s_state s \<in> {PABLO_STOPPED, PABLO_BACKOFF}"

definition ready :: "pablo_config \<Rightarrow> nat \<Rightarrow> bool" where
  "ready c i \<longleftrightarrow> s_after (services c ! i) = [] \<or>
     (\<exists>j. pablo_service_find c (s_after (services c ! i)) = Some j \<and>
          s_state (services c ! j) \<in> {PABLO_RUNNING, PABLO_COMPLETE})"

text \<open>A step, with the number of processes it starts.\<close>

inductive serve :: "pablo_config \<Rightarrow> nat \<Rightarrow> pablo_config \<Rightarrow> bool" where
  dependency_failed: "i < length (services c) \<Longrightarrow> waiting (services c ! i) \<Longrightarrow> s_after (services c ! i) \<noteq> [] \<Longrightarrow>
    pablo_service_find c (s_after (services c ! i)) = Some j \<Longrightarrow> s_state (services c ! j) = PABLO_FAILED \<Longrightarrow>
    serve c 0 (upd_service c i (\<lambda>s. s\<lparr>s_state := PABLO_FAILED\<rparr>))"
| fork_failed: "i < length (services c) \<Longrightarrow> waiting (services c ! i) \<Longrightarrow> ready c i \<Longrightarrow>
    serve c 0 (upd_service c i (\<lambda>s. s\<lparr>s_state := PABLO_BACKOFF, s_ready_tick := t\<rparr>))"
| started: "i < length (services c) \<Longrightarrow> waiting (services c ! i) \<Longrightarrow> ready c i \<Longrightarrow> pid > 0 \<Longrightarrow>
    serve c 1 (upd_service c i (\<lambda>s. s\<lparr>s_pid := pid, s_state := PABLO_RUNNING\<rparr>))"
| exited: "i < length (services c) \<Longrightarrow> s_state (services c ! i) = PABLO_RUNNING \<Longrightarrow> s_policy (services c ! i) = PABLO_ONCE \<Longrightarrow>
    serve c 0 (upd_service c i (\<lambda>s. s\<lparr>s_pid := 0, s_exit_status := e,
      s_state := if e \<noteq> 0 then PABLO_FAILED else PABLO_COMPLETE\<rparr>))"
| gave_up: "i < length (services c) \<Longrightarrow> s_state (services c ! i) = PABLO_RUNNING \<Longrightarrow> s_policy (services c ! i) = PABLO_RESPAWN \<Longrightarrow>
    restart_limit c \<le> s_restart_count (services c ! i) \<Longrightarrow>
    serve c 0 (upd_service c i (\<lambda>s. s\<lparr>s_pid := 0, s_exit_status := e, s_state := PABLO_FAILED\<rparr>))"
| again: "i < length (services c) \<Longrightarrow> s_state (services c ! i) = PABLO_RUNNING \<Longrightarrow> s_policy (services c ! i) = PABLO_RESPAWN \<Longrightarrow>
    s_restart_count (services c ! i) < restart_limit c \<Longrightarrow>
    serve c 0 (upd_service c i (\<lambda>s. s\<lparr>s_pid := 0, s_exit_status := e, s_restart_count := s_restart_count s + 1,
      s_ready_tick := t, s_state := PABLO_BACKOFF\<rparr>))"

inductive serves :: "pablo_config \<Rightarrow> nat \<Rightarrow> pablo_config \<Rightarrow> bool" where
  nothing: "serves c 0 c"
| more: "serves c k d \<Longrightarrow> serve d m e \<Longrightarrow> serves c (k + m) e"

lemma serves_one: "serve c k d \<Longrightarrow> serves c k d"
  using serves.more [OF serves.nothing] by simp

lemma serves_trans: "serves d m e \<Longrightarrow> serves c k d \<Longrightarrow> serves c (k + m) e"
  by (induction d m e rule: serves.induct) (auto simp: add.assoc [symmetric] intro: serves.more)

section \<open>The code takes them\<close>

text \<open>
  A count of the processes that \<^verbatim>\<open>fork\<close> made: only a fork that gives the parent the number of a
  child adds to it.
\<close>

definition counts_forks :: "'w narc \<Rightarrow> ('w \<Rightarrow> nat) \<Rightarrow> bool" where
  "counts_forks n F \<longleftrightarrow> write_keeps n F \<and>
     (\<forall>w. F (snd (narc_yield n w)) = F w) \<and> (\<forall>w pid opt. F (snd (snd (narc_wait n pid opt w))) = F w) \<and>
     (\<forall>w. case narc_fork n w of (r, w') \<Rightarrow> F w' = (if r_status r = 0 \<and> c_int (r_value r) > 0 then F w + 1 else F w))"

text \<open>The code goes from one configuration to another in steps that start as many processes as it forks.\<close>

definition goes :: "'w narc \<Rightarrow> supervisor \<Rightarrow> 'w process \<Rightarrow> supervisor \<Rightarrow> 'w process \<Rightarrow> bool" where
  "goes n sv p sv' q \<longleftrightarrow>
     (\<exists>k. serves (sup_config sv) k (sup_config sv') \<and> (\<forall>F. counts_forks n F \<longrightarrow> F (world q) = F (world p) + k))"

lemma goes_refl [intro]: "(\<And>F. counts_forks n F \<Longrightarrow> F (world q) = F (world p)) \<Longrightarrow> goes n sv p sv q"
  unfolding goes_def using serves.nothing by fastforce

lemma goes_trans: "goes n sv p sv' q \<Longrightarrow> goes n sv' q sv'' r \<Longrightarrow> goes n sv p sv'' r"
  unfolding goes_def using serves_trans by (metis add.assoc)

lemma goes_one:
  assumes "serve (sup_config sv) k (sup_config sv')"
    and "\<And>F. counts_forks n F \<Longrightarrow> F (world q) = F (world p) + k"
  shows "goes n sv p sv' q"
  using assms serves_one unfolding goes_def by blast

lemma log_keeps:
  "counts_forks n F \<Longrightarrow> pablo_log n lv m p = Some q \<Longrightarrow> F (world q) = F (world p)"
  "counts_forks n F \<Longrightarrow> pablo_log_service n lv s m p = Some q \<Longrightarrow> F (world q) = F (world p)"
  "counts_forks n F \<Longrightarrow> pablo_log_status n lv s m v p = Some q \<Longrightarrow> F (world q) = F (world p)"
  by (auto simp: pablo_log_def pablo_log_service_def pablo_log_status_def counts_forks_def
      dest: libc_fprintf_keeps [of n F])

lemma set_service_config: "sup_config (set_service i f sv) = upd_service (sup_config sv) i f"
  by (simp add: set_service_def upd_service_def Let_def)

lemma upd_service_twice: "i < length (services c) \<Longrightarrow> upd_service (upd_service c i f) i g = upd_service c i (g \<circ> f)"
  by (simp add: upd_service_def)

lemma length_upd_service [simp]: "length (services (upd_service c i f)) = length (services c)"
  by (simp add: upd_service_def)

lemma nth_upd_service: "services (upd_service c i f) ! j = (if j = i \<and> i < length (services c) then f (services c ! i) else services c ! j)"
  by (cases "i < length (services c)") (simp_all add: upd_service_def nth_list_update list_update_beyond)

lemma limit_upd_service [simp]: "restart_limit (upd_service c i f) = restart_limit c" "restart_delay (upd_service c i f) = restart_delay c"
  by (simp_all add: upd_service_def)

lemma dependency_ready_cases:
  assumes "dependency_ready n i sv p = Some (b, sv', q)"
  obtains (ready) "b" "sv' = sv" "q = p" "ready (sup_config sv) i"
    | (wait) "\<not> b" "sv' = sv" "q = p"
    | (failed) j where "\<not> b" "s_after (service_at sv i) \<noteq> []"
        "pablo_service_find (sup_config sv) (s_after (service_at sv i)) = Some j" "s_state (service_at sv j) = PABLO_FAILED"
        "sv' = set_service i (\<lambda>s. s\<lparr>s_state := PABLO_FAILED\<rparr>) sv"
        "pablo_log_service n PABLO_LOG_ERROR (s_name (service_at sv i)) ''dependency failed'' p = Some q"
  using assms by (auto simp: dependency_ready_def ready_def Let_def bind_eq_Some_conv split: if_splits)

lemma spawn_service_goes:
  assumes "spawn_service n i sv p = Some (Parent sv' q)" "i < length (services (sup_config sv))"
    "waiting (service_at sv i)" "ready (sup_config sv) i"
  shows "goes n sv p (if s_state (service_at sv' i) = PABLO_BACKOFF then set_service i (\<lambda>s. s\<lparr>s_ready_tick := t\<rparr>) sv' else sv') q"
proof -
  obtain pid r where f: "libc_fork n p = (pid, r)"
    by fastforce
  have F: "F (world r) = (if pid > 0 then F (world p) + 1 else F (world p))" if "counts_forks n F" for F
  proof -
    obtain x w where x: "narc_fork n (world p) = (x, w)"
      by fastforce
    have "F w = (if r_status x = 0 \<and> c_int (r_value x) > 0 then F (world p) + 1 else F (world p))"
      using that x unfolding counts_forks_def by (metis (mono_tags, lifting) case_prod_conv)
    then show ?thesis
      using f x by (auto simp: libc_fork_def libc_result_def Let_def split: if_splits)
  qed
  consider "pid < 0" | "pid > 0"
    using assms(1) f by (cases "pid < 0"; cases "pid = 0") (auto simp: spawn_service_def Let_def)
  then show ?thesis
  proof cases
    case 1
    then have sv': "sv' = set_service i (\<lambda>s. s\<lparr>s_state := PABLO_BACKOFF\<rparr>) sv"
        and l: "pablo_log_service n PABLO_LOG_ERROR (s_name (service_at sv i)) ''fork failed'' r = Some q"
      using assms(1) f by (auto simp: spawn_service_def Let_def bind_eq_Some_conv)
    have "serve (sup_config sv) 0 (upd_service (sup_config sv) i (\<lambda>s. s\<lparr>s_state := PABLO_BACKOFF, s_ready_tick := t\<rparr>))"
      using assms by (intro serve.fork_failed)
    then show ?thesis
      using F l 1 assms(2)
      by (intro goes_one [where k = 0]) (auto simp: sv' set_service_config nth_upd_service upd_service_twice comp_def log_keeps)
  next
    case 2
    then have sv': "sv' = set_service i (\<lambda>s. s\<lparr>s_pid := pid, s_state := PABLO_RUNNING\<rparr>) sv"
        and l: "pablo_log_service n PABLO_LOG_INFO (s_name (service_at sv i)) ''started'' r = Some q"
      using assms(1) f by (auto simp: spawn_service_def Let_def bind_eq_Some_conv)
    have "serve (sup_config sv) 1 (upd_service (sup_config sv) i (\<lambda>s. s\<lparr>s_pid := pid, s_state := PABLO_RUNNING\<rparr>))"
      using assms 2 by (intro serve.started)
    then show ?thesis
      using F l 2 assms(2)
      by (intro goes_one [where k = 1]) (auto simp: sv' set_service_config nth_upd_service log_keeps)
  qed
qed

lemma start_one_goes:
  assumes "start_one n i sv p = Some (Parent sv' q)" "i < length (services (sup_config sv))"
  shows "goes n sv p sv' q"
proof (cases "waiting (service_at sv i) \<and> \<not> (s_state (service_at sv i) = PABLO_BACKOFF \<and> s_ready_tick (service_at sv i) > sup_tick sv)")
  case False
  then show ?thesis
    using assms(1) by (auto simp: start_one_def waiting_def Let_def split: if_splits)
next
  case True
  obtain b sv1 p1 where d: "dependency_ready n i sv p = Some (b, sv1, p1)"
    using assms(1) True by (auto simp: start_one_def waiting_def Let_def bind_eq_Some_conv split: if_splits)
  from d show ?thesis
  proof (cases rule: dependency_ready_cases)
    case ready
    obtain r where r: "spawn_service n i sv p = Some r"
      using assms(1) True d ready by (auto simp: start_one_def waiting_def Let_def bind_eq_Some_conv split: if_splits)
    then obtain sv2 where "r = Parent sv2 q"
        "sv' = (if s_state (service_at sv2 i) = PABLO_BACKOFF
                then set_service i (\<lambda>s. s\<lparr>s_ready_tick := sup_tick sv2 + ucast (restart_delay (sup_config sv2))\<rparr>) sv2 else sv2)"
      using assms(1) True d ready
      by (cases r) (auto simp: start_one_def waiting_def Let_def split: if_splits)
    then show ?thesis
      using spawn_service_goes [of n i sv p sv2 q] r assms(2) True ready by simp
  next
    case wait
    then show ?thesis
      using assms(1) True d by (auto simp: start_one_def waiting_def Let_def split: if_splits)
  next
    case (failed j)
    then have "sv' = sv1" "q = p1"
      using assms(1) True d by (auto simp: start_one_def waiting_def Let_def split: if_splits)
    moreover have "serve (sup_config sv) 0 (upd_service (sup_config sv) i (\<lambda>s. s\<lparr>s_state := PABLO_FAILED\<rparr>))"
      using assms(2) True failed by (intro serve.dependency_failed) auto
    ultimately show ?thesis
      using failed log_keeps by (intro goes_one [where k = 0]) (auto simp: set_service_config)
  qed
qed

lemma service_by_pid_Some:
  "service_by_pid c pid = Some i \<Longrightarrow> i < length (services c) \<and> s_state (services c ! i) = PABLO_RUNNING \<and> s_pid (services c ! i) = pid"
  by (auto simp: service_by_pid_def find_upt)

lemma record_exit_goes:
  assumes "record_exit n pid status sv p = Some (sv', q)"
  shows "goes n sv p sv' q"
proof (cases "service_by_pid (sup_config sv) pid")
  case None
  then show ?thesis
    using assms by (auto simp: record_exit_def bind_eq_Some_conv log_keeps)
next
  case (Some i)
  note i = service_by_pid_Some [OF Some, THEN conjunct1] service_by_pid_Some [OF Some, THEN conjunct2, THEN conjunct1]
  define e where "e = (if WIFEXITED status then WEXITSTATUS status else 128)"
  let ?c = "sup_config sv"
  consider "s_policy (services ?c ! i) = PABLO_ONCE"
    | "s_policy (services ?c ! i) = PABLO_RESPAWN" "restart_limit ?c \<le> s_restart_count (services ?c ! i)"
    | "s_policy (services ?c ! i) = PABLO_RESPAWN" "\<not> restart_limit ?c \<le> s_restart_count (services ?c ! i)"
    by (metis pablo_policy.exhaust)
  then show ?thesis
  proof cases
    case 1
    show ?thesis
      using assms serve.exited [OF i 1, of e] i(1) 1 log_keeps
      by (intro goes_one [where k = 0])
        (auto simp: record_exit_def Some Let_def bind_eq_Some_conv set_service_config nth_upd_service upd_service_twice comp_def e_def)
  next
    case 2
    show ?thesis
      using assms serve.gave_up [OF i 2, of e] i(1) 2 log_keeps
      by (intro goes_one [where k = 0])
        (auto simp: record_exit_def Some Let_def bind_eq_Some_conv set_service_config nth_upd_service upd_service_twice comp_def e_def)
  next
    case 3
    show ?thesis
      using assms serve.again [OF i 3(1) 3(2) [unfolded not_le], where e = e] i(1) 3 log_keeps
      by (intro goes_one [where k = 0])
        (auto simp: record_exit_def Some Let_def bind_eq_Some_conv set_service_config nth_upd_service upd_service_twice comp_def e_def)
  qed
qed

lemma serves_length: "serves c k d \<Longrightarrow> length (services d) = length (services c)"
  by (induction rule: serves.induct) (auto elim: serve.cases)

lemma goes_length: "goes n sv p sv' q \<Longrightarrow> length (services (sup_config sv')) = length (services (sup_config sv))"
  unfolding goes_def using serves_length by blast

lemma start_each_goes:
  assumes "start_each n is sv p = Some (Parent sv' q)" "\<forall>i \<in> set is. i < length (services (sup_config sv))"
  shows "goes n sv p sv' q"
  using assms
proof (induction "is" arbitrary: sv p)
  case Nil
  then show ?case
    by auto
next
  case (Cons i "is")
  obtain r where r: "start_one n i sv p = Some r"
    using Cons.prems(1) by (auto simp: bind_eq_Some_conv)
  then obtain sv1 p1 where 1: "r = Parent sv1 p1" "start_each n is sv1 p1 = Some (Parent sv' q)"
    using Cons.prems(1) by (cases r) auto
  have g: "goes n sv p sv1 p1"
    using start_one_goes [of n i sv p sv1 p1] r 1(1) Cons.prems(2) by simp
  then have "goes n sv1 p1 sv' q"
    using Cons.IH [OF 1(2)] Cons.prems(2) goes_length [OF g] by simp
  with g show ?case
    by (rule goes_trans)
qed

lemma libc_waitpid_forks: "counts_forks n F \<Longrightarrow> libc_waitpid n pid opt p = (v, status, q) \<Longrightarrow> F (world q) = F (world p)"
  unfolding libc_waitpid_def counts_forks_def Let_def
  by (auto split: prod.splits if_splits simp: libc_result_def Let_def) (metis snd_conv)+

lemma reap_children_goes:
  assumes "reap_children n sv p = Some (sv', q)"
  shows "goes n sv p sv' q"
proof -
  have "goes n sv p (fst r) (snd r)" if "reap_children n sv p = Some r" for r
  proof (rule reap_children.raw_induct [OF _ that], goal_cases)
    case (1 f n sv p r)
    obtain pid status p1 where w: "libc_waitpid n (-1) 1 p = (pid, status, p1)"
      by (cases "libc_waitpid n (-1) 1 p")
    have 0: "goes n sv p sv p1"
      using w libc_waitpid_forks by blast
    show ?case
    proof (cases "pid > 0")
      case True
      then obtain sv2 p2 where 2: "record_exit n pid status sv p1 = Some (sv2, p2)" "f n sv2 p2 = Some r"
        using 1(2) w by (auto simp: bind_eq_Some_conv)
      show ?thesis
        using goes_trans [OF goes_trans [OF 0 record_exit_goes [OF 2(1)]] 1(1) [OF 2(2)]] .
    next
      case False
      have "F (world (snd r)) = F (world p1)" if "counts_forks n F" for F
        using 1(2) w False log_keeps(1) [OF that] by (auto simp: bind_eq_Some_conv split: if_splits)
      moreover have "fst r = sv"
        using 1(2) w False by (auto simp: bind_eq_Some_conv split: if_splits)
      ultimately have "goes n sv p1 (fst r) (snd r)"
        by auto
      with 0 show ?thesis
        by (rule goes_trans)
    qed
  qed
  then show ?thesis
    using assms by fastforce
qed

lemma sched_yield_forks: "counts_forks n F \<Longrightarrow> F (world (snd (libc_sched_yield n p))) = F (world p)"
  by (simp add: libc_sched_yield_def counts_forks_def split_def Let_def)

lemma supervisor_turn_goes:
  assumes "supervisor_turn n sv p = Some (Parent sv' q)"
  shows "goes n sv p sv' q"
proof -
  obtain sv1 p1 r where 1: "reap_children n sv p = Some (sv1, p1)" "start_ready n sv1 p1 = Some r"
    using assms by (auto simp: supervisor_turn_def bind_eq_Some_conv)
  then obtain sv2 p2 where 2: "r = Parent sv2 p2"
    using assms by (cases r) (auto simp: supervisor_turn_def)
  obtain sv3 p3 where 3: "(if \<not> sup_reported sv2 \<and> terminal (sup_config sv2)
      then do { p \<leftarrow> pablo_log n PABLO_LOG_INFO ''service graph settled'' p2; Some (sv2\<lparr>sup_reported := True\<rparr>, p) }
      else Some (sv2, p2)) = Some (sv3, p3)"
      "sv' = sv3\<lparr>sup_tick := sup_tick sv3 + 1\<rparr>" "q = snd (libc_sched_yield n p3)"
    using assms 1 2 by (auto simp: supervisor_turn_def bind_eq_Some_conv)
  have "goes n sv1 p1 sv2 p2"
    using 1(2) 2 unfolding start_ready_def by (intro start_each_goes) auto
  moreover have "goes n sv2 p2 sv' q"
  proof -
    have "sup_config sv' = sup_config sv2"
      using 3 by (auto simp: bind_eq_Some_conv split: if_splits)
    moreover have "F (world q) = F (world p2)" if "counts_forks n F" for F
      using 3 that by (auto simp: bind_eq_Some_conv sched_yield_forks log_keeps split: if_splits)
    ultimately show ?thesis
      unfolding goes_def using serves.nothing by (metis add_0_right)
  qed
  ultimately show ?thesis
    using goes_trans reap_children_goes [OF 1(1)] by blast
qed

lemma supervisor_run_goes:
  assumes "pablo_supervisor_run k n sv p = Some (Parent sv' q)"
  shows "goes n sv p sv' q"
  using assms
proof (induction k arbitrary: sv p)
  case 0
  then show ?case
    by auto
next
  case (Suc k)
  obtain r where r: "supervisor_turn n sv p = Some r"
    using Suc.prems by (auto simp: bind_eq_Some_conv)
  then obtain sv1 p1 where 1: "r = Parent sv1 p1" "pablo_supervisor_run k n sv1 p1 = Some (Parent sv' q)"
    using Suc.prems by (cases r) auto
  show ?case
    using goes_trans supervisor_turn_goes Suc.IH [OF 1(2)] r 1(1) by blast
qed

section \<open>Invariants\<close>

text \<open>What no step changes.\<close>

lemma serve_static:
  assumes "serve c k d"
  shows "length (services d) = length (services c)" "restart_limit d = restart_limit c"
    and "s_name (services d ! i) = s_name (services c ! i)" "s_after (services d ! i) = s_after (services c ! i)"
    and "s_policy (services d ! i) = s_policy (services c ! i)"
  using assms by (cases rule: serve.cases; simp add: nth_upd_service)+

lemma serve_find: "serve c k d \<Longrightarrow> pablo_service_find d name = pablo_service_find c name"
  using serve_static [of c k d] by (simp add: pablo_service_find_def)

text \<open>Every service that has left the state it begins in follows one that has.\<close>

definition in_order :: "pablo_config \<Rightarrow> bool" where
  "in_order c \<longleftrightarrow> (\<forall>i < length (services c). s_after (services c ! i) \<noteq> [] \<longrightarrow> s_state (services c ! i) \<noteq> PABLO_STOPPED \<longrightarrow>
     (\<exists>j. pablo_service_find c (s_after (services c ! i)) = Some j \<and> s_state (services c ! j) \<noteq> PABLO_STOPPED))"

lemma serve_not_stopped:
  "serve c k d \<Longrightarrow> s_state (services c ! j) \<noteq> PABLO_STOPPED \<Longrightarrow> s_state (services d ! j) \<noteq> PABLO_STOPPED"
  by (cases rule: serve.cases) (auto simp: nth_upd_service split: if_splits)

lemma serve_final:
  "serve c k d \<Longrightarrow> s_state (services c ! j) \<in> {PABLO_COMPLETE, PABLO_FAILED} \<Longrightarrow> services d ! j = services c ! j"
  by (cases rule: serve.cases) (auto simp: nth_upd_service waiting_def split: if_splits)

lemma serve_in_order:
  assumes "serve c k d" "in_order c"
  shows "in_order d"
  unfolding in_order_def
proof (intro allI impI)
  fix i
  assume i: "i < length (services d)" "s_after (services d ! i) \<noteq> []" "s_state (services d ! i) \<noteq> PABLO_STOPPED"
  note static = serve_static [OF assms(1)]
  have "\<exists>j. pablo_service_find c (s_after (services c ! i)) = Some j \<and> s_state (services c ! j) \<noteq> PABLO_STOPPED"
  proof (cases "s_state (services c ! i) = PABLO_STOPPED")
    case False
    then show ?thesis
      using assms(2) i(1,2) static by (auto simp: in_order_def)
  next
    case True
    have "ready c i \<or> (\<exists>j. pablo_service_find c (s_after (services c ! i)) = Some j \<and> s_state (services c ! j) = PABLO_FAILED)"
      using assms(1) True i(3) by (cases rule: serve.cases) (auto simp: nth_upd_service split: if_splits)
    then show ?thesis
      using i(2) static by (auto simp: ready_def)
  qed
  then show "\<exists>j. pablo_service_find d (s_after (services d ! i)) = Some j \<and> s_state (services d ! j) \<noteq> PABLO_STOPPED"
    using serve_find [OF assms(1)] serve_not_stopped [OF assms(1)] static by auto
qed

text \<open>How often a service may still be started.\<close>

definition budget :: "u32 \<Rightarrow> pablo_service \<Rightarrow> nat" where
  "budget limit s =
     (if s_policy s = PABLO_ONCE then if waiting s then 1 else 0
      else if waiting s then unat limit - unat (s_restart_count s) + 1
      else if s_state s = PABLO_RUNNING then unat limit - unat (s_restart_count s)
      else 0)"

definition total_budget :: "pablo_config \<Rightarrow> nat" where
  "total_budget c = (\<Sum>s \<leftarrow> services c. budget (restart_limit c) s)"

lemma total_budget_upd:
  assumes "i < length (services c)" "budget (restart_limit c) (f (services c ! i)) + k \<le> budget (restart_limit c) (services c ! i)"
  shows "k + total_budget (upd_service c i f) \<le> total_budget c"
proof -
  have "services c = take i (services c) @ services c ! i # drop (Suc i) (services c)"
    using assms(1) by (rule id_take_nth_drop)
  then have "total_budget c = (\<Sum>s \<leftarrow> take i (services c) @ services c ! i # drop (Suc i) (services c). budget (restart_limit c) s)"
    unfolding total_budget_def by (rule arg_cong)
  then show ?thesis
    using assms by (simp add: total_budget_def upd_service_def upd_conv_take_nth_drop)
qed

lemma serve_budget:
  assumes "serve c k d"
  shows "k + total_budget d \<le> total_budget c"
  using assms
proof cases
  case (again i e t)
  have less: "unat (s_restart_count (services c ! i)) < unat (restart_limit c)"
    using again(6) by (simp add: word_less_nat_alt)
  then have "unat (s_restart_count (services c ! i)) + 1 < 4294967296"
    using unsigned_less [of "restart_limit c", where 'a = nat] by simp
  then have "unat (s_restart_count (services c ! i) + 1) = unat (s_restart_count (services c ! i)) + 1"
    by (simp add: unat_word_ariths)
  then show ?thesis
    unfolding again(1,2) using again(3-5) less by (intro total_budget_upd) (auto simp: budget_def waiting_def)
next
  case (dependency_failed i j)
  show ?thesis
    unfolding dependency_failed(1,2) using dependency_failed(3-)
    by (intro total_budget_upd) (auto simp: budget_def waiting_def)
next
  case (fork_failed i t)
  show ?thesis
    unfolding fork_failed(1,2) using fork_failed(3-) by (intro total_budget_upd) (auto simp: budget_def waiting_def)
next
  case (started i pid)
  show ?thesis
    unfolding started(1,2) using started(3-) by (intro total_budget_upd) (auto simp: budget_def waiting_def)
next
  case (exited i e)
  show ?thesis
    unfolding exited(1,2) using exited(3-) by (intro total_budget_upd) (auto simp: budget_def waiting_def)
next
  case (gave_up i e)
  show ?thesis
    unfolding gave_up(1,2) using gave_up(3-) by (intro total_budget_upd) (auto simp: budget_def waiting_def)
qed

lemma serves_in_order: "serves c k d \<Longrightarrow> in_order c \<Longrightarrow> in_order d"
  by (induction rule: serves.induct) (auto intro: serve_in_order)

lemma serves_static:
  "serves c k d \<Longrightarrow> s_after (services d ! i) = s_after (services c ! i) \<and> pablo_service_find d name = pablo_service_find c name"
  by (induction rule: serves.induct) (simp_all add: serve_static serve_find)

lemma serves_final:
  "serves c k d \<Longrightarrow> s_state (services c ! i) \<in> {PABLO_COMPLETE, PABLO_FAILED} \<Longrightarrow> services d ! i = services c ! i"
  by (induction rule: serves.induct) (simp_all add: serve_final)

lemma serves_budget: "serves c k d \<Longrightarrow> k + total_budget d \<le> total_budget c"
proof (induction rule: serves.induct)
  case (more c k d m e)
  then show ?case
    using serve_budget [OF more(2)] by linarith
qed simp

lemma unstarted_in_order: "\<forall>s \<in> set (services c). unstarted s \<Longrightarrow> in_order c"
  by (simp add: in_order_def unstarted_def)

section \<open>Counting forks\<close>

text \<open>Any kernel, with a count of the children that its fork has given.\<close>

definition spied :: "'w narc \<Rightarrow> ('w \<times> nat) narc" where
  "spied n = \<lparr>
     narc_getpid = \<lambda>(w, k). case narc_getpid n w of (r, w) \<Rightarrow> (r, w, k),
     narc_yield = \<lambda>(w, k). case narc_yield n w of (r, w) \<Rightarrow> (r, w, k),
     narc_fork = \<lambda>(w, k). case narc_fork n w of (r, w) \<Rightarrow> (r, w, if r_status r = 0 \<and> c_int (r_value r) > 0 then k + 1 else k),
     narc_wait = \<lambda>pid opt (w, k). case narc_wait n pid opt w of (r, status, w) \<Rightarrow> (r, status, w, k),
     narc_open = \<lambda>path flags (w, k). case narc_open n path flags w of (r, w) \<Rightarrow> (r, w, k),
     narc_close = \<lambda>fd (w, k). case narc_close n fd w of (r, w) \<Rightarrow> (r, w, k),
     narc_read = \<lambda>fd len (w, k). case narc_read n fd len w of (r, bytes, w) \<Rightarrow> (r, bytes, w, k),
     narc_write = \<lambda>fd bytes (w, k). case narc_write n fd bytes w of (r, w) \<Rightarrow> (r, w, k),
     narc_read_dir = \<lambda>fd (w, k). case narc_read_dir n fd w of (r, entry, w) \<Rightarrow> (r, entry, w, k),
     narc_map = \<lambda>len prot (w, k). case narc_map n len prot w of (r, w) \<Rightarrow> (r, w, k),
     narc_unmap = \<lambda>a len (w, k). case narc_unmap n a len w of (r, w) \<Rightarrow> (r, w, k)\<rparr>"

lemma spied_counts: "counts_forks (spied n) snd"
  by (auto simp: counts_forks_def write_keeps_def spied_def split: prod.split)

lemma unstarted_budget:
  assumes "\<forall>s \<in> set (services c). unstarted s"
  shows "total_budget c = (\<Sum>s \<leftarrow> services c. if s_policy s = PABLO_ONCE then 1 else unat (restart_limit c) + 1)"
  unfolding total_budget_def
  using assms by (intro arg_cong [where f = sum_list] map_cong refl) (auto simp: budget_def waiting_def unstarted_def)

end
