(* ===== verification/Pablo_Start.thy ===== *)
theory Pablo_Start
  imports Pablo_Turns
begin

text \<open>
  On a machine where every fork succeeds and no child has exited, the supervisor starts every
  service of a valid configuration, and never uses a null pointer.
\<close>

section \<open>Logging returns\<close>

lemma rendered_s:
  assumes "takeWhile (\<lambda>c. c \<noteq> CHR ''%'') f = plain" "dropWhile (\<lambda>c. c \<noteq> CHR ''%'') f = CHR ''%'' # CHR ''s'' # rest"
  shows "rendered f (Text (Some s) # as) = (plain @ cstr s @ fst (rendered rest as), snd (rendered rest as))"
proof -
  have d: "directive (CHR ''s'' # rest) = (False, 0, LENGTH_INT, Some (CHR ''s''), rest)"
    by (simp add: directive_def skip_zero_def parse_length_def)
  have "f \<noteq> []"
    using assms(2) by auto
  then show ?thesis
    by (subst rendered.simps) (simp add: assms d conversion_def next_arg_def split_def Let_def)
qed

lemma rendered_plain: "CHR ''%'' \<notin> set f \<Longrightarrow> rendered f as = (f, True)"
proof -
  assume "CHR ''%'' \<notin> set f"
  then have "takeWhile (\<lambda>c. c \<noteq> CHR ''%'') f = f" "dropWhile (\<lambda>c. c \<noteq> CHR ''%'') f = []"
    by (auto simp: takeWhile_eq_all_conv dropWhile_eq_Nil_conv)
  then show ?thesis
    by (subst rendered.simps) (simp add: Let_def)
qed

lemma rendered_service:
  "rendered (''[pablo] %s: %s: %s'' @ [CHR 0x0A]) [Text (Some a), Text (Some b), Text (Some c)] =
     (''[pablo] '' @ cstr a @ '': '' @ cstr b @ '': '' @ cstr c @ [CHR 0x0A], True)"
  by (simp add: rendered_s rendered_plain)

lemma length_cstr: "length (cstr s) \<le> length s"
  by (simp add: cstr_def length_takeWhile_le)

lemma log_service_returns:
  assumes "accepts n 2 sent" "writable 2 2 p" "length s < 1000" "length m < 1000"
  shows "\<exists>q. pablo_log_service n lv s m p = Some q \<and> writable 2 2 q"
proof -
  let ?t = "''[pablo] '' @ cstr (level_name lv) @ '': '' @ cstr s @ '': '' @ cstr m @ [CHR 0x0A]"
  have "length (level_name lv) \<le> 5"
    by (simp add: level_name_def)
  then have "0 + length ?t \<le> INT_MAX"
    using assms(3,4) length_cstr [of "level_name lv"] length_cstr [of s] length_cstr [of m] by simp
  from format_from_ok [OF assms(1,2) rendered_service this]
  show ?thesis
    using writable_wrote [OF assms(2)] by (fastforce simp: pablo_log_service_def libc_fprintf_def)
qed

section \<open>A calm machine\<close>

definition calm :: "'w narc \<Rightarrow> ('w \<Rightarrow> string) \<Rightarrow> bool" where
  "calm n sent \<longleftrightarrow> accepts n 2 sent \<and>
     (\<forall>w. case narc_wait n (-1) 1 w of (r, status, w') \<Rightarrow> r_status r = 0 \<and> r_value r = 0) \<and>
     (\<forall>w. case narc_fork n w of (r, w') \<Rightarrow> r_status r = 0 \<and> 0 < r_value r \<and> r_value r < 2147483648)"

text \<open>The configurations it goes through from a given one: services either have not been started or run.\<close>

definition underway :: "pablo_config \<Rightarrow> pablo_config \<Rightarrow> bool" where
  "underway c d \<longleftrightarrow> length (services d) = length (services c) \<and>
     (\<forall>i < length (services c). s_name (services d ! i) = s_name (services c ! i) \<and> s_after (services d ! i) = s_after (services c ! i) \<and>
        s_state (services d ! i) \<in> {PABLO_STOPPED, PABLO_RUNNING})"

definition running :: "pablo_config \<Rightarrow> nat set" where
  "running d = {i. i < length (services d) \<and> s_state (services d ! i) = PABLO_RUNNING}"

lemma underway_find: "underway c d \<Longrightarrow> pablo_service_find d name = pablo_service_find c name"
proof -
  assume u: "underway c d"
  have "map s_name (services d) = map s_name (services c)"
    using u by (auto simp: underway_def list_eq_iff_nth_eq)
  then have "length (services d) = length (services c)" "\<forall>i < length (services c). s_name (services d ! i) = s_name (services c ! i)"
    using u by (auto simp: underway_def)
  then show ?thesis
    unfolding pablo_service_find_def by (intro find_cong) auto
qed

lemma start_one_calm:
  assumes "calm n sent" "writable 2 2 p" "underway c (sup_config sv)" "names_ok c" "resolved c"
    and "\<forall>s \<in> set (services c). length (s_name s) < 1000" "i < length (services c)"
  shows "\<exists>sv' q. start_one n i sv p = Some (Parent sv' q) \<and> writable 2 2 q \<and> underway c (sup_config sv') \<and>
    running (sup_config sv) \<subseteq> running (sup_config sv') \<and> (ready (sup_config sv) i \<longrightarrow> i \<in> running (sup_config sv'))"
proof (cases "s_state (service_at sv i) = PABLO_STOPPED")
  case False
  then have "s_state (service_at sv i) = PABLO_RUNNING" "i < length (services (sup_config sv))"
    using assms(3,7) by (auto simp: underway_def)
  then show ?thesis
    using assms(2,3) by (auto simp: start_one_def running_def)
next
  case True
  define b where "b \<longleftrightarrow> ready (sup_config sv) i"
  have len: "i < length (services (sup_config sv))"
    using assms(3,7) by (simp add: underway_def)
  have d: "dependency_ready n i sv p = Some (b, sv, p)"
  proof (cases "s_after (service_at sv i) = []")
    case False
    then have "s_after (services c ! i) \<noteq> []" "services c ! i \<in> set (services c)"
      using assms(3,7) by (simp_all add: underway_def)
    then obtain j where j: "pablo_service_find c (s_after (services c ! i)) = Some j"
      using assms(4,5) find_service(2) [OF assms(4), of "s_after (services c ! i)"] by (auto simp: resolved_def names_ok_def)
    then have "j < length (services c)"
      using find_service(1) [OF assms(4), of "s_after (services c ! i)"] \<open>services c ! i \<in> set (services c)\<close> assms(4)
      by (auto simp: names_ok_def)
    then have "s_state (service_at sv j) \<in> {PABLO_STOPPED, PABLO_RUNNING}"
      using assms(3) by (simp add: underway_def)
    moreover have "pablo_service_find (sup_config sv) (s_after (service_at sv i)) = Some j"
      using j assms(3,7) underway_find [OF assms(3)] by (simp add: underway_def)
    ultimately show ?thesis
      using False by (auto simp: dependency_ready_def ready_def b_def Let_def)
  qed (simp add: dependency_ready_def b_def ready_def)
  show ?thesis
  proof (cases b)
    case False
    then show ?thesis
      using True d assms(2,3) by (auto simp: start_one_def b_def)
  next
    case b: True
    obtain pid r where f: "libc_fork n p = (pid, r)" "pid > 0" "writable 2 2 r"
      using assms(1,2) unfolding calm_def libc_fork_def
      by (cases "narc_fork n (world p)") (auto simp: libc_result_def Let_def writable_def dest!: spec [of _ "world p"])
    have "length (s_name (service_at sv i)) < 1000"
      using assms(3,6,7) by (simp add: underway_def)
    moreover have "accepts n 2 sent"
      using assms(1) by (simp add: calm_def)
    ultimately obtain q where q: "pablo_log_service n PABLO_LOG_INFO (s_name (service_at sv i)) ''started'' r = Some q" "writable 2 2 q"
      using log_service_returns [of n sent r "s_name (service_at sv i)" "''started''" PABLO_LOG_INFO] f(3) by auto
    let ?sv = "set_service i (\<lambda>s. s\<lparr>s_pid := pid, s_state := PABLO_RUNNING\<rparr>) sv"
    have "start_one n i sv p = Some (Parent ?sv q)"
      using True d b f q len by (simp add: start_one_def spawn_service_def set_service_config nth_upd_service Let_def)
    moreover have "underway c (sup_config ?sv)"
      using assms(3) by (auto simp: underway_def set_service_config nth_upd_service)
    ultimately show ?thesis
      using q(2) len by (auto simp: running_def set_service_config nth_upd_service)
  qed
qed

text \<open>Whatever is ready stays so, hence all that are ready run after the loop.\<close>

lemma ready_running:
  assumes "underway c d" "underway c e" "running d \<subseteq> running e" "names_ok c" "i < length (services c)" "ready d i"
  shows "ready e i"
proof (cases "s_after (services c ! i) = []")
  case True
  then show ?thesis
    using assms(2,5) by (simp add: ready_def underway_def)
next
  case False
  then obtain j where j: "pablo_service_find c (s_after (services c ! i)) = Some j" "s_state (services d ! j) \<in> {PABLO_RUNNING, PABLO_COMPLETE}"
    using assms(1,5,6) underway_find [OF assms(1)] by (auto simp: ready_def underway_def)
  have "cstring (s_after (services c ! i))"
    using assms(4,5) by (simp add: names_ok_def)
  then have "j < length (services c)"
    using find_service(1) [OF assms(4)] j(1) by simp
  then have "j \<in> running d"
    using j(2) assms(1) by (auto simp: running_def underway_def)
  then have "s_state (services e ! j) = PABLO_RUNNING"
    using assms(3) by (auto simp: running_def)
  then show ?thesis
    using j(1) assms(2,5) underway_find [OF assms(2)] by (simp add: ready_def underway_def)
qed

lemma start_each_calm:
  assumes "calm n sent" "names_ok c" "resolved c" "\<forall>s \<in> set (services c). length (s_name s) < 1000"
  shows "writable 2 2 p \<Longrightarrow> underway c (sup_config sv) \<Longrightarrow> \<forall>i \<in> set is. i < length (services c) \<Longrightarrow>
    \<exists>sv' q. start_each n is sv p = Some (Parent sv' q) \<and> writable 2 2 q \<and> underway c (sup_config sv') \<and>
      running (sup_config sv) \<subseteq> running (sup_config sv') \<and>
      (\<forall>i \<in> set is. ready (sup_config sv) i \<longrightarrow> i \<in> running (sup_config sv'))"
proof (induction "is" arbitrary: sv p)
  case Nil
  then show ?case
    by simp
next
  case (Cons i "is")
  obtain sv1 p1 where 1: "start_one n i sv p = Some (Parent sv1 p1)" "writable 2 2 p1" "underway c (sup_config sv1)"
      "running (sup_config sv) \<subseteq> running (sup_config sv1)" "ready (sup_config sv) i \<longrightarrow> i \<in> running (sup_config sv1)"
    using start_one_calm [OF assms(1) Cons.prems(1,2) assms(2-4), of i] Cons.prems(3) by auto
  obtain sv2 p2 where 2: "start_each n is sv1 p1 = Some (Parent sv2 p2)" "writable 2 2 p2" "underway c (sup_config sv2)"
      "running (sup_config sv1) \<subseteq> running (sup_config sv2)" "\<forall>i \<in> set is. ready (sup_config sv1) i \<longrightarrow> i \<in> running (sup_config sv2)"
    using Cons.IH [OF 1(2,3)] Cons.prems(3) by auto
  have "ready (sup_config sv1) j" if "j \<in> set is" "ready (sup_config sv) j" for j
    using ready_running [OF Cons.prems(2) 1(3,4) assms(2) _ that(2)] Cons.prems(3) that(1) by simp
  then show ?case
    using 1 2 by auto
qed

text \<open>Some service that does not run is ready, unless all run.\<close>

lemma some_ready:
  assumes "startable c" "names_ok c" "underway c d" "running d \<noteq> {..<length (services c)}"
  obtains i where "i < length (services c)" "i \<notin> running d" "ready d i"
proof -
  have "acyclic (edge c)"
    using assms(1) acyclic_edge [of c] by (simp add: startable_def)
  moreover have "finite (edge c)"
    by (rule finite_subset [of _ "{..<length (services c)} \<times> {..<length (services c)}"]) (auto simp: edge_def)
  ultimately have wf: "wf ((edge c)\<inverse>)"
    by (simp add: finite_acyclic_wf_converse)
  have l: "length (services d) = length (services c)"
    using assms(3) by (simp add: underway_def)
  obtain k where k: "k \<in> {..<length (services c)} - running d"
    using assms(4) l by (auto simp: running_def)
  obtain i where i: "i \<in> {..<length (services c)} - running d"
      "\<And>j. (j, i) \<in> (edge c)\<inverse> \<Longrightarrow> j \<notin> {..<length (services c)} - running d"
    using wf k by (rule wfE_min) blast
  have "ready d i"
  proof (cases "s_after (services c ! i) = []")
    case True
    then show ?thesis
      using i(1) assms(3) by (simp add: ready_def underway_def)
  next
    case False
    obtain j where j: "service_index c (s_after (services c ! i)) = int j" "(i, j) \<in> edge c"
      using dependency_edge [OF assms(2) _ _ False] assms(1) i(1) by (auto simp: startable_def)
    then have "j \<in> running d"
      using i(2) by (auto simp: edge_def)
    moreover have "pablo_service_find c (s_after (services c ! i)) = Some j"
      using j(1) by (auto simp: service_index_find split: option.splits)
    ultimately show ?thesis
      using i(1) assms(3) underway_find [OF assms(3)] by (simp add: ready_def underway_def running_def)
  qed
  then show thesis
    using that i(1) by blast
qed

lemma reap_calm:
  assumes "calm n sent" "writable 2 2 p"
  shows "\<exists>q. reap_children n sv p = Some (sv, q) \<and> writable 2 2 q"
proof -
  obtain r status w where w: "narc_wait n (-1) 1 (world p) = (r, status, w)"
    by (cases "narc_wait n (-1) 1 (world p)")
  then have "r_status r = 0" "r_value r = 0"
    using assms(1) by (auto simp: calm_def dest: spec [of _ "world p"])
  then have "libc_waitpid n (-1) 1 p = (0, status, p\<lparr>world := w\<rparr>)"
    by (simp add: libc_waitpid_def w libc_result_def)
  then show ?thesis
    using assms(2) by (subst reap_children.simps) (simp add: writable_def)
qed

lemma log_returns:
  assumes "accepts n 2 sent" "writable 2 2 p" "length m < 1000"
  shows "\<exists>q. pablo_log n lv m p = Some q \<and> writable 2 2 q"
proof -
  let ?t = "''[pablo] '' @ cstr (level_name lv) @ '': '' @ cstr m @ [CHR 0x0A]"
  have r: "rendered (''[pablo] %s: %s'' @ [CHR 0x0A]) [Text (Some (level_name lv)), Text (Some m)] = (?t, True)"
    by (simp add: rendered_s rendered_plain)
  have "length (level_name lv) \<le> 5"
    by (simp add: level_name_def)
  then have "0 + length ?t \<le> INT_MAX"
    using assms(3) length_cstr [of "level_name lv"] length_cstr [of m] by simp
  from format_from_ok [OF assms(1,2) r this]
  show ?thesis
    using writable_wrote [OF assms(2)] by (fastforce simp: pablo_log_def libc_fprintf_def)
qed

lemma supervisor_turn_calm:
  assumes "calm n sent" "startable c" "names_ok c" "\<forall>s \<in> set (services c). length (s_name s) < 1000"
    and "writable 2 2 p" "underway c (sup_config sv)"
  shows "\<exists>sv' q. supervisor_turn n sv p = Some (Parent sv' q) \<and> writable 2 2 q \<and> underway c (sup_config sv') \<and>
    (running (sup_config sv) \<subset> running (sup_config sv') \<or> running (sup_config sv') = {..<length (services c)})"
proof -
  have acc: "accepts n 2 sent" and res: "resolved c"
    using assms(1,2) by (simp_all add: calm_def startable_def)
  have len: "length (services (sup_config sv)) = length (services c)"
    using assms(6) by (simp add: underway_def)
  obtain p1 where 1: "reap_children n sv p = Some (sv, p1)" "writable 2 2 p1"
    using reap_calm [OF assms(1,5)] by blast
  obtain sv2 p2 where 2: "start_ready n sv p1 = Some (Parent sv2 p2)" "writable 2 2 p2" "underway c (sup_config sv2)"
      "running (sup_config sv) \<subseteq> running (sup_config sv2)"
      "\<forall>i < length (services c). ready (sup_config sv) i \<longrightarrow> i \<in> running (sup_config sv2)"
    using start_each_calm [OF assms(1,3) res assms(4) 1(2) assms(6), of "[0..<length (services c)]"] len
    by (auto simp: start_ready_def)
  obtain p' where lg: "pablo_log n PABLO_LOG_INFO ''service graph settled'' p2 = Some p'" "writable 2 2 p'"
    using log_returns [OF acc 2(2), of "''service graph settled''" PABLO_LOG_INFO] by auto
  obtain sv3 p3 where 3: "(if \<not> sup_reported sv2 \<and> terminal (sup_config sv2)
      then do { p \<leftarrow> pablo_log n PABLO_LOG_INFO ''service graph settled'' p2; Some (sv2\<lparr>sup_reported := True\<rparr>, p) }
      else Some (sv2, p2)) = Some (sv3, p3)" "writable 2 2 p3" "sup_config sv3 = sup_config sv2"
    using lg 2(2) by (cases "\<not> sup_reported sv2 \<and> terminal (sup_config sv2)") auto
  have "supervisor_turn n sv p = Some (Parent (sv3\<lparr>sup_tick := sup_tick sv3 + 1\<rparr>) (snd (libc_sched_yield n p3)))"
    by (simp add: supervisor_turn_def 1 2 3 del: not_None_eq split del: if_split)
  moreover have "writable 2 2 (snd (libc_sched_yield n p3))"
    using 3(2) by (simp add: writable_def libc_sched_yield_def split_def Let_def)
  moreover have "running (sup_config sv) \<subset> running (sup_config sv2) \<or> running (sup_config sv2) = {..<length (services c)}"
  proof (cases "running (sup_config sv) = {..<length (services c)}")
    case True
    have "running (sup_config sv2) \<subseteq> {..<length (services c)}"
      using 2(3) by (auto simp: running_def underway_def)
    then show ?thesis
      using True 2(4) by auto
  next
    case False
    then obtain i where "i < length (services c)" "i \<notin> running (sup_config sv)" "ready (sup_config sv) i"
      using some_ready [OF assms(2,3,6)] by blast
    then show ?thesis
      using 2(4,5) by auto
  qed
  ultimately show ?thesis
    using 2(3) 3(3) by auto
qed

lemma supervisor_run_calm:
  assumes "calm n sent" "startable c" "names_ok c" "\<forall>s \<in> set (services c). length (s_name s) < 1000"
  shows "writable 2 2 p \<Longrightarrow> underway c (sup_config sv) \<Longrightarrow>
    \<exists>sv' q. pablo_supervisor_run k n sv p = Some (Parent sv' q) \<and> underway c (sup_config sv') \<and>
      (running (sup_config sv') = {..<length (services c)} \<or> card (running (sup_config sv)) + k \<le> card (running (sup_config sv')))"
proof (induction k arbitrary: sv p)
  case 0
  then show ?case
    by simp
next
  case (Suc k)
  obtain sv1 p1 where 1: "supervisor_turn n sv p = Some (Parent sv1 p1)" "writable 2 2 p1" "underway c (sup_config sv1)"
      "running (sup_config sv) \<subset> running (sup_config sv1) \<or> running (sup_config sv1) = {..<length (services c)}"
    using supervisor_turn_calm [OF assms Suc.prems] by blast
  obtain sv2 p2 where 2: "pablo_supervisor_run k n sv1 p1 = Some (Parent sv2 p2)" "underway c (sup_config sv2)"
      "running (sup_config sv2) = {..<length (services c)} \<or> card (running (sup_config sv1)) + k \<le> card (running (sup_config sv2))"
    using Suc.IH [OF 1(2,3)] by blast
  have fin: "finite (running d)" for d
    by (simp add: running_def)
  have sub: "running (sup_config sv2) \<subseteq> {..<length (services c)}"
    using 2(2) by (auto simp: running_def underway_def)
  have "running (sup_config sv2) = {..<length (services c)} \<or> card (running (sup_config sv)) + Suc k \<le> card (running (sup_config sv2))"
    using 1(4)
  proof
    assume "running (sup_config sv) \<subset> running (sup_config sv1)"
    then have "card (running (sup_config sv)) < card (running (sup_config sv1))"
      by (rule psubset_card_mono [OF fin])
    then show ?thesis
      using 2(3) by linarith
  next
    assume all: "running (sup_config sv1) = {..<length (services c)}"
    have "card {..<length (services c)} \<le> card (running (sup_config sv2))"
      using 2(3) unfolding all by (elim disjE) simp_all
    then have "running (sup_config sv2) = {..<length (services c)}"
      using card_seteq [OF finite_lessThan sub] by simp
    then show ?thesis ..
  qed
  then show ?case
    using 1(1) 2(1,2) by simp
qed

section \<open>An example\<close>

definition calm_narc :: "string narc" where
  "calm_narc = tape_narc\<lparr>narc_fork := \<lambda>w. (answer 2, w), narc_wait := \<lambda>_ _ w. (answer 0, 0, w)\<rparr>"

lemma calm_calm: "calm calm_narc id"
  using tape_accepts [of 2] by (simp add: calm_def calm_narc_def answer_def accepts_def)

lemma calm_spied: "calm n sent \<Longrightarrow> calm (spied n) (sent \<circ> fst)"
  unfolding calm_def accepts_def spied_def by (auto split: prod.splits) fastforce+

lemma fits_names_ok: "\<forall>s \<in> set (services c). service_fits s \<Longrightarrow> names_ok c \<and> (\<forall>s \<in> set (services c). length (s_name s) < 1000)"
  by (auto simp: names_ok_def service_fits_def fits_def)

lemma unstarted_underway: "\<forall>s \<in> set (services c). unstarted s \<Longrightarrow> underway c c"
  by (auto simp: underway_def unstarted_def)

lemma example_unstarted: "\<forall>s \<in> set (services example_loaded). unstarted s"
  by (simp add: example_loaded_def example_log_def example_web_def empty_service_def unstarted_def)

lemma example_fits: "\<forall>s \<in> set (services example_loaded). service_fits s"
  by (simp add: example_loaded_def example_log_def example_web_def empty_service_def service_fits_def fits_def)

lemma example_startable: "startable example_loaded"
proof -
  have "pablo_service_validate example_loaded = 0"
    by code_simp
  moreover have "length (services example_loaded) \<le> 16"
    by (simp add: example_loaded_def)
  ultimately show ?thesis
    using validate_startable [of example_loaded] fits_names_ok [OF example_fits] by simp
qed

definition spied_process :: "(string \<times> nat) process" where
  "spied_process = \<lparr>errno = 0, arenas = [], umem = (\<lambda>_. 0), streams = standard_streams, world = ([], 0)\<rparr>"

lemma spied_writable: "writable 2 2 spied_process"
  by (simp add: writable_def spied_process_def standard_streams_def)


section \<open>Properties\<close>



text \<open>
  C38: a service that has completed or failed is never touched again.
\<close>

theorem supervisor_final:
  assumes "pablo_supervisor_run k n sv p = Some (Parent sv' q)" "s_state (service_at sv i) \<in> {PABLO_COMPLETE, PABLO_FAILED}"
  shows "service_at sv' i = service_at sv i"
  using supervisor_run_goes [OF assms(1)] serves_final assms(2) by (auto simp: goes_def)

definition settled :: supervisor where
  "settled = pablo_supervisor_init \<lparr>services = [example_log\<lparr>s_state := PABLO_FAILED\<rparr>], restart_limit = 3, restart_delay = 64\<rparr>"

theorem supervisor_final_witness:
  "\<exists>sv q. pablo_supervisor_run 1 (spied calm_narc) settled spied_process = Some (Parent sv q) \<and> s_state (service_at sv 0) = PABLO_FAILED"
proof -
  have acc: "accepts (spied calm_narc) 2 (id \<circ> fst)"
    using calm_spied [OF calm_calm] by (simp add: calm_def)
  obtain p1 where 1: "reap_children (spied calm_narc) settled spied_process = Some (settled, p1)" "writable 2 2 p1"
    using reap_calm [OF calm_spied [OF calm_calm] spied_writable] by blast
  obtain p2 where 2: "pablo_log (spied calm_narc) PABLO_LOG_INFO ''service graph settled'' p1 = Some p2"
    using log_returns [OF acc 1(2), of "''service graph settled''" PABLO_LOG_INFO] by auto
  have s: "s_state (service_at settled 0) = PABLO_FAILED" "length (services (sup_config settled)) = 1" "\<not> sup_reported settled"
      "terminal (sup_config settled)"
    by (simp_all add: settled_def pablo_supervisor_init_def terminal_def)
  have "start_ready (spied calm_narc) settled p1 = Some (Parent settled p1)"
    by (simp add: start_ready_def start_one_def s)
  then obtain sv q where r: "pablo_supervisor_run 1 (spied calm_narc) settled spied_process = Some (Parent sv q)"
    by (simp add: supervisor_turn_def 1 2 s)
  then show ?thesis
    using supervisor_final [OF r, of 0] s by simp
qed



text \<open>
  C40: as long as forks succeed and no child exits, the supervisor gets through its turns, and after as
  many of them as there are services all services run, whatever the order of the configuration.
\<close>

theorem supervisor_starts_all:
  assumes "calm n sent" "writable 2 2 p" "startable c" "\<forall>s \<in> set (services c). service_fits s \<and> unstarted s"
  shows "\<exists>sv q. pablo_supervisor_run (length (services c)) n (pablo_supervisor_init c) p = Some (Parent sv q) \<and>
    map s_state (services (sup_config sv)) = replicate (length (services c)) PABLO_RUNNING"
proof -
  have ok: "names_ok c" "\<forall>s \<in> set (services c). length (s_name s) < 1000"
    using fits_names_ok [of c] assms(4) by simp_all
  have u: "underway c (sup_config (pablo_supervisor_init c))"
    using unstarted_underway assms(4) by (simp add: pablo_supervisor_init_def)
  obtain sv q where r: "pablo_supervisor_run (length (services c)) n (pablo_supervisor_init c) p = Some (Parent sv q)"
      "underway c (sup_config sv)"
      "running (sup_config sv) = {..<length (services c)} \<or> length (services c) \<le> card (running (sup_config sv))"
    using supervisor_run_calm [OF assms(1,3) ok assms(2) u, of "length (services c)"] by auto
  have l: "length (services (sup_config sv)) = length (services c)"
    using r(2) by (simp add: underway_def)
  have "running (sup_config sv) \<subseteq> {..<length (services c)}"
    using l by (auto simp: running_def)
  then have "running (sup_config sv) = {..<length (services c)}"
    using r(3) card_seteq [OF finite_lessThan, of "running (sup_config sv)"] by auto
  then have "\<forall>i < length (services c). s_state (service_at sv i) = PABLO_RUNNING"
    by (auto simp: running_def)
  then show ?thesis
    using r(1) l by (auto simp: list_eq_iff_nth_eq)
qed

theorem supervisor_starts_all_witness:
  "\<exists>sv q. pablo_supervisor_run 2 (spied calm_narc) (pablo_supervisor_init example_loaded) spied_process = Some (Parent sv q) \<and>
     map s_state (services (sup_config sv)) = [PABLO_RUNNING, PABLO_RUNNING]"
  using supervisor_starts_all [OF calm_spied [OF calm_calm] spied_writable example_startable] example_fits example_unstarted
  by (simp add: example_loaded_def numeral_2_eq_2)

end
