(* ===== verification/Pablo_Main.thy ===== *)
theory Pablo_Main
  imports Pablo_Start
begin

text \<open>
  The start of the supervisor, \<open>userland/pablo/src/main.c\<close>: it exits with a code or runs, here for
  some turns of its loop.
\<close>

datatype 'w ending = Exits int "'w process" | Runs "'w turn"

definition pablo_main :: "nat \<Rightarrow> 'w narc \<Rightarrow> int \<Rightarrow> bool \<Rightarrow> 'w process \<Rightarrow> 'w ending option" where
  "pablo_main turns n argc argv_null p =
     (let (pid, p') = (if argc \<noteq> 1 \<or> argv_null then (0, p) else libc_getpid n p)
      in if argc \<noteq> 1 \<or> argv_null \<or> pid \<noteq> 1
         then do { p \<leftarrow> pablo_log n PABLO_LOG_ERROR ''must run as pid 1'' p'; Some (Exits 1 p) }
         else do {
           (_, p) \<leftarrow> libc_fprintf n (Some 2) (''[pablo] info: pablo %s starting'' @ [CHR 0x0A]) [Text (Some ''0.1.0'')] p';
           (r, config, p) \<leftarrow> pablo_config_load n ''/etc/pablo.conf'' ''/etc/pablo/services'' p;
           if r \<noteq> 0 then do { p \<leftarrow> pablo_log n PABLO_LOG_ERROR ''configuration rejected'' p; Some (Exits 2 p) }
           else do {
             (_, p) \<leftarrow> libc_fprintf n (Some 2) (''[pablo] info: loaded %zu services'' @ [CHR 0x0A])
               [Number (word_of_nat (length (services config)))] p;
             p \<leftarrow> pablo_log n PABLO_LOG_INFO ''system ready'' p;
             map_option Runs (pablo_supervisor_run turns n (pablo_supervisor_init config) p)
           }
         })"

text \<open>Whatever runs is a configuration that was loaded, so its services come up in order.\<close>

lemma pablo_main_loaded:
  assumes "pablo_main turns n argc argv_null p = Some (Runs r)"
  obtains c q q' where "pablo_config_load n ''/etc/pablo.conf'' ''/etc/pablo/services'' q = Some (0, c, q')"
    and "\<exists>q''. pablo_supervisor_run turns n (pablo_supervisor_init c) q'' = Some r"
  using assms by (auto simp: pablo_main_def Let_def bind_eq_Some_conv split: if_splits prod.splits)

end
